(* ===== verification/Prelude.thy ===== *)
theory Prelude
  imports Main "HOL-Library.Word" "HOL-Library.Monad_Syntax"
begin

text \<open>
  Shared vocabulary of the development.  It holds the names of the machine types the
  C++ sources use (\<open>size_t\<close>, \<open>unsigned int\<close>), the decimal printing that
  \<open>util::toString\<close> performs through an output stream, the loops that several components
  use (the first match of a vector, the monadic map of a fallible function) and the generic
  facts about them.  A computation that may fail (a failed \<open>ASSERT\<close>, a \<open>BYE_BYE\<close>, an
  exception, an exhausted call stack) has an \<open>option\<close> result, and \<open>None\<close> is the failure.
\<close>

named_theorems upd_simps \<open>projections of updated states\<close>
named_theorems wf_intros \<open>introduction rules of well-formedness predicates\<close>

type_synonym size_t = "64 word"
type_synonym uint = "32 word"

section \<open>Decimal numbers\<close>

definition digit_char :: "nat \<Rightarrow> char" where
  "digit_char d = char_of (48 + d)"

fun nat_to_string :: "nat \<Rightarrow> string" where
  "nat_to_string n = (if n < 10 then [digit_char n]
                      else nat_to_string (n div 10) @ [digit_char (n mod 10)])"

declare nat_to_string.simps [simp del]

definition int_to_string :: "int \<Rightarrow> string" where
  "int_to_string i = (if i < 0 then ''-'' @ nat_to_string (nat (- i)) else nat_to_string (nat i))"

lemma digit_char_of: "d < 10 \<Longrightarrow> of_char (digit_char d) = 48 + d"
  unfolding digit_char_def by simp

lemma digit_char_inj: "digit_char a = digit_char b \<Longrightarrow> a < 10 \<Longrightarrow> b < 10 \<Longrightarrow> a = b"
  by (metis add_left_cancel digit_char_of)

lemma nat_to_string_ne [simp]: "nat_to_string n \<noteq> []"
  by (subst nat_to_string.simps) simp

lemma nat_to_string_inj: "nat_to_string a = nat_to_string b \<Longrightarrow> a = b"
proof (induction a arbitrary: b rule: nat_to_string.induct)
  case (1 a)
  show ?case
  proof (cases "a < 10 \<or> b < 10")
    case True
    then show ?thesis using "1.prems"
      by (auto simp: nat_to_string.simps[of a] nat_to_string.simps[of b]
            append_eq_Cons_conv Cons_eq_append_conv
          dest: digit_char_inj split: if_splits)
  next
    case False
    then have "nat_to_string (a div 10) = nat_to_string (b div 10)"
        "digit_char (a mod 10) = digit_char (b mod 10)"
      using "1.prems" by (auto simp: nat_to_string.simps[of a] nat_to_string.simps[of b])
    then have "a div 10 = b div 10" "a mod 10 = b mod 10"
      using "1.IH" False by (auto dest: digit_char_inj)
    then show ?thesis by (metis div_mult_mod_eq)
  qed
qed

lemma digit_char_table:
  "digit_char 0 = CHR ''0''" "digit_char (Suc 0) = CHR ''1''" "digit_char 1 = CHR ''1''" "digit_char 2 = CHR ''2''"
  "digit_char 3 = CHR ''3''" "digit_char 4 = CHR ''4''" "digit_char 5 = CHR ''5''" "digit_char 6 = CHR ''6''"
  "digit_char 7 = CHR ''7''" "digit_char 8 = CHR ''8''" "digit_char 9 = CHR ''9''"
  by code_simp+

section \<open>Fallible computations\<close>

fun omap :: "('a \<Rightarrow> 'b option) \<Rightarrow> 'a list \<Rightarrow> 'b list option" where
  "omap f [] = Some []"
| "omap f (x # xs) = do { y \<leftarrow> f x; ys \<leftarrow> omap f xs; Some (y # ys) }"

lemma omap_cong [fundef_cong]:
  "xs = ys \<Longrightarrow> (\<And>x. x \<in> set ys \<Longrightarrow> f x = g x) \<Longrightarrow> omap f xs = omap g ys"
  by (induction ys arbitrary: xs) auto

lemma bind_Some_iff: "Option.bind m f = Some y \<longleftrightarrow> (\<exists>x. m = Some x \<and> f x = Some y)"
  by (cases m) auto

lemma bind_None_iff: "Option.bind m f = None \<longleftrightarrow> (m = None \<or> (\<exists>x. m = Some x \<and> f x = None))"
  by (cases m) auto

lemma omap_Some_length: "omap f xs = Some ys \<Longrightarrow> length ys = length xs"
  by (induction xs arbitrary: ys) (auto simp: bind_Some_iff)

lemma omap_eq_None: "omap f xs = None \<longleftrightarrow> (\<exists>x\<in>set xs. f x = None)"
  by (induction xs) (auto simp: bind_None_iff)

lemma omap_map_Some: "(\<And>x. x \<in> set xs \<Longrightarrow> f x = Some (g x)) \<Longrightarrow> omap f xs = Some (map g xs)"
  by (induction xs) auto

lemma omap_Some_list_all2: "omap f xs = Some ys \<longleftrightarrow> list_all2 (\<lambda>x y. f x = Some y) xs ys"
  by (induction xs arbitrary: ys) (auto simp: bind_Some_iff list_all2_Cons1)

lemma omap_mono:
  "omap f xs = Some ys \<Longrightarrow> (\<And>x y. x \<in> set xs \<Longrightarrow> f x = Some y \<Longrightarrow> g x = Some y) \<Longrightarrow>
   omap g xs = Some ys"
  by (induction xs arbitrary: ys) (auto simp: bind_Some_iff)

lemma omap_append: "omap f (xs @ ys) = do { a \<leftarrow> omap f xs; b \<leftarrow> omap f ys; Some (a @ b) }"
  by (induction xs) (auto split: bind_splits)

definition option_all :: "('a \<Rightarrow> bool) \<Rightarrow> 'a option \<Rightarrow> bool" where
  "option_all P x = (case x of None \<Rightarrow> True | Some y \<Rightarrow> P y)"

lemma option_all_simps [simp]: "option_all P None" "option_all P (Some x) = P x"
  by (simp_all add: option_all_def)

section \<open>The first match of a vector\<close>

fun find_index_from :: "nat \<Rightarrow> ('a \<Rightarrow> bool) \<Rightarrow> 'a list \<Rightarrow> nat option" where
  "find_index_from k P [] = None"
| "find_index_from k P (x # xs) = (if P x then Some k else find_index_from (Suc k) P xs)"

lemma find_index_from_Some:
  "find_index_from k P xs = Some i \<longleftrightarrow>
   k \<le> i \<and> i - k < length xs \<and> P (xs ! (i - k)) \<and> (\<forall>j < i - k. \<not> P (xs ! j))"
proof (induction xs arbitrary: k)
  case (Cons x xs)
  show ?case
  proof (cases "P x")
    case True
    then show ?thesis
      by (cases "i = k") (auto intro!: exI[of _ 0])
  next
    case False
    show ?thesis
    proof (cases "k < i")
      case True
      then obtain d where d: "i = Suc (k + d)" using less_iff_Suc_add by auto
      show ?thesis using False Cons.IH[of "Suc k"] d
        by (auto simp: nth_Cons less_Suc_eq_0_disj split: nat.splits)
    next
      case False': False
      then show ?thesis using False Cons.IH[of "Suc k"] by auto
    qed
  qed
qed simp

lemma find_index_from_None: "find_index_from k P xs = None \<longleftrightarrow> (\<forall>x\<in>set xs. \<not> P x)"
  by (induction xs arbitrary: k) auto

definition vector_at :: "'a list \<Rightarrow> nat \<Rightarrow> 'a option" where
  "vector_at xs i = (if i < length xs then Some (xs ! i) else None)"

lemma vector_at_simps [simp]:
  "i < length xs \<Longrightarrow> vector_at xs i = Some (xs ! i)"
  "\<not> i < length xs \<Longrightarrow> vector_at xs i = None"
  by (simp_all add: vector_at_def)

lemma vector_at_eq_Some: "vector_at xs i = Some x \<longleftrightarrow> i < length xs \<and> x = xs ! i"
  by (auto simp: vector_at_def)

end
