(* ===== verification/Types.thy ===== *)
theory Types
  imports Prelude
begin

text \<open>
  The static types of borealis (src/Type).  \<open>Type\<close> has the nine classes of
  src/Type/*.h as constructors; a \<open>Record\<close> holds its name only, because its body is
  reached through a \<open>RecordBodyRef\<close>, i.e. by looking the name up in the factory's
  \<open>RecordRegistry\<close>.  The registry, the bound of the call stack and the routines that are
  not part of the repository travel in an \<open>env\<close> record.  The theory models \<open>TypeUtils\<close>,
  \<open>TypeSizer\<close>, \<open>RecordBody\<close> and \<open>RecordRegistry\<close>.
\<close>

section \<open>Types, record bodies, environment\<close>

datatype Signedness = Unknown | Unsigned | Signed

datatype Type =
    TInteger (bitsize: uint) (signedness: Signedness)
  | TBool
  | TFloat
  | TUnknown
  | TPointer (pointed: Type) (memspace: size_t)
  | TArray (element: Type) (arr_size: "size_t option")
  | TRecord (rec_name: string)
  | TTypeError (message: string)
  | TFunction (retty: Type) (args: "Type list")

record RecordField =
  field_type :: Type
  field_offset :: size_t

type_synonym RecordBody = "RecordField list"
type_synonym RecordRegistry = "string \<rightharpoonup> RecordBody"

text \<open>The code outside the repository is a parameter: \<open>env_fold\<close> and \<open>env_reduce\<close> are the
  view library's \<open>fold\<close> and \<open>reduce\<close> (a git submodule), \<open>env_double\<close> the stream's printing of a double.  \<open>env_stack\<close>
  is the number of nested calls the stack can hold.\<close>

record env =
  env_bodies :: RecordRegistry
  env_stack :: nat
  env_fold :: "string \<Rightarrow> (string \<Rightarrow> string \<Rightarrow> string) \<Rightarrow> string list \<Rightarrow> string"
  env_reduce :: "string \<Rightarrow> (string \<Rightarrow> string \<Rightarrow> string) \<Rightarrow> string list \<Rightarrow> string"
  env_double :: "64 word \<Rightarrow> string"

section \<open>RecordBody and RecordRegistry\<close>

definition offsetToIndex :: "RecordBody \<Rightarrow> size_t \<Rightarrow> size_t" where
  "offsetToIndex body off =
     (case find_index_from 0 (\<lambda>f. field_offset f = off) body of
        Some i \<Rightarrow> of_nat i
      | None \<Rightarrow> not 0)"

fun getFieldByOffset :: "RecordBody \<Rightarrow> size_t \<Rightarrow> RecordField option" where
  "getFieldByOffset [] off = None"
| "getFieldByOffset (f # fs) off = (if field_offset f = off then Some f else getFieldByOffset fs off)"

definition RecordBody_at :: "RecordBody \<Rightarrow> size_t \<Rightarrow> RecordField option" where
  "RecordBody_at body ix = vector_at body (unat ix)"

definition getNumFields :: "RecordBody \<Rightarrow> nat" where
  "getNumFields body = length body"

definition RecordRegistry_at :: "RecordRegistry \<Rightarrow> string \<Rightarrow> RecordBody option" where
  "RecordRegistry_at reg nm = reg nm"

text \<open>\<open>operator[]\<close> of the registry default-constructs a missing body.\<close>

definition RecordRegistry_index :: "RecordRegistry \<Rightarrow> string \<Rightarrow> RecordBody \<times> RecordRegistry" where
  "RecordRegistry_index reg nm =
     (case reg nm of Some b \<Rightarrow> (b, reg) | None \<Rightarrow> ([], reg(nm \<mapsto> [])))"

definition RecordBodyRef_get :: "env \<Rightarrow> string \<Rightarrow> RecordBody option" where
  "RecordBodyRef_get E nm = RecordRegistry_at (env_bodies E) nm"

section \<open>TypeUtils\<close>

definition isConcrete :: "Type \<Rightarrow> bool" where
  "isConcrete t = (case t of TTypeError _ \<Rightarrow> False | TUnknown \<Rightarrow> False | _ \<Rightarrow> True)"

definition isValid :: "Type \<Rightarrow> bool" where
  "isValid t = (case t of TTypeError _ \<Rightarrow> False | _ \<Rightarrow> True)"

definition isInvalid :: "Type \<Rightarrow> bool" where
  "isInvalid t = (\<not> isValid t)"

definition isUnknown :: "Type \<Rightarrow> bool" where
  "isUnknown t = (case t of TUnknown \<Rightarrow> True | _ \<Rightarrow> False)"

datatype Verbosity = Verbose | Short

text \<open>\<open>TypeUtils::toString\<close>; the second argument counts the stack frames left.\<close>

fun type_to_string :: "env \<Rightarrow> nat \<Rightarrow> Verbosity \<Rightarrow> Type \<Rightarrow> string option" where
  "type_to_string E 0 verb t = None"
| "type_to_string E (Suc k) verb t = (case t of
      TInteger bs sg \<Rightarrow> Some (''Integer('' @ nat_to_string (unat bs) @ '')'')
    | TFloat \<Rightarrow> Some ''Float''
    | TBool \<Rightarrow> Some ''Bool''
    | TUnknown \<Rightarrow> Some ''Unknown''
    | TPointer p ms \<Rightarrow> do { s \<leftarrow> type_to_string E k Short p; Some (s @ ''*'') }
    | TTypeError msg \<Rightarrow> Some (''<Type Error>: '' @ msg)
    | TArray e sz \<Rightarrow> do {
        s \<leftarrow> type_to_string E k Short e;
        Some (s @ ''['' @ (case sz of None \<Rightarrow> '''' | Some n \<Rightarrow> nat_to_string (unat n)) @ '']'') }
    | TRecord nm \<Rightarrow>
        (if verb \<noteq> Short then do {
           body \<leftarrow> RecordBodyRef_get E nm;
           ss \<leftarrow> omap (\<lambda>f. do {
                   s \<leftarrow> type_to_string E k Short (field_type f);
                   Some (nat_to_string (unat (field_offset f)) @ '': '' @ s) }) body;
           Some (nm @ ''{ '' @ env_reduce E '''' (\<lambda>e1 e2. e1 @ '', '' @ e2) ss @ '' }'') }
         else Some nm)
    | TFunction r as \<Rightarrow> do {
        s \<leftarrow> type_to_string E k Verbose r;
        ss \<leftarrow> omap (type_to_string E k Short) as;
        Some (s @ ''( '' @ env_reduce E '''' (\<lambda>a b. a @ '', '' @ b) ss @ '' )'') })"

definition toString :: "env \<Rightarrow> Type \<Rightarrow> string option" where
  "toString E t = type_to_string E (env_stack E) Verbose t"

definition getPointerElementType :: "Type \<Rightarrow> Type option" where
  "getPointerElementType t = (case t of TPointer p ms \<Rightarrow> Some p | _ \<Rightarrow> None)"

definition getPointerMemorySpace :: "Type \<Rightarrow> size_t" where
  "getPointerMemorySpace t = (case t of TPointer p ms \<Rightarrow> ms | _ \<Rightarrow> 0)"

text \<open>\<open>TypeSizer\<close>: the number of elementary cells of a type, in \<open>unsigned long long\<close>.\<close>

fun type_sizer :: "env \<Rightarrow> nat \<Rightarrow> Type \<Rightarrow> 64 word option" where
  "type_sizer E 0 t = None"
| "type_sizer E (Suc k) t = (case t of
      TArray e sz \<Rightarrow> do {
        res \<leftarrow> type_sizer E k e;
        Some (res * (case sz of Some n \<Rightarrow> n | None \<Rightarrow> 0)) }
    | TRecord nm \<Rightarrow> do {
        body \<leftarrow> RecordBodyRef_get E nm;
        ss \<leftarrow> omap (\<lambda>f. type_sizer E k (field_type f)) body;
        let res = sum_list ss in Some (if res \<noteq> 0 then res else 1) }
    | _ \<Rightarrow> Some 1)"

definition getTypeSizeInElems :: "env \<Rightarrow> Type \<Rightarrow> 64 word option" where
  "getTypeSizeInElems E t = type_sizer E (env_stack E) t"

text \<open>The accumulator is declared \<open>auto&& res = 0U\<close>, an \<open>unsigned int\<close>: every
  addition is truncated to 32 bits, the result is widened on return.\<close>

fun struct_offset_loop :: "env \<Rightarrow> RecordBody \<Rightarrow> uint \<Rightarrow> nat \<Rightarrow> nat \<Rightarrow> uint option" where
  "struct_offset_loop E body res i 0 = Some res"
| "struct_offset_loop E body res i (Suc n) = do {
      f \<leftarrow> RecordBody_at body (of_nat i);
      s \<leftarrow> getTypeSizeInElems E (field_type f);
      struct_offset_loop E body (ucast (ucast res + s)) (Suc i) n }"

definition getStructOffsetInElems :: "env \<Rightarrow> Type \<Rightarrow> uint \<Rightarrow> 64 word option" where
  "getStructOffsetInElems E t idx = (case t of
      TRecord nm \<Rightarrow> do {
        body \<leftarrow> RecordBodyRef_get E nm;
        res \<leftarrow> struct_offset_loop E body 0 0 (unat idx);
        Some (ucast res) }
    | _ \<Rightarrow> None)"

text \<open>\<open>RecordNameCollector\<close>: the names of the records reachable from a type, each record
  visited once.\<close>

fun collect_names :: "env \<Rightarrow> nat \<Rightarrow> Type \<Rightarrow> string list \<Rightarrow> string list option" where
  "collect_names E 0 t names = None"
| "collect_names E (Suc k) t names = (case t of
      TPointer p ms \<Rightarrow> collect_names E k p names
    | TArray e sz \<Rightarrow> collect_names E k e names
    | TRecord nm \<Rightarrow>
        (if nm \<in> set names then Some names
         else do {
           body \<leftarrow> RecordBodyRef_get E nm;
           fold (\<lambda>f acc. acc \<bind> collect_names E k (field_type f)) body (Some (nm # names)) })
    | TFunction r as \<Rightarrow>
        fold (\<lambda>a acc. acc \<bind> collect_names E k a) as (collect_names E k r names)
    | _ \<Rightarrow> Some names)"

section \<open>Facts about printing\<close>

lemma type_to_string_mono:
  "type_to_string E k v t = Some s \<Longrightarrow> k \<le> k' \<Longrightarrow> type_to_string E k' v t = Some s"
proof (induction k arbitrary: v t s k')
  case (Suc k)
  then obtain k'' where k': "k' = Suc k''" "k \<le> k''" by (cases k') auto
  note IH = Suc.IH[OF _ k'(2)]
  show ?case
  proof (cases t)
    case (TRecord nm)
    have M: "omap (\<lambda>f. do { s \<leftarrow> type_to_string E k'' Short (field_type f);
          Some (nat_to_string (unat (field_offset f)) @ '': '' @ s) }) body = Some ss"
      if "omap (\<lambda>f. do { s \<leftarrow> type_to_string E k Short (field_type f);
          Some (nat_to_string (unat (field_offset f)) @ '': '' @ s) }) body = Some ss" for body ss
      using that by (rule omap_mono) (auto simp: bind_Some_iff dest: IH)
    show ?thesis using Suc.prems(1) k'(1) TRecord
      by (auto simp: bind_Some_iff[of "RecordBodyRef_get E nm"] bind_Some_iff[of "omap _ _"]
          split: if_splits dest: M[simplified])
  next
    case (TFunction r as)
    have M: "omap (type_to_string E k Short) as = Some ss \<Longrightarrow>
             omap (type_to_string E k'' Short) as = Some ss" for ss
      by (erule omap_mono) (rule IH)
    show ?thesis using Suc.prems(1) k'(1) IH TFunction
      by (auto simp: bind_Some_iff dest: M)
  qed (use Suc.prems(1) k'(1) IH in \<open>auto simp: bind_Some_iff\<close>)
qed simp

fun fun_free :: "Type \<Rightarrow> bool" where
  "fun_free (TFunction r as) = False"
| "fun_free (TPointer p ms) = fun_free p"
| "fun_free (TArray e sz) = fun_free e"
| "fun_free t = True"

fun ty_depth :: "Type \<Rightarrow> nat" where
  "ty_depth (TPointer p ms) = Suc (ty_depth p)"
| "ty_depth (TArray e sz) = Suc (ty_depth e)"
| "ty_depth (TFunction r as) = Suc (Max (insert (ty_depth r) (ty_depth ` set as)))"
| "ty_depth t = 0"

lemma type_to_string_short_returns:
  "fun_free t \<Longrightarrow> ty_depth t < k \<Longrightarrow> \<exists>s. type_to_string E k Short t = Some s"
proof (induction t arbitrary: k)
  case (TPointer p ms)
  then obtain k' where "k = Suc k'" "ty_depth p < k'" by (cases k) auto
  then show ?case using TPointer by fastforce
next
  case (TArray e sz)
  then obtain k' where "k = Suc k'" "ty_depth e < k'" by (cases k) auto
  then show ?case using TArray by fastforce
qed (case_tac k; simp)+

lemma toString_some:
  assumes "fun_free t" "ty_depth t < env_stack E"
    and "\<And>nm. t = TRecord nm \<Longrightarrow>
           \<exists>body. env_bodies E nm = Some body \<and>
             (\<forall>f\<in>set body. fun_free (field_type f) \<and> Suc (ty_depth (field_type f)) < env_stack E)"
  shows "\<exists>s. toString E t = Some s"
proof -
  obtain k where k: "env_stack E = Suc k" using assms(2) by (cases "env_stack E") auto
  show ?thesis
  proof (cases t)
    case (TRecord nm)
    then obtain body where b: "env_bodies E nm = Some body"
        "\<And>f. f \<in> set body \<Longrightarrow> fun_free (field_type f) \<and> ty_depth (field_type f) < k"
      using assms(3) k by fastforce
    then have "\<exists>ss. omap (\<lambda>f. do { s \<leftarrow> type_to_string E k Short (field_type f);
                   Some (nat_to_string (unat (field_offset f)) @ '': '' @ s) }) body = Some ss"
      using type_to_string_short_returns[of _ k E] b(2)
      by (intro not_None_eq[THEN iffD1]) (auto simp: omap_eq_None bind_None_iff)
    then show ?thesis using TRecord b by (auto simp: toString_def k RecordBodyRef_get_def RecordRegistry_at_def)
  next
    case (TPointer p ms)
    then show ?thesis using assms type_to_string_short_returns[of p k E]
      by (auto simp: toString_def k)
  next
    case (TArray e sz)
    then show ?thesis using assms type_to_string_short_returns[of e k E]
      by (auto simp: toString_def k)
  qed (use assms in \<open>auto simp: toString_def k\<close>)
qed

lemma type_to_string_fnptr_loop:
  assumes "env_bodies E nm = Some body"
    and "f \<in> set body" "field_type f = TPointer (TFunction (TRecord nm) as) ms"
  shows "type_to_string E k Verbose (TRecord nm) = None"
proof (induction k rule: less_induct)
  case (less k)
  show ?case
  proof (cases k)
    case (Suc m)
    have "type_to_string E m Short (field_type f) = None"
    proof (cases m)
      case m: (Suc m')
      have "type_to_string E m' Short (TFunction (TRecord nm) as) = None"
      proof (cases m')
        case (Suc m'')
        then show ?thesis using less.IH[of m''] Suc m \<open>k = Suc m\<close> by (simp add: bind_None_iff)
      qed simp
      then show ?thesis using assms(3) m by simp
    qed simp
    then have "omap (\<lambda>f. do { s \<leftarrow> type_to_string E m Short (field_type f);
                   Some (nat_to_string (unat (field_offset f)) @ '': '' @ s) }) body = None"
      using assms(2) by (auto simp: omap_eq_None bind_None_iff)
    then show ?thesis using Suc assms(1)
      by (simp add: RecordBodyRef_get_def RecordRegistry_at_def)
  qed simp
qed

section \<open>Record bodies\<close>

lemma getFieldByOffset_Some:
  "getFieldByOffset body off = Some f \<longleftrightarrow>
   (\<exists>i < length body. f = body ! i \<and> field_offset f = off \<and> (\<forall>j < i. field_offset (body ! j) \<noteq> off))"
proof (induction body)
  case (Cons g gs)
  show ?case
  proof (cases "field_offset g = off")
    case True
    then show ?thesis by (auto intro!: exI[of _ 0]) (metis neq0_conv nth_Cons_0)
  next
    case False
    have "(\<exists>i < length (g # gs). f = (g # gs) ! i \<and> field_offset f = off \<and>
             (\<forall>j < i. field_offset ((g # gs) ! j) \<noteq> off)) \<longleftrightarrow>
          (\<exists>i < length gs. f = gs ! i \<and> field_offset f = off \<and>
             (\<forall>j < i. field_offset (gs ! j) \<noteq> off))" (is "?L = ?R")
    proof
      assume ?L
      then obtain i where i: "i < length (g # gs)" "f = (g # gs) ! i" "field_offset f = off"
          "\<forall>j < i. field_offset ((g # gs) ! j) \<noteq> off" by blast
      then obtain i' where "i = Suc i'" using False by (cases i) auto
      then show ?R using i by (intro exI[of _ i']) fastforce
    next
      assume ?R
      then obtain i where i: "i < length gs" "f = gs ! i" "field_offset f = off"
          "\<forall>j < i. field_offset (gs ! j) \<noteq> off" by blast
      then show ?L using False
        by (intro exI[of _ "Suc i"]) (auto simp: nth_Cons split: nat.splits)
    qed
    then show ?thesis using False Cons.IH by simp
  qed
qed simp

lemma offsetToIndex_lookup:
  assumes "length body < 2 ^ 64"
  shows "RecordBody_at body (offsetToIndex body off) = getFieldByOffset body off"
proof (cases "find_index_from 0 (\<lambda>f. field_offset f = off) body")
  case None
  then have n: "\<forall>f\<in>set body. field_offset f \<noteq> off" by (simp add: find_index_from_None)
  have "unat (not 0 :: size_t) = 2 ^ 64 - 1"
    by (simp add: unsigned_minus_1_eq_mask mask_eq_exp_minus_1)
  then have "RecordBody_at body (not 0) = None" using assms
    by (auto simp: RecordBody_at_def)
  moreover have "getFieldByOffset body off = None"
    using n by (induction body) auto
  ultimately show ?thesis using None by (simp add: offsetToIndex_def)
next
  case (Some i)
  then have i: "i < length body" "field_offset (body ! i) = off" "\<forall>j < i. field_offset (body ! j) \<noteq> off"
    by (auto simp: find_index_from_Some)
  then have "unat (of_nat i :: size_t) = i" using assms
    by (simp add: unat_of_nat)
  then show ?thesis using Some i
    by (simp add: offsetToIndex_def RecordBody_at_def) (metis getFieldByOffset_Some)
qed

section \<open>Sizes\<close>

text \<open>The exact number of cells, without wrap-around.\<close>

fun cells :: "env \<Rightarrow> nat \<Rightarrow> Type \<Rightarrow> nat option" where
  "cells E 0 t = None"
| "cells E (Suc k) t = (case t of
      TArray e sz \<Rightarrow> do { n \<leftarrow> cells E k e; Some (n * (case sz of Some m \<Rightarrow> unat m | None \<Rightarrow> 0)) }
    | TRecord nm \<Rightarrow> do {
        body \<leftarrow> RecordBodyRef_get E nm;
        ns \<leftarrow> omap (\<lambda>f. cells E k (field_type f)) body;
        Some (if sum_list ns = 0 then 1 else sum_list ns) }
    | _ \<Rightarrow> Some 1)"

lemma sum_list_of_nat_words:
  "list_all2 (\<lambda>w n. w = (of_nat n :: 'a::len word)) ws ns \<Longrightarrow> sum_list ws = of_nat (sum_list ns)"
  by (induction rule: list_all2_induct) simp_all

lemma cells_zero_words: "n < 2 ^ 64 \<Longrightarrow> (of_nat n :: size_t) = 0 \<longleftrightarrow> n = 0"
  by (auto simp: word_of_nat_eq_0_iff nat_dvd_not_less)

text \<open>Every record reached on the way has an exact sum of fields below \<open>2 ^ 64\<close>.\<close>

fun sums_fit :: "env \<Rightarrow> nat \<Rightarrow> Type \<Rightarrow> bool" where
  "sums_fit E 0 t = True"
| "sums_fit E (Suc k) t = (case t of
      TArray e sz \<Rightarrow> sums_fit E k e
    | TRecord nm \<Rightarrow> (case RecordBodyRef_get E nm of None \<Rightarrow> True | Some body \<Rightarrow>
        (\<forall>f\<in>set body. sums_fit E k (field_type f)) \<and>
        (case omap (\<lambda>f. cells E k (field_type f)) body of None \<Rightarrow> True | Some ns \<Rightarrow> sum_list ns < 2 ^ 64))
    | _ \<Rightarrow> True)"

lemma type_sizer_cells:
  "cells E k t = Some n \<Longrightarrow> sums_fit E k t \<Longrightarrow> type_sizer E k t = Some (of_nat n)"
proof (induction k arbitrary: t n)
  case (Suc k)
  show ?case
  proof (cases t)
    case (TArray e sz)
    then show ?thesis using Suc by (cases sz) (fastforce simp: bind_Some_iff)+
  next
    case (TRecord nm)
    with Suc.prems obtain body ns where b: "RecordBodyRef_get E nm = Some body"
        "omap (\<lambda>f. cells E k (field_type f)) body = Some ns"
        "n = (if sum_list ns = 0 then 1 else sum_list ns)" "sum_list ns < 2 ^ 64"
        "\<forall>f\<in>set body. sums_fit E k (field_type f)"
      by (auto simp: bind_Some_iff)
    have "omap (\<lambda>f. type_sizer E k (field_type f)) body = Some (map of_nat ns)"
      using b(2,5) Suc.IH by (induction body arbitrary: ns) (auto simp: bind_Some_iff)
    moreover have "sum_list (map of_nat ns) = (of_nat (sum_list ns) :: size_t)"
      by (intro sum_list_of_nat_words) (simp add: list_all2_conv_all_nth)
    ultimately show ?thesis using TRecord b(1,3) cells_zero_words[OF b(4)]
      by (simp add: Let_def del: sum_list_eq_0_iff)
  qed (use Suc in auto)
qed simp

lemma type_sizer_mono:
  "type_sizer E k t = Some s \<Longrightarrow> k \<le> k' \<Longrightarrow> type_sizer E k' t = Some s"
proof (induction k arbitrary: t s k')
  case (Suc k)
  then obtain k'' where k': "k' = Suc k''" "k \<le> k''" by (cases k') auto
  have M: "omap (\<lambda>f. type_sizer E k (field_type f)) body = Some ss \<Longrightarrow>
           omap (\<lambda>f. type_sizer E k'' (field_type f)) body = Some ss" for body ss
    using Suc.IH k'(2) by (elim omap_mono) blast
  show ?case
  proof (cases t)
    case (TRecord nm)
    then obtain body ss where o: "RecordBodyRef_get E nm = Some body"
        "omap (\<lambda>f. type_sizer E k (field_type f)) body = Some ss"
        "s = (if sum_list ss \<noteq> 0 then sum_list ss else 1)"
      using Suc.prems(1) by (auto simp: bind_Some_iff Let_def)
    show ?thesis using TRecord k'(1) M[OF o(2)] o by (simp add: Let_def)
  qed (use Suc.prems(1) k'(1) Suc.IH[OF _ k'(2)] in \<open>auto simp: bind_Some_iff\<close>)
qed simp

text \<open>By-value nesting of records is well founded when a rank decreases from a record to the
  records it contains by value.\<close>

fun by_value :: "Type \<Rightarrow> string option" where
  "by_value (TArray e sz) = by_value e"
| "by_value (TRecord nm) = Some nm"
| "by_value t = None"

fun arr_depth :: "Type \<Rightarrow> nat" where
  "arr_depth (TArray e sz) = Suc (arr_depth e)"
| "arr_depth t = 0"

definition ranked :: "RecordRegistry \<Rightarrow> (string \<Rightarrow> nat) \<Rightarrow> bool" where
  "ranked reg rk = (\<forall>nm body. reg nm = Some body \<longrightarrow> (\<forall>f\<in>set body.
     (case by_value (field_type f) of None \<Rightarrow> arr_depth (field_type f) < rk nm
      | Some nm' \<Rightarrow> nm' \<in> dom reg \<and> rk nm' + arr_depth (field_type f) < rk nm)))"

definition type_rank :: "(string \<Rightarrow> nat) \<Rightarrow> Type \<Rightarrow> nat" where
  "type_rank rk t = arr_depth t + (case by_value t of None \<Rightarrow> 0 | Some nm \<Rightarrow> rk nm)"

lemma type_sizer_returns:
  assumes "ranked (env_bodies E) rk"
  shows "(\<forall>nm. by_value t = Some nm \<longrightarrow> nm \<in> dom (env_bodies E)) \<Longrightarrow> type_rank rk t < k \<Longrightarrow>
         \<exists>s. type_sizer E k t = Some s"
proof (induction k arbitrary: t)
  case (Suc k)
  show ?case
  proof (cases t)
    case (TArray e sz)
    then show ?thesis using Suc by (fastforce simp: type_rank_def)
  next
    case (TRecord nm)
    then obtain body where b: "env_bodies E nm = Some body" using Suc.prems by auto
    have "\<exists>s. type_sizer E k (field_type f) = Some s" if "f \<in> set body" for f
    proof (rule Suc.IH)
      have "case by_value (field_type f) of None \<Rightarrow> arr_depth (field_type f) < rk nm
        | Some nm' \<Rightarrow> nm' \<in> dom (env_bodies E) \<and> rk nm' + arr_depth (field_type f) < rk nm"
        using assms b that by (auto simp: ranked_def)
      then show "\<forall>nm. by_value (field_type f) = Some nm \<longrightarrow> nm \<in> dom (env_bodies E)"
          "type_rank rk (field_type f) < k"
        using Suc.prems(2) TRecord by (auto simp: type_rank_def split: option.splits)
    qed
    then have "omap (\<lambda>f. type_sizer E k (field_type f)) body \<noteq> None"
      by (simp add: omap_eq_None)
    then show ?thesis using TRecord b
      by (auto simp: RecordBodyRef_get_def RecordRegistry_at_def Let_def)
  qed (use Suc in auto)
qed simp

lemma ucast_plus_u32: "(ucast (a + b) :: uint) = ucast a + ucast (b :: size_t)"
proof transfer
  fix a b :: int
  have "take_bit 32 (take_bit 64 a + take_bit 64 b) =
        take_bit 32 (take_bit 32 (take_bit 64 a) + take_bit 32 (take_bit 64 b))"
    by (rule take_bit_add[symmetric])
  also have "\<dots> = take_bit 32 (take_bit 32 a + take_bit 32 b)"
    by (simp only: take_bit_take_bit min_def) simp
  also have "\<dots> = take_bit 32 (a + b)" by (rule take_bit_add)
  finally show "take_bit LENGTH(32) (take_bit LENGTH(64) (a + b)) =
      take_bit LENGTH(32) (take_bit LENGTH(64) a + take_bit LENGTH(64) b)"
    by (simp add: take_bit_take_bit min_def)
qed

lemma ucast_ucast_u32: "(ucast (ucast (res :: uint) :: size_t) :: uint) = res"
  by (simp add: ucast_up_ucast_id is_up)

lemma of_nat_unat_u32: "of_nat (unat (x :: uint)) = (ucast x :: size_t)"
  by transfer (simp add: take_bit_take_bit min_def)

lemma ucast_ucast_of_nat:
  "ucast (ucast (of_nat n :: size_t) :: uint) = (of_nat (n mod 2 ^ 32) :: size_t)"
proof -
  have "(ucast (of_nat n :: size_t) :: uint) = of_nat n"
    by transfer (simp add: take_bit_take_bit min_def)
  moreover have "n mod 2 ^ 32 < (2 ^ 64 :: nat)"
    by (rule less_trans[of _ "2 ^ 32"]) simp_all
  ultimately show ?thesis
    by (simp add: unat_of_nat flip: of_nat_unat_u32)
qed

lemma struct_offset_loop_sum:
  assumes "i + n \<le> length body" "length body < 2 ^ 32"
    and "omap (\<lambda>f. getTypeSizeInElems E (field_type f)) body = Some ss"
  shows "struct_offset_loop E body res i n = Some (res + ucast (sum_list (take n (drop i ss))))"
  using assms(1)
proof (induction n arbitrary: res i)
  case (Suc n)
  have l: "length ss = length body" using assms(3) by (rule omap_Some_length)
  have s: "getTypeSizeInElems E (field_type (body ! i)) = Some (ss ! i)"
    using assms(3) Suc.prems by (simp add: omap_Some_list_all2 list_all2_conv_all_nth)
  have i: "unat (of_nat i :: size_t) = i" using Suc.prems assms(2) by (simp add: unat_of_nat)
  have t: "take (Suc n) (drop i ss) = ss ! i # take n (drop (Suc i) ss)"
    using Suc.prems l by (metis Cons_nth_drop_Suc Suc_le_lessD add_Suc_right le_add1 le_trans take_Suc_Cons not_less_eq_eq)
  show ?case using Suc.prems Suc.IH[of "Suc i"] s i
    by (simp add: RecordBody_at_def t ac_simps ucast_plus_u32 ucast_ucast_u32)
qed simp

lemma struct_offset_cells:
  assumes "env_bodies E nm = Some body" "length body < 2 ^ 32" "unat (idx :: uint) \<le> length body"
    and "omap (\<lambda>f. cells E (env_stack E) (field_type f)) body = Some ns"
    and "\<And>f. f \<in> set body \<Longrightarrow> sums_fit E (env_stack E) (field_type f)"
  shows "getStructOffsetInElems E (TRecord nm) idx =
         Some (of_nat (sum_list (take (unat idx) ns) mod 2 ^ 32))"
proof -
  have "omap (\<lambda>f. getTypeSizeInElems E (field_type f)) body = Some (map of_nat ns)"
    using assms(4,5) unfolding getTypeSizeInElems_def
    by (induction body arbitrary: ns) (auto simp: bind_Some_iff type_sizer_cells)
  then have "struct_offset_loop E body 0 0 (unat idx) =
      Some (ucast (sum_list (take (unat idx) (map of_nat ns)) :: size_t))"
    using struct_offset_loop_sum[of 0 "unat idx" body E _ 0] assms(2,3) by simp
  moreover have "sum_list (take (unat idx) (map of_nat ns)) =
      (of_nat (sum_list (take (unat idx) ns)) :: size_t)"
    by (intro sum_list_of_nat_words) (simp add: list_all2_conv_all_nth take_map)
  moreover have "ucast (ucast (of_nat n :: size_t) :: uint) = (of_nat (n mod 2 ^ 32) :: size_t)" for n
    by (rule ucast_ucast_of_nat)
  ultimately show ?thesis using assms(1)
    by (simp add: getStructOffsetInElems_def RecordBodyRef_get_def RecordRegistry_at_def)
qed

section \<open>Reachable records\<close>

text \<open>The records a type mentions without looking into any body.\<close>

fun direct :: "Type \<Rightarrow> string set" where
  "direct (TPointer p ms) = direct p"
| "direct (TArray e sz) = direct e"
| "direct (TRecord nm) = {nm}"
| "direct (TFunction r as) = direct r \<union> (\<Union>a\<in>set as. direct a)"
| "direct t = {}"

definition direct_body :: "env \<Rightarrow> string \<Rightarrow> string set" where
  "direct_body E nm = (case env_bodies E nm of None \<Rightarrow> {} | Some body \<Rightarrow> (\<Union>f\<in>set body. direct (field_type f)))"

inductive reach_rec :: "env \<Rightarrow> Type \<Rightarrow> string \<Rightarrow> bool" for E t where
  reach_direct: "nm \<in> direct t \<Longrightarrow> reach_rec E t nm"
| reach_step: "reach_rec E t nm \<Longrightarrow> nm' \<in> direct_body E nm \<Longrightarrow> reach_rec E t nm'"

lemma reach_rec_field:
  assumes "env_bodies E nm = Some body" "f \<in> set body" "reach_rec E (field_type f) x"
  shows "reach_rec E (TRecord nm) x"
  using assms(3)
proof (induction rule: reach_rec.induct)
  case (reach_direct x)
  then have "x \<in> direct_body E nm" using assms(1,2) by (auto simp: direct_body_def)
  then show ?case by (rule reach_step[OF reach_rec.reach_direct, rotated]) simp
qed (auto intro: reach_rec.reach_step)

lemma reach_rec_direct_mono: "reach_rec E t x \<Longrightarrow> direct t \<subseteq> direct t' \<Longrightarrow> reach_rec E t' x"
  by (induction rule: reach_rec.induct) (auto intro: reach_rec.intros)

lemma fold_bind_None [simp]: "fold (\<lambda>x acc. acc \<bind> g x) xs None = None"
  by (induction xs) auto

text \<open>The invariant of the traversal: it only adds names, they are reachable, and every added
  name has all the names its body mentions in the result.\<close>

definition collect_ok :: "env \<Rightarrow> string set \<Rightarrow> (string \<Rightarrow> bool) \<Rightarrow> string list \<Rightarrow> string list \<Rightarrow> bool" where
  "collect_ok E D R ns ns' = (set ns \<subseteq> set ns' \<and> D \<subseteq> set ns' \<and> (\<forall>x\<in>set ns' - set ns. R x) \<and>
     (\<forall>x\<in>set ns' - set ns. direct_body E x \<subseteq> set ns') \<and> (distinct ns \<longrightarrow> distinct ns'))"

lemma collect_ok_refl: "D \<subseteq> set ns \<Longrightarrow> collect_ok E D R ns ns"
  by (auto simp: collect_ok_def)

lemma collect_ok_trans:
  "collect_ok E D R a b \<Longrightarrow> collect_ok E D' R b c \<Longrightarrow> collect_ok E (D \<union> D') R a c"
  unfolding collect_ok_def by blast

lemma collect_ok_mono:
  "collect_ok E D R a b \<Longrightarrow> (\<And>x. R x \<Longrightarrow> R' x) \<Longrightarrow> collect_ok E D R' a b"
  unfolding collect_ok_def by blast

lemma collect_ok_visit:
  assumes "collect_ok E D R (x # ns) ns'" "x \<notin> set ns" "R x" "direct_body E x \<subseteq> D"
  shows "collect_ok E {x} R ns ns'"
proof -
  have *: "set ns' - set ns \<subseteq> insert x (set ns' - set (x # ns))" by auto
  have "\<forall>y\<in>set ns' - set ns. R y \<and> direct_body E y \<subseteq> set ns'"
  proof
    fix y assume "y \<in> set ns' - set ns"
    then have "y = x \<or> y \<in> set ns' - set (x # ns)" using * by blast
    then show "R y \<and> direct_body E y \<subseteq> set ns'"
      using assms unfolding collect_ok_def by (elim disjE) (blast, blast)
  qed
  then show ?thesis using assms(1,2) unfolding collect_ok_def by simp
qed

lemma reach_rec_arg: "reach_rec E a x \<Longrightarrow> a \<in> set as \<Longrightarrow> reach_rec E (TFunction r as) x"
  by (erule reach_rec_direct_mono) auto

lemma collect_fold_ok:
  assumes "\<And>x ns ns'. x \<in> set xs \<Longrightarrow> g x ns = Some ns' \<Longrightarrow> collect_ok E (D x) R ns ns'"
    and "fold (\<lambda>x acc. acc \<bind> g x) xs (Some ns) = Some ns'"
  shows "collect_ok E (\<Union>x\<in>set xs. D x) R ns ns'"
  using assms
proof (induction xs arbitrary: ns)
  case (Cons x xs)
  then obtain m where m: "g x ns = Some m" "fold (\<lambda>x acc. acc \<bind> g x) xs (Some m) = Some ns'"
    by (cases "g x ns") auto
  have "collect_ok E (D x \<union> (\<Union>x\<in>set xs. D x)) R ns ns'"
    by (rule collect_ok_trans[OF Cons.prems(1)[OF _ m(1)] Cons.IH[OF _ m(2)]]) (auto intro: Cons.prems)
  then show ?case by simp
qed (auto intro: collect_ok_refl)

lemma collect_names_ok:
  "collect_names E k t ns = Some ns' \<Longrightarrow> collect_ok E (direct t) (reach_rec E t) ns ns'"
proof (induction k arbitrary: t ns ns')
  case (Suc k)
  show ?case
  proof (cases t)
    case (TPointer p ms)
    then show ?thesis using Suc.prems
      by (auto intro!: collect_ok_mono[OF Suc.IH] elim: reach_rec_direct_mono)
  next
    case (TArray e sz)
    then show ?thesis using Suc.prems
      by (auto intro!: collect_ok_mono[OF Suc.IH] elim: reach_rec_direct_mono)
  next
    case (TRecord nm)
    show ?thesis
    proof (cases "nm \<in> set ns")
      case True
      then show ?thesis using Suc.prems TRecord by (auto intro: collect_ok_refl)
    next
      case False
      then obtain body where b: "env_bodies E nm = Some body"
          "fold (\<lambda>f acc. acc \<bind> collect_names E k (field_type f)) body (Some (nm # ns)) = Some ns'"
        using Suc.prems TRecord by (auto simp: RecordBodyRef_get_def RecordRegistry_at_def bind_Some_iff)
      have "collect_ok E (\<Union>f\<in>set body. direct (field_type f)) (reach_rec E t) (nm # ns) ns'"
        by (rule collect_fold_ok[OF _ b(2)])
          (use b(1) TRecord in \<open>auto intro: collect_ok_mono[OF Suc.IH] reach_rec_field\<close>)
      moreover have "direct_body E nm \<subseteq> (\<Union>f\<in>set body. direct (field_type f))"
        using b(1) by (simp add: direct_body_def)
      moreover have "reach_rec E t nm" using TRecord by (auto intro: reach_direct)
      ultimately have "collect_ok E {nm} (reach_rec E t) ns ns'" using False
        by (intro collect_ok_visit) auto
      then show ?thesis using TRecord by simp
    qed
  next
    case (TFunction r as)
    then obtain m where m: "collect_names E k r ns = Some m"
        "fold (\<lambda>a acc. acc \<bind> collect_names E k a) as (Some m) = Some ns'"
      using Suc.prems by (cases "collect_names E k r ns") auto
    have "collect_ok E (direct r) (reach_rec E t) ns m"
      using Suc.IH[OF m(1)] TFunction
      by (auto intro!: collect_ok_mono[OF Suc.IH[OF m(1)]] elim: reach_rec_direct_mono)
    moreover have "collect_ok E (\<Union>a\<in>set as. direct a) (reach_rec E t) m ns'"
      by (rule collect_fold_ok[OF _ m(2)])
        (use TFunction in \<open>auto intro!: collect_ok_mono[OF Suc.IH] intro: reach_rec_arg\<close>)
    ultimately show ?thesis using TFunction by (auto dest: collect_ok_trans)
  qed (use Suc.prems in \<open>auto intro: collect_ok_refl\<close>)
qed simp

lemma collect_names_reach:
  assumes "collect_names E k t [] = Some ns"
  shows "set ns = {nm. reach_rec E t nm}" "distinct ns"
proof -
  have ok: "collect_ok E (direct t) (reach_rec E t) [] ns" using assms by (rule collect_names_ok)
  have "reach_rec E t nm \<Longrightarrow> nm \<in> set ns" for nm
    by (induction rule: reach_rec.induct) (use ok in \<open>auto simp: collect_ok_def\<close>)
  then show "set ns = {nm. reach_rec E t nm}" using ok by (auto simp: collect_ok_def)
  show "distinct ns" using ok by (simp add: collect_ok_def)
qed

text \<open>The stack needed: one visit of every record, each as deep as the deepest field type.\<close>

fun full_depth :: "Type \<Rightarrow> nat" where
  "full_depth (TPointer p ms) = Suc (full_depth p)"
| "full_depth (TArray e sz) = Suc (full_depth e)"
| "full_depth (TFunction r as) = Suc (Max (set (full_depth r # map full_depth as)))"
| "full_depth t = 0"

definition registry_ok :: "env \<Rightarrow> string set \<Rightarrow> nat \<Rightarrow> bool" where
  "registry_ok E N d = (finite N \<and> N \<subseteq> dom (env_bodies E) \<and>
     (\<forall>nm\<in>N. \<forall>f\<in>set (the (env_bodies E nm)). direct (field_type f) \<subseteq> N \<and> full_depth (field_type f) \<le> d))"

lemma collect_fold_returns:
  assumes "\<And>x ns. x \<in> set xs \<Longrightarrow> set m \<subseteq> set ns \<Longrightarrow> \<exists>ns'. g x ns = Some ns' \<and> set ns \<subseteq> set ns'"
    and "set m \<subseteq> set ns"
  shows "\<exists>ns'. fold (\<lambda>x acc. acc \<bind> g x) xs (Some ns) = Some ns' \<and> set ns \<subseteq> set ns'"
  using assms
proof (induction xs arbitrary: ns)
  case (Cons x xs)
  then obtain n' where n: "g x ns = Some n'" "set ns \<subseteq> set n'" by (metis list.set_intros(1))
  then have "\<exists>ns'. fold (\<lambda>x acc. acc \<bind> g x) xs (Some n') = Some ns' \<and> set n' \<subseteq> set ns'"
    using Cons.prems by (intro Cons.IH) auto
  then show ?case using n by auto
qed simp

lemma collect_names_returns:
  assumes "registry_ok E N d"
  shows "direct t \<subseteq> N \<Longrightarrow> full_depth t + card (N - set ns) * Suc d < k \<Longrightarrow>
         \<exists>ns'. collect_names E k t ns = Some ns' \<and> set ns \<subseteq> set ns'"
proof (induction k arbitrary: t ns)
  case (Suc k)
  show ?case
  proof (cases t)
    case (TRecord nm)
    show ?thesis
    proof (cases "nm \<in> set ns")
      case False
      have nm: "nm \<in> N" using Suc.prems TRecord by simp
      then obtain body where b: "env_bodies E nm = Some body"
        using assms by (auto simp: registry_ok_def)
      have c: "card (N - set ns) = Suc (card (N - set (nm # ns)))"
      proof -
        have "N - set (nm # ns) = N - set ns - {nm}" by auto
        then show ?thesis using card_Suc_Diff1[of "N - set ns" nm] False nm assms
          by (simp only: registry_ok_def) simp
      qed
      have "\<exists>ns'. fold (\<lambda>f acc. acc \<bind> collect_names E k (field_type f)) body (Some (nm # ns)) = Some ns' \<and>
              set (nm # ns) \<subseteq> set ns'"
      proof (rule collect_fold_returns[where m = "nm # ns"])
        fix f ms assume f: "f \<in> set body" "set (nm # ns) \<subseteq> set ms"
        have "full_depth (field_type f) \<le> d" "direct (field_type f) \<subseteq> N"
          using assms b f nm by (auto simp: registry_ok_def)
        moreover have "card (N - set ms) \<le> card (N - set (nm # ns))"
          using f assms by (intro card_mono) (auto simp: registry_ok_def)
        then have "card (N - set ms) * Suc d \<le> card (N - set (nm # ns)) * Suc d"
          by (rule mult_le_mono1)
        moreover have "card (N - set (nm # ns)) * Suc d + Suc d \<le> k"
          using Suc.prems(2) c TRecord by simp
        ultimately show "\<exists>ns'. collect_names E k (field_type f) ms = Some ns' \<and> set ms \<subseteq> set ns'"
          by (intro Suc.IH) linarith+
      qed simp
      then show ?thesis using TRecord False b
        by (auto simp: RecordBodyRef_get_def RecordRegistry_at_def)
    qed (use TRecord in auto)
  next
    case (TFunction r as)
    have d: "full_depth r + card (N - set ns) * Suc d < k"
      "\<And>a. a \<in> set as \<Longrightarrow> full_depth a + card (N - set ns) * Suc d < k"
      using Suc.prems(2) TFunction
      by (auto intro: le_less_trans[rotated] simp: Max_insert2)
    obtain m where m: "collect_names E k r ns = Some m" "set ns \<subseteq> set m"
      using Suc.IH[of r ns] d Suc.prems TFunction by auto
    have "\<exists>ns'. fold (\<lambda>a acc. acc \<bind> collect_names E k a) as (Some m) = Some ns' \<and> set m \<subseteq> set ns'"
    proof (rule collect_fold_returns[where m = m])
      fix a ms assume a: "a \<in> set as" "set m \<subseteq> set ms"
      have "card (N - set ms) \<le> card (N - set ns)"
        using a m assms by (intro card_mono) (auto simp: registry_ok_def)
      then have "card (N - set ms) * Suc d \<le> card (N - set ns) * Suc d"
        by (rule mult_le_mono1)
      then show "\<exists>ns'. collect_names E k a ms = Some ns' \<and> set ms \<subseteq> set ns'"
        using d(2)[OF a(1)] Suc.prems(1) TFunction a(1) by (intro Suc.IH) auto
    qed simp
    then show ?thesis using m TFunction by auto
  qed (use Suc in \<open>auto simp del: mult_Suc_right\<close>)
qed simp

lemmas cells_numeral = cells.simps(2)[of _ "pred_numeral n" for n, folded numeral_eq_Suc]
lemmas sums_fit_numeral = sums_fit.simps(2)[of _ "pred_numeral n" for n, folded numeral_eq_Suc]
lemmas type_sizer_numeral = type_sizer.simps(2)[of _ "pred_numeral n" for n, folded numeral_eq_Suc]
lemmas type_to_string_numeral = type_to_string.simps(2)[of _ "pred_numeral n" for n, folded numeral_eq_Suc]
lemmas collect_names_numeral = collect_names.simps(2)[of _ "pred_numeral n" for n, folded numeral_eq_Suc]

section \<open>Properties\<close>

definition empty_env :: env where
  "empty_env = \<lparr>env_bodies = Map.empty, env_stack = 100,
     env_fold = (\<lambda>z f xs. foldl f z xs), env_reduce = (\<lambda>z f xs. foldl f z xs), env_double = (\<lambda>d. nat_to_string (unat d))\<rparr>"

definition bodies_env :: "RecordRegistry \<Rightarrow> env" where
  "bodies_env reg = empty_env\<lparr>env_bodies := reg\<rparr>"

lemma env_simps [simp]:
  "env_bodies (bodies_env reg) = reg" "env_stack (bodies_env reg) = 100"
  "env_bodies empty_env = Map.empty" "env_stack empty_env = 100"
  "env_reduce empty_env = (\<lambda>z f xs. foldl f z xs)"
  "env_reduce (bodies_env reg) = (\<lambda>z f xs. foldl f z xs)"
  by (simp_all add: bodies_env_def empty_env_def)

text \<open>Printing a type returns: a type without function types, whose record body (when it is
  itself a record) has no function types in its fields, prints on every stack that is deeper than
  its pointer and array nesting.\<close>

theorem toString_returns:
  assumes "fun_free t" "ty_depth t < env_stack E"
    and "\<And>nm. t = TRecord nm \<Longrightarrow>
           \<exists>body. env_bodies E nm = Some body \<and>
             (\<forall>f\<in>set body. fun_free (field_type f) \<and> Suc (ty_depth (field_type f)) < env_stack E)"
  shows "\<exists>s. toString E t = Some s"
  using assms by (rule toString_some)

theorem toString_returns_witness:
  "\<exists>s. toString (bodies_env [''node'' \<mapsto> [\<lparr>field_type = TPointer (TRecord ''node'') 0, field_offset = 0\<rparr>]])
         (TRecord ''node'') = Some s"
  by (rule toString_returns) simp_all

text \<open>Printing a record that holds a pointer to a function returning that same record (by
  value) never returns, whatever the size of the stack: the return type of a function is
  printed verbosely, which prints the record's body again.\<close>

theorem toString_fnptr_record_diverges:
  assumes "env_bodies E nm = Some body"
    and "f \<in> set body" "field_type f = TPointer (TFunction (TRecord nm) as) ms"
  shows "toString E (TRecord nm) = None"
  unfolding toString_def using assms by (rule type_to_string_fnptr_loop)

theorem toString_fnptr_record_diverges_witness:
  "toString (bodies_env [''S'' \<mapsto> [\<lparr>field_type = TPointer (TFunction (TRecord ''S'') []) 0, field_offset = 0\<rparr>]])
     (TRecord ''S'') = None"
  by (rule toString_fnptr_record_diverges[where nm = "''S''" and
        body = "[\<lparr>field_type = TPointer (TFunction (TRecord ''S'') []) 0, field_offset = 0\<rparr>]" and as = "[]" and ms = 0
        and f = "\<lparr>field_type = TPointer (TFunction (TRecord ''S'') []) 0, field_offset = 0\<rparr>"])
    simp_all

text \<open>The index \<open>offsetToIndex\<close> computes is the index of the field \<open>getFieldByOffset\<close>
  finds, and for an offset no field has it is an index that is out of range.\<close>

theorem offsetToIndex_getFieldByOffset:
  assumes "length body < 2 ^ 64"
  shows "RecordBody_at body (offsetToIndex body off) = getFieldByOffset body off"
  using assms by (rule offsetToIndex_lookup)

theorem offsetToIndex_getFieldByOffset_witness:
  "RecordBody_at [\<lparr>field_type = TBool, field_offset = 0\<rparr>, \<lparr>field_type = TFloat, field_offset = 64\<rparr>]
     (offsetToIndex [\<lparr>field_type = TBool, field_offset = 0\<rparr>, \<lparr>field_type = TFloat, field_offset = 64\<rparr>] 64)
   = Some \<lparr>field_type = TFloat, field_offset = 64\<rparr>"
  by (subst offsetToIndex_getFieldByOffset) simp_all

text \<open>The offset of field \<open>idx\<close> of a record is the sum of the sizes of the fields before it,
  truncated to the 32 bits of the loop's accumulator, although sizes and the result are 64 bits
  wide; the sizes themselves are the exact numbers of cells.\<close>

theorem getStructOffsetInElems_spec:
  assumes "env_bodies E nm = Some body" "length body < 2 ^ 32" "unat idx \<le> length body"
    and "omap (\<lambda>f. cells E (env_stack E) (field_type f)) body = Some ns"
    and "\<And>f. f \<in> set body \<Longrightarrow> sums_fit E (env_stack E) (field_type f)"
  shows "getStructOffsetInElems E (TRecord nm) idx =
         Some (of_nat (sum_list (take (unat idx) ns) mod 2 ^ 32))"
  using assms by (rule struct_offset_cells)

theorem getStructOffsetInElems_spec_witness:
  "getStructOffsetInElems
     (bodies_env [''big'' \<mapsto> [\<lparr>field_type = TArray TBool (Some 0x100000001), field_offset = 0\<rparr>,
                            \<lparr>field_type = TFloat, field_offset = 0x800000008\<rparr>]])
     (TRecord ''big'') 1 = Some 1"
proof -
  let ?body = "[\<lparr>field_type = TArray TBool (Some 0x100000001), field_offset = 0\<rparr>,
                \<lparr>field_type = TFloat, field_offset = 0x800000008\<rparr>]"
  have "omap (\<lambda>f. cells (bodies_env [''big'' \<mapsto> ?body]) 100 (field_type f)) ?body = Some [4294967297, 1]"
    by (simp add: cells_numeral)
  moreover have "sums_fit (bodies_env [''big'' \<mapsto> ?body]) 100 (field_type f)" if "f \<in> set ?body" for f
    using that by (auto simp: sums_fit_numeral)
  ultimately have "getStructOffsetInElems (bodies_env [''big'' \<mapsto> ?body]) (TRecord ''big'') 1 =
      Some (of_nat (sum_list (take (unat (1 :: uint)) [4294967297, 1]) mod 2 ^ 32))"
    by (intro getStructOffsetInElems_spec[where body = ?body and ns = "[4294967297, 1]"]) simp_all
  then show ?thesis by simp
qed

text \<open>C38: The record names collected from a type are exactly the names of the records reachable
  through pointers, arrays, function types and record bodies, each once; and the traversal
  returns on every stack deep enough for one visit of each record.\<close>

theorem RecordNameCollector_correct:
  assumes "registry_ok E N d" "direct t \<subseteq> N" "full_depth t + card N * Suc d < k"
  shows "\<exists>ns. collect_names E k t [] = Some ns \<and> set ns = {nm. reach_rec E t nm} \<and> distinct ns"
proof -
  obtain ns where "collect_names E k t [] = Some ns"
    using collect_names_returns[of E N d t "[]" k] assms by auto
  then show ?thesis using collect_names_reach by blast
qed

theorem RecordNameCollector_correct_witness:
  "\<exists>ns. collect_names (bodies_env [''list'' \<mapsto> [\<lparr>field_type = TPointer (TRecord ''list'') 0, field_offset = 0\<rparr>]])
       10 (TPointer (TRecord ''list'') 0) [] = Some ns \<and> set ns = {''list''}"
proof -
  let ?E = "bodies_env [''list'' \<mapsto> [\<lparr>field_type = TPointer (TRecord ''list'') 0, field_offset = 0\<rparr>]]"
  have r: "registry_ok ?E {''list''} 1" by (simp add: registry_ok_def)
  obtain ns where ns: "collect_names ?E 10 (TPointer (TRecord ''list'') 0) [] = Some ns"
      "set ns = {nm. reach_rec ?E (TPointer (TRecord ''list'') 0) nm}"
    using RecordNameCollector_correct[OF r, of "TPointer (TRecord ''list'') 0" 10] by auto
  have "ns = [''list'']" using ns(1)
    by (simp add: collect_names_numeral RecordBodyRef_get_def RecordRegistry_at_def)
  then show ?thesis using ns by simp
qed

end
