(* ===== verification/TypeFactory.thy ===== *)
theory TypeFactory
  imports Types
begin

text \<open>
  The structural content of \<open>TypeFactory\<close> (src/Type/TypeFactory.cpp): the constructors it
  applies, the merge of two types and the registration of record bodies.  The factory interns
  its types, so that the code compares types by address; the theory TypePool models the caches
  and shows that comparing addresses is comparing the values of \<open>Type\<close>, as done here.
\<close>

definition getBool :: Type where
  "getBool = TBool"

text \<open>The factory's parameter is a \<open>size_t\<close>, the field an \<open>unsigned int\<close>.\<close>

definition getInteger :: "size_t \<Rightarrow> Signedness \<Rightarrow> Type" where
  "getInteger bits sign = TInteger (ucast bits) sign"

definition getFloat :: Type where
  "getFloat = TFloat"

definition getUnknownType :: Type where
  "getUnknownType = TUnknown"

definition getPointer :: "Type \<Rightarrow> size_t \<Rightarrow> Type" where
  "getPointer to ms = (if isInvalid to then to else TPointer to ms)"

definition getArray :: "Type \<Rightarrow> size_t \<Rightarrow> Type" where
  "getArray elem sz = (if isInvalid elem then elem
     else TArray elem (if sz \<noteq> 0 then Some sz else None))"

text \<open>\<open>getRecord\<close> for a call without an LLVM structure type.\<close>

definition getRecord :: "string \<Rightarrow> Type" where
  "getRecord nm = TRecord nm"

definition getTypeError :: "string \<Rightarrow> Type" where
  "getTypeError msg = TTypeError msg"

definition getFunction :: "Type \<Rightarrow> Type list \<Rightarrow> Type" where
  "getFunction r as = TFunction r as"

definition merge :: "env \<Rightarrow> Type \<Rightarrow> Type \<Rightarrow> Type option" where
  "merge E one two =
    (if isInvalid one then Some one
     else if isInvalid two then Some two
     else if isUnknown one then Some two
     else if isUnknown two then Some one
     else if one = two then Some one
     else case (one, two) of
       (TInteger b1 s1, TInteger b2 s2) \<Rightarrow> Some (getInteger (ucast (max b1 b2)) Unknown)
     | (TPointer p1 m1, TInteger b2 s2) \<Rightarrow> Some one
     | (TInteger b1 s1, TPointer p2 m2) \<Rightarrow> Some two
     | (TPointer p1 m1, TPointer p2 m2) \<Rightarrow>
         (if p1 = p2 then Some one else Some (getPointer getUnknownType 0))
     | _ \<Rightarrow> do {
         s1 \<leftarrow> toString E one;
         s2 \<leftarrow> toString E two;
         Some (getTypeError (''Unmergeable types: '' @ s1 @ '' and '' @ s2)) })"

definition mergeRecordBodyInto :: "RecordBody \<Rightarrow> RecordBody \<Rightarrow> RecordBody" where
  "mergeRecordBodyInto lhv rhv = (if lhv = [] then rhv else lhv)"

definition embedRecordBodyNoRecursion :: "RecordRegistry \<Rightarrow> string \<Rightarrow> RecordBody \<Rightarrow> Type \<times> RecordRegistry" where
  "embedRecordBodyNoRecursion reg nm body =
     (let (old, reg') = RecordRegistry_index reg nm in
      (getRecord nm, reg'(nm \<mapsto> mergeRecordBodyInto old body)))"

section \<open>Facts\<close>

lemma isValid_simps [simp]:
  "isValid (TInteger b s)" "isValid TBool" "isValid TFloat" "isValid TUnknown"
  "isValid (TPointer p m)" "isValid (TArray e sz)" "isValid (TRecord n)"
  "\<not> isValid (TTypeError msg)" "isValid (TFunction r as)"
  by (simp_all add: isValid_def)

lemma isUnknown_iff [simp]: "isUnknown t \<longleftrightarrow> t = TUnknown"
  by (cases t) (simp_all add: isUnknown_def)

lemma isInvalid_iff: "isInvalid t \<longleftrightarrow> (\<exists>msg. t = TTypeError msg)"
  by (cases t) (simp_all add: isInvalid_def)

lemma isConcrete_iff: "isConcrete t \<longleftrightarrow> isValid t \<and> \<not> isUnknown t"
  by (cases t) (simp_all add: isConcrete_def)

lemma getInteger_ucast [simp]: "getInteger (ucast (b :: uint)) s = TInteger b s"
  by (simp add: getInteger_def ucast_ucast_u32)

text \<open>When two valid types merge into a valid type.\<close>

fun mergeable :: "Type \<Rightarrow> Type \<Rightarrow> bool" where
  "mergeable (TInteger _ _) (TInteger _ _) = True"
| "mergeable (TPointer _ _) (TPointer _ _) = True"
| "mergeable (TPointer _ _) (TInteger _ _) = True"
| "mergeable (TInteger _ _) (TPointer _ _) = True"
| "mergeable a b = (a = TUnknown \<or> b = TUnknown \<or> a = b)"

lemma mergeable_sym: "mergeable a b = mergeable b a"
  by (cases a; cases b) auto

lemma mergeable_refl [simp]: "mergeable a a"
  by (cases a) auto

lemma merge_valid_iff:
  assumes "merge E a b = Some t"
  shows "isValid t \<longleftrightarrow> isValid a \<and> isValid b \<and> mergeable a b"
  using assms
  by (cases a; cases b)
    (auto simp: merge_def isInvalid_def getTypeError_def getPointer_def getUnknownType_def
       bind_Some_iff split: if_splits)

lemma merge_mergeable:
  "isValid a \<Longrightarrow> isValid b \<Longrightarrow> mergeable a b \<Longrightarrow> \<exists>t. merge E a b = Some t"
  by (cases a; cases b)
    (auto simp: merge_def isInvalid_def split: if_splits)

text \<open>Equality of types up to the memory space of a top-level pointer.\<close>

fun same_but_memspace :: "Type \<Rightarrow> Type \<Rightarrow> bool" where
  "same_but_memspace (TPointer p m) (TPointer q n) = (p = q)"
| "same_but_memspace a b = (a = b)"

lemma same_but_memspace_refl [simp]: "same_but_memspace a a"
  by (cases a) auto

fun mrg :: "Type \<Rightarrow> Type \<Rightarrow> Type" where
  "mrg TUnknown b = b"
| "mrg a TUnknown = a"
| "mrg (TInteger b1 s1) (TInteger b2 s2) =
    (if b1 = b2 \<and> s1 = s2 then TInteger b1 s1 else TInteger (max b1 b2) Unknown)"
| "mrg (TInteger b s) (TPointer p m) = TPointer p m"
| "mrg (TPointer p m) (TPointer q n) = (if p = q then TPointer p m else TPointer TUnknown 0)"
| "mrg a b = a"

lemma merge_mrg: "isValid a \<Longrightarrow> isValid b \<Longrightarrow> mergeable a b \<Longrightarrow> merge E a b = Some (mrg a b)"
  by (cases a; cases b)
    (auto simp: merge_def isInvalid_def getPointer_def getUnknownType_def getTypeError_def split: if_splits)

lemma mrg_valid: "isValid a \<Longrightarrow> isValid b \<Longrightarrow> isValid (mrg a b)"
  by (cases a; cases b) auto

lemma mrg_comm: "mergeable a b \<Longrightarrow> same_but_memspace (mrg a b) (mrg b a)"
  by (cases a; cases b) (auto simp: max.commute)

lemma mrg_int_assoc:
  "mrg (mrg (TInteger b1 s1) (TInteger b2 s2)) (TInteger b3 s3) =
   mrg (TInteger b1 s1) (mrg (TInteger b2 s2) (TInteger b3 s3))"
proof -
  consider "b1 = b2 \<and> s1 = s2" | "b2 = b3 \<and> s2 = s3" | "\<not> (b1 = b2 \<and> s1 = s2)" "\<not> (b2 = b3 \<and> s2 = s3)"
    by blast
  then show ?thesis
    by cases (auto simp: max_def)
qed

lemma mrg_assoc_cases:
  "mergeable a b \<Longrightarrow> mergeable (mrg a b) c \<Longrightarrow>
   mergeable b c \<and> mergeable a (mrg b c) \<and> same_but_memspace (mrg (mrg a b) c) (mrg a (mrg b c))"
proof (cases a)
  case a: (TInteger b1 s1)
  assume m: "mergeable a b" "mergeable (mrg a b) c"
  show ?thesis
  proof (cases "\<exists>b2 s2 b3 s3. b = TInteger b2 s2 \<and> c = TInteger b3 s3")
    case True
    then show ?thesis using a mrg_int_assoc by fastforce
  next
    case False
    then show ?thesis using m a by (cases b; cases c) (auto split: if_splits)
  qed
next
  case a: (TPointer b1 s1)
  assume m: "mergeable a b" "mergeable (mrg a b) c"
  show ?thesis using m a by (cases b; cases c) (auto split: if_splits)
next
  case a: TUnknown
  assume m: "mergeable a b" "mergeable (mrg a b) c"
  show ?thesis using m a by simp
qed (cases b; cases c; auto)+

lemma merge_SomeD:
  assumes "merge E a b = Some t" "isValid t"
  shows "isValid a" "isValid b" "mergeable a b" "t = mrg a b"
proof -
  show "isValid a" "isValid b" "mergeable a b"
    using merge_valid_iff[OF assms(1)] assms(2) by auto
  then show "t = mrg a b" using merge_mrg[of a b E] assms(1) by simp
qed

section \<open>Properties\<close>

text \<open>Where the results are valid, \<open>merge\<close> is commutative and associative up to the memory
  space of a pointer: the order in which the types of the operands of a term are merged does not
  change the type the term gets, nor whether it has one.\<close>

theorem merge_comm_assoc:
  assumes "merge E a b = Some ab" "merge E ab c = Some x" "isValid x"
  shows "\<exists>ba bc y. merge E b a = Some ba \<and> same_but_memspace ab ba \<and>
           merge E b c = Some bc \<and> merge E a bc = Some y \<and> same_but_memspace x y \<and> isValid y"
proof -
  note x = merge_SomeD[OF assms(2,3)]
  note ab = merge_SomeD[OF assms(1) x(1)]
  note as = mrg_assoc_cases[OF ab(3) x(3)[unfolded ab(4)]]
  have "merge E b a = Some (mrg b a)" "merge E b c = Some (mrg b c)"
      "merge E a (mrg b c) = Some (mrg a (mrg b c))" "isValid (mrg a (mrg b c))"
    using ab x as mergeable_sym mrg_valid by (auto intro!: merge_mrg)
  then show ?thesis using mrg_comm[OF ab(3)] ab(4) x(4) as by auto
qed

theorem merge_comm_assoc_witness:
  "\<exists>ba bc y. merge empty_env (TInteger 8 Signed) (TPointer TBool 0) = Some ba \<and>
     same_but_memspace (TPointer TBool 0) ba \<and>
     merge empty_env (TInteger 8 Signed) (TInteger 16 Signed) = Some bc \<and>
     merge empty_env (TPointer TBool 0) bc = Some y \<and> same_but_memspace (TPointer TBool 0) y \<and> isValid y"
  by (rule merge_comm_assoc[where a = "TPointer TBool 0" and b = "TInteger 8 Signed"])
    (simp_all add: merge_def isInvalid_def)

text \<open>The result of \<open>merge\<close> is valid exactly for two valid types that are equal, or of which
  one is unknown, or that are both integers or pointers; it then is an unknown-unit, idempotent
  choice, and otherwise it is an error type.\<close>

theorem merge_validity:
  "(isValid a \<and> isValid b \<and> mergeable a b \<longrightarrow> merge E a b = Some (mrg a b) \<and> isValid (mrg a b)) \<and>
   (\<not> (isValid a \<and> isValid b \<and> mergeable a b) \<longrightarrow>
      (case merge E a b of None \<Rightarrow> True | Some t \<Rightarrow> isInvalid t))"
  using merge_valid_iff[of E a b] by (auto simp: merge_mrg mrg_valid isInvalid_def split: option.splits)

theorem merge_validity_witness:
  "merge empty_env (TInteger 8 Signed) (TInteger 32 Signed) = Some (TInteger 32 Unknown) \<and>
   (case merge empty_env TBool TFloat of None \<Rightarrow> True | Some t \<Rightarrow> isInvalid t)"
  using merge_validity[of "TInteger 8 Signed" "TInteger 32 Signed" empty_env]
    merge_validity[of TBool TFloat empty_env] by simp

text \<open>The first body registered for a record name stays: registering a body answers the
  record type and changes the registry at that name only, where a body that is not empty is kept.\<close>

theorem embedRecordBody_first_wins:
  "embedRecordBodyNoRecursion reg nm body = (t, reg') \<Longrightarrow>
   t = TRecord nm \<and> (\<forall>nm'. nm' \<noteq> nm \<longrightarrow> reg' nm' = reg nm') \<and>
   reg' nm = Some (case reg nm of Some (f # fs) \<Rightarrow> f # fs | _ \<Rightarrow> body) \<and>
   (body \<noteq> [] \<longrightarrow> embedRecordBodyNoRecursion reg' nm body' = (t, reg'))"
  by (auto simp: embedRecordBodyNoRecursion_def RecordRegistry_index_def mergeRecordBodyInto_def
      getRecord_def fun_upd_idem split: option.splits list.splits)

theorem embedRecordBody_first_wins_witness:
  "embedRecordBodyNoRecursion [''S'' \<mapsto> [\<lparr>field_type = TBool, field_offset = 0\<rparr>]] ''S''
     [\<lparr>field_type = TFloat, field_offset = 0\<rparr>] =
   (TRecord ''S'', [''S'' \<mapsto> [\<lparr>field_type = TBool, field_offset = 0\<rparr>]])"
  using embedRecordBody_first_wins[of "[''S'' \<mapsto> [\<lparr>field_type = TBool, field_offset = 0\<rparr>]]" "''S''"
      "[\<lparr>field_type = TFloat, field_offset = 0\<rparr>]"]
  by (simp add: embedRecordBodyNoRecursion_def RecordRegistry_index_def getRecord_def mergeRecordBodyInto_def)

end
