(* ===== verification/TypePool.thy ===== *)
theory TypePool
  imports TypeFactory
begin

text \<open>
  The hash-consing of \<open>TypeFactory\<close>: a heap of allocated type objects, addressed by their
  allocation number, and the factory's caches from constructor arguments to addresses.  The
  \<open>get...\<close> operations are the factory's, on addresses.  \<open>decode\<close> reads the value of
  \<open>Type\<close> an address stands for.  The invariant \<open>pool_inv\<close> says that every object is in the
  cache of its class under its own arguments, from which follows that two addresses are equal
  exactly when the types they stand for are: the comparisons of \<open>Type::Ptr\<close> in the rest of the
  code are comparisons of values.
\<close>

datatype type_obj =
    OInteger uint Signedness
  | OBool
  | OFloat
  | OUnknown
  | OPointer nat size_t
  | OArray nat "size_t option"
  | ORecord string
  | OTypeError string
  | OFunction nat "nat list"

record pool =
  objects :: "type_obj list"
  theBool :: "nat option"
  theFloat :: "nat option"
  theUnknown :: "nat option"
  integers :: "size_t \<times> Signedness \<rightharpoonup> nat"
  pointers :: "nat \<times> size_t \<rightharpoonup> nat"
  arrays :: "nat \<times> size_t \<rightharpoonup> nat"
  errors :: "string \<rightharpoonup> nat"
  records :: "string \<rightharpoonup> nat"
  function_types :: "nat list \<rightharpoonup> nat"

definition empty_pool :: pool where
  "empty_pool = \<lparr>objects = [], theBool = None, theFloat = None, theUnknown = None,
     integers = Map.empty, pointers = Map.empty, arrays = Map.empty, errors = Map.empty,
     records = Map.empty, function_types = Map.empty\<rparr>"

definition alloc :: "type_obj \<Rightarrow> pool \<Rightarrow> nat \<times> pool" where
  "alloc ob P = (length (objects P), P\<lparr>objects := objects P @ [ob]\<rparr>)"

definition obj_isInvalid :: "pool \<Rightarrow> nat \<Rightarrow> bool" where
  "obj_isInvalid P a = (case vector_at (objects P) a of Some (OTypeError _) \<Rightarrow> True | _ \<Rightarrow> False)"

definition pool_getBool :: "pool \<Rightarrow> nat \<times> pool" where
  "pool_getBool P = (case theBool P of
     None \<Rightarrow> (let (a, P') = alloc OBool P in (a, P'\<lparr>theBool := Some a\<rparr>))
   | Some a \<Rightarrow> (a, P))"

definition pool_getInteger :: "size_t \<Rightarrow> Signedness \<Rightarrow> pool \<Rightarrow> nat \<times> pool" where
  "pool_getInteger bs sg P = (case integers P (bs, sg) of
     Some a \<Rightarrow> (a, P)
   | None \<Rightarrow> (let (a, P') = alloc (OInteger (ucast bs) sg) P
             in (a, P'\<lparr>integers := (integers P')((bs, sg) \<mapsto> a)\<rparr>)))"

definition pool_getFloat :: "pool \<Rightarrow> nat \<times> pool" where
  "pool_getFloat P = (case theFloat P of
     None \<Rightarrow> (let (a, P') = alloc OFloat P in (a, P'\<lparr>theFloat := Some a\<rparr>))
   | Some a \<Rightarrow> (a, P))"

definition pool_getUnknownType :: "pool \<Rightarrow> nat \<times> pool" where
  "pool_getUnknownType P = (case theUnknown P of
     None \<Rightarrow> (let (a, P') = alloc OUnknown P in (a, P'\<lparr>theUnknown := Some a\<rparr>))
   | Some a \<Rightarrow> (a, P))"

definition pool_getPointer :: "nat \<Rightarrow> size_t \<Rightarrow> pool \<Rightarrow> nat \<times> pool" where
  "pool_getPointer to ms P =
     (if obj_isInvalid P to then (to, P)
      else case pointers P (to, ms) of
        Some a \<Rightarrow> (a, P)
      | None \<Rightarrow> (let (a, P') = alloc (OPointer to ms) P
                in (a, P'\<lparr>pointers := (pointers P')((to, ms) \<mapsto> a)\<rparr>)))"

definition pool_getArray :: "nat \<Rightarrow> size_t \<Rightarrow> pool \<Rightarrow> nat \<times> pool" where
  "pool_getArray elem sz P =
     (if obj_isInvalid P elem then (elem, P)
      else case arrays P (elem, sz) of
        Some a \<Rightarrow> (a, P)
      | None \<Rightarrow> (let (a, P') = alloc (OArray elem (if sz \<noteq> 0 then Some sz else None)) P
                in (a, P'\<lparr>arrays := (arrays P')((elem, sz) \<mapsto> a)\<rparr>)))"

definition pool_getRecord :: "string \<Rightarrow> pool \<Rightarrow> nat \<times> pool" where
  "pool_getRecord nm P = (case records P nm of
     Some a \<Rightarrow> (a, P)
   | None \<Rightarrow> (let (a, P') = alloc (ORecord nm) P
             in (a, P'\<lparr>records := (records P')(nm \<mapsto> a)\<rparr>)))"

definition pool_getTypeError :: "string \<Rightarrow> pool \<Rightarrow> nat \<times> pool" where
  "pool_getTypeError msg P = (case errors P msg of
     Some a \<Rightarrow> (a, P)
   | None \<Rightarrow> (let (a, P') = alloc (OTypeError msg) P
             in (a, P'\<lparr>errors := (errors P')(msg \<mapsto> a)\<rparr>)))"

definition pool_getFunction :: "nat \<Rightarrow> nat list \<Rightarrow> pool \<Rightarrow> nat \<times> pool" where
  "pool_getFunction r as P = (case function_types P (r # as) of
     Some a \<Rightarrow> (a, P)
   | None \<Rightarrow> (let (a, P') = alloc (OFunction r as) P
             in (a, P'\<lparr>function_types := (function_types P')(r # as \<mapsto> a)\<rparr>)))"

section \<open>The types the addresses stand for\<close>

function decode :: "type_obj list \<Rightarrow> nat \<Rightarrow> Type option" where
  "decode obs a = (case vector_at obs a of
     None \<Rightarrow> None
   | Some (OInteger bs sg) \<Rightarrow> Some (TInteger bs sg)
   | Some OBool \<Rightarrow> Some TBool
   | Some OFloat \<Rightarrow> Some TFloat
   | Some OUnknown \<Rightarrow> Some TUnknown
   | Some (OPointer p ms) \<Rightarrow> (if p < a then map_option (\<lambda>t. TPointer t ms) (decode obs p) else None)
   | Some (OArray e sz) \<Rightarrow> (if e < a then map_option (\<lambda>t. TArray t sz) (decode obs e) else None)
   | Some (ORecord nm) \<Rightarrow> Some (TRecord nm)
   | Some (OTypeError msg) \<Rightarrow> Some (TTypeError msg)
   | Some (OFunction r as) \<Rightarrow>
       (if r < a \<and> (\<forall>b\<in>set as. b < a)
        then do { t \<leftarrow> decode obs r; ts \<leftarrow> omap (\<lambda>b. if b < a then decode obs b else None) as;
                  Some (TFunction t ts) }
        else None))"
  by pat_completeness auto
termination
  by (relation "measure snd") auto

declare decode.simps [simp del]

fun refs :: "type_obj \<Rightarrow> nat set" where
  "refs (OPointer p ms) = {p}"
| "refs (OArray e sz) = {e}"
| "refs (OFunction r as) = insert r (set as)"
| "refs ob = {}"

fun cached :: "pool \<Rightarrow> nat \<Rightarrow> type_obj \<Rightarrow> bool" where
  "cached P a (OInteger bs sg) = (\<exists>k. integers P (k, sg) = Some a \<and> ucast k = bs)"
| "cached P a OBool = (theBool P = Some a)"
| "cached P a OFloat = (theFloat P = Some a)"
| "cached P a OUnknown = (theUnknown P = Some a)"
| "cached P a (OPointer p ms) = (pointers P (p, ms) = Some a)"
| "cached P a (OArray e sz) = (arrays P (e, case sz of Some n \<Rightarrow> n | None \<Rightarrow> 0) = Some a \<and> sz \<noteq> Some 0)"
| "cached P a (ORecord nm) = (records P nm = Some a)"
| "cached P a (OTypeError msg) = (errors P msg = Some a)"
| "cached P a (OFunction r as) = (function_types P (r # as) = Some a)"

text \<open>Every cache entry points to the object built from its key, every object is in its cache,
  refers to older objects only, and the integers asked for so far fit the 32-bit field.\<close>

definition caches_sound :: "pool \<Rightarrow> bool" where
  "caches_sound P = (
     (\<forall>a. theBool P = Some a \<longrightarrow> vector_at (objects P) a = Some OBool) \<and>
     (\<forall>a. theFloat P = Some a \<longrightarrow> vector_at (objects P) a = Some OFloat) \<and>
     (\<forall>a. theUnknown P = Some a \<longrightarrow> vector_at (objects P) a = Some OUnknown) \<and>
     (\<forall>bs sg a. integers P (bs, sg) = Some a \<longrightarrow>
        vector_at (objects P) a = Some (OInteger (ucast bs) sg) \<and> unat bs < 2 ^ 32) \<and>
     (\<forall>p ms a. pointers P (p, ms) = Some a \<longrightarrow> vector_at (objects P) a = Some (OPointer p ms)) \<and>
     (\<forall>e sz a. arrays P (e, sz) = Some a \<longrightarrow>
        vector_at (objects P) a = Some (OArray e (if sz \<noteq> 0 then Some sz else None))) \<and>
     (\<forall>m a. errors P m = Some a \<longrightarrow> vector_at (objects P) a = Some (OTypeError m)) \<and>
     (\<forall>n a. records P n = Some a \<longrightarrow> vector_at (objects P) a = Some (ORecord n)) \<and>
     (\<forall>r as a. function_types P (r # as) = Some a \<longrightarrow> vector_at (objects P) a = Some (OFunction r as)))"

definition pool_inv :: "pool \<Rightarrow> bool" where
  "pool_inv P = (caches_sound P \<and>
     (\<forall>a < length (objects P). cached P a (objects P ! a) \<and> (\<forall>b\<in>refs (objects P ! a). b < a)))"

section \<open>Facts\<close>

lemma vector_at_append: "vector_at xs a = Some x \<Longrightarrow> vector_at (xs @ ys) a = Some x"
  by (auto simp: vector_at_eq_Some nth_append)

lemma vector_at_last [simp]: "vector_at (xs @ [x]) (length xs) = Some x"
  by (simp add: vector_at_eq_Some)

lemma decode_append:
  "a < length obs \<Longrightarrow> decode (obs @ ext) a = decode obs a"
proof (induction a rule: less_induct)
  case (less a)
  have v: "vector_at (obs @ ext) a = vector_at obs a" using less.prems
    by (simp add: nth_append)
  have d: "decode (obs @ ext) b = decode obs b" if "b < a" for b
    using less.IH that less.prems by simp
  have o: "omap (\<lambda>b. if b < a then decode (obs @ ext) b else None) as =
           omap (\<lambda>b. if b < a then decode obs b else None) as" for as
    by (rule omap_cong) (simp_all add: d)
  show ?case
    by (subst (1 2) decode.simps) (simp add: v d o split: option.split type_obj.split)
qed

lemma decode_total:
  "pool_inv P \<Longrightarrow> a < length (objects P) \<Longrightarrow> \<exists>t. decode (objects P) a = Some t"
proof (induction a rule: less_induct)
  case (less a)
  have r: "\<forall>b\<in>refs (objects P ! a). b < a" using less.prems by (simp add: pool_inv_def)
  have d: "\<exists>t. decode (objects P) b = Some t" if "b < a" for b
    using less.IH[OF that] less.prems that by simp
  have "omap (\<lambda>b. if b < a then decode (objects P) b else None) as \<noteq> None" if "\<forall>b\<in>set as. b < a" for as
    using that d by (auto simp: omap_eq_None)
  then show ?case using less.prems r d
    by (subst decode.simps) (fastforce split: type_obj.splits)
qed

lemma pool_cached:
  "pool_inv P \<Longrightarrow> a < length (objects P) \<Longrightarrow> objects P ! a = ob \<Longrightarrow> cached P a ob"
  by (auto simp: pool_inv_def)

lemma pool_refs:
  "pool_inv P \<Longrightarrow> a < length (objects P) \<Longrightarrow> objects P ! a = ob \<Longrightarrow> b \<in> refs ob \<Longrightarrow> b < a"
  by (auto simp: pool_inv_def)

lemma pool_refs_at:
  "pool_inv P \<Longrightarrow> vector_at (objects P) a = Some ob \<Longrightarrow> b \<in> refs ob \<Longrightarrow> b < a"
  by (auto simp: pool_inv_def vector_at_eq_Some)

lemma integers_same:
  assumes "pool_inv P" "integers P (k, sg) = Some a" "integers P (k', sg) = Some b"
    and "(ucast k :: uint) = ucast k'"
  shows "a = b"
proof -
  have "unat k < 2 ^ 32" "unat k' < 2 ^ 32"
    using assms(1-3) unfolding pool_inv_def caches_sound_def by blast+
  moreover have "take_bit 32 (unat k) = take_bit 32 (unat k')"
    using arg_cong[OF assms(4), of unat] by (simp add: unsigned_ucast_eq)
  ultimately have "k = k'" by (simp add: take_bit_eq_mod word_unat_eq_iff)
  then show ?thesis using assms(2,3) by simp
qed

lemma decode_inj:
  assumes inv: "pool_inv P"
  shows "a < length (objects P) \<Longrightarrow> b < length (objects P) \<Longrightarrow>
         decode (objects P) a = decode (objects P) b \<Longrightarrow> a = b"
proof (induction a arbitrary: b rule: less_induct)
  case (less a)
  note ca = pool_cached[OF inv less.prems(1) refl] and cb = pool_cached[OF inv less.prems(2) refl]
  note ra = pool_refs[OF inv less.prems(1) refl] and rb = pool_refs[OF inv less.prems(2) refl]
  obtain t where t: "decode (objects P) a = Some t" using decode_total[OF inv less.prems(1)] by blast
  note ta = t[unfolded decode.simps[of "objects P" a]]
  note tb = t[unfolded less.prems(3) decode.simps[of "objects P" b]]
  have eq: "p = q" if "p < a" "q < b" "decode (objects P) p = Some x" "decode (objects P) q = Some x" for p q x
    using less.IH[OF that(1), of q] less.prems that by simp
  have eqs: "as = bs" if "omap (\<lambda>c. if c < a then decode (objects P) c else None) as = Some ts"
     "omap (\<lambda>c. if c < b then decode (objects P) c else None) bs = Some ts" for as bs ts
    using that
  proof (induction as arbitrary: bs ts)
    case Nil
    then show ?case by (cases bs) (auto simp: bind_Some_iff)
  next
    case (Cons x xs)
    then obtain t' ts' where ts: "ts = t' # ts'" "x < a" "decode (objects P) x = Some t'"
        "omap (\<lambda>c. if c < a then decode (objects P) c else None) xs = Some ts'"
      by (auto simp: bind_Some_iff split: if_splits)
    then obtain y ys where ys: "bs = y # ys" "y < b" "decode (objects P) y = Some t'"
        "omap (\<lambda>c. if c < b then decode (objects P) c else None) ys = Some ts'"
      using Cons.prems(2) by (cases bs) (auto simp: bind_Some_iff split: if_splits)
    show ?case using ts ys eq Cons.IH by auto
  qed
  show ?case
  proof (cases "objects P ! a")
    case oa: (OFunction r as)
    then obtain r' as' where ob: "objects P ! b = OFunction r' as'"
      using ta tb less.prems by (auto simp: bind_Some_iff split: type_obj.splits if_splits)
    have "r = r' \<and> as = as'"
      using oa ob ta tb less.prems eq eqs by (auto simp: bind_Some_iff split: if_splits)
    then show ?thesis using oa ob ca cb by simp
  next
    case oa: (OArray e sz)
    then obtain e' where ob: "objects P ! b = OArray e' sz" "e < a" "e' < b"
        "decode (objects P) e = decode (objects P) e'"
      using ta tb less.prems by (auto simp: bind_Some_iff split: type_obj.splits if_splits)
    then have "e = e'" using eq less.IH[OF ob(2), of e'] less.prems by simp
    then show ?thesis using oa ob(1) ca cb by simp
  next
    case oa: (OPointer e sz)
    then obtain e' where ob: "objects P ! b = OPointer e' sz" "e < a" "e' < b"
        "decode (objects P) e = decode (objects P) e'"
      using ta tb less.prems by (auto simp: bind_Some_iff split: type_obj.splits if_splits)
    then have "e = e'" using eq less.IH[OF ob(2), of e'] less.prems by simp
    then show ?thesis using oa ob(1) ca cb by simp
  next
    case oa: (OInteger bs sg)
    then have ob: "objects P ! b = OInteger bs sg"
      using ta tb less.prems by (auto simp: bind_Some_iff split: type_obj.splits if_splits)
    then show ?thesis using oa ca cb integers_same[OF inv] by auto
  qed (use ta tb less.prems ca cb in \<open>auto simp: bind_Some_iff split: type_obj.splits if_splits\<close>)
qed


section \<open>The operations keep the invariant\<close>

lemma pool_inv_objI:
  "caches_sound P \<Longrightarrow> (\<And>a. a < length (objects P) \<Longrightarrow>
     cached P a (objects P ! a) \<and> (\<forall>b\<in>refs (objects P ! a). b < a)) \<Longrightarrow> pool_inv P"
  by (simp add: pool_inv_def)

text \<open>Interning: the result of an operation on a pool.\<close>

definition interns :: "pool \<Rightarrow> Type option \<Rightarrow> nat \<times> pool \<Rightarrow> bool" where
  "interns P t r = (case r of (a, P') \<Rightarrow> pool_inv P' \<and> a < length (objects P') \<and>
     decode (objects P') a = t \<and> (\<exists>new. objects P' = objects P @ new))"

lemma interns_hit:
  "pool_inv P \<Longrightarrow> a < length (objects P) \<Longrightarrow> decode (objects P) a = t \<Longrightarrow> interns P t (a, P)"
  by (simp add: interns_def)

lemma cached_new:
  assumes "\<And>a. a < length (objects P) \<Longrightarrow> cached P' a (objects P ! a)"
    and "objects P' = objects P @ [ob]" "cached P' (length (objects P)) ob"
    and "\<forall>b\<in>refs ob. b < length (objects P)" "pool_inv P" "caches_sound P'"
    and "decode (objects P @ [ob]) (length (objects P)) = t"
  shows "interns P t (length (objects P), P')"
proof -
  have "cached P' a (objects P' ! a) \<and> (\<forall>b\<in>refs (objects P' ! a). b < a)"
    if "a < length (objects P')" for a
  proof (cases "a < length (objects P)")
    case True
    then show ?thesis using assms by (simp add: nth_append pool_inv_def)
  next
    case False
    then have "a = length (objects P)" using that assms(2) by simp
    then show ?thesis using assms by simp
  qed
  then show ?thesis using assms by (auto simp: interns_def intro: pool_inv_objI)
qed

lemma caches_soundD:
  assumes "pool_inv P"
  shows "theBool P = Some a \<Longrightarrow> vector_at (objects P) a = Some OBool"
    "theFloat P = Some a \<Longrightarrow> vector_at (objects P) a = Some OFloat"
    "theUnknown P = Some a \<Longrightarrow> vector_at (objects P) a = Some OUnknown"
    "integers P (bs, sg) = Some a \<Longrightarrow> vector_at (objects P) a = Some (OInteger (ucast bs) sg)"
    "pointers P (p, ms) = Some a \<Longrightarrow> vector_at (objects P) a = Some (OPointer p ms)"
    "arrays P (e, sz) = Some a \<Longrightarrow>
       vector_at (objects P) a = Some (OArray e (if sz \<noteq> 0 then Some sz else None))"
    "errors P m = Some a \<Longrightarrow> vector_at (objects P) a = Some (OTypeError m)"
    "records P m = Some a \<Longrightarrow> vector_at (objects P) a = Some (ORecord m)"
    "function_types P (r # as) = Some a \<Longrightarrow> vector_at (objects P) a = Some (OFunction r as)"
  using assms unfolding pool_inv_def caches_sound_def by blast+

text \<open>A miss allocates the object and enters it into one cache; a hit answers the address whose
  object the cache describes.\<close>

lemma hit_by_object:
  assumes "pool_inv P" "vector_at (objects P) a = Some ob" "decode (objects P) a = t"
  shows "interns P t (a, P)"
  using assms by (auto simp: vector_at_eq_Some intro: interns_hit)

lemmas miss_simps = alloc_def caches_sound_def pool_inv_def vector_at_append

lemma getBool_interns: "pool_inv P \<Longrightarrow> interns P (Some getBool) (pool_getBool P)"
proof (cases "theBool P")
  case None
  assume inv: "pool_inv P"
  have "interns P (Some getBool) (length (objects P), P\<lparr>objects := objects P @ [OBool], theBool := Some (length (objects P))\<rparr>)"
  proof (rule cached_new[OF _ _ _ _ inv])
    show "cached (P\<lparr>objects := objects P @ [OBool], theBool := Some (length (objects P))\<rparr>) a (objects P ! a)"
      if "a < length (objects P)" for a
      using pool_cached[OF inv that refl] None by (cases "objects P ! a") auto
  qed (use inv in \<open>auto simp: miss_simps decode.simps getBool_def\<close>)
  then show ?thesis by (simp add: pool_getBool_def None alloc_def)
next
  case (Some a)
  assume inv: "pool_inv P"
  show ?thesis using caches_soundD(1)[OF inv Some] Some
    by (auto simp: pool_getBool_def decode.simps getBool_def intro!: hit_by_object inv)
qed

lemma getFloat_interns:
  assumes inv: "pool_inv P"
  shows "interns P (Some (getFloat)) (pool_getFloat P)"
proof (cases "theFloat P ")
  case None
  have "interns P (Some (getFloat)) (length (objects P), P\<lparr>objects := objects P @ [OFloat], theFloat := Some (length (objects P))\<rparr>)"
  proof (rule cached_new[OF _ _ _ _ inv])
    show "cached (P\<lparr>objects := objects P @ [OFloat], theFloat := Some (length (objects P))\<rparr>) a (objects P ! a)"
      if "a < length (objects P)" for a
      using pool_cached[OF inv that refl] None by (cases "objects P ! a") auto
  qed (use assms in \<open>auto simp: miss_simps decode.simps getFloat_def\<close>)
  then show ?thesis by (simp add: pool_getFloat_def None alloc_def)
next
  case (Some a)
  show ?thesis using caches_soundD(2)[OF inv Some] Some assms
    by (auto simp: pool_getFloat_def decode.simps[of _ a] getFloat_def intro!: hit_by_object)
qed

lemma getUnknownType_interns:
  assumes inv: "pool_inv P"
  shows "interns P (Some (getUnknownType)) (pool_getUnknownType P)"
proof (cases "theUnknown P ")
  case None
  have "interns P (Some (getUnknownType)) (length (objects P), P\<lparr>objects := objects P @ [OUnknown], theUnknown := Some (length (objects P))\<rparr>)"
  proof (rule cached_new[OF _ _ _ _ inv])
    show "cached (P\<lparr>objects := objects P @ [OUnknown], theUnknown := Some (length (objects P))\<rparr>) a (objects P ! a)"
      if "a < length (objects P)" for a
      using pool_cached[OF inv that refl] None by (cases "objects P ! a") auto
  qed (use assms in \<open>auto simp: miss_simps decode.simps getUnknownType_def\<close>)
  then show ?thesis by (simp add: pool_getUnknownType_def None alloc_def)
next
  case (Some a)
  show ?thesis using caches_soundD(3)[OF inv Some] Some assms
    by (auto simp: pool_getUnknownType_def decode.simps[of _ a] getUnknownType_def intro!: hit_by_object)
qed

lemma getInteger_interns:
  assumes inv: "pool_inv P" and bound: "unat bs < 2 ^ 32"
  shows "interns P (Some (getInteger bs sg)) (pool_getInteger bs sg P)"
proof (cases "integers P (bs, sg)")
  case None
  have "interns P (Some (getInteger bs sg)) (length (objects P), P\<lparr>objects := objects P @ [OInteger (ucast bs) sg], integers := (integers P)((bs, sg) \<mapsto> length (objects P))\<rparr>)"
  proof (rule cached_new[OF _ _ _ _ inv])
    show "cached (P\<lparr>objects := objects P @ [OInteger (ucast bs) sg], integers := (integers P)((bs, sg) \<mapsto> length (objects P))\<rparr>) a (objects P ! a)"
      if "a < length (objects P)" for a
      using pool_cached[OF inv that refl] None by (cases "objects P ! a") (auto, metis option.distinct(1))
  qed (use assms in \<open>auto simp: miss_simps decode.simps getInteger_def\<close>)
  then show ?thesis by (simp add: pool_getInteger_def None alloc_def)
next
  case (Some a)
  show ?thesis using caches_soundD(4)[OF inv Some] Some assms
    by (auto simp: pool_getInteger_def decode.simps[of _ a] getInteger_def intro!: hit_by_object)
qed

lemma getTypeError_interns:
  assumes inv: "pool_inv P"
  shows "interns P (Some (getTypeError m)) (pool_getTypeError m P)"
proof (cases "errors P m")
  case None
  have "interns P (Some (getTypeError m)) (length (objects P), P\<lparr>objects := objects P @ [OTypeError m], errors := (errors P)(m \<mapsto> length (objects P))\<rparr>)"
  proof (rule cached_new[OF _ _ _ _ inv])
    show "cached (P\<lparr>objects := objects P @ [OTypeError m], errors := (errors P)(m \<mapsto> length (objects P))\<rparr>) a (objects P ! a)"
      if "a < length (objects P)" for a
      using pool_cached[OF inv that refl] None by (cases "objects P ! a") auto
  qed (use assms in \<open>auto simp: miss_simps decode.simps getTypeError_def\<close>)
  then show ?thesis by (simp add: pool_getTypeError_def None alloc_def)
next
  case (Some a)
  show ?thesis using caches_soundD(7)[OF inv Some] Some assms
    by (auto simp: pool_getTypeError_def decode.simps[of _ a] getTypeError_def intro!: hit_by_object)
qed

lemma getRecord_interns:
  assumes inv: "pool_inv P"
  shows "interns P (Some (getRecord m)) (pool_getRecord m P)"
proof (cases "records P m")
  case None
  have "interns P (Some (getRecord m)) (length (objects P), P\<lparr>objects := objects P @ [ORecord m], records := (records P)(m \<mapsto> length (objects P))\<rparr>)"
  proof (rule cached_new[OF _ _ _ _ inv])
    show "cached (P\<lparr>objects := objects P @ [ORecord m], records := (records P)(m \<mapsto> length (objects P))\<rparr>) a (objects P ! a)"
      if "a < length (objects P)" for a
      using pool_cached[OF inv that refl] None by (cases "objects P ! a") auto
  qed (use assms in \<open>auto simp: miss_simps decode.simps getRecord_def\<close>)
  then show ?thesis by (simp add: pool_getRecord_def None alloc_def)
next
  case (Some a)
  show ?thesis using caches_soundD(8)[OF inv Some] Some assms
    by (auto simp: pool_getRecord_def decode.simps[of _ a] getRecord_def intro!: hit_by_object)
qed


lemma decode_length: "decode obs a = Some t \<Longrightarrow> a < length obs"
  by (subst (asm) decode.simps) (auto simp: vector_at_def split: if_splits option.splits)

lemma obj_isInvalid_decode: "decode (objects P) a = Some t \<Longrightarrow> obj_isInvalid P a = isInvalid t"
  by (subst (asm) decode.simps)
    (auto simp: obj_isInvalid_def isInvalid_def bind_Some_iff split: option.splits type_obj.splits if_splits)

lemma getPointer_interns:
  assumes inv: "pool_inv P" and p: "decode (objects P) p = Some t"
  shows "interns P (Some (getPointer t ms)) (pool_getPointer p ms P)"
proof (cases "obj_isInvalid P p")
  case True
  then show ?thesis using inv p decode_length[OF p] obj_isInvalid_decode[OF p]
    by (simp add: pool_getPointer_def getPointer_def interns_hit)
next
  case v: False
  have r: "getPointer t ms = TPointer t ms" using v obj_isInvalid_decode[OF p] by (simp add: getPointer_def)
  show ?thesis
  proof (cases "pointers P (p, ms)")
    case None
    let ?P' = "P\<lparr>objects := objects P @ [OPointer p ms], pointers := (pointers P)((p, ms) \<mapsto> length (objects P))\<rparr>"
    have "interns P (Some (TPointer t ms)) (length (objects P), ?P')"
    proof (rule cached_new[OF _ _ _ _ inv])
      show "cached ?P' a (objects P ! a)" if "a < length (objects P)" for a
        using pool_cached[OF inv that refl] None by (cases "objects P ! a") auto
      show "decode (objects P @ [OPointer p ms]) (length (objects P)) = Some (TPointer t ms)"
        using p decode_length[OF p] by (subst decode.simps) (simp add: decode_append)
    qed (use inv decode_length[OF p] in \<open>auto simp: miss_simps\<close>)
    then show ?thesis using v r by (simp add: pool_getPointer_def None alloc_def)
  next
    case (Some a)
    note o = caches_soundD(5)[OF inv Some]
    have "p < a" using pool_refs_at[OF inv o] by simp
    then show ?thesis using o Some v r p
      by (auto simp: pool_getPointer_def decode.simps[of _ a] intro!: hit_by_object inv)
  qed
qed

lemma getArray_interns:
  assumes inv: "pool_inv P" and p: "decode (objects P) p = Some t"
  shows "interns P (Some (getArray t sz)) (pool_getArray p sz P)"
proof (cases "obj_isInvalid P p")
  case True
  then show ?thesis using inv p decode_length[OF p] obj_isInvalid_decode[OF p]
    by (simp add: pool_getArray_def getArray_def interns_hit)
next
  case v: False
  let ?ob = "OArray p (if sz \<noteq> 0 then Some sz else None)"
  have r: "getArray t sz = TArray t (if sz \<noteq> 0 then Some sz else None)"
    using v obj_isInvalid_decode[OF p] by (simp add: getArray_def)
  show ?thesis
  proof (cases "arrays P (p, sz)")
    case None
    let ?P' = "P\<lparr>objects := objects P @ [?ob], arrays := (arrays P)((p, sz) \<mapsto> length (objects P))\<rparr>"
    have "interns P (Some (getArray t sz)) (length (objects P), ?P')"
    proof (rule cached_new[OF _ _ _ _ inv])
      show "cached ?P' a (objects P ! a)" if "a < length (objects P)" for a
        using pool_cached[OF inv that refl] None by (cases "objects P ! a") auto
      show "decode (objects P @ [?ob]) (length (objects P)) = Some (getArray t sz)"
        using p decode_length[OF p] r by (subst decode.simps) (simp add: decode_append)
    qed (use inv decode_length[OF p] in \<open>auto simp: miss_simps\<close>)
    then show ?thesis using v by (simp add: pool_getArray_def None alloc_def)
  next
    case (Some a)
    note o = caches_soundD(6)[OF inv Some]
    have "p < a" using pool_refs_at[OF inv o] by simp
    then show ?thesis using o Some v r p
      by (auto simp: pool_getArray_def decode.simps[of _ a] intro!: hit_by_object inv)
  qed
qed

lemma omap_decode_below:
  assumes "omap (decode obs) as = Some ts" "\<forall>b\<in>set as. b < a"
  shows "omap (\<lambda>b. if b < a then decode obs b else None) as = Some ts"
  using assms by (induction as arbitrary: ts) (auto simp: bind_Some_iff)

lemma omap_decode_append:
  assumes "omap (decode obs) as = Some ts"
  shows "omap (decode (obs @ ext)) as = Some ts \<and> (\<forall>b\<in>set as. b < length obs)"
  using assms
proof (induction as arbitrary: ts)
  case (Cons a as)
  then have "a < length obs" by (auto simp: bind_Some_iff dest: decode_length)
  then show ?case using Cons by (auto simp: bind_Some_iff decode_append)
qed simp

lemma getFunction_interns:
  assumes inv: "pool_inv P" and p: "decode (objects P) r = Some t"
    and as: "omap (decode (objects P)) as = Some ts"
  shows "interns P (Some (getFunction t ts)) (pool_getFunction r as P)"
proof (cases "function_types P (r # as)")
  case None
  let ?ob = "OFunction r as"
  let ?P' = "P\<lparr>objects := objects P @ [?ob], function_types := (function_types P)(r # as \<mapsto> length (objects P))\<rparr>"
  note as' = omap_decode_append[OF as, of "[?ob]"]
  have "interns P (Some (getFunction t ts)) (length (objects P), ?P')"
  proof (rule cached_new[OF _ _ _ _ inv])
    show "cached ?P' a (objects P ! a)" if "a < length (objects P)" for a
      using pool_cached[OF inv that refl] None by (cases "objects P ! a") auto
    show "decode (objects P @ [?ob]) (length (objects P)) = Some (getFunction t ts)"
      using p decode_length[OF p] as' omap_decode_below[of "objects P @ [?ob]" as ts "length (objects P)"]
      by (subst decode.simps) (simp add: decode_append getFunction_def)
  qed (use inv decode_length[OF p] as' in \<open>auto simp: miss_simps\<close>)
  then show ?thesis by (simp add: pool_getFunction_def None alloc_def)
next
  case (Some a)
  note o = caches_soundD(9)[OF inv Some]
  have lt: "r < a" "\<forall>b\<in>set as. b < a" using pool_refs_at[OF inv o] by auto
  then show ?thesis using o Some p omap_decode_below[OF as lt(2)]
    by (auto simp: pool_getFunction_def getFunction_def decode.simps[of _ a] intro!: hit_by_object inv)
qed

section \<open>Reachable pools\<close>

text \<open>The pools the factory goes through: it starts empty, and every call gets as arguments
  addresses it answered before.\<close>

inductive pool_reach :: "pool \<Rightarrow> bool" where
  reach_empty: "pool_reach empty_pool"
| reach_Bool: "pool_reach P \<Longrightarrow> pool_reach (snd (pool_getBool P))"
| reach_Float: "pool_reach P \<Longrightarrow> pool_reach (snd (pool_getFloat P))"
| reach_Unknown: "pool_reach P \<Longrightarrow> pool_reach (snd (pool_getUnknownType P))"
| reach_Integer: "pool_reach P \<Longrightarrow> unat bs < 2 ^ 32 \<Longrightarrow> pool_reach (snd (pool_getInteger bs sg P))"
| reach_Pointer: "pool_reach P \<Longrightarrow> p < length (objects P) \<Longrightarrow> pool_reach (snd (pool_getPointer p ms P))"
| reach_Array: "pool_reach P \<Longrightarrow> p < length (objects P) \<Longrightarrow> pool_reach (snd (pool_getArray p sz P))"
| reach_Record: "pool_reach P \<Longrightarrow> pool_reach (snd (pool_getRecord nm P))"
| reach_TypeError: "pool_reach P \<Longrightarrow> pool_reach (snd (pool_getTypeError msg P))"
| reach_Function: "pool_reach P \<Longrightarrow> r < length (objects P) \<Longrightarrow> \<forall>a\<in>set as. a < length (objects P) \<Longrightarrow>
    pool_reach (snd (pool_getFunction r as P))"

lemma interns_inv: "interns P t r \<Longrightarrow> pool_inv (snd r)"
  by (auto simp: interns_def)

lemma pool_reach_inv: "pool_reach P \<Longrightarrow> pool_inv P"
proof (induction rule: pool_reach.induct)
  case reach_empty
  show ?case by (simp add: empty_pool_def pool_inv_def caches_sound_def)
next
  case (reach_Pointer P p ms)
  then show ?case using decode_total getPointer_interns interns_inv by blast
next
  case (reach_Array P p sz)
  then show ?case using decode_total getArray_interns interns_inv by blast
next
  case (reach_Function P r as)
  then have "omap (decode (objects P)) as \<noteq> None"
    by (auto simp: omap_eq_None dest: decode_total)
  then show ?case using reach_Function decode_total getFunction_interns interns_inv by blast
qed (use getBool_interns getFloat_interns getUnknownType_interns getInteger_interns getRecord_interns
      getTypeError_interns interns_inv in blast)+

section \<open>Properties\<close>

text \<open>C8: In every pool the factory can reach, two type pointers are equal exactly when the types
  they point to are structurally equal, provided the bit sizes asked for fit in 32 bits.\<close>

theorem pool_pointer_equality:
  assumes "pool_reach P" "a < length (objects P)" "b < length (objects P)"
  shows "decode (objects P) a = decode (objects P) b \<longleftrightarrow> a = b"
  using decode_inj[OF pool_reach_inv[OF assms(1)] assms(2,3)] by blast

theorem pool_pointer_equality_witness:
  "decode (objects (snd (pool_getPointer 0 0 (snd (pool_getBool empty_pool))))) 0 \<noteq>
   decode (objects (snd (pool_getPointer 0 0 (snd (pool_getBool empty_pool))))) 1"
proof -
  have r: "pool_reach (snd (pool_getPointer 0 0 (snd (pool_getBool empty_pool))))"
    by (intro pool_reach.intros) (simp add: pool_getBool_def alloc_def empty_pool_def)
  show ?thesis
    by (subst pool_pointer_equality[OF r])
      (simp_all add: pool_getBool_def pool_getPointer_def alloc_def empty_pool_def obj_isInvalid_def vector_at_def)
qed

text \<open>C29: The interning operations implement the structural ones: on a reachable pool the address
  a call answers stands for the type that the structural operation builds from the types of the
  arguments, and every earlier address keeps its type.\<close>

theorem pool_get_refines:
  assumes "pool_reach P" "decode (objects P) p = Some t" "omap (decode (objects P)) as = Some ts"
    and "unat bs < 2 ^ 32"
  shows "interns P (Some (getPointer t ms)) (pool_getPointer p ms P) \<and>
         interns P (Some (getArray t sz)) (pool_getArray p sz P) \<and>
         interns P (Some (getFunction t ts)) (pool_getFunction p as P) \<and>
         interns P (Some (getInteger bs sg)) (pool_getInteger bs sg P) \<and>
         interns P (Some (getRecord nm)) (pool_getRecord nm P) \<and>
         interns P (Some (getTypeError msg)) (pool_getTypeError msg P) \<and>
         interns P (Some getBool) (pool_getBool P) \<and> interns P (Some getFloat) (pool_getFloat P) \<and>
         interns P (Some getUnknownType) (pool_getUnknownType P)"
  using pool_reach_inv[OF assms(1)] assms
  by (simp add: getPointer_interns getArray_interns getFunction_interns getInteger_interns
      getRecord_interns getTypeError_interns getBool_interns getFloat_interns getUnknownType_interns)

theorem pool_get_refines_witness:
  "interns (snd (pool_getBool empty_pool)) (Some (TPointer TBool 3))
     (pool_getPointer 0 3 (snd (pool_getBool empty_pool)))"
proof -
  have r: "pool_reach (snd (pool_getBool empty_pool))" by (intro pool_reach.intros)
  have d: "decode (objects (snd (pool_getBool empty_pool))) 0 = Some TBool"
    by (simp add: pool_getBool_def alloc_def empty_pool_def decode.simps vector_at_def)
  show ?thesis
    using pool_get_refines[OF r d, of "[]" "[]" 0 3] by (simp add: getPointer_def isInvalid_def)
qed

end
