(* ===== verification/Conditions.thy ===== *)
theory Conditions
  imports Prelude
begin

text \<open>
  The operator enumerations of src/Util/util.h and the functions over them in
  src/Util/util.cpp: printing, classification of LLVM predicates and opcodes, signedness
  conversion and negation of a condition.  \<open>condition_holds\<close> is the meaning of a condition on
  machine words that the SMT translation gives it (src/Term/CmpTerm.h): the plain comparisons
  are signed, the \<open>U\<close> ones unsigned.
\<close>

datatype ConditionType = EQ | NEQ | GT | GE | LT | LE | UGT | UGE | ULT | ULE | TRUE | FALSE | UNKNOWN

datatype ArithType =
  ADD | SUB | MUL | DIV | REM | LAND | LOR | BAND | BOR | XOR | SHL | ASHR | LSHR | IMPLIES

datatype UnaryArithType = NEG | NOT | BNOT

text \<open>LLVM's predicates and binary opcodes (its documented enumerations).\<close>

datatype llvm_predicate =
    FCMP_FALSE | FCMP_OEQ | FCMP_OGT | FCMP_OGE | FCMP_OLT | FCMP_OLE | FCMP_ONE | FCMP_ORD
  | FCMP_UNO | FCMP_UEQ | FCMP_UGT | FCMP_UGE | FCMP_ULT | FCMP_ULE | FCMP_UNE | FCMP_TRUE
  | ICMP_EQ | ICMP_NE | ICMP_UGT | ICMP_UGE | ICMP_ULT | ICMP_ULE | ICMP_SGT | ICMP_SGE
  | ICMP_SLT | ICMP_SLE | BAD_PREDICATE

datatype llvm_binop =
    Op_Add | Op_FAdd | Op_Sub | Op_FSub | Op_Mul | Op_FMul | Op_UDiv | Op_SDiv | Op_FDiv
  | Op_URem | Op_SRem | Op_FRem | Op_Shl | Op_LShr | Op_AShr | Op_And | Op_Or | Op_Xor
  | Op_other

definition analyzeCondition :: "llvm_predicate \<Rightarrow> (string \<times> ConditionType) option" where
  "analyzeCondition cond = (case cond of
      ICMP_EQ \<Rightarrow> Some (''='', EQ)
    | FCMP_OEQ \<Rightarrow> Some (''='', EQ)
    | FCMP_UEQ \<Rightarrow> Some (''?='', EQ)
    | ICMP_NE \<Rightarrow> Some (''~='', NEQ)
    | FCMP_ONE \<Rightarrow> Some (''~='', NEQ)
    | FCMP_UNE \<Rightarrow> Some (''?~='', NEQ)
    | ICMP_SGE \<Rightarrow> Some (''>='', GE)
    | FCMP_OGE \<Rightarrow> Some (''>='', GE)
    | ICMP_UGE \<Rightarrow> Some (''+>='', UGE)
    | FCMP_UGE \<Rightarrow> Some (''?>='', GE)
    | ICMP_SGT \<Rightarrow> Some (''>'', GT)
    | FCMP_OGT \<Rightarrow> Some (''>'', GT)
    | ICMP_UGT \<Rightarrow> Some (''+>'', UGT)
    | FCMP_UGT \<Rightarrow> Some (''?>'', GT)
    | ICMP_SLE \<Rightarrow> Some (''<='', LE)
    | FCMP_OLE \<Rightarrow> Some (''<='', LE)
    | ICMP_ULE \<Rightarrow> Some (''+<='', ULE)
    | FCMP_ULE \<Rightarrow> Some (''?<='', LE)
    | ICMP_SLT \<Rightarrow> Some (''<'', LT)
    | FCMP_OLT \<Rightarrow> Some (''<'', LT)
    | ICMP_ULT \<Rightarrow> Some (''+<'', ULT)
    | FCMP_ULT \<Rightarrow> Some (''?<'', LT)
    | FCMP_TRUE \<Rightarrow> Some (''true'', TRUE)
    | FCMP_ORD \<Rightarrow> Some (''true'', TRUE)
    | FCMP_FALSE \<Rightarrow> Some (''false'', FALSE)
    | FCMP_UNO \<Rightarrow> Some (''false'', FALSE)
    | BAD_PREDICATE \<Rightarrow> None)"

definition conditionType :: "llvm_predicate \<Rightarrow> ConditionType option" where
  "conditionType cond = map_option snd (analyzeCondition cond)"

definition predicateString :: "llvm_predicate \<Rightarrow> string option" where
  "predicateString cond = map_option fst (analyzeCondition cond)"

definition conditionString :: "ConditionType \<Rightarrow> string option" where
  "conditionString cond = (case cond of
      EQ \<Rightarrow> Some ''=='' | NEQ \<Rightarrow> Some ''!=''
    | GT \<Rightarrow> Some ''>'' | GE \<Rightarrow> Some ''>='' | LT \<Rightarrow> Some ''<'' | LE \<Rightarrow> Some ''<=''
    | UGT \<Rightarrow> Some ''+>'' | UGE \<Rightarrow> Some ''+>='' | ULT \<Rightarrow> Some ''+<'' | ULE \<Rightarrow> Some ''+<=''
    | TRUE \<Rightarrow> Some ''true'' | FALSE \<Rightarrow> Some ''false''
    | UNKNOWN \<Rightarrow> None)"

definition forceSigned :: "ConditionType \<Rightarrow> ConditionType" where
  "forceSigned cond = (case cond of UGT \<Rightarrow> GT | UGE \<Rightarrow> GE | ULT \<Rightarrow> LT | ULE \<Rightarrow> LE | _ \<Rightarrow> cond)"

definition forceUnsigned :: "ConditionType \<Rightarrow> ConditionType" where
  "forceUnsigned cond = (case cond of GT \<Rightarrow> UGT | GE \<Rightarrow> UGE | LT \<Rightarrow> ULT | LE \<Rightarrow> ULE | _ \<Rightarrow> cond)"

definition makeNot :: "ConditionType \<Rightarrow> ConditionType option" where
  "makeNot cond = (case cond of
      EQ \<Rightarrow> Some NEQ | NEQ \<Rightarrow> Some EQ
    | GT \<Rightarrow> Some LE | GE \<Rightarrow> Some LT | LT \<Rightarrow> Some GE | LE \<Rightarrow> Some GT
    | UGT \<Rightarrow> Some ULE | UGE \<Rightarrow> Some ULT | ULT \<Rightarrow> Some UGE | ULE \<Rightarrow> Some UGT
    | TRUE \<Rightarrow> Some FALSE | FALSE \<Rightarrow> Some TRUE
    | UNKNOWN \<Rightarrow> None)"

definition arithType :: "llvm_binop \<Rightarrow> ArithType option" where
  "arithType llops = (case llops of
      Op_Add \<Rightarrow> Some ADD | Op_FAdd \<Rightarrow> Some ADD
    | Op_Sub \<Rightarrow> Some SUB | Op_FSub \<Rightarrow> Some SUB
    | Op_Mul \<Rightarrow> Some MUL | Op_FMul \<Rightarrow> Some MUL
    | Op_UDiv \<Rightarrow> Some DIV | Op_SDiv \<Rightarrow> Some DIV | Op_FDiv \<Rightarrow> Some DIV
    | Op_URem \<Rightarrow> Some REM | Op_SRem \<Rightarrow> Some REM | Op_FRem \<Rightarrow> Some REM
    | Op_Shl \<Rightarrow> Some SHL | Op_LShr \<Rightarrow> Some LSHR | Op_AShr \<Rightarrow> Some ASHR
    | Op_And \<Rightarrow> Some BAND | Op_Or \<Rightarrow> Some BOR | Op_Xor \<Rightarrow> Some XOR
    | Op_other \<Rightarrow> None)"

definition arithString :: "ArithType \<Rightarrow> string" where
  "arithString opc = (case opc of
      ADD \<Rightarrow> ''+'' | SUB \<Rightarrow> ''-'' | MUL \<Rightarrow> ''*'' | DIV \<Rightarrow> ''/'' | REM \<Rightarrow> ''%''
    | BAND \<Rightarrow> ''&'' | BOR \<Rightarrow> ''|'' | LAND \<Rightarrow> ''&&'' | LOR \<Rightarrow> ''||'' | XOR \<Rightarrow> ''^''
    | SHL \<Rightarrow> ''<<'' | ASHR \<Rightarrow> ''>>'' | LSHR \<Rightarrow> ''>>>'' | IMPLIES \<Rightarrow> ''==>'')"

definition unaryArithString :: "UnaryArithType \<Rightarrow> string" where
  "unaryArithString opc = (case opc of NOT \<Rightarrow> ''!'' | BNOT \<Rightarrow> ''~'' | NEG \<Rightarrow> ''-'')"

section \<open>Meaning on machine words\<close>

fun condition_holds :: "ConditionType \<Rightarrow> 'a::len word \<Rightarrow> 'a word \<Rightarrow> bool option" where
  "condition_holds EQ a b = Some (a = b)"
| "condition_holds NEQ a b = Some (a \<noteq> b)"
| "condition_holds GT a b = Some (sint b < sint a)"
| "condition_holds GE a b = Some (sint b \<le> sint a)"
| "condition_holds LT a b = Some (sint a < sint b)"
| "condition_holds LE a b = Some (sint a \<le> sint b)"
| "condition_holds UGT a b = Some (b < a)"
| "condition_holds UGE a b = Some (b \<le> a)"
| "condition_holds ULT a b = Some (a < b)"
| "condition_holds ULE a b = Some (a \<le> b)"
| "condition_holds TRUE a b = Some True"
| "condition_holds FALSE a b = Some False"
| "condition_holds UNKNOWN a b = None"

lemma conditionString_inj:
  "conditionString a = Some s \<Longrightarrow> conditionString b = Some s \<Longrightarrow> a = b"
  by (cases a; cases b) (auto simp: conditionString_def)

lemma arithString_inj: "arithString a = arithString b \<Longrightarrow> a = b"
  by (cases a; cases b) (auto simp: arithString_def)

lemma unaryArithString_inj: "unaryArithString a = unaryArithString b \<Longrightarrow> a = b"
  by (cases a; cases b) (auto simp: unaryArithString_def)

section \<open>Properties\<close>

text \<open>\<open>makeNot\<close> negates a condition on all machine words, it is defined exactly for the
  known conditions and undoes itself; forcing the signedness twice is forcing it the second way.\<close>

theorem makeNot_negates:
  fixes a b :: "'a::len word"
  shows "(case makeNot c of None \<Rightarrow> c = UNKNOWN
     | Some c' \<Rightarrow> condition_holds c' a b = map_option Not (condition_holds c a b) \<and> makeNot c' = Some c) \<and>
   forceSigned (forceUnsigned c) = forceSigned c \<and> forceUnsigned (forceSigned c) = forceUnsigned c"
  by (cases c) (auto simp: makeNot_def forceSigned_def forceUnsigned_def)

end
