(* ===== verification/Numbers.thy ===== *)
theory Numbers
  imports Conditions "HOL-Library.Signed_Division"
begin

text \<open>
  The numbers of the abstract interpreter (src/Interpreter/Domain/Numerical/Number.hpp): the class
  \<open>BitInt<sign>\<close> wraps LLVM's \<open>APInt\<close> and picks the signed or the unsigned operation by its
  template argument.  \<open>APInt\<close> is not part of the repository; it is the record \<open>apint\<close> of the
  operations used, and the locale \<open>apint_laws\<close> states its documented arithmetic: words of a width
  chosen at run time.  \<open>bits_apint\<close> is such an arithmetic on pairs of a width and an integer.

  The domain templates take a type \<open>Number\<close> with an \<open>Adapter<Number>\<close> that makes constants
  (Bound.hpp).  The record \<open>number\<close> is that template argument, \<open>BitInt_number\<close> and \<open>size_t_number\<close> are
  instances of the code, and the locale \<open>number_order\<close> is what the lattice
  operations need of them.
\<close>

section \<open>LLVM's APInt\<close>

record 'b apint =
  ap_make :: "nat \<Rightarrow> 64 word \<Rightarrow> 'b"
  ap_width :: "'b \<Rightarrow> nat"
  ap_neg :: "'b \<Rightarrow> 'b"
  ap_add :: "'b \<Rightarrow> 'b \<Rightarrow> 'b"
  ap_sub :: "'b \<Rightarrow> 'b \<Rightarrow> 'b"
  ap_mul :: "'b \<Rightarrow> 'b \<Rightarrow> 'b"
  ap_sdiv :: "'b \<Rightarrow> 'b \<Rightarrow> 'b"
  ap_udiv :: "'b \<Rightarrow> 'b \<Rightarrow> 'b"
  ap_srem :: "'b \<Rightarrow> 'b \<Rightarrow> 'b"
  ap_urem :: "'b \<Rightarrow> 'b \<Rightarrow> 'b"
  ap_shl :: "'b \<Rightarrow> 'b \<Rightarrow> 'b"
  ap_ashr :: "'b \<Rightarrow> 'b \<Rightarrow> 'b"
  ap_lshr :: "'b \<Rightarrow> 'b \<Rightarrow> 'b"
  ap_and :: "'b \<Rightarrow> 'b \<Rightarrow> 'b"
  ap_or :: "'b \<Rightarrow> 'b \<Rightarrow> 'b"
  ap_xor :: "'b \<Rightarrow> 'b \<Rightarrow> 'b"
  ap_eq :: "'b \<Rightarrow> 'b \<Rightarrow> bool"
  ap_sle :: "'b \<Rightarrow> 'b \<Rightarrow> bool"
  ap_ule :: "'b \<Rightarrow> 'b \<Rightarrow> bool"
  ap_sext :: "'b \<Rightarrow> nat \<Rightarrow> 'b"
  ap_zext :: "'b \<Rightarrow> nat \<Rightarrow> 'b"
  ap_trunc :: "'b \<Rightarrow> nat \<Rightarrow> 'b"
  ap_raw :: "'b \<Rightarrow> 64 word"
  ap_smax :: "nat \<Rightarrow> 'b"
  ap_umax :: "nat \<Rightarrow> 'b"
  ap_smin :: "nat \<Rightarrow> 'b"
  ap_umin :: "nat \<Rightarrow> 'b"

text \<open>The signed reading of a number below \<open>2 ^ w\<close>.\<close>

definition signed_of :: "nat \<Rightarrow> int \<Rightarrow> int" where
  "signed_of w u = (if u < 2 ^ (w - 1) then u else u - 2 ^ w)"

text \<open>The value of a number, given its unsigned value, under a reading of its sign.\<close>

definition ival :: "'b apint \<Rightarrow> ('b \<Rightarrow> int) \<Rightarrow> bool \<Rightarrow> 'b \<Rightarrow> int" where
  "ival A u sg x = (if sg then signed_of (ap_width A x) (u x) else u x)"

locale apint_laws =
  fixes A :: "'b apint" and uval :: "'b \<Rightarrow> int"
  assumes uval_nonneg: "0 \<le> uval x"
    and uval_less: "uval x < 2 ^ ap_width A x"
    and make: "ap_width A (ap_make A w v) = w" "uval (ap_make A w v) = uint v mod 2 ^ w"
    and neg: "ap_width A (ap_neg A x) = ap_width A x" "uval (ap_neg A x) = - uval x mod 2 ^ ap_width A x"
    and add: "ap_width A x = ap_width A y \<Longrightarrow> ap_width A (ap_add A x y) = ap_width A x"
      "ap_width A x = ap_width A y \<Longrightarrow> uval (ap_add A x y) = (uval x + uval y) mod 2 ^ ap_width A x"
    and sub: "ap_width A x = ap_width A y \<Longrightarrow> ap_width A (ap_sub A x y) = ap_width A x"
      "ap_width A x = ap_width A y \<Longrightarrow> uval (ap_sub A x y) = (uval x - uval y) mod 2 ^ ap_width A x"
    and mul: "ap_width A x = ap_width A y \<Longrightarrow> ap_width A (ap_mul A x y) = ap_width A x"
      "ap_width A x = ap_width A y \<Longrightarrow> uval (ap_mul A x y) = (uval x * uval y) mod 2 ^ ap_width A x"
    and sdiv: "ap_width A x = ap_width A y \<Longrightarrow> uval y \<noteq> 0 \<Longrightarrow> ap_width A (ap_sdiv A x y) = ap_width A x"
      "ap_width A x = ap_width A y \<Longrightarrow> uval y \<noteq> 0 \<Longrightarrow> uval (ap_sdiv A x y) =
         (signed_of (ap_width A x) (uval x) sdiv signed_of (ap_width A x) (uval y)) mod 2 ^ ap_width A x"
    and udiv: "ap_width A x = ap_width A y \<Longrightarrow> uval y \<noteq> 0 \<Longrightarrow> ap_width A (ap_udiv A x y) = ap_width A x"
      "ap_width A x = ap_width A y \<Longrightarrow> uval y \<noteq> 0 \<Longrightarrow> uval (ap_udiv A x y) = uval x div uval y"
    and srem: "ap_width A x = ap_width A y \<Longrightarrow> uval y \<noteq> 0 \<Longrightarrow> ap_width A (ap_srem A x y) = ap_width A x"
      "ap_width A x = ap_width A y \<Longrightarrow> uval y \<noteq> 0 \<Longrightarrow> uval (ap_srem A x y) =
         (signed_of (ap_width A x) (uval x) smod signed_of (ap_width A x) (uval y)) mod 2 ^ ap_width A x"
    and urem: "ap_width A x = ap_width A y \<Longrightarrow> uval y \<noteq> 0 \<Longrightarrow> ap_width A (ap_urem A x y) = ap_width A x"
      "ap_width A x = ap_width A y \<Longrightarrow> uval y \<noteq> 0 \<Longrightarrow> uval (ap_urem A x y) = uval x mod uval y"
    and shl: "ap_width A x = ap_width A y \<Longrightarrow> ap_width A (ap_shl A x y) = ap_width A x"
      "ap_width A x = ap_width A y \<Longrightarrow> uval (ap_shl A x y) = (uval x * 2 ^ nat (uval y)) mod 2 ^ ap_width A x"
    and ashr: "ap_width A x = ap_width A y \<Longrightarrow> ap_width A (ap_ashr A x y) = ap_width A x"
      "ap_width A x = ap_width A y \<Longrightarrow> uval (ap_ashr A x y) =
         (signed_of (ap_width A x) (uval x) div 2 ^ nat (uval y)) mod 2 ^ ap_width A x"
    and lshr: "ap_width A x = ap_width A y \<Longrightarrow> ap_width A (ap_lshr A x y) = ap_width A x"
      "ap_width A x = ap_width A y \<Longrightarrow> uval (ap_lshr A x y) = uval x div 2 ^ nat (uval y)"
    and bits: "ap_width A x = ap_width A y \<Longrightarrow> ap_width A (ap_and A x y) = ap_width A x"
      "ap_width A x = ap_width A y \<Longrightarrow> uval (ap_and A x y) = and (uval x) (uval y)"
      "ap_width A x = ap_width A y \<Longrightarrow> ap_width A (ap_or A x y) = ap_width A x"
      "ap_width A x = ap_width A y \<Longrightarrow> uval (ap_or A x y) = or (uval x) (uval y)"
      "ap_width A x = ap_width A y \<Longrightarrow> ap_width A (ap_xor A x y) = ap_width A x"
      "ap_width A x = ap_width A y \<Longrightarrow> uval (ap_xor A x y) = xor (uval x) (uval y)"
    and eq: "ap_width A x = ap_width A y \<Longrightarrow> ap_eq A x y \<longleftrightarrow> uval x = uval y"
    and le: "ap_width A x = ap_width A y \<Longrightarrow> ap_ule A x y \<longleftrightarrow> uval x \<le> uval y"
      "ap_width A x = ap_width A y \<Longrightarrow> ap_sle A x y \<longleftrightarrow>
         signed_of (ap_width A x) (uval x) \<le> signed_of (ap_width A x) (uval y)"
    and ext: "ap_width A x \<le> w \<Longrightarrow> ap_width A (ap_sext A x w) = w"
      "ap_width A x \<le> w \<Longrightarrow> uval (ap_sext A x w) = signed_of (ap_width A x) (uval x) mod 2 ^ w"
      "ap_width A x \<le> w \<Longrightarrow> ap_width A (ap_zext A x w) = w"
      "ap_width A x \<le> w \<Longrightarrow> uval (ap_zext A x w) = uval x"
      "w \<le> ap_width A x \<Longrightarrow> ap_width A (ap_trunc A x w) = w"
      "w \<le> ap_width A x \<Longrightarrow> uval (ap_trunc A x w) = uval x mod 2 ^ w"
    and raw: "uint (ap_raw A x) = uval x mod 2 ^ 64"
    and extremes: "ap_width A (ap_smax A w) = w" "ap_width A (ap_umax A w) = w"
      "ap_width A (ap_smin A w) = w" "ap_width A (ap_umin A w) = w"
      "uval (ap_umax A w) = 2 ^ w - 1" "uval (ap_umin A w) = 0"
      "0 < w \<Longrightarrow> uval (ap_smax A w) = 2 ^ (w - 1) - 1" "0 < w \<Longrightarrow> uval (ap_smin A w) = 2 ^ (w - 1)"
begin

lemma ival_inj:
  assumes "ap_width A x = ap_width A y"
  shows "ival A uval sg x = ival A uval sg y \<longleftrightarrow> uval x = uval y"
  using assms uval_nonneg[of x] uval_less[of x] uval_nonneg[of y] uval_less[of y]
  by (auto simp: ival_def signed_of_def)

lemma ival_mod: "ival A uval sg x mod 2 ^ ap_width A x = uval x"
  using uval_nonneg[of x] uval_less[of x]
  by (auto simp: ival_def signed_of_def mod_diff_right_eq[symmetric] simp del: mod_diff_right_eq)

end

section \<open>BitInt\<close>

definition BitInt_defaultSize :: nat where
  "BitInt_defaultSize = 64"

definition BitInt_add_assign :: "'b apint \<Rightarrow> 'b \<Rightarrow> 'b \<Rightarrow> 'b" where
  "BitInt_add_assign A x y = ap_add A x y"

definition BitInt_sub_assign :: "'b apint \<Rightarrow> 'b \<Rightarrow> 'b \<Rightarrow> 'b" where
  "BitInt_sub_assign A x y = ap_sub A x y"

definition BitInt_mul_assign :: "'b apint \<Rightarrow> 'b \<Rightarrow> 'b \<Rightarrow> 'b" where
  "BitInt_mul_assign A x y = ap_mul A x y"

definition BitInt_div_assign :: "'b apint \<Rightarrow> bool \<Rightarrow> 'b \<Rightarrow> 'b \<Rightarrow> 'b" where
  "BitInt_div_assign A sg x y = (if sg then ap_sdiv A x y else ap_udiv A x y)"

definition BitInt_mod_assign :: "'b apint \<Rightarrow> bool \<Rightarrow> 'b \<Rightarrow> 'b \<Rightarrow> 'b" where
  "BitInt_mod_assign A sg x y = (if sg then ap_srem A x y else ap_urem A x y)"

definition BitInt_neg :: "'b apint \<Rightarrow> 'b \<Rightarrow> 'b" where
  "BitInt_neg A x = ap_neg A x"

definition BitInt_lshr :: "'b apint \<Rightarrow> 'b \<Rightarrow> 'b \<Rightarrow> 'b" where
  "BitInt_lshr A x y = ap_lshr A x y"

definition BitInt_and :: "'b apint \<Rightarrow> 'b \<Rightarrow> 'b \<Rightarrow> 'b" where
  "BitInt_and A x y = ap_and A x y"

definition BitInt_or :: "'b apint \<Rightarrow> 'b \<Rightarrow> 'b \<Rightarrow> 'b" where
  "BitInt_or A x y = ap_or A x y"

definition BitInt_xor :: "'b apint \<Rightarrow> 'b \<Rightarrow> 'b \<Rightarrow> 'b" where
  "BitInt_xor A x y = ap_xor A x y"

definition BitInt_shl :: "'b apint \<Rightarrow> 'b \<Rightarrow> 'b \<Rightarrow> 'b" where
  "BitInt_shl A x y = ap_shl A x y"

definition BitInt_shr :: "'b apint \<Rightarrow> 'b \<Rightarrow> 'b \<Rightarrow> 'b" where
  "BitInt_shr A x y = ap_ashr A x y"

definition BitInt_equals :: "'b apint \<Rightarrow> 'b \<Rightarrow> 'b \<Rightarrow> bool" where
  "BitInt_equals A x y = (if ap_width A x \<noteq> ap_width A y then False else ap_eq A x y)"

definition BitInt_leq :: "'b apint \<Rightarrow> bool \<Rightarrow> 'b \<Rightarrow> 'b \<Rightarrow> bool" where
  "BitInt_leq A sg x y = (if sg then ap_sle A x y else ap_ule A x y)"

definition BitInt_sleq :: "'b apint \<Rightarrow> 'b \<Rightarrow> 'b \<Rightarrow> bool" where
  "BitInt_sleq A x y = ap_sle A x y"

definition BitInt_geq :: "'b apint \<Rightarrow> bool \<Rightarrow> 'b \<Rightarrow> 'b \<Rightarrow> bool" where
  "BitInt_geq A sg x y = BitInt_leq A sg y x"

definition BitInt_sgeq :: "'b apint \<Rightarrow> 'b \<Rightarrow> 'b \<Rightarrow> bool" where
  "BitInt_sgeq A x y = BitInt_sleq A y x"

definition BitInt_to_size_t :: "'b apint \<Rightarrow> 'b \<Rightarrow> size_t" where
  "BitInt_to_size_t A x = ap_raw A x"

text \<open>\<open>convert<newSign>(newWidth)\<close>: the run-time conversion extends by the new signedness.\<close>

definition BitInt_convert :: "'b apint \<Rightarrow> bool \<Rightarrow> nat \<Rightarrow> 'b \<Rightarrow> 'b" where
  "BitInt_convert A newSign newWidth x =
     (if ap_width A x = newWidth then x
      else if ap_width A x < newWidth then (if newSign then ap_sext A x newWidth else ap_zext A x newWidth)
      else ap_trunc A x newWidth)"

text \<open>The conversion to a static width truncates to the old width, so it never shrinks a number.\<close>

definition BitInt_convert_static :: "'b apint \<Rightarrow> bool \<Rightarrow> nat \<Rightarrow> 'b \<Rightarrow> 'b" where
  "BitInt_convert_static A newSign newWidth x =
     (if ap_width A x < newWidth then (if newSign then ap_sext A x newWidth else ap_zext A x newWidth)
      else ap_trunc A x (ap_width A x))"

definition BitInt_add :: "'b apint \<Rightarrow> 'b \<Rightarrow> 'b \<Rightarrow> 'b" where
  "BitInt_add A lhv rhv = (let result = lhv in BitInt_add_assign A result rhv)"

definition BitInt_sub :: "'b apint \<Rightarrow> 'b \<Rightarrow> 'b \<Rightarrow> 'b" where
  "BitInt_sub A lhv rhv = (let result = lhv in BitInt_sub_assign A result rhv)"

definition BitInt_mul :: "'b apint \<Rightarrow> 'b \<Rightarrow> 'b \<Rightarrow> 'b" where
  "BitInt_mul A lhv rhv = (let result = lhv in BitInt_mul_assign A result rhv)"

definition BitInt_div :: "'b apint \<Rightarrow> bool \<Rightarrow> 'b \<Rightarrow> 'b \<Rightarrow> 'b" where
  "BitInt_div A sg lhv rhv = (let result = lhv in BitInt_div_assign A sg result rhv)"

definition BitInt_mod :: "'b apint \<Rightarrow> bool \<Rightarrow> 'b \<Rightarrow> 'b \<Rightarrow> 'b" where
  "BitInt_mod A sg lhv rhv = (let result = lhv in BitInt_mod_assign A sg result rhv)"

definition BitInt_less :: "'b apint \<Rightarrow> bool \<Rightarrow> 'b \<Rightarrow> 'b \<Rightarrow> bool" where
  "BitInt_less A sg lhs rhs = (\<not> BitInt_geq A sg lhs rhs)"

definition BitInt_greater :: "'b apint \<Rightarrow> bool \<Rightarrow> 'b \<Rightarrow> 'b \<Rightarrow> bool" where
  "BitInt_greater A sg lhs rhs = (\<not> BitInt_leq A sg lhs rhs)"

text \<open>\<open>Adapter<BitInt<sign>>\<close> (Bound.hpp): an \<open>int\<close> constant is converted to \<open>unsigned long long\<close>
  before the \<open>APInt\<close> is made of it.\<close>

definition Adapter_of_int :: "'b apint \<Rightarrow> nat \<Rightarrow> 32 word \<Rightarrow> 'b" where
  "Adapter_of_int A w n = ap_make A w (scast n)"

definition Adapter_maxValue :: "'b apint \<Rightarrow> bool \<Rightarrow> nat \<Rightarrow> 'b" where
  "Adapter_maxValue A sg w = (if sg then ap_smax A w else ap_umax A w)"

definition Adapter_minValue :: "'b apint \<Rightarrow> bool \<Rightarrow> nat \<Rightarrow> 'b" where
  "Adapter_minValue A sg w = (if sg then ap_smin A w else ap_umin A w)"

lemmas BitInt_defs = BitInt_add_assign_def BitInt_sub_assign_def BitInt_mul_assign_def
  BitInt_div_assign_def BitInt_mod_assign_def BitInt_neg_def BitInt_lshr_def BitInt_and_def
  BitInt_or_def BitInt_xor_def BitInt_shl_def BitInt_shr_def BitInt_equals_def BitInt_leq_def
  BitInt_sleq_def BitInt_geq_def BitInt_sgeq_def BitInt_to_size_t_def BitInt_add_def BitInt_sub_def
  BitInt_mul_def BitInt_div_def BitInt_mod_def BitInt_less_def BitInt_greater_def Adapter_of_int_def
  Let_def

section \<open>The template argument Number\<close>

record ('c, 'n) number =
  n_of_int :: "'c \<Rightarrow> 32 word \<Rightarrow> 'n"
  n_neg :: "'n \<Rightarrow> 'n"
  n_add :: "'n \<Rightarrow> 'n \<Rightarrow> 'n"
  n_sub :: "'n \<Rightarrow> 'n \<Rightarrow> 'n"
  n_mul :: "'n \<Rightarrow> 'n \<Rightarrow> 'n"
  n_div :: "'n \<Rightarrow> 'n \<Rightarrow> 'n"
  n_mod :: "'n \<Rightarrow> 'n \<Rightarrow> 'n"
  n_shl :: "'n \<Rightarrow> 'n \<Rightarrow> 'n"
  n_shr :: "'n \<Rightarrow> 'n \<Rightarrow> 'n"
  n_and :: "'n \<Rightarrow> 'n \<Rightarrow> 'n"
  n_or :: "'n \<Rightarrow> 'n \<Rightarrow> 'n"
  n_xor :: "'n \<Rightarrow> 'n \<Rightarrow> 'n"
  n_eq :: "'n \<Rightarrow> 'n \<Rightarrow> bool"
  n_le :: "'n \<Rightarrow> 'n \<Rightarrow> bool"
  n_ge :: "'n \<Rightarrow> 'n \<Rightarrow> bool"
  n_lt :: "'n \<Rightarrow> 'n \<Rightarrow> bool"
  n_gt :: "'n \<Rightarrow> 'n \<Rightarrow> bool"

definition BitInt_number :: "'b apint \<Rightarrow> bool \<Rightarrow> (nat, 'b) number" where
  "BitInt_number A sg = \<lparr>n_of_int = Adapter_of_int A, n_neg = BitInt_neg A, n_add = BitInt_add A,
     n_sub = BitInt_sub A, n_mul = BitInt_mul A, n_div = BitInt_div A sg, n_mod = BitInt_mod A sg,
     n_shl = BitInt_shl A, n_shr = BitInt_shr A, n_and = BitInt_and A, n_or = BitInt_or A,
     n_xor = BitInt_xor A, n_eq = BitInt_equals A, n_le = BitInt_leq A sg, n_ge = BitInt_geq A sg,
     n_lt = BitInt_less A sg, n_gt = BitInt_greater A sg\<rparr>"

text \<open>What the bounds and intervals rely on: constants belong to their adapter, and on the numbers
  of one adapter the comparison operators compare values of a linear order.\<close>

locale number_order =
  fixes N :: "('c, 'n) number" and val :: "'n \<Rightarrow> 'v::linorder" and has :: "'c \<Rightarrow> 'n \<Rightarrow> bool"
  assumes has_of_int [simp]: "has c (n_of_int N c k)"
    and eq_val: "has c x \<Longrightarrow> has c y \<Longrightarrow> n_eq N x y \<longleftrightarrow> val x = val y"
    and le_val: "has c x \<Longrightarrow> has c y \<Longrightarrow> n_le N x y \<longleftrightarrow> val x \<le> val y"
    and ge_val: "has c x \<Longrightarrow> has c y \<Longrightarrow> n_ge N x y \<longleftrightarrow> val y \<le> val x"
    and lt_val: "has c x \<Longrightarrow> has c y \<Longrightarrow> n_lt N x y \<longleftrightarrow> val x < val y"
    and gt_val: "has c x \<Longrightarrow> has c y \<Longrightarrow> n_gt N x y \<longleftrightarrow> val y < val x"
begin

lemmas compare = eq_val le_val ge_val lt_val gt_val

end

text \<open>The operations stay among the numbers of the adapter; a divisor must not be zero.\<close>

locale number_arith = number_order N val has
  for N :: "('c, 'n) number" and val :: "'n \<Rightarrow> 'v::linorder" and has :: "'c \<Rightarrow> 'n \<Rightarrow> bool" +
  assumes has_neg: "has c x \<Longrightarrow> has c (n_neg N x)"
    and has_ring: "has c x \<Longrightarrow> has c y \<Longrightarrow> has c (n_add N x y)" "has c x \<Longrightarrow> has c y \<Longrightarrow> has c (n_sub N x y)"
      "has c x \<Longrightarrow> has c y \<Longrightarrow> has c (n_mul N x y)"
    and has_shift: "has c x \<Longrightarrow> has c y \<Longrightarrow> has c (n_shl N x y)" "has c x \<Longrightarrow> has c y \<Longrightarrow> has c (n_shr N x y)"
    and has_bits: "has c x \<Longrightarrow> has c y \<Longrightarrow> has c (n_and N x y)" "has c x \<Longrightarrow> has c y \<Longrightarrow> has c (n_or N x y)"
      "has c x \<Longrightarrow> has c y \<Longrightarrow> has c (n_xor N x y)"
    and has_div: "has c x \<Longrightarrow> has c y \<Longrightarrow> val y \<noteq> val (n_of_int N c 0) \<Longrightarrow> has c (n_div N x y)"
      "has c x \<Longrightarrow> has c y \<Longrightarrow> val y \<noteq> val (n_of_int N c 0) \<Longrightarrow> has c (n_mod N x y)"
begin

lemmas closed = has_neg has_ring has_shift has_bits has_div

end

text \<open>\<open>Adapter<size_t>\<close>: the machine numbers themselves.\<close>

definition size_t_number :: "(unit, size_t) number" where
  "size_t_number = \<lparr>n_of_int = (\<lambda>_ n. scast n), n_neg = uminus, n_add = (+), n_sub = (-), n_mul = (*),
     n_div = (div), n_mod = (mod), n_shl = (\<lambda>x y. push_bit (unat y) x), n_shr = (\<lambda>x y. drop_bit (unat y) x),
     n_and = and, n_or = or, n_xor = xor, n_eq = (=), n_le = (\<le>), n_ge = (\<ge>), n_lt = (<), n_gt = (>)\<rparr>"

interpretation size_t: number_arith size_t_number uint "\<lambda>_ _. True"
  by unfold_locales (simp_all add: size_t_number_def word_le_def word_less_def word_uint_eq_iff)

context apint_laws
begin

lemma BitInt_order: "number_order (BitInt_number A sg) (ival A uval sg) (\<lambda>w x. ap_width A x = w)"
  by unfold_locales
    (auto simp: BitInt_number_def BitInt_defs make le eq ival_inj not_le, auto simp: ival_def le)

lemma BitInt_zero: "ival A uval sg (Adapter_of_int A w 0) = 0"
  by (simp add: Adapter_of_int_def ival_def make signed_of_def)

lemma BitInt_arith: "number_arith (BitInt_number A sg) (ival A uval sg) (\<lambda>w x. ap_width A x = w)"
proof (rule number_arith.intro[OF BitInt_order])
  have z: "uval y \<noteq> 0" if "ival A uval sg y \<noteq> 0" for y
    using that by (auto simp: ival_def signed_of_def split: if_splits)
  show "number_arith_axioms (BitInt_number A sg) (ival A uval sg) (\<lambda>w x. ap_width A x = w)"
    by unfold_locales
      (simp_all add: BitInt_number_def BitInt_zero,
        auto simp: BitInt_defs neg add sub mul shl ashr bits dest!: z intro: trans[OF sdiv(1)] trans[OF udiv(1)]
          trans[OF srem(1)] trans[OF urem(1)])
qed

end

section \<open>An APInt arithmetic\<close>

text \<open>Pairs of a width and an integer, read modulo \<open>2 ^ width\<close>.\<close>

fun bits_uval :: "nat \<times> int \<Rightarrow> int" where
  "bits_uval (w, x) = x mod 2 ^ w"

definition bits_sval :: "nat \<times> int \<Rightarrow> int" where
  "bits_sval x = signed_of (fst x) (bits_uval x)"

definition bits_apint :: "(nat \<times> int) apint" where
  "bits_apint = \<lparr>ap_make = (\<lambda>w v. (w, uint v mod 2 ^ w)), ap_width = fst,
     ap_neg = (\<lambda>x. (fst x, - bits_uval x mod 2 ^ fst x)),
     ap_add = (\<lambda>x y. (fst x, (bits_uval x + bits_uval y) mod 2 ^ fst x)),
     ap_sub = (\<lambda>x y. (fst x, (bits_uval x - bits_uval y) mod 2 ^ fst x)),
     ap_mul = (\<lambda>x y. (fst x, (bits_uval x * bits_uval y) mod 2 ^ fst x)),
     ap_sdiv = (\<lambda>x y. (fst x, (bits_sval x sdiv bits_sval y) mod 2 ^ fst x)),
     ap_udiv = (\<lambda>x y. (fst x, bits_uval x div bits_uval y)),
     ap_srem = (\<lambda>x y. (fst x, (bits_sval x smod bits_sval y) mod 2 ^ fst x)),
     ap_urem = (\<lambda>x y. (fst x, bits_uval x mod bits_uval y)),
     ap_shl = (\<lambda>x y. (fst x, (bits_uval x * 2 ^ nat (bits_uval y)) mod 2 ^ fst x)),
     ap_ashr = (\<lambda>x y. (fst x, (bits_sval x div 2 ^ nat (bits_uval y)) mod 2 ^ fst x)),
     ap_lshr = (\<lambda>x y. (fst x, bits_uval x div 2 ^ nat (bits_uval y))),
     ap_and = (\<lambda>x y. (fst x, and (bits_uval x) (bits_uval y))),
     ap_or = (\<lambda>x y. (fst x, or (bits_uval x) (bits_uval y))),
     ap_xor = (\<lambda>x y. (fst x, xor (bits_uval x) (bits_uval y))),
     ap_eq = (\<lambda>x y. bits_uval x = bits_uval y),
     ap_sle = (\<lambda>x y. bits_sval x \<le> bits_sval y), ap_ule = (\<lambda>x y. bits_uval x \<le> bits_uval y),
     ap_sext = (\<lambda>x w. (w, bits_sval x mod 2 ^ w)), ap_zext = (\<lambda>x w. (w, bits_uval x)),
     ap_trunc = (\<lambda>x w. (w, bits_uval x mod 2 ^ w)), ap_raw = (\<lambda>x. word_of_int (bits_uval x)),
     ap_smax = (\<lambda>w. (w, 2 ^ (w - 1) - 1)), ap_umax = (\<lambda>w. (w, 2 ^ w - 1)),
     ap_smin = (\<lambda>w. (w, 2 ^ (w - 1))), ap_umin = (\<lambda>w. (w, 0))\<rparr>"

lemma bits_uval_range: "0 \<le> bits_uval x" "bits_uval x < 2 ^ fst x"
  by (cases x; simp)+

lemma bits_uval_pair: "0 \<le> u \<Longrightarrow> u < 2 ^ w \<Longrightarrow> bits_uval (w, u) = u"
  by simp

lemma mod_power_range: "0 \<le> (a :: int) mod 2 ^ w" "a mod 2 ^ w < 2 ^ w"
  by simp_all

lemma bits_div_mod: "0 \<le> (b::int) \<Longrightarrow> a mod 2 ^ w div b mod 2 ^ w = a mod 2 ^ w div b"
proof (cases "b = 0")
  case False
  assume "0 \<le> b"
  then have "a mod 2 ^ w div b \<le> a mod 2 ^ w" "0 \<le> a mod 2 ^ w div b"
    using False zdiv_mono2[of "a mod 2 ^ w" 1 b] by (simp_all add: pos_imp_zdiv_nonneg_iff)
  then show ?thesis
    using mod_power_range[of a w] by (intro mod_pos_pos_trivial) linarith+
qed simp

lemma bits_mod_mod: "a mod 2 ^ w mod (b mod 2 ^ w) mod 2 ^ w = a mod 2 ^ w mod (b mod (2 :: int) ^ w)"
proof (cases "b mod 2 ^ w = 0")
  case False
  then have "0 < b mod 2 ^ w" using mod_power_range[of b w] by linarith
  then have "a mod 2 ^ w mod (b mod 2 ^ w) < b mod 2 ^ w" "0 \<le> a mod 2 ^ w mod (b mod 2 ^ w)"
    using pos_mod_bound pos_mod_sign by blast+
  then show ?thesis
    using mod_power_range[of b w] by (intro mod_pos_pos_trivial) linarith+
qed simp

lemma bits_logic_mod:
  "or (a mod 2 ^ w) (b mod 2 ^ w) mod 2 ^ w = or (a mod (2 :: int) ^ w) (b mod 2 ^ w)"
  "xor (a mod 2 ^ w) (b mod 2 ^ w) mod 2 ^ w = xor (a mod (2 :: int) ^ w) (b mod 2 ^ w)"
  "and (a mod 2 ^ w) (b mod 2 ^ w) mod 2 ^ w = and (a mod (2 :: int) ^ w) (b mod 2 ^ w)"
  by (simp_all flip: take_bit_eq_mod)

lemma bits_ext_mod: "v \<le> w \<Longrightarrow> (x :: int) mod 2 ^ v mod 2 ^ w = x mod 2 ^ v"
  by (simp flip: take_bit_eq_mod add: min_absorb2)

lemma bits_extremes: "(- 1 :: int) mod 2 ^ w = 2 ^ w - 1"
  "0 < w \<Longrightarrow> (2 ^ (w - Suc 0) - 1 :: int) mod 2 ^ w = 2 ^ (w - Suc 0) - 1"
  "0 < w \<Longrightarrow> (2 ^ (w - Suc 0) :: int) mod 2 ^ w = 2 ^ (w - Suc 0)"
proof -
  show "(- 1 :: int) mod 2 ^ w = 2 ^ w - 1"
    by (simp flip: take_bit_eq_mod mask_eq_exp_minus_1 add: take_bit_minus_one_eq_mask)
  assume "0 < w"
  then have "(2 :: int) ^ (w - Suc 0) < 2 ^ w" by simp
  moreover have "(1 :: int) \<le> 2 ^ (w - Suc 0)" by simp
  ultimately show "(2 ^ (w - Suc 0) - 1 :: int) mod 2 ^ w = 2 ^ (w - Suc 0) - 1"
    "(2 ^ (w - Suc 0) :: int) mod 2 ^ w = 2 ^ (w - Suc 0)"
    by (intro mod_pos_pos_trivial; linarith)+
qed

interpretation bits: apint_laws bits_apint bits_uval
proof
  show "0 \<le> bits_uval x" "bits_uval x < 2 ^ ap_width bits_apint x" for x
    by (simp_all add: bits_uval_range bits_apint_def)
qed (auto simp: bits_apint_def bits_sval_def bits_div_mod bits_mod_mod bits_logic_mod bits_ext_mod
      bits_extremes uint_word_of_int)

lemma bits_width [simp]: "ap_width bits_apint = fst"
  by (simp add: bits_apint_def)

lemma bits_number: "number_order (BitInt_number bits_apint sg) (ival bits_apint bits_uval sg) (\<lambda>w x. ap_width bits_apint x = w)"
  by (rule bits.BitInt_order)

lemma bits_arith: "number_arith (BitInt_number bits_apint sg) (ival bits_apint bits_uval sg) (\<lambda>w x. ap_width bits_apint x = w)"
  by (rule bits.BitInt_arith)

end
