(* ===== verification/Bounds.thy ===== *)
theory Bounds
  imports Numbers
begin

text \<open>
  \<open>Bound<Number>\<close> (src/Interpreter/Domain/Numerical/Bound.hpp): a number or one of two infinities,
  with the adapter that makes its constants; and \<open>util::min\<close> and \<open>util::max\<close> (src/Util/algorithm.hpp).
  The number type is the parameter \<open>N\<close>.  A failed \<open>ASSERT\<close> or \<open>UNREACHABLE\<close> is \<open>None\<close>.  The meaning
  of a bound is a value of the number's order extended by two infinities (\<open>ext\<close>).
\<close>

section \<open>The class\<close>

record ('c, 'n) Bound =
  b_caster :: 'c
  isPlusInfinity :: bool
  isMinusInfinity :: bool
  b_value :: 'n

definition isInfinite :: "('c, 'n) Bound \<Rightarrow> bool" where
  "isInfinite b = (isPlusInfinity b \<or> isMinusInfinity b)"

definition isFinite :: "('c, 'n) Bound \<Rightarrow> bool" where
  "isFinite b = (\<not> isInfinite b)"

definition Bound_normalize :: "('c, 'n) number \<Rightarrow> ('c, 'n) Bound \<Rightarrow> ('c, 'n) Bound option" where
  "Bound_normalize N b =
     (if isPlusInfinity b \<and> isMinusInfinity b then None
      else if isInfinite b then Some (b\<lparr>b_value := n_of_int N (b_caster b) 0\<rparr>) else Some b)"

definition Bound_of_int :: "('c, 'n) number \<Rightarrow> 'c \<Rightarrow> 32 word \<Rightarrow> ('c, 'n) Bound" where
  "Bound_of_int N c n = \<lparr>b_caster = c, isPlusInfinity = False, isMinusInfinity = False, b_value = n_of_int N c n\<rparr>"

definition Bound_of :: "'c \<Rightarrow> 'n \<Rightarrow> ('c, 'n) Bound" where
  "Bound_of c n = \<lparr>b_caster = c, isPlusInfinity = False, isMinusInfinity = False, b_value = n\<rparr>"

definition plusInfinity :: "('c, 'n) number \<Rightarrow> 'c \<Rightarrow> ('c, 'n) Bound" where
  "plusInfinity N c = \<lparr>b_caster = c, isPlusInfinity = True, isMinusInfinity = False, b_value = n_of_int N c 0\<rparr>"

definition minusInfinity :: "('c, 'n) number \<Rightarrow> 'c \<Rightarrow> ('c, 'n) Bound" where
  "minusInfinity N c = \<lparr>b_caster = c, isPlusInfinity = False, isMinusInfinity = True, b_value = n_of_int N c 0\<rparr>"

definition Bound_isZero :: "('c, 'n) number \<Rightarrow> ('c, 'n) Bound \<Rightarrow> bool" where
  "Bound_isZero N b = (isFinite b \<and> n_eq N (b_value b) (n_of_int N (b_caster b) 0))"

definition Bound_isPositive :: "('c, 'n) number \<Rightarrow> ('c, 'n) Bound \<Rightarrow> bool" where
  "Bound_isPositive N b = (n_gt N (b_value b) (n_of_int N (b_caster b) 0) \<or> isPlusInfinity b)"

definition Bound_isNegative :: "('c, 'n) number \<Rightarrow> ('c, 'n) Bound \<Rightarrow> bool" where
  "Bound_isNegative N b = (n_lt N (b_value b) (n_of_int N (b_caster b) 0) \<or> isMinusInfinity b)"

definition Bound_neg :: "('c, 'n) number \<Rightarrow> ('c, 'n) Bound \<Rightarrow> ('c, 'n) Bound" where
  "Bound_neg N b =
     (if isPlusInfinity b then minusInfinity N (b_caster b)
      else if isMinusInfinity b then plusInfinity N (b_caster b)
      else Bound_of (b_caster b) (n_neg N (b_value b)))"

definition Bound_leq :: "('c, 'n) number \<Rightarrow> ('c, 'n) Bound \<Rightarrow> ('c, 'n) Bound \<Rightarrow> bool" where
  "Bound_leq N this other =
     (if isPlusInfinity other then True
      else if isPlusInfinity this then isPlusInfinity other
      else if isMinusInfinity other then isMinusInfinity this
      else if isMinusInfinity this then True
      else n_le N (b_value this) (b_value other))"

definition Bound_geq :: "('c, 'n) number \<Rightarrow> ('c, 'n) Bound \<Rightarrow> ('c, 'n) Bound \<Rightarrow> bool" where
  "Bound_geq N this other =
     (if isPlusInfinity other then isPlusInfinity this
      else if isPlusInfinity this then True
      else if isMinusInfinity other then True
      else if isMinusInfinity this then isMinusInfinity other
      else n_ge N (b_value this) (b_value other))"

definition Bound_equals :: "('c, 'n) number \<Rightarrow> ('c, 'n) Bound \<Rightarrow> ('c, 'n) Bound \<Rightarrow> bool" where
  "Bound_equals N this other =
     (isPlusInfinity this = isPlusInfinity other \<and> isMinusInfinity this = isMinusInfinity other \<and>
      n_eq N (b_value this) (b_value other))"

definition Bound_less :: "('c, 'n) number \<Rightarrow> ('c, 'n) Bound \<Rightarrow> ('c, 'n) Bound \<Rightarrow> bool" where
  "Bound_less N lhs rhs = (\<not> Bound_geq N lhs rhs)"

definition Bound_greater :: "('c, 'n) number \<Rightarrow> ('c, 'n) Bound \<Rightarrow> ('c, 'n) Bound \<Rightarrow> bool" where
  "Bound_greater N lhs rhs = (\<not> Bound_leq N lhs rhs)"

definition Bound_geq_int :: "('c, 'n) number \<Rightarrow> ('c, 'n) Bound \<Rightarrow> 32 word \<Rightarrow> bool" where
  "Bound_geq_int N lhs n = Bound_geq N lhs (Bound_of_int N (b_caster lhs) n)"

section \<open>Arithmetic\<close>

definition Bound_add_assign :: "('c, 'n) number \<Rightarrow> ('c, 'n) Bound \<Rightarrow> ('c, 'n) Bound \<Rightarrow> ('c, 'n) Bound" where
  "Bound_add_assign N this other =
     (if isFinite this \<and> isFinite other then this\<lparr>b_value := n_add N (b_value this) (b_value other)\<rparr>
      else if isFinite this \<and> isInfinite other then other
      else if isInfinite this \<and> isFinite other then this
      else if Bound_equals N this other then this else this)"

definition Bound_sub_assign :: "('c, 'n) number \<Rightarrow> ('c, 'n) Bound \<Rightarrow> ('c, 'n) Bound \<Rightarrow> ('c, 'n) Bound" where
  "Bound_sub_assign N this other =
     (if isFinite this \<and> isFinite other then this\<lparr>b_value := n_sub N (b_value this) (b_value other)\<rparr>
      else if isFinite this \<and> isInfinite other then Bound_neg N other
      else if isInfinite this \<and> isFinite other then this
      else if \<not> Bound_equals N this other then this else this)"

definition Bound_mul_assign :: "('c, 'n) number \<Rightarrow> ('c, 'n) Bound \<Rightarrow> ('c, 'n) Bound \<Rightarrow> ('c, 'n) Bound" where
  "Bound_mul_assign N this other =
     (if isFinite this \<and> isFinite other then this\<lparr>b_value := n_mul N (b_value this) (b_value other)\<rparr>
      else if isFinite this \<and> isInfinite other then other
      else if isInfinite this \<and> isFinite other then this
      else if Bound_equals N this other then this else this)"

definition Bound_div_assign ::
  "('c, 'n) number \<Rightarrow> ('c, 'n) Bound \<Rightarrow> ('c, 'n) Bound \<Rightarrow> ('c, 'n) Bound option" where
  "Bound_div_assign N this other =
     (if Bound_isZero N other then None
      else if isFinite this \<and> isFinite other then Some (this\<lparr>b_value := n_div N (b_value this) (b_value other)\<rparr>)
      else if isFinite this \<and> isInfinite other then Some (Bound_of_int N (b_caster this) 0)
      else if isInfinite this \<and> isFinite other then
        (if n_ge N (b_value other) (n_of_int N (b_caster this) 0) then Some this else Some (Bound_neg N this))
      else Some this)"

definition Bound_mod_assign ::
  "('c, 'n) number \<Rightarrow> ('c, 'n) Bound \<Rightarrow> ('c, 'n) Bound \<Rightarrow> ('c, 'n) Bound option" where
  "Bound_mod_assign N this other =
     (if Bound_isZero N other then None
      else if isFinite this \<and> isFinite other then Some (this\<lparr>b_value := n_mod N (b_value this) (b_value other)\<rparr>)
      else if isFinite this \<and> isInfinite other then Some this
      else if isInfinite this \<and> isFinite other then Some this
      else Some this)"

definition Bound_inc :: "('c, 'n) number \<Rightarrow> ('c, 'n) Bound \<Rightarrow> ('c, 'n) Bound" where
  "Bound_inc N this = Bound_add_assign N this (Bound_of_int N (b_caster this) 1)"

definition Bound_add :: "('c, 'n) number \<Rightarrow> ('c, 'n) Bound \<Rightarrow> ('c, 'n) Bound \<Rightarrow> ('c, 'n) Bound" where
  "Bound_add N lhv rhv = (let result = lhv in Bound_add_assign N result rhv)"

definition Bound_sub :: "('c, 'n) number \<Rightarrow> ('c, 'n) Bound \<Rightarrow> ('c, 'n) Bound \<Rightarrow> ('c, 'n) Bound" where
  "Bound_sub N lhv rhv = (let result = lhv in Bound_sub_assign N result rhv)"

definition Bound_mul :: "('c, 'n) number \<Rightarrow> ('c, 'n) Bound \<Rightarrow> ('c, 'n) Bound \<Rightarrow> ('c, 'n) Bound" where
  "Bound_mul N lhv rhv = (let result = lhv in Bound_mul_assign N result rhv)"

definition Bound_div :: "('c, 'n) number \<Rightarrow> ('c, 'n) Bound \<Rightarrow> ('c, 'n) Bound \<Rightarrow> ('c, 'n) Bound option" where
  "Bound_div N lhv rhv = (let result = lhv in Bound_div_assign N result rhv)"

definition Bound_mod :: "('c, 'n) number \<Rightarrow> ('c, 'n) Bound \<Rightarrow> ('c, 'n) Bound \<Rightarrow> ('c, 'n) Bound option" where
  "Bound_mod N lhv rhv = (let result = lhv in Bound_mod_assign N result rhv)"

definition Bound_abs :: "('c, 'n) number \<Rightarrow> ('c, 'n) Bound \<Rightarrow> ('c, 'n) Bound" where
  "Bound_abs N b = (if Bound_geq_int N b 0 then b else Bound_neg N b)"

definition Bound_shl :: "('c, 'n) number \<Rightarrow> ('c, 'n) Bound \<Rightarrow> ('c, 'n) Bound \<Rightarrow> ('c, 'n) Bound option" where
  "Bound_shl N lhv rhv =
     (if \<not> Bound_geq_int N rhv 0 then None
      else if Bound_isZero N lhv then Some lhv
      else if isInfinite lhv then Some lhv
      else if isInfinite rhv then
        Some (if Bound_isPositive N lhv then plusInfinity N (b_caster lhv) else minusInfinity N (b_caster lhv))
      else Some (Bound_of (b_caster lhv) (n_shl N (b_value lhv) (b_value rhv))))"

definition Bound_shr :: "('c, 'n) number \<Rightarrow> ('c, 'n) Bound \<Rightarrow> ('c, 'n) Bound \<Rightarrow> ('c, 'n) Bound option" where
  "Bound_shr N lhv rhv =
     (if \<not> Bound_geq_int N rhv 0 then None
      else if Bound_isZero N lhv then Some lhv
      else if isInfinite lhv then Some lhv
      else if isInfinite rhv then
        Some (if Bound_isPositive N lhv then plusInfinity N (b_caster lhv) else minusInfinity N (b_caster lhv))
      else Some (Bound_of (b_caster lhv) (n_shr N (b_value lhv) (b_value rhv))))"

definition Bound_lshr :: "('c, 'n) number \<Rightarrow> ('c, 'n) Bound \<Rightarrow> ('c, 'n) Bound \<Rightarrow> ('c, 'n) Bound option" where
  "Bound_lshr N lhv rhv =
     (if \<not> Bound_geq_int N rhv 0 then None
      else if Bound_isZero N lhv then Some lhv
      else if isInfinite lhv then Some lhv
      else if isInfinite rhv then Some (Bound_of_int N (b_caster lhv) 0)
      else Some (Bound_of (b_caster lhv) (n_shr N (b_value lhv) (b_value rhv))))"

text \<open>\<open>util::min\<close> and \<open>util::max\<close> of one or more arguments.\<close>

fun util_min :: "('a \<Rightarrow> 'a \<Rightarrow> bool) \<Rightarrow> 'a \<Rightarrow> 'a list \<Rightarrow> 'a" where
  "util_min lt h [] = h"
| "util_min lt h (t # ts) = (let tmin = util_min lt t ts in if lt h tmin then h else tmin)"

fun util_max :: "('a \<Rightarrow> 'a \<Rightarrow> bool) \<Rightarrow> 'a \<Rightarrow> 'a list \<Rightarrow> 'a" where
  "util_max lt h [] = h"
| "util_max lt h (t # ts) = (let tmax = util_max lt t ts in if lt h tmax then tmax else h)"

section \<open>The order of bounds\<close>

datatype 'v ext = NInf | Fin 'v | PInf

instantiation ext :: (linorder) linorder
begin

fun less_eq_ext :: "'a ext \<Rightarrow> 'a ext \<Rightarrow> bool" where
  "less_eq_ext NInf y = True"
| "less_eq_ext x PInf = True"
| "less_eq_ext (Fin a) (Fin b) = (a \<le> b)"
| "less_eq_ext x y = False"

definition less_ext :: "'a ext \<Rightarrow> 'a ext \<Rightarrow> bool" where
  "less_ext x y = (x \<le> y \<and> \<not> y \<le> x)"

instance
proof
  fix x y z :: "'a ext"
  show "x < y \<longleftrightarrow> x \<le> y \<and> \<not> y \<le> x" by (rule less_ext_def)
  show "x \<le> x" by (cases x) simp_all
  show "x \<le> y \<Longrightarrow> y \<le> z \<Longrightarrow> x \<le> z" by (cases x; cases y; cases z) simp_all
  show "x \<le> y \<Longrightarrow> y \<le> x \<Longrightarrow> x = y" by (cases x; cases y) simp_all
  show "x \<le> y \<or> y \<le> x" by (cases x; cases y) auto
qed

end

lemma ext_simps [simp]: "x \<le> PInf" "PInf \<le> x \<longleftrightarrow> x = PInf" "x \<le> NInf \<longleftrightarrow> x = NInf" "NInf \<le> x"
  by (cases x; simp)+

lemma ext_less_simps [simp]: "Fin a < Fin b \<longleftrightarrow> a < b" "NInf < Fin a" "Fin a < PInf" "NInf < PInf"
  "\<not> x < NInf" "\<not> PInf < x"
  by (auto simp: less_ext_def not_le)

definition bound_val :: "('n \<Rightarrow> 'v) \<Rightarrow> ('c, 'n) Bound \<Rightarrow> 'v ext" where
  "bound_val v b = (if isPlusInfinity b then PInf else if isMinusInfinity b then NInf else Fin (v (b_value b)))"

definition bound_ok :: "('c, 'n) number \<Rightarrow> ('c \<Rightarrow> 'n \<Rightarrow> bool) \<Rightarrow> 'c \<Rightarrow> ('c, 'n) Bound \<Rightarrow> bool" where
  "bound_ok N has c b \<longleftrightarrow> b_caster b = c \<and> has c (b_value b) \<and> \<not> (isPlusInfinity b \<and> isMinusInfinity b) \<and>
     (isInfinite b \<longrightarrow> b_value b = n_of_int N c 0)"

named_theorems bound_simps \<open>bounds under their values\<close>

lemma bound_val_simps [simp]:
  "bound_val v (Bound_of c n) = Fin (v n)" "bound_val v (Bound_of_int N c k) = Fin (v (n_of_int N c k))"
  "bound_val v (plusInfinity N c) = PInf" "bound_val v (minusInfinity N c) = NInf"
  by (simp_all add: bound_val_def Bound_of_def Bound_of_int_def plusInfinity_def minusInfinity_def)

lemma caster_simps [simp]:
  "b_caster (Bound_of c n) = c" "b_caster (Bound_of_int N c k) = c"
  "b_caster (plusInfinity N c) = c" "b_caster (minusInfinity N c) = c"
  by (simp_all add: Bound_of_def Bound_of_int_def plusInfinity_def minusInfinity_def)

lemma finite_simps [simp]:
  "isFinite (Bound_of c n)" "isFinite (Bound_of_int N c k)" "\<not> isFinite (plusInfinity N c)" "\<not> isFinite (minusInfinity N c)"
  by (simp_all add: isFinite_def isInfinite_def Bound_of_def Bound_of_int_def plusInfinity_def minusInfinity_def)

context number_order
begin

lemma bound_ok_make [simp]:
  "bound_ok N has c (Bound_of d n) \<longleftrightarrow> c = d \<and> has c n" "bound_ok N has c (Bound_of_int N d k) \<longleftrightarrow> c = d"
  "bound_ok N has c (plusInfinity N d) \<longleftrightarrow> c = d" "bound_ok N has c (minusInfinity N d) \<longleftrightarrow> c = d"
  by (auto simp: bound_ok_def Bound_of_def Bound_of_int_def plusInfinity_def minusInfinity_def isInfinite_def)

lemma bound_caster: "bound_ok N has c b \<Longrightarrow> b_caster b = c"
  by (simp add: bound_ok_def)

lemma bound_order:
  assumes "bound_ok N has c a" "bound_ok N has c b"
  shows "Bound_leq N a b \<longleftrightarrow> bound_val val a \<le> bound_val val b"
    and "Bound_geq N a b \<longleftrightarrow> bound_val val b \<le> bound_val val a"
    and "Bound_equals N a b \<longleftrightarrow> bound_val val a = bound_val val b"
    and "Bound_less N a b \<longleftrightarrow> bound_val val a < bound_val val b"
    and "Bound_greater N a b \<longleftrightarrow> bound_val val b < bound_val val a"
proof -
  note ok = assms[unfolded bound_ok_def isInfinite_def]
  show le: "Bound_leq N a b \<longleftrightarrow> bound_val val a \<le> bound_val val b"
    using ok by (simp add: Bound_leq_def bound_val_def le_val[of c] split: if_splits)
  show ge: "Bound_geq N a b \<longleftrightarrow> bound_val val b \<le> bound_val val a"
    using ok by (simp add: Bound_geq_def bound_val_def ge_val[of c] split: if_splits)
  show "Bound_equals N a b \<longleftrightarrow> bound_val val a = bound_val val b"
    using ok by (cases "isPlusInfinity a"; cases "isMinusInfinity a"; cases "isPlusInfinity b"; cases "isMinusInfinity b")
      (simp_all add: Bound_equals_def bound_val_def eq_val[of c])
  show "Bound_less N a b \<longleftrightarrow> bound_val val a < bound_val val b"
    "Bound_greater N a b \<longleftrightarrow> bound_val val b < bound_val val a"
    by (simp_all add: Bound_less_def Bound_greater_def le ge not_le)
qed

lemma bound_geq_int:
  "bound_ok N has c a \<Longrightarrow> Bound_geq_int N a k \<longleftrightarrow> Fin (val (n_of_int N c k)) \<le> bound_val val a"
  using bound_order(2)[of c a "Bound_of_int N c k"] by (simp add: Bound_geq_int_def bound_caster)

lemma bound_min_max_ok:
  assumes "bound_ok N has c h" "list_all (bound_ok N has c) ts"
  shows "bound_ok N has c (util_min (Bound_less N) h ts)" "bound_ok N has c (util_max (Bound_less N) h ts)"
  using assms by (induction ts arbitrary: h) (auto simp: Let_def)

lemma bound_min_max:
  assumes "bound_ok N has c h" "list_all (bound_ok N has c) (t # ts)"
  shows "bound_val val (util_min (Bound_less N) h (t # ts)) =
      min (bound_val val h) (bound_val val (util_min (Bound_less N) t ts))"
    and "bound_val val (util_max (Bound_less N) h (t # ts)) =
      max (bound_val val h) (bound_val val (util_max (Bound_less N) t ts))"
  using assms bound_min_max_ok[of c t ts] by (auto simp: Let_def min_def max_def bound_order(4)[of c] not_le)

end

section \<open>Arithmetic stays well formed\<close>

named_theorems bound_intros \<open>operations keep bounds well formed\<close>

context number_arith
begin

lemma bound_ok_value: "bound_ok N has c b \<Longrightarrow> has c (b_value b)"
  by (simp add: bound_ok_def)

lemma bound_ok_update:
  "bound_ok N has c b \<Longrightarrow> isFinite b \<Longrightarrow> has c x \<Longrightarrow> bound_ok N has c (b\<lparr>b_value := x\<rparr>)"
  by (auto simp: bound_ok_def isFinite_def isInfinite_def)

lemma bound_neg_ok [bound_intros]: "bound_ok N has c b \<Longrightarrow> bound_ok N has c (Bound_neg N b)"
  by (simp add: Bound_neg_def bound_caster bound_ok_value closed)

lemma bound_arith_ok [bound_intros]:
  assumes "bound_ok N has c a" "bound_ok N has c b"
  shows "bound_ok N has c (Bound_add N a b)" "bound_ok N has c (Bound_sub N a b)" "bound_ok N has c (Bound_mul N a b)"
  using assms
  by (auto simp: Bound_add_def Bound_add_assign_def Bound_sub_def Bound_sub_assign_def Bound_mul_def
      Bound_mul_assign_def Let_def intro!: bound_ok_update closed bound_ok_value bound_neg_ok)

lemma bound_abs_ok [bound_intros]: "bound_ok N has c b \<Longrightarrow> bound_ok N has c (Bound_abs N b)"
  by (simp add: Bound_abs_def bound_neg_ok)

lemma bound_isZero: "bound_ok N has c b \<Longrightarrow> Bound_isZero N b \<longleftrightarrow> bound_val val b = Fin (val (n_of_int N c 0))"
  by (auto simp: Bound_isZero_def bound_val_def isFinite_def isInfinite_def bound_caster bound_ok_value eq_val[of c])

lemma bound_div_ok:
  assumes "bound_ok N has c a" "bound_ok N has c b" "bound_val val b \<noteq> Fin (val (n_of_int N c 0))"
  shows "\<exists>r. Bound_div N a b = Some r \<and> bound_ok N has c r"
proof -
  have "\<not> Bound_isZero N b" using assms bound_isZero by blast
  moreover have "isFinite b \<Longrightarrow> val (b_value b) \<noteq> val (n_of_int N c 0)"
    using assms(3) by (auto simp: bound_val_def isFinite_def isInfinite_def)
  ultimately show ?thesis using assms(1,2)
    by (auto simp: Bound_div_def Bound_div_assign_def Let_def bound_caster
        intro!: bound_ok_update closed bound_ok_value bound_neg_ok)
qed

lemma bound_shift_ok:
  assumes "bound_ok N has c a" "bound_ok N has c b" "Fin (val (n_of_int N c 0)) \<le> bound_val val b"
  shows "\<exists>r. Bound_shl N a b = Some r \<and> bound_ok N has c r" "\<exists>r. Bound_shr N a b = Some r \<and> bound_ok N has c r"
    "\<exists>r. Bound_lshr N a b = Some r \<and> bound_ok N has c r"
  using assms by (auto simp: Bound_shl_def Bound_shr_def Bound_lshr_def bound_geq_int bound_caster bound_ok_value closed)

end

end
