(* ===== verification/Intervals.thy ===== *)
theory Intervals
  imports Bounds
begin

text \<open>
  The interval domain (src/Interpreter/Domain/Numerical/Interval.hpp): construction, the lattice
  operations, comparison and splitting.  Intervals are interned by \<open>Interval::cache_\<close> under the
  equality of their bounds, so the pointer comparison \<open>this == other.get()\<close> is equality of values
  here.  \<open>gamma\<close> is the set of numbers an interval stands for.
\<close>

section \<open>The class\<close>

record ('c, 'n) Interval =
  lb :: "('c, 'n) Bound"
  ub :: "('c, 'n) Bound"
  isBottom :: bool
  isTop :: bool

definition Interval_make :: "('c, 'n) number \<Rightarrow> ('c, 'n) Bound \<Rightarrow> ('c, 'n) Bound \<Rightarrow> ('c, 'n) Interval" where
  "Interval_make N from to = \<lparr>lb = from, ub = to, isBottom = Bound_greater N from to,
     isTop = (Bound_equals N from (minusInfinity N (b_caster from)) \<and>
              Bound_equals N to (plusInfinity N (b_caster to)))\<rparr>"

definition Interval_interval :: "('c, 'n) number \<Rightarrow> ('c, 'n) Bound \<Rightarrow> ('c, 'n) Bound \<Rightarrow> ('c, 'n) Interval" where
  "Interval_interval N from to = Interval_make N from to"

definition Interval_of_int :: "('c, 'n) number \<Rightarrow> 32 word \<Rightarrow> 'c \<Rightarrow> ('c, 'n) Interval" where
  "Interval_of_int N n c = \<lparr>lb = Bound_of_int N c n, ub = Bound_of_int N c n, isBottom = False, isTop = False\<rparr>"

definition Interval_of :: "'n \<Rightarrow> 'c \<Rightarrow> ('c, 'n) Interval" where
  "Interval_of n c = \<lparr>lb = Bound_of c n, ub = Bound_of c n, isBottom = False, isTop = False\<rparr>"

definition Interval_getTop :: "('c, 'n) number \<Rightarrow> 'c \<Rightarrow> ('c, 'n) Interval" where
  "Interval_getTop N c = \<lparr>lb = minusInfinity N c, ub = plusInfinity N c, isBottom = False, isTop = True\<rparr>"

definition Interval_getBottom :: "('c, 'n) number \<Rightarrow> 'c \<Rightarrow> ('c, 'n) Interval" where
  "Interval_getBottom N c = \<lparr>lb = Bound_of_int N c 1, ub = Bound_of_int N c 0, isBottom = True, isTop = False\<rparr>"

definition Interval_top :: "('c, 'n) number \<Rightarrow> 'c \<Rightarrow> ('c, 'n) Interval" where
  "Interval_top N c = Interval_make N (minusInfinity N c) (plusInfinity N c)"

definition Interval_bottom :: "('c, 'n) number \<Rightarrow> 'c \<Rightarrow> ('c, 'n) Interval" where
  "Interval_bottom N c = Interval_make N (Bound_of_int N c 1) (Bound_of_int N c 0)"

definition Interval_constant :: "('c, 'n) number \<Rightarrow> 'n \<Rightarrow> 'c \<Rightarrow> ('c, 'n) Interval" where
  "Interval_constant N n c = Interval_make N (Bound_of c n) (Bound_of c n)"

definition Interval_clone :: "('c, 'n) number \<Rightarrow> ('c, 'n) Interval \<Rightarrow> ('c, 'n) Interval" where
  "Interval_clone N i = Interval_interval N (lb i) (ub i)"

definition Interval_caster :: "('c, 'n) Interval \<Rightarrow> 'c" where
  "Interval_caster i = b_caster (lb i)"

definition Interval_isConstant :: "('c, 'n) number \<Rightarrow> ('c, 'n) Interval \<Rightarrow> bool" where
  "Interval_isConstant N i = Bound_equals N (lb i) (ub i)"

definition Interval_asConstant :: "('c, 'n) number \<Rightarrow> ('c, 'n) Interval \<Rightarrow> 'n option" where
  "Interval_asConstant N i = (if Interval_isConstant N i then Some (b_value (lb i)) else None)"

definition Interval_isConstant_bound :: "('c, 'n) number \<Rightarrow> ('c, 'n) Bound \<Rightarrow> ('c, 'n) Interval \<Rightarrow> bool option" where
  "Interval_isConstant_bound N bnd i =
     (if isFinite bnd then Some (Bound_equals N (lb i) bnd \<and> Bound_equals N (ub i) bnd) else None)"

definition Interval_isConstant_int :: "('c, 'n) number \<Rightarrow> 32 word \<Rightarrow> ('c, 'n) Interval \<Rightarrow> bool option" where
  "Interval_isConstant_int N n i = Interval_isConstant_bound N (Bound_of_int N (Interval_caster i) n) i"

definition Interval_contains_bound :: "('c, 'n) number \<Rightarrow> ('c, 'n) Bound \<Rightarrow> ('c, 'n) Interval \<Rightarrow> bool option" where
  "Interval_contains_bound N bnd i =
     (if isFinite bnd then Some (Bound_leq N (lb i) bnd \<and> Bound_leq N bnd (ub i)) else None)"

definition Interval_contains_int :: "('c, 'n) number \<Rightarrow> 32 word \<Rightarrow> ('c, 'n) Interval \<Rightarrow> bool option" where
  "Interval_contains_int N n i = Interval_contains_bound N (Bound_of_int N (Interval_caster i) n) i"

definition Interval_contains :: "('c, 'n) number \<Rightarrow> 'n \<Rightarrow> ('c, 'n) Interval \<Rightarrow> bool option" where
  "Interval_contains N n i = Interval_contains_bound N (Bound_of (Interval_caster i) n) i"

definition Interval_isZero :: "('c, 'n) number \<Rightarrow> ('c, 'n) Interval \<Rightarrow> bool option" where
  "Interval_isZero N i = Interval_isConstant_int N 0 i"

definition Interval_intersects :: "('c, 'n) number \<Rightarrow> ('c, 'n) Interval \<Rightarrow> ('c, 'n) Interval \<Rightarrow> bool" where
  "Interval_intersects N this other =
     (Bound_leq N (lb this) (lb other) \<and> Bound_leq N (lb other) (ub this) \<or>
      Bound_leq N (lb other) (lb this) \<and> Bound_leq N (lb this) (ub other))"

definition Interval_leq :: "('c, 'n) number \<Rightarrow> ('c, 'n) Interval \<Rightarrow> ('c, 'n) Interval \<Rightarrow> bool" where
  "Interval_leq N this other =
     (if isBottom this then True else if isBottom other then False
      else Bound_leq N (lb other) (lb this) \<and> Bound_leq N (ub this) (ub other))"

definition Interval_equals :: "('c, 'n) number \<Rightarrow> ('c, 'n) Interval \<Rightarrow> ('c, 'n) Interval \<Rightarrow> bool" where
  "Interval_equals N this other =
     (if this = other then True else if isBottom this then isBottom other else if isBottom other then False
      else Bound_equals N (lb this) (lb other) \<and> Bound_equals N (ub this) (ub other))"

definition Interval_join :: "('c, 'n) number \<Rightarrow> ('c, 'n) Interval \<Rightarrow> ('c, 'n) Interval \<Rightarrow> ('c, 'n) Interval" where
  "Interval_join N this other =
     (if this = other then this
      else if isBottom this then Interval_clone N other
      else if isBottom other then this
      else Interval_interval N (util_min (Bound_less N) (lb this) [lb other])
             (util_max (Bound_less N) (ub this) [ub other]))"

definition Interval_meet :: "('c, 'n) number \<Rightarrow> ('c, 'n) Interval \<Rightarrow> ('c, 'n) Interval \<Rightarrow> ('c, 'n) Interval" where
  "Interval_meet N this other =
     (if this = other then this
      else if isBottom this \<or> isBottom other then Interval_bottom N (Interval_caster this)
      else Interval_interval N (util_max (Bound_less N) (lb this) [lb other])
             (util_min (Bound_less N) (ub this) [ub other]))"

definition Interval_widen :: "('c, 'n) number \<Rightarrow> ('c, 'n) Interval \<Rightarrow> ('c, 'n) Interval \<Rightarrow> ('c, 'n) Interval" where
  "Interval_widen N this other =
     (if this = other then this
      else if isBottom this then Interval_clone N other
      else if isBottom other then this
      else Interval_interval N
        (if Bound_less N (lb other) (lb this) then minusInfinity N (Interval_caster this) else lb this)
        (if Bound_greater N (ub other) (ub this) then plusInfinity N (Interval_caster this) else ub this))"

record 'd Split =
  split_true :: 'd
  split_false :: 'd

definition Split_swap :: "'d Split \<Rightarrow> 'd Split" where
  "Split_swap s = \<lparr>split_true = split_false s, split_false = split_true s\<rparr>"

definition Interval_splitByEq ::
  "('c, 'n) number \<Rightarrow> ('c, 'n) Interval \<Rightarrow> ('c, 'n) Interval \<Rightarrow> ('c, 'n) Interval Split" where
  "Interval_splitByEq N this other =
     (if isBottom this \<or> isBottom other then \<lparr>split_true = Interval_clone N this, split_false = Interval_clone N this\<rparr>
      else if Interval_isConstant N other then \<lparr>split_true = Interval_clone N other, split_false = Interval_clone N this\<rparr>
      else \<lparr>split_true = Interval_clone N this, split_false = Interval_clone N this\<rparr>)"

definition Interval_splitByLess ::
  "('c, 'n) number \<Rightarrow> ('c, 'n) Interval \<Rightarrow> ('c, 'n) Interval \<Rightarrow> ('c, 'n) Interval Split" where
  "Interval_splitByLess N this other =
     (let same = \<lparr>split_true = Interval_clone N this, split_false = Interval_clone N this\<rparr> in
      if isBottom this \<or> isBottom other then same
      else if Interval_leq N this other then same
      else if Bound_less N (ub this) (lb other) then same
      else if Bound_less N (ub other) (lb this) then same
      else \<lparr>split_true = Interval_interval N (lb this) (ub other), split_false = Interval_interval N (lb other) (ub this)\<rparr>)"

text \<open>\<open>AbstractFactory::getBool\<close>: the booleans are unsigned intervals of one bit.\<close>

definition getBool_TOP :: "'b apint \<Rightarrow> (nat, 'b) Interval" where
  "getBool_TOP A = Interval_top (BitInt_number A False) 1"

definition AF_getBool :: "'b apint \<Rightarrow> bool \<Rightarrow> (nat, 'b) Interval" where
  "AF_getBool A value = Interval_constant (BitInt_number A False) (ap_make A 1 (if value then 1 else 0)) 1"

definition Interval_apply_cond ::
  "'b apint \<Rightarrow> ('c, 'n) number \<Rightarrow> ConditionType \<Rightarrow> ('c, 'n) Interval \<Rightarrow> ('c, 'n) Interval \<Rightarrow> (nat, 'b) Interval option" where
  "Interval_apply_cond A N op this other =
     (if isTop this \<or> isTop other then Some (getBool_TOP A)
      else if isBottom this \<or> isBottom other then Some (getBool_TOP A)
      else case op of
        TRUE \<Rightarrow> Some (AF_getBool A True)
      | FALSE \<Rightarrow> Some (AF_getBool A False)
      | UNKNOWN \<Rightarrow> Some (getBool_TOP A)
      | EQ \<Rightarrow> if Interval_isConstant N this \<and> Interval_isConstant N other then
                Interval_asConstant N this \<bind> (\<lambda>a. Interval_asConstant N other \<bind> (\<lambda>b.
                  Some (AF_getBool A (n_eq N a b))))
              else if Interval_intersects N this other then Some (getBool_TOP A)
              else Some (AF_getBool A False)
      | NEQ \<Rightarrow> if Interval_isConstant N this \<and> Interval_isConstant N other then
                Interval_asConstant N this \<bind> (\<lambda>a. Interval_asConstant N other \<bind> (\<lambda>b.
                  Some (AF_getBool A (\<not> n_eq N a b))))
              else if Interval_intersects N this other then Some (getBool_TOP A)
              else Some (AF_getBool A True)
      | ULT \<Rightarrow> if Interval_intersects N this other then Some (getBool_TOP A)
              else Some (AF_getBool A (Bound_less N (ub this) (lb other)))
      | LT \<Rightarrow> if Interval_intersects N this other then Some (getBool_TOP A)
              else Some (AF_getBool A (Bound_less N (ub this) (lb other)))
      | ULE \<Rightarrow> if Interval_intersects N this other then Some (getBool_TOP A)
              else Some (AF_getBool A (Bound_leq N (ub this) (lb other)))
      | LE \<Rightarrow> if Interval_intersects N this other then Some (getBool_TOP A)
              else Some (AF_getBool A (Bound_leq N (ub this) (lb other)))
      | UGT \<Rightarrow> if Interval_intersects N this other then Some (getBool_TOP A)
              else Some (AF_getBool A (Bound_less N (ub other) (lb this)))
      | GT \<Rightarrow> if Interval_intersects N this other then Some (getBool_TOP A)
              else Some (AF_getBool A (Bound_less N (ub other) (lb this)))
      | UGE \<Rightarrow> if Interval_intersects N this other then Some (getBool_TOP A)
              else Some (AF_getBool A (Bound_leq N (ub other) (lb this)))
      | GE \<Rightarrow> if Interval_intersects N this other then Some (getBool_TOP A)
              else Some (AF_getBool A (Bound_leq N (ub other) (lb this))))"

section \<open>Well-formed intervals and their numbers\<close>

definition iv_ok ::
  "('c, 'n) number \<Rightarrow> ('n \<Rightarrow> 'v::linorder) \<Rightarrow> ('c \<Rightarrow> 'n \<Rightarrow> bool) \<Rightarrow> 'c \<Rightarrow> ('c, 'n) Interval \<Rightarrow> bool" where
  "iv_ok N val has c i \<longleftrightarrow> bound_ok N has c (lb i) \<and> bound_ok N has c (ub i) \<and>
     isBottom i = (bound_val val (ub i) < bound_val val (lb i)) \<and>
     isTop i = (bound_val val (lb i) = NInf \<and> bound_val val (ub i) = PInf)"

definition gamma :: "('n \<Rightarrow> 'v::linorder) \<Rightarrow> ('c \<Rightarrow> 'n \<Rightarrow> bool) \<Rightarrow> 'c \<Rightarrow> ('c, 'n) Interval \<Rightarrow> 'n set" where
  "gamma val has c i = {x. has c x \<and> bound_val val (lb i) \<le> Fin (val x) \<and> Fin (val x) \<le> bound_val val (ub i)}"

lemma make_fields [simp]: "lb (Interval_make N l u) = l" "ub (Interval_make N l u) = u"
  by (simp_all add: Interval_make_def)

lemma clone_fields [simp]: "lb (Interval_clone N i) = lb i" "ub (Interval_clone N i) = ub i"
  by (simp_all add: Interval_clone_def Interval_interval_def)

named_theorems iv_intros \<open>operations keep intervals well formed\<close>

context number_order
begin

lemma iv_bounds:
  assumes "iv_ok N val has c i"
  shows "bound_ok N has c (lb i)" "bound_ok N has c (ub i)" "Interval_caster i = c"
    "b_caster (lb i) = c" "b_caster (ub i) = c"
  using assms by (auto simp: iv_ok_def Interval_caster_def bound_ok_def)

lemma iv_flags:
  assumes "iv_ok N val has c i"
  shows "isBottom i \<longleftrightarrow> bound_val val (ub i) < bound_val val (lb i)"
    "isTop i \<longleftrightarrow> bound_val val (lb i) = NInf \<and> bound_val val (ub i) = PInf"
  using assms by (auto simp: iv_ok_def)

lemma make_ok [iv_intros]:
  assumes "bound_ok N has c l" "bound_ok N has c u"
  shows "iv_ok N val has c (Interval_make N l u)"
  using assms bound_order[OF assms] bound_order(3)[OF assms(1), of "minusInfinity N c"]
    bound_order(3)[OF assms(2), of "plusInfinity N c"]
  by (simp add: iv_ok_def Interval_make_def bound_caster)

lemma constants_ok [iv_intros]:
  "iv_ok N val has c (Interval_of_int N n c)" "has c x \<Longrightarrow> iv_ok N val has c (Interval_of x c)"
  "iv_ok N val has c (Interval_getTop N c)" "iv_ok N val has c (Interval_top N c)"
  "iv_ok N val has c (Interval_bottom N c)" "has c x \<Longrightarrow> iv_ok N val has c (Interval_constant N x c)"
  "val (n_of_int N c 0) < val (n_of_int N c 1) \<Longrightarrow> iv_ok N val has c (Interval_getBottom N c)"
  by (simp_all add: Interval_top_def Interval_bottom_def Interval_constant_def make_ok)
    (simp_all add: iv_ok_def Interval_of_int_def Interval_of_def Interval_getTop_def Interval_getBottom_def)

lemma clone_ok [iv_intros]: "iv_ok N val has c i \<Longrightarrow> iv_ok N val has c (Interval_clone N i)"
  by (simp add: Interval_clone_def Interval_interval_def make_ok iv_bounds)

lemma lattice_ok [iv_intros]:
  assumes "iv_ok N val has c a" "iv_ok N val has c b"
  shows "iv_ok N val has c (Interval_join N a b)" "iv_ok N val has c (Interval_meet N a b)"
    "iv_ok N val has c (Interval_widen N a b)"
  using assms iv_bounds[of c a] iv_bounds[of c b] bound_min_max_ok[of c "lb a" "[lb b]"] bound_min_max_ok[of c "ub a" "[ub b]"]
  by (simp_all add: Interval_join_def Interval_meet_def Interval_widen_def Interval_interval_def iv_intros)

lemma iv_min_max:
  assumes "iv_ok N val has c a" "iv_ok N val has c b"
  shows "bound_val val (util_min (Bound_less N) (lb a) [lb b]) = min (bound_val val (lb a)) (bound_val val (lb b))"
    "bound_val val (util_max (Bound_less N) (lb a) [lb b]) = max (bound_val val (lb a)) (bound_val val (lb b))"
    "bound_val val (util_min (Bound_less N) (ub a) [ub b]) = min (bound_val val (ub a)) (bound_val val (ub b))"
    "bound_val val (util_max (Bound_less N) (ub a) [ub b]) = max (bound_val val (ub a)) (bound_val val (ub b))"
  using assms by (simp_all add: bound_min_max[of c] iv_bounds[of c] del: util_min.simps(2) util_max.simps(2))

text \<open>The order of intervals is the order of the pairs of their bounds, below it the empty ones.\<close>

lemma leq_iff:
  assumes "iv_ok N val has c a" "iv_ok N val has c b"
  shows "Interval_leq N a b \<longleftrightarrow> isBottom a \<or> \<not> isBottom b \<and>
     bound_val val (lb b) \<le> bound_val val (lb a) \<and> bound_val val (ub a) \<le> bound_val val (ub b)"
  using assms iv_bounds[of c a] iv_bounds[of c b] by (auto simp: Interval_leq_def bound_order[of c])

lemma equals_iff:
  assumes "iv_ok N val has c a" "iv_ok N val has c b"
  shows "Interval_equals N a b \<longleftrightarrow> Interval_leq N a b \<and> Interval_leq N b a"
  using assms iv_bounds[of c a] iv_bounds[of c b]
  by (auto simp: leq_iff[of c] Interval_equals_def bound_order[of c] iv_flags[of c])

lemma join_cases:
  assumes "iv_ok N val has c a" "iv_ok N val has c b"
  shows "isBottom a \<Longrightarrow> Interval_leq N (Interval_join N a b) b \<and> Interval_leq N b (Interval_join N a b)"
    and "isBottom b \<Longrightarrow> Interval_leq N (Interval_join N a b) a \<and> Interval_leq N a (Interval_join N a b)"
    and "\<not> isBottom a \<Longrightarrow> \<not> isBottom b \<Longrightarrow>
      bound_val val (lb (Interval_join N a b)) = min (bound_val val (lb a)) (bound_val val (lb b)) \<and>
      bound_val val (ub (Interval_join N a b)) = max (bound_val val (ub a)) (bound_val val (ub b))"
proof -
  show "isBottom a \<Longrightarrow> Interval_leq N (Interval_join N a b) b \<and> Interval_leq N b (Interval_join N a b)"
    using assms iv_intros by (auto simp: leq_iff[of c] Interval_join_def iv_flags[of c] Interval_clone_def Interval_interval_def)
  show "isBottom b \<Longrightarrow> Interval_leq N (Interval_join N a b) a \<and> Interval_leq N a (Interval_join N a b)"
    using assms iv_intros by (auto simp: leq_iff[of c] Interval_join_def iv_flags[of c] Interval_clone_def Interval_interval_def)
  show "\<not> isBottom a \<Longrightarrow> \<not> isBottom b \<Longrightarrow>
      bound_val val (lb (Interval_join N a b)) = min (bound_val val (lb a)) (bound_val val (lb b)) \<and>
      bound_val val (ub (Interval_join N a b)) = max (bound_val val (ub a)) (bound_val val (ub b))"
    using assms by (simp add: Interval_join_def Interval_interval_def iv_min_max[of c] del: util_min.simps(2) util_max.simps(2))
qed

lemma meet_cases:
  assumes "iv_ok N val has c a" "iv_ok N val has c b"
  shows "isBottom a \<or> isBottom b \<Longrightarrow> val (n_of_int N c 0) < val (n_of_int N c 1) \<Longrightarrow> isBottom (Interval_meet N a b)"
    and "\<not> isBottom a \<Longrightarrow> \<not> isBottom b \<Longrightarrow>
      bound_val val (lb (Interval_meet N a b)) = max (bound_val val (lb a)) (bound_val val (lb b)) \<and>
      bound_val val (ub (Interval_meet N a b)) = min (bound_val val (ub a)) (bound_val val (ub b))"
proof -
  assume "isBottom a \<or> isBottom b" and pos: "val (n_of_int N c 0) < val (n_of_int N c 1)"
  moreover have "isBottom (Interval_bottom N c)"
    using pos iv_flags(1)[OF constants_ok(5)] by (simp add: Interval_bottom_def)
  ultimately show "isBottom (Interval_meet N a b)"
    using iv_bounds[OF assms(1)] by (auto simp: Interval_meet_def)
next
  assume "\<not> isBottom a" "\<not> isBottom b"
  then show "bound_val val (lb (Interval_meet N a b)) = max (bound_val val (lb a)) (bound_val val (lb b)) \<and>
      bound_val val (ub (Interval_meet N a b)) = min (bound_val val (ub a)) (bound_val val (ub b))"
    using assms by (simp add: Interval_meet_def Interval_interval_def iv_min_max[of c]
        del: util_min.simps(2) util_max.simps(2))
qed

lemma join_lub:
  assumes "iv_ok N val has c a" "iv_ok N val has c b" "iv_ok N val has c d"
  shows "Interval_leq N a (Interval_join N a b)" "Interval_leq N b (Interval_join N a b)"
    "Interval_leq N a d \<Longrightarrow> Interval_leq N b d \<Longrightarrow> Interval_leq N (Interval_join N a b) d"
proof -
  note ok = assms lattice_ok(1)[OF assms(1,2)] and cases = join_cases[OF assms(1,2)]
  show "Interval_leq N a (Interval_join N a b)"
    using ok cases by (cases "isBottom a"; cases "isBottom b") (auto simp: leq_iff[of c] iv_flags(1)[of c] not_less)
  show "Interval_leq N b (Interval_join N a b)"
    using ok cases by (cases "isBottom a"; cases "isBottom b") (auto simp: leq_iff[of c] iv_flags(1)[of c] not_less)
  show "Interval_leq N a d \<Longrightarrow> Interval_leq N b d \<Longrightarrow> Interval_leq N (Interval_join N a b) d"
    using ok cases by (cases "isBottom a"; cases "isBottom b") (auto simp: leq_iff[of c] iv_flags(1)[of c] not_less)
qed

lemma meet_glb:
  assumes "iv_ok N val has c a" "iv_ok N val has c b" "iv_ok N val has c d"
    and "val (n_of_int N c 0) < val (n_of_int N c 1)"
  shows "Interval_leq N (Interval_meet N a b) a" "Interval_leq N (Interval_meet N a b) b"
    "Interval_leq N d a \<Longrightarrow> Interval_leq N d b \<Longrightarrow> Interval_leq N d (Interval_meet N a b)"
proof -
  note ok = assms(1-3) lattice_ok(2)[OF assms(1,2)]
    and cases = meet_cases(1)[OF assms(1,2) _ assms(4)] meet_cases(2)[OF assms(1,2)]
  show "Interval_leq N (Interval_meet N a b) a" "Interval_leq N (Interval_meet N a b) b"
    using ok cases by (cases "isBottom a"; cases "isBottom b"; auto simp: leq_iff[of c])+
  show "Interval_leq N d a \<Longrightarrow> Interval_leq N d b \<Longrightarrow> Interval_leq N d (Interval_meet N a b)"
    using ok cases by (cases "isBottom a"; cases "isBottom b") (auto simp: leq_iff[of c] iv_flags(1)[of c] not_less)
qed

lemma leq_order:
  assumes "iv_ok N val has c a" "iv_ok N val has c b" "iv_ok N val has c d"
  shows "Interval_leq N a a" "Interval_leq N a b \<Longrightarrow> Interval_leq N b d \<Longrightarrow> Interval_leq N a d"
  using assms by (auto simp: leq_iff[of c])

text \<open>The numbers of an interval.\<close>

lemma gamma_bottom: "iv_ok N val has c a \<Longrightarrow> isBottom a \<Longrightarrow> gamma val has c a = {}"
  by (auto simp: gamma_def iv_flags(1) dest: order_trans[of "bound_val val (lb a)"])

lemma gamma_mono:
  assumes "iv_ok N val has c a" "iv_ok N val has c b" "Interval_leq N a b"
  shows "gamma val has c a \<subseteq> gamma val has c b"
  using assms gamma_bottom[OF assms(1)] by (auto simp: leq_iff[of c] gamma_def)

lemma gamma_lattice:
  assumes "iv_ok N val has c a" "iv_ok N val has c b"
  shows "gamma val has c a \<union> gamma val has c b \<subseteq> gamma val has c (Interval_join N a b)"
    and "val (n_of_int N c 0) < val (n_of_int N c 1) \<Longrightarrow>
      gamma val has c (Interval_meet N a b) = gamma val has c a \<inter> gamma val has c b"
proof -
  show "gamma val has c a \<union> gamma val has c b \<subseteq> gamma val has c (Interval_join N a b)"
    using gamma_mono[OF _ lattice_ok(1)[OF assms]] join_lub(1,2)[OF assms assms(1)] assms by blast
  assume pos: "val (n_of_int N c 0) < val (n_of_int N c 1)"
  show "gamma val has c (Interval_meet N a b) = gamma val has c a \<inter> gamma val has c b"
  proof (cases "isBottom a \<or> isBottom b")
    case True
    then have "gamma val has c (Interval_meet N a b) = {}"
      using meet_cases(1)[OF assms _ pos] gamma_bottom lattice_ok(2)[OF assms] by blast
    then show ?thesis using True gamma_bottom assms by blast
  next
    case False
    then show ?thesis using meet_cases(2)[OF assms] by (auto simp: gamma_def)
  qed
qed

text \<open>Widening.\<close>

lemma widen_cases:
  assumes "iv_ok N val has c a" "iv_ok N val has c b" "\<not> isBottom a" "\<not> isBottom b"
  shows "bound_val val (lb (Interval_widen N a b)) =
      (if bound_val val (lb b) < bound_val val (lb a) then NInf else bound_val val (lb a))"
    "bound_val val (ub (Interval_widen N a b)) =
      (if bound_val val (ub a) < bound_val val (ub b) then PInf else bound_val val (ub a))"
  using assms iv_bounds[of c a] iv_bounds[of c b]
  by (simp_all add: Interval_widen_def Interval_interval_def bound_order[of c])

lemma widen_upper:
  assumes "iv_ok N val has c a" "iv_ok N val has c b"
  shows "Interval_leq N a (Interval_widen N a b)" "Interval_leq N b (Interval_widen N a b)"
proof -
  note ok = assms lattice_ok(3)[OF assms]
  have b: "Interval_widen N a b = (if a = b then a else Interval_clone N b)" if "isBottom a"
    using that by (simp add: Interval_widen_def)
  have c: "Interval_leq N b (Interval_clone N b)"
    using assms(2) clone_ok[OF assms(2)]
    by (auto simp: leq_iff[of c] iv_flags(1)[of c] Interval_clone_def Interval_interval_def)
  show "Interval_leq N a (Interval_widen N a b)"
  proof (cases "isBottom a \<or> isBottom b")
    case True
    then show ?thesis using ok by (auto simp: Interval_widen_def leq_iff[of c])
  next
    case False
    then show ?thesis using ok widen_cases[OF assms]
      by (auto simp: leq_iff[of c] iv_flags(1)[of c] not_less split: if_splits)
  qed
  show "Interval_leq N b (Interval_widen N a b)"
  proof (cases "isBottom a \<or> isBottom b")
    case True
    then show ?thesis using ok b c by (auto simp: Interval_widen_def leq_iff[of c])
  next
    case False
    then show ?thesis using ok widen_cases[OF assms]
      by (auto simp: leq_iff[of c] iv_flags(1)[of c] not_less split: if_splits)
  qed
qed

end

text \<open>How often an interval can still be widened.\<close>

definition widen_height :: "('c, 'n) Interval \<Rightarrow> nat" where
  "widen_height i = (if isBottom i then 3 else
     (if isMinusInfinity (lb i) then 0 else 1) + (if isPlusInfinity (ub i) then 0 else 1))"

text \<open>The comparison of two values under a condition; the unsigned conditions compare like the
  signed ones, because an interval only has the order of its own numbers.\<close>

definition cond_val :: "ConditionType \<Rightarrow> 'v::linorder \<Rightarrow> 'v \<Rightarrow> bool option" where
  "cond_val op x y = (case op of EQ \<Rightarrow> Some (x = y) | NEQ \<Rightarrow> Some (x \<noteq> y)
     | GT \<Rightarrow> Some (y < x) | GE \<Rightarrow> Some (y \<le> x) | LT \<Rightarrow> Some (x < y) | LE \<Rightarrow> Some (x \<le> y)
     | UGT \<Rightarrow> Some (y < x) | UGE \<Rightarrow> Some (y \<le> x) | ULT \<Rightarrow> Some (x < y) | ULE \<Rightarrow> Some (x \<le> y)
     | TRUE \<Rightarrow> Some True | FALSE \<Rightarrow> Some False | UNKNOWN \<Rightarrow> None)"

context apint_laws
begin

lemma bool_gamma_top:
  "ap_make A 1 (if v then 1 else 0) \<in> gamma uval (\<lambda>w x. ap_width A x = w) 1 (getBool_TOP A)"
  by (simp add: gamma_def getBool_TOP_def make Interval_top_def)

lemma bool_gamma_const:
  "ap_make A 1 (if v then 1 else 0) \<in> gamma uval (\<lambda>w x. ap_width A x = w) 1 (AF_getBool A b) \<longleftrightarrow> v = b"
  by (simp add: gamma_def AF_getBool_def make Interval_constant_def)

end

context number_order
begin

lemma widen_progress:
  assumes "iv_ok N val has c a" "iv_ok N val has c b"
  shows "Interval_equals N (Interval_widen N a b) a \<or> widen_height (Interval_widen N a b) < widen_height a"
proof (cases "isBottom a \<or> isBottom b")
  case True
  show ?thesis
  proof (cases "isBottom (Interval_widen N a b)")
    case True
    then show ?thesis using widen_upper(1)[OF assms] lattice_ok(3)[OF assms] assms
      by (auto simp: equals_iff[of c] leq_iff[of c])
  next
    case False
    then show ?thesis using True by (auto simp: Interval_widen_def widen_height_def Interval_equals_def)
  qed
next
  case False
  let ?w = "Interval_widen N a b"
  note w = lattice_ok(3)[OF assms]
  have nb: "\<not> isBottom ?w"
    using widen_upper(1)[OF assms] False w assms by (auto simp: leq_iff[of c])
  have inf: "isMinusInfinity (lb i) \<longleftrightarrow> bound_val val (lb i) = NInf"
      "isPlusInfinity (ub i) \<longleftrightarrow> bound_val val (ub i) = PInf" if "iv_ok N val has c i" for i
    using iv_bounds(1,2)[OF that] by (auto simp: bound_val_def bound_ok_def)
  show ?thesis
  proof (cases "bound_val val (lb b) < bound_val val (lb a) \<or> bound_val val (ub a) < bound_val val (ub b)")
    case True
    then show ?thesis using widen_cases[OF assms] nb False inf[OF w] inf[OF assms(1)]
      by (auto simp: widen_height_def)
  next
    case F: False
    then show ?thesis using widen_cases[OF assms] nb False w assms
      by (auto simp: equals_iff[of c] leq_iff[of c])
  qed
qed

lemma disjoint:
  assumes "iv_ok N val has c a" "iv_ok N val has c b" "\<not> isBottom a" "\<not> isBottom b" "\<not> Interval_intersects N a b"
  shows "bound_val val (ub a) < bound_val val (lb b) \<or> bound_val val (ub b) < bound_val val (lb a)"
proof -
  have "bound_val val (lb a) \<le> bound_val val (ub a)" "bound_val val (lb b) \<le> bound_val val (ub b)"
    using assms by (auto simp: iv_flags(1)[of c])
  moreover have "\<not> (bound_val val (lb a) \<le> bound_val val (lb b) \<and> bound_val val (lb b) \<le> bound_val val (ub a))"
    "\<not> (bound_val val (lb b) \<le> bound_val val (lb a) \<and> bound_val val (lb a) \<le> bound_val val (ub b))"
    using assms(5) iv_bounds[OF assms(1)] iv_bounds[OF assms(2)] by (auto simp: Interval_intersects_def bound_order[of c])
  ultimately show ?thesis by (metis linear not_le)
qed

lemma constant_gamma:
  assumes "iv_ok N val has c a" "Interval_isConstant N a" "x \<in> gamma val has c a"
  shows "val x = val (b_value (lb a))" "isFinite (lb a)" "has c (b_value (lb a))"
proof -
  have eq: "bound_val val (lb a) = bound_val val (ub a)"
    using assms iv_bounds[OF assms(1)] by (simp add: Interval_isConstant_def bound_order[of c])
  then have "bound_val val (lb a) = Fin (val x)" using assms(3) by (auto simp: gamma_def)
  then show "val x = val (b_value (lb a))" "isFinite (lb a)"
    by (auto simp: bound_val_def isFinite_def isInfinite_def split: if_splits)
  show "has c (b_value (lb a))" using iv_bounds(1)[OF assms(1)] by (simp add: bound_ok_def)
qed

lemma apply_cond_sound:
  assumes A: "apint_laws A u"
    and ok: "iv_ok N val has c a" "iv_ok N val has c b"
    and xy: "x \<in> gamma val has c a" "y \<in> gamma val has c b" "cond_val op (val x) (val y) = Some v"
  shows "\<exists>r. Interval_apply_cond A N op a b = Some r \<and>
    ap_make A 1 (if v then 1 else 0) \<in> gamma u (\<lambda>w x. ap_width A x = w) 1 r"
proof -
  note top = apint_laws.bool_gamma_top[OF A] and const = apint_laws.bool_gamma_const[OF A]
  have nb: "\<not> isBottom a" "\<not> isBottom b" using xy gamma_bottom ok by blast+
  have x: "bound_val val (lb a) \<le> Fin (val x)" "Fin (val x) \<le> bound_val val (ub a)"
    and y: "bound_val val (lb b) \<le> Fin (val y)" "Fin (val y) \<le> bound_val val (ub b)"
    using xy by (auto simp: gamma_def)
  have less: "Interval_intersects N a b \<or>
      (val x < val y \<and> Bound_less N (ub a) (lb b) \<and> Bound_leq N (ub a) (lb b) \<and>
        \<not> Bound_less N (ub b) (lb a) \<and> \<not> Bound_leq N (ub b) (lb a)) \<or>
      (val y < val x \<and> Bound_less N (ub b) (lb a) \<and> Bound_leq N (ub b) (lb a) \<and>
        \<not> Bound_less N (ub a) (lb b) \<and> \<not> Bound_leq N (ub a) (lb b))"
  proof (cases "Interval_intersects N a b")
    case False
    have "bound_val val (ub a) < bound_val val (lb b) \<Longrightarrow> Fin (val x) < Fin (val y)"
      using x y by (meson le_less_trans less_le_trans)
    moreover have "bound_val val (ub b) < bound_val val (lb a) \<Longrightarrow> Fin (val y) < Fin (val x)"
      using x y by (meson le_less_trans less_le_trans)
    ultimately show ?thesis
      using disjoint[OF ok nb False] iv_bounds[OF ok(1)] iv_bounds[OF ok(2)] x y
      by (auto simp: bound_order[of c] not_le dest: less_imp_le)
  qed simp
  have eq: "Interval_isConstant N a \<Longrightarrow> Interval_isConstant N b \<Longrightarrow>
      n_eq N (b_value (lb a)) (b_value (lb b)) \<longleftrightarrow> val x = val y"
    using constant_gamma[OF ok(1)] constant_gamma[OF ok(2)] xy by (auto simp: eq_val[of c])
  have c: "Interval_isConstant N a \<Longrightarrow> Interval_isConstant N b \<Longrightarrow>
      Interval_asConstant N a \<bind> (\<lambda>p. Interval_asConstant N b \<bind> (\<lambda>q. Some (f (n_eq N p q)))) = Some (f (val x = val y))" for f
    using eq by (simp add: Interval_asConstant_def)
  show ?thesis
  proof (cases "isTop a \<or> isTop b")
    case True
    then show ?thesis by (simp add: Interval_apply_cond_def top del: One_nat_def)
  next
    case F: False
    note top = top[of True, unfolded if_True] top[of False, unfolded if_False]
    note const = const[of True, unfolded if_True] const[of False, unfolded if_False]
    consider "Interval_intersects N a b" | "\<not> Interval_intersects N a b" "val x < val y" | "\<not> Interval_intersects N a b" "val y < val x"
      using less by blast
    then show ?thesis
    proof cases
      case 1
      then show ?thesis using xy(3) F nb c[of "AF_getBool A"] c[of "\<lambda>v. AF_getBool A (\<not> v)"]
        by (cases op; cases "Interval_isConstant N a"; cases "Interval_isConstant N b") (simp_all add: Interval_apply_cond_def cond_val_def top const del: One_nat_def)
    next
      case 2
      have f: "val x \<noteq> val y" "\<not> val y < val x" "\<not> val y \<le> val x" "val x \<le> val y"
          "Bound_less N (ub a) (lb b)" "Bound_leq N (ub a) (lb b)"
          "\<not> Bound_less N (ub b) (lb a)" "\<not> Bound_leq N (ub b) (lb a)"
        using less 2 by auto
      then show ?thesis using 2 xy(3) F nb c[of "AF_getBool A"] c[of "\<lambda>v. AF_getBool A (\<not> v)"]
        by (cases op; cases "Interval_isConstant N a"; cases "Interval_isConstant N b")
          (simp_all add: Interval_apply_cond_def cond_val_def top const del: One_nat_def)
    next
      case 3
      have f: "val x \<noteq> val y" "\<not> val x < val y" "\<not> val x \<le> val y" "val y \<le> val x"
          "Bound_less N (ub b) (lb a)" "Bound_leq N (ub b) (lb a)"
          "\<not> Bound_less N (ub a) (lb b)" "\<not> Bound_leq N (ub a) (lb b)"
        using less 3 by auto
      then show ?thesis using 3 xy(3) F nb c[of "AF_getBool A"] c[of "\<lambda>v. AF_getBool A (\<not> v)"]
        by (cases op; cases "Interval_isConstant N a"; cases "Interval_isConstant N b")
          (simp_all add: Interval_apply_cond_def cond_val_def top const del: One_nat_def)
    qed
  qed
qed

lemma split_sound:
  assumes ok: "iv_ok N val has c a" "iv_ok N val has c b"
    and xy: "x \<in> gamma val has c a" "y \<in> gamma val has c b"
  shows "val x = val y \<Longrightarrow> x \<in> gamma val has c (split_true (Interval_splitByEq N a b))"
    "val x \<noteq> val y \<Longrightarrow> x \<in> gamma val has c (split_false (Interval_splitByEq N a b))"
    "val x \<le> val y \<Longrightarrow> x \<in> gamma val has c (split_true (Interval_splitByLess N a b))"
    "\<not> val x < val y \<Longrightarrow> x \<in> gamma val has c (split_false (Interval_splitByLess N a b))"
proof -
  have x: "has c x" "bound_val val (lb a) \<le> Fin (val x)" "Fin (val x) \<le> bound_val val (ub a)"
    and y: "bound_val val (lb b) \<le> Fin (val y)" "Fin (val y) \<le> bound_val val (ub b)"
    using xy by (auto simp: gamma_def)
  show "val x = val y \<Longrightarrow> x \<in> gamma val has c (split_true (Interval_splitByEq N a b))"
    using xy by (auto simp: Interval_splitByEq_def gamma_def)
  show "val x \<noteq> val y \<Longrightarrow> x \<in> gamma val has c (split_false (Interval_splitByEq N a b))"
    using xy by (auto simp: Interval_splitByEq_def gamma_def)
  have "Fin (val x) \<le> bound_val val (ub b)" if "val x \<le> val y"
    by (rule order_trans[OF _ y(2)]) (use that in simp)
  then show "val x \<le> val y \<Longrightarrow> x \<in> gamma val has c (split_true (Interval_splitByLess N a b))"
    using xy x by (auto simp: Interval_splitByLess_def Interval_interval_def gamma_def Let_def)
  have "bound_val val (lb b) \<le> Fin (val x)" if "\<not> val x < val y"
    by (rule order_trans[OF y(1)]) (use that in simp)
  then show "\<not> val x < val y \<Longrightarrow> x \<in> gamma val has c (split_false (Interval_splitByLess N a b))"
    using xy x by (auto simp: Interval_splitByLess_def Interval_interval_def gamma_def Let_def)
qed

lemma split_ok [iv_intros]:
  assumes "iv_ok N val has c a" "iv_ok N val has c b"
  shows "iv_ok N val has c (split_true (Interval_splitByEq N a b))" "iv_ok N val has c (split_false (Interval_splitByEq N a b))"
    "iv_ok N val has c (split_true (Interval_splitByLess N a b))" "iv_ok N val has c (split_false (Interval_splitByLess N a b))"
  using assms iv_bounds[OF assms(1)] iv_bounds[OF assms(2)]
  by (simp_all add: Interval_splitByEq_def Interval_splitByLess_def Interval_interval_def Let_def clone_ok make_ok)

lemma equals_height:
  assumes "iv_ok N val has c a" "iv_ok N val has c b" "Interval_equals N a b"
  shows "widen_height a = widen_height b"
proof -
  have inf: "isMinusInfinity (lb i) \<longleftrightarrow> bound_val val (lb i) = NInf"
      "isPlusInfinity (ub i) \<longleftrightarrow> bound_val val (ub i) = PInf" if "iv_ok N val has c i" for i
    using iv_bounds(1,2)[OF that] by (auto simp: bound_val_def bound_ok_def)
  show ?thesis
    using assms inf[OF assms(1)] inf[OF assms(2)]
    by (auto simp: equals_iff[of c] leq_iff[of c] widen_height_def)
qed

lemma widen_chain:
  assumes "iv_ok N val has c (w 0)" "\<And>i. iv_ok N val has c (x i)" "\<And>i. w (Suc i) = Interval_widen N (w i) (x i)"
  shows "iv_ok N val has c (w n) \<and>
    card {i. i < n \<and> \<not> Interval_equals N (w (Suc i)) (w i)} + widen_height (w n) \<le> widen_height (w 0)"
proof (induction n)
  case (Suc n)
  have ok: "iv_ok N val has c (w (Suc n))" using lattice_ok(3) Suc assms(2,3) by auto
  have s: "{i. i < Suc n \<and> \<not> Interval_equals N (w (Suc i)) (w i)} =
      (if Interval_equals N (w (Suc n)) (w n) then {} else {n}) \<union> {i. i < n \<and> \<not> Interval_equals N (w (Suc i)) (w i)}"
    by (auto simp: less_Suc_eq)
  have "card {i. i < Suc n \<and> \<not> Interval_equals N (w (Suc i)) (w i)} =
      (if Interval_equals N (w (Suc n)) (w n) then 0 else 1) + card {i. i < n \<and> \<not> Interval_equals N (w (Suc i)) (w i)}"
    unfolding s by simp
  then show ?case
    using Suc ok equals_height[OF ok, of "w n"] widen_progress[of c "w n" "x n"] assms(2,3)[of n]
    by (auto split: if_splits)
qed (use assms in simp)

lemma height_le: "widen_height i \<le> 3"
  by (simp add: widen_height_def)

end

section \<open>Properties\<close>

text \<open>C17: On the intervals of one adapter \<open>leq\<close> is a preorder whose equivalence is \<open>equals\<close>, and
  \<open>join\<close> and \<open>meet\<close> are its least upper and greatest lower bounds, in any number type in which 0 is below 1.
  For the numbers the intervals stand for: those of a smaller interval are among those of a larger one, equal
  intervals have the same, \<open>join\<close> contains those of both arguments, and \<open>meet\<close> has exactly the common ones.
  (The converses of the first two do not hold: the interval from the least to the greatest number is not
  the top interval.)\<close>

theorem Interval_lattice:
  assumes N: "number_order N val has"
    and ok: "iv_ok N val has c a" "iv_ok N val has c b" "iv_ok N val has c d"
    and pos: "val (n_of_int N c 0) < val (n_of_int N c 1)"
  shows "Interval_leq N a a \<and> (Interval_leq N a b \<and> Interval_leq N b d \<longrightarrow> Interval_leq N a d) \<and>
    (Interval_equals N a b \<longleftrightarrow> Interval_leq N a b \<and> Interval_leq N b a) \<and>
    (Interval_leq N (Interval_join N a b) d \<longleftrightarrow> Interval_leq N a d \<and> Interval_leq N b d) \<and>
    (Interval_leq N d (Interval_meet N a b) \<longleftrightarrow> Interval_leq N d a \<and> Interval_leq N d b) \<and>
    (Interval_leq N a b \<longrightarrow> gamma val has c a \<subseteq> gamma val has c b) \<and>
    (Interval_equals N a b \<longrightarrow> gamma val has c a = gamma val has c b) \<and>
    gamma val has c a \<union> gamma val has c b \<subseteq> gamma val has c (Interval_join N a b) \<and>
    gamma val has c (Interval_meet N a b) = gamma val has c a \<inter> gamma val has c b"
proof -
  note order = number_order.leq_order[OF N] and ops = number_order.lattice_ok[OF N ok(1,2)]
    and eq = number_order.equals_iff[OF N ok(1,2)] and mono = number_order.gamma_mono[OF N]
  have numbers: "Interval_leq N a b \<longrightarrow> gamma val has c a \<subseteq> gamma val has c b"
    "Interval_equals N a b \<longrightarrow> gamma val has c a = gamma val has c b"
    using mono[OF ok(1,2)] mono[OF ok(2,1)] eq by blast+
  show ?thesis
    using order[OF ok] eq number_order.join_lub[OF N ok] numbers number_order.gamma_lattice(1)[OF N ok(1,2)]
      number_order.gamma_lattice(2)[OF N ok(1,2) pos]
      number_order.meet_glb[OF N ok pos] order(2)[OF ok(1) ops(1) ok(3)] order(2)[OF ok(2) ops(1) ok(3)]
      order(2)[OF ok(3) ops(2) ok(1)] order(2)[OF ok(3) ops(2) ok(2)] by blast
qed

definition bits_iv :: "nat \<Rightarrow> int \<Rightarrow> int \<Rightarrow> (nat, nat \<times> int) Interval" where
  "bits_iv w x y = Interval_interval (BitInt_number bits_apint True) (Bound_of w (w, x mod 2 ^ w)) (Bound_of w (w, y mod 2 ^ w))"

lemma bits_iv_ok: "iv_ok (BitInt_number bits_apint True) (ival bits_apint bits_uval True) (\<lambda>w x. ap_width bits_apint x = w) w (bits_iv w x y)"
  unfolding bits_iv_def Interval_interval_def
  by (intro number_order.make_ok[OF bits_number]; simp only: number_order.bound_ok_make[OF bits_number]) simp_all

lemma bits_pos: "ival bits_apint bits_uval True (n_of_int (BitInt_number bits_apint True) 8 0) < ival bits_apint bits_uval True (n_of_int (BitInt_number bits_apint True) 8 1)"
  by code_simp

theorem Interval_lattice_witness:
  "Interval_leq (BitInt_number bits_apint True)
     (Interval_join (BitInt_number bits_apint True) (bits_iv 8 (- 3) 2) (bits_iv 8 5 9)) (bits_iv 8 (- 3) 9) \<and>
   gamma (ival bits_apint bits_uval True) (\<lambda>w x. ap_width bits_apint x = w) 8
     (Interval_meet (BitInt_number bits_apint True) (bits_iv 8 (- 3) 2) (bits_iv 8 5 9)) =
   gamma (ival bits_apint bits_uval True) (\<lambda>w x. ap_width bits_apint x = w) 8 (bits_iv 8 (- 3) 2) \<inter>
   gamma (ival bits_apint bits_uval True) (\<lambda>w x. ap_width bits_apint x = w) 8 (bits_iv 8 5 9)"
proof -
  have "Interval_leq (BitInt_number bits_apint True) (bits_iv 8 (- 3) 2) (bits_iv 8 (- 3) 9)"
    "Interval_leq (BitInt_number bits_apint True) (bits_iv 8 5 9) (bits_iv 8 (- 3) 9)"
    by code_simp+
  then show ?thesis
    using Interval_lattice[OF bits_number bits_iv_ok[of 8 "- 3" 2] bits_iv_ok[of 8 5 9] bits_iv_ok[of 8 "- 3" 9] bits_pos]
    by blast
qed

text \<open>The lattice operations are sound for the numbers intervals stand for: \<open>join\<close> and \<open>widen\<close>
  contain the numbers of both arguments, \<open>meet\<close> has exactly the common ones, and a smaller interval
  has fewer.\<close>

theorem Interval_gamma_sound:
  assumes N: "number_order N val has"
    and ok: "iv_ok N val has c a" "iv_ok N val has c b"
    and "val (n_of_int N c 0) < val (n_of_int N c 1)"
  shows "gamma val has c a \<union> gamma val has c b \<subseteq> gamma val has c (Interval_join N a b) \<and>
    gamma val has c a \<union> gamma val has c b \<subseteq> gamma val has c (Interval_widen N a b) \<and>
    gamma val has c (Interval_meet N a b) = gamma val has c a \<inter> gamma val has c b \<and>
    (Interval_leq N a b \<longrightarrow> gamma val has c a \<subseteq> gamma val has c b)"
  using number_order.gamma_lattice[OF N ok] number_order.gamma_mono[OF N] number_order.widen_upper[OF N ok]
    number_order.lattice_ok(3)[OF N ok] ok assms(4) by blast

theorem Interval_gamma_sound_witness:
  "(8, 253) \<in> gamma (ival bits_apint bits_uval True) (\<lambda>w x. ap_width bits_apint x = w) 8
     (Interval_widen (BitInt_number bits_apint True) (bits_iv 8 0 2) (bits_iv 8 (- 3) 2))"
proof -
  have "(8, 253) \<in> gamma (ival bits_apint bits_uval True) (\<lambda>w x. ap_width bits_apint x = w) 8 (bits_iv 8 (- 3) 2)"
    unfolding gamma_def mem_Collect_eq by code_simp
  then show ?thesis
    using Interval_gamma_sound[OF bits_number bits_iv_ok[of 8 0 2] bits_iv_ok[of 8 "- 3" 2] bits_pos] by blast
qed

text \<open>Widening stabilises: in any sequence in which every interval is the previous one widened
  by some interval, at most three steps change anything.\<close>

theorem Interval_widen_stabilises:
  assumes N: "number_order N val has"
    and "iv_ok N val has c (w 0)" "\<And>i. iv_ok N val has c (x i)" "\<And>i. w (Suc i) = Interval_widen N (w i) (x i)"
  shows "card {i. i < n \<and> \<not> Interval_equals N (w (Suc i)) (w i)} \<le> 3"
  using number_order.widen_chain[OF N, where w = w and x = x and c = c and n = n] assms(2-4)
    number_order.height_le[OF N, of "w 0"] by simp

theorem Interval_widen_stabilises_witness:
  "\<exists>w. w 0 = bits_iv 8 1 0 \<and> w 1 = bits_iv 8 0 0 \<and>
     card {i. i < 100 \<and> \<not> Interval_equals (BitInt_number bits_apint True) (w (Suc i)) (w i)} \<le> 3"
proof -
  define w where "w = rec_nat (bits_iv 8 1 0) (\<lambda>i a. Interval_widen (BitInt_number bits_apint True) a (bits_iv 8 0 (int i)))"
  have s: "w (Suc i) = Interval_widen (BitInt_number bits_apint True) (w i) (bits_iv 8 0 (int i))" for i
    by (simp add: w_def)
  have z: "w 0 = bits_iv 8 1 0" by (simp add: w_def)
  have "Interval_widen (BitInt_number bits_apint True) (bits_iv 8 1 0) (bits_iv 8 0 0) = bits_iv 8 0 0"
    by code_simp
  then have o: "w 1 = bits_iv 8 0 0" using s[of 0] z by simp
  show ?thesis
    using Interval_widen_stabilises[OF bits_number, where w = w and c = 8 and n = 100, unfolded z, OF bits_iv_ok bits_iv_ok s] z o by blast
qed

text \<open>C34: The comparison of intervals is sound: it answers an interval of booleans that contains the
  truth value of the comparison of any two of their numbers, in the order of the number type.\<close>

theorem Interval_apply_cond_sound:
  assumes N: "number_order N val has" and "apint_laws A u"
    and "iv_ok N val has c a" "iv_ok N val has c b"
    and "x \<in> gamma val has c a" "y \<in> gamma val has c b" "cond_val op (val x) (val y) = Some v"
  shows "\<exists>r. Interval_apply_cond A N op a b = Some r \<and>
    ap_make A 1 (if v then 1 else 0) \<in> gamma u (\<lambda>w x. ap_width A x = w) 1 r"
  using assms(2-) by (rule number_order.apply_cond_sound[OF N])

theorem Interval_apply_cond_sound_witness:
  "\<exists>r. Interval_apply_cond bits_apint (BitInt_number bits_apint True) LT (bits_iv 8 (- 3) 2) (bits_iv 8 5 9) = Some r \<and>
     ap_make bits_apint 1 1 \<in> gamma bits_uval (\<lambda>w x. ap_width bits_apint x = w) 1 r"
proof -
  have "(8, 253) \<in> gamma (ival bits_apint bits_uval True) (\<lambda>w x. ap_width bits_apint x = w) 8 (bits_iv 8 (- 3) 2)"
    "(8, 5) \<in> gamma (ival bits_apint bits_uval True) (\<lambda>w x. ap_width bits_apint x = w) 8 (bits_iv 8 5 9)"
    unfolding gamma_def mem_Collect_eq by code_simp+
  moreover have "cond_val LT (ival bits_apint bits_uval True (8, 253)) (ival bits_apint bits_uval True (8, 5)) = Some True"
    by code_simp
  ultimately show ?thesis
    using Interval_apply_cond_sound[OF bits_number bits.apint_laws_axioms bits_iv_ok bits_iv_ok] by fastforce
qed

text \<open>C33: Splitting refines soundly: the true branch of \<open>splitByLess\<close> keeps every number that is at
  most some number of the other interval, its false branch every number that is not below it, and
  \<open>splitByEq\<close> likewise for equality.\<close>

theorem Interval_split_sound:
  assumes N: "number_order N val has"
    and "iv_ok N val has c a" "iv_ok N val has c b" "x \<in> gamma val has c a" "y \<in> gamma val has c b"
  shows "x \<in> gamma val has c (if val x \<le> val y then split_true (Interval_splitByLess N a b)
                                else split_false (Interval_splitByLess N a b)) \<and>
    x \<in> gamma val has c (if val x < val y then split_true (Interval_splitByLess N a b)
                                else split_false (Interval_splitByLess N a b)) \<and>
    x \<in> gamma val has c (if val x = val y then split_true (Interval_splitByEq N a b)
                                else split_false (Interval_splitByEq N a b))"
  using number_order.split_sound[OF N assms(2-)] by auto

theorem Interval_split_sound_witness:
  "(8, 7) \<in> gamma (ival bits_apint bits_uval True) (\<lambda>w x. ap_width bits_apint x = w) 8
     (split_true (Interval_splitByLess (BitInt_number bits_apint True) (bits_iv 8 5 20) (bits_iv 8 0 9)))"
proof -
  have "(8, 7) \<in> gamma (ival bits_apint bits_uval True) (\<lambda>w x. ap_width bits_apint x = w) 8 (bits_iv 8 5 20)"
    "(8, 8) \<in> gamma (ival bits_apint bits_uval True) (\<lambda>w x. ap_width bits_apint x = w) 8 (bits_iv 8 0 9)"
    unfolding gamma_def mem_Collect_eq by code_simp+
  moreover have "ival bits_apint bits_uval True (8, 7) < ival bits_apint bits_uval True (8, 8)" by code_simp
  ultimately show ?thesis
    using Interval_split_sound[OF bits_number bits_iv_ok[of 8 5 20] bits_iv_ok[of 8 0 9]] by fastforce
qed

text \<open>The empty interval that \<open>bottom\<close> interns, from 1 to 0, is empty exactly where 1 exceeds 0
  among the numbers: for signed numbers of one bit, where 1 is read as -1, \<open>bottom\<close> is the interval
  of all numbers, and not empty.\<close>

theorem Interval_bottom_empty_iff:
  assumes N: "number_order N val has"
  shows "isBottom (Interval_bottom N c) \<longleftrightarrow> val (n_of_int N c 0) < val (n_of_int N c 1)"
  using number_order.iv_flags(1)[OF N number_order.constants_ok(5)[OF N]] by (simp add: Interval_bottom_def)

theorem Interval_bottom_empty_iff_witness:
  "isBottom (Interval_bottom (BitInt_number bits_apint True) 8) \<and> \<not> isBottom (Interval_bottom (BitInt_number bits_apint True) 1)"
  unfolding Interval_bottom_empty_iff[OF bits_number] by code_simp

end
