(* ===== verification/IntervalOps.thy ===== *)
theory IntervalOps
  imports Intervals
begin

text \<open>
  The arithmetic of intervals (src/Interpreter/Domain/Numerical/Interval.hpp): the operators and
  \<open>apply\<close>, with their soundness for the numbers of \<open>BitInt\<close>.  \<open>None\<close> is a failed \<open>ASSERT\<close> or
  \<open>UNREACHABLE\<close>.
\<close>

section \<open>Operators\<close>

definition Interval_add :: "('c, 'n) number \<Rightarrow> ('c, 'n) Interval \<Rightarrow> ('c, 'n) Interval \<Rightarrow> ('c, 'n) Interval" where
  "Interval_add N lhv rhv =
     (if isBottom lhv \<or> isBottom rhv then Interval_getBottom N (Interval_caster lhv)
      else Interval_make N (Bound_add N (lb lhv) (lb rhv)) (Bound_add N (ub lhv) (ub rhv)))"

definition Interval_sub :: "('c, 'n) number \<Rightarrow> ('c, 'n) Interval \<Rightarrow> ('c, 'n) Interval \<Rightarrow> ('c, 'n) Interval" where
  "Interval_sub N lhv rhv =
     (if isBottom lhv \<or> isBottom rhv then Interval_getBottom N (Interval_caster lhv)
      else Interval_make N (Bound_sub N (lb lhv) (ub rhv)) (Bound_sub N (ub lhv) (lb rhv)))"

definition Interval_mul :: "('c, 'n) number \<Rightarrow> ('c, 'n) Interval \<Rightarrow> ('c, 'n) Interval \<Rightarrow> ('c, 'n) Interval" where
  "Interval_mul N lhv rhv =
     (if isBottom lhv \<or> isBottom rhv then Interval_getBottom N (Interval_caster lhv)
      else let ll = Bound_mul N (lb lhv) (lb rhv);
               ul = Bound_mul N (ub lhv) (lb rhv);
               lu = Bound_mul N (lb lhv) (ub rhv);
               uu = Bound_mul N (ub lhv) (ub rhv)
           in Interval_make N (util_min (Bound_less N) ll [ul, lu, uu]) (util_max (Bound_less N) ll [ul, lu, uu]))"

definition Interval_div :: "('c, 'n) number \<Rightarrow> ('c, 'n) Interval \<Rightarrow> ('c, 'n) Interval \<Rightarrow> ('c, 'n) Interval option" where
  "Interval_div N lhv rhv =
     (if isBottom lhv \<or> isBottom rhv then Some (Interval_getBottom N (Interval_caster lhv))
      else Interval_contains_int N 0 rhv \<bind> (\<lambda>rz.
        if rz then Some (Interval_getTop N (Interval_caster lhv))
        else Interval_contains_int N 0 lhv \<bind> (\<lambda>lz.
          if lz then Some (Interval_getTop N (Interval_caster lhv))
          else Bound_div N (lb lhv) (lb rhv) \<bind> (\<lambda>ll.
               Bound_div N (ub lhv) (lb rhv) \<bind> (\<lambda>ul.
               Bound_div N (lb lhv) (ub rhv) \<bind> (\<lambda>lu.
               Bound_div N (ub lhv) (ub rhv) \<bind> (\<lambda>uu.
               Some (Interval_make N (util_min (Bound_less N) ll [ul, lu, uu])
                 (util_max (Bound_less N) ll [ul, lu, uu])))))))))"

definition Interval_mod :: "('c, 'n) number \<Rightarrow> ('c, 'n) Interval \<Rightarrow> ('c, 'n) Interval \<Rightarrow> ('c, 'n) Interval option" where
  "Interval_mod N lhv rhv =
     (if isBottom lhv \<or> isBottom rhv then Some (Interval_getBottom N (Interval_caster lhv))
      else Interval_isZero N rhv \<bind> (\<lambda>z.
        if z then Some (Interval_getBottom N (Interval_caster lhv))
        else if Interval_isConstant N lhv \<and> Interval_isConstant N rhv then
          Interval_asConstant N lhv \<bind> (\<lambda>x. Interval_asConstant N rhv \<bind> (\<lambda>y.
            Some (Interval_of (n_mod N x y) (Interval_caster lhv))))
        else
          let zero = Bound_of_int N (Interval_caster lhv) 0;
              n_ub = util_max (Bound_less N) (Bound_abs N (lb lhv)) [Bound_abs N (ub lhv)];
              d_ub = Bound_sub N (util_max (Bound_less N) (Bound_abs N (lb rhv)) [Bound_abs N (ub rhv)])
                       (Bound_of_int N (Interval_caster lhv) 1);
              u = util_min (Bound_less N) n_ub [d_ub]
          in Some (if Bound_less N (lb lhv) zero then
                     if Bound_greater N (ub lhv) zero then Interval_make N (Bound_neg N u) u
                     else Interval_make N (Bound_neg N u) zero
                   else Interval_make N zero u)))"

definition Interval_shift_range :: "('c, 'n) number \<Rightarrow> 'c \<Rightarrow> ('c, 'n) Interval \<Rightarrow> ('c, 'n) Interval" where
  "Interval_shift_range N c rhv =
     Interval_meet N rhv (Interval_interval N (Bound_of_int N c 0) (plusInfinity N c))"

definition Interval_shl :: "('c, 'n) number \<Rightarrow> ('c, 'n) Interval \<Rightarrow> ('c, 'n) Interval \<Rightarrow> ('c, 'n) Interval option" where
  "Interval_shl N lhv rhv =
     (let c = Interval_caster lhv in
      if isBottom lhv \<or> isBottom rhv then Some (Interval_getBottom N c)
      else let shift = Interval_shift_range N c rhv in
        if isBottom shift then Some (Interval_getBottom N c)
        else Bound_shl N (Bound_of_int N c 1) (lb shift) \<bind> (\<lambda>l.
             (if isFinite (ub shift) then Bound_shl N (Bound_of_int N c 1) (ub shift) else Some (plusInfinity N c)) \<bind> (\<lambda>u.
             Some (Interval_mul N lhv (Interval_make N l u)))))"

definition Interval_shr :: "('c, 'n) number \<Rightarrow> ('c, 'n) Interval \<Rightarrow> ('c, 'n) Interval \<Rightarrow> ('c, 'n) Interval option" where
  "Interval_shr N lhv rhv =
     (let c = Interval_caster lhv in
      if isBottom lhv \<or> isBottom rhv then Some (Interval_getBottom N c)
      else let shift = Interval_shift_range N c rhv in
        if isBottom shift then Some (Interval_getBottom N c)
        else Interval_contains_int N 0 lhv \<bind> (\<lambda>z.
          if z then Some (Interval_getTop N c)
          else Bound_shr N (lb lhv) (lb shift) \<bind> (\<lambda>ll.
               Bound_shr N (lb lhv) (ub shift) \<bind> (\<lambda>lu.
               Bound_shr N (ub lhv) (lb shift) \<bind> (\<lambda>ul.
               Bound_shr N (ub lhv) (ub shift) \<bind> (\<lambda>uu.
               Some (Interval_make N (util_min (Bound_less N) ll [lu, ul, uu])
                 (util_max (Bound_less N) ll [lu, ul, uu]))))))))"

definition Interval_lshr :: "('c, 'n) number \<Rightarrow> ('c, 'n) Interval \<Rightarrow> ('c, 'n) Interval \<Rightarrow> ('c, 'n) Interval option" where
  "Interval_lshr N lhv rhv =
     (let c = Interval_caster lhv in
      if isBottom lhv \<or> isBottom rhv then Some (Interval_getBottom N c)
      else let shift = Interval_shift_range N c rhv in
        if isBottom shift then Some (Interval_getBottom N c)
        else Interval_contains_int N 0 lhv \<bind> (\<lambda>z.
          if z then Some (Interval_getTop N c)
          else Bound_lshr N (lb lhv) (lb shift) \<bind> (\<lambda>ll.
               Bound_lshr N (lb lhv) (ub shift) \<bind> (\<lambda>lu.
               Bound_lshr N (ub lhv) (lb shift) \<bind> (\<lambda>ul.
               Bound_lshr N (ub lhv) (ub shift) \<bind> (\<lambda>uu.
               Some (Interval_make N (util_min (Bound_less N) ll [lu, ul, uu])
                 (util_max (Bound_less N) ll [lu, ul, uu]))))))))"

definition Interval_and :: "('c, 'n) number \<Rightarrow> ('c, 'n) Interval \<Rightarrow> ('c, 'n) Interval \<Rightarrow> ('c, 'n) Interval option" where
  "Interval_and N lhv rhv =
     (let c = Interval_caster lhv in
      if isBottom lhv \<or> isBottom rhv then Some (Interval_getBottom N c)
      else if Interval_isConstant N lhv \<and> Interval_isConstant N rhv then
        Interval_asConstant N lhv \<bind> (\<lambda>x. Interval_asConstant N rhv \<bind> (\<lambda>y. Some (Interval_of (n_and N x y) c)))
      else Interval_isZero N lhv \<bind> (\<lambda>lz. Interval_isZero N rhv \<bind> (\<lambda>rz.
        if lz \<or> rz then Some (Interval_of_int N 0 c)
        else Interval_isConstant_int N (- 1) lhv \<bind> (\<lambda>lm.
          if lm then Some rhv
          else Interval_isConstant_int N (- 1) rhv \<bind> (\<lambda>rm.
            if rm then Some lhv
            else let zero = Bound_of_int N c 0 in
              Some (if Bound_geq N (lb lhv) zero \<and> Bound_geq N (lb rhv) zero then
                      Interval_make N zero (util_min (Bound_less N) (ub lhv) [ub rhv])
                    else if Bound_geq N (lb lhv) zero then Interval_make N zero (ub lhv)
                    else if Bound_geq N (lb lhv) zero then Interval_make N zero (ub rhv)
                    else Interval_getTop N c))))))"

definition Interval_or :: "('c, 'n) number \<Rightarrow> ('c, 'n) Interval \<Rightarrow> ('c, 'n) Interval \<Rightarrow> ('c, 'n) Interval option" where
  "Interval_or N lhv rhv =
     (let c = Interval_caster lhv in
      if isBottom lhv \<or> isBottom rhv then Some (Interval_getBottom N c)
      else if Interval_isConstant N lhv \<and> Interval_isConstant N rhv then
        Interval_asConstant N lhv \<bind> (\<lambda>x. Interval_asConstant N rhv \<bind> (\<lambda>y. Some (Interval_of (n_or N x y) c)))
      else Interval_isConstant_int N (- 1) lhv \<bind> (\<lambda>lm. Interval_isConstant_int N (- 1) rhv \<bind> (\<lambda>rm.
        if lm \<or> rm then Some (Interval_of_int N (- 1) c)
        else Interval_isZero N rhv \<bind> (\<lambda>rz.
          if rz then Some lhv
          else Interval_isZero N lhv \<bind> (\<lambda>lz.
            if lz then Some rhv else Some (Interval_getTop N c))))))"

definition Interval_xor :: "('c, 'n) number \<Rightarrow> ('c, 'n) Interval \<Rightarrow> ('c, 'n) Interval \<Rightarrow> ('c, 'n) Interval option" where
  "Interval_xor N lhv rhv =
     (let c = Interval_caster lhv in
      if isBottom lhv \<or> isBottom rhv then Some (Interval_getBottom N c)
      else if Interval_isConstant N lhv \<and> Interval_isConstant N rhv then
        Interval_asConstant N lhv \<bind> (\<lambda>x. Interval_asConstant N rhv \<bind> (\<lambda>y. Some (Interval_of (n_xor N x y) c)))
      else Interval_isZero N rhv \<bind> (\<lambda>rz.
          if rz then Some lhv
          else Interval_isZero N lhv \<bind> (\<lambda>lz.
            if lz then Some rhv else Some (Interval_getTop N c))))"

definition Interval_apply ::
  "('c, 'n) number \<Rightarrow> ArithType \<Rightarrow> ('c, 'n) Interval \<Rightarrow> ('c, 'n) Interval \<Rightarrow> ('c, 'n) Interval option" where
  "Interval_apply N opcode this other = (case opcode of
      ADD \<Rightarrow> Some (Interval_clone N (Interval_add N this other))
    | SUB \<Rightarrow> Some (Interval_clone N (Interval_sub N this other))
    | MUL \<Rightarrow> Some (Interval_clone N (Interval_mul N this other))
    | DIV \<Rightarrow> map_option (Interval_clone N) (Interval_div N this other)
    | REM \<Rightarrow> map_option (Interval_clone N) (Interval_mod N this other)
    | SHL \<Rightarrow> map_option (Interval_clone N) (Interval_shl N this other)
    | ASHR \<Rightarrow> map_option (Interval_clone N) (Interval_shr N this other)
    | LSHR \<Rightarrow> map_option (Interval_clone N) (Interval_lshr N this other)
    | BAND \<Rightarrow> map_option (Interval_clone N) (Interval_and N this other)
    | LAND \<Rightarrow> map_option (Interval_clone N) (Interval_and N this other)
    | BOR \<Rightarrow> map_option (Interval_clone N) (Interval_or N this other)
    | LOR \<Rightarrow> map_option (Interval_clone N) (Interval_or N this other)
    | XOR \<Rightarrow> map_option (Interval_clone N) (Interval_xor N this other)
    | IMPLIES \<Rightarrow> Some (Interval_top N (Interval_caster this)))"

section \<open>No operation fails\<close>

definition iv_result where
  "iv_result N val has c r \<longleftrightarrow> (\<exists>i. r = Some i \<and> iv_ok N val has c i)"

lemma iv_result_Some [simp]: "iv_result N val has c (Some i) \<longleftrightarrow> iv_ok N val has c i"
  by (simp add: iv_result_def)

lemma iv_result_bind:
  "iv_result N val has c (r \<bind> f) \<longleftrightarrow> (\<exists>x. r = Some x \<and> iv_result N val has c (f x))"
  by (cases r) (auto simp: iv_result_def)

context number_order
begin

lemma int_tests:
  assumes "iv_ok N val has c i"
  shows "Interval_contains_int N k i = Some (bound_val val (lb i) \<le> Fin (val (n_of_int N c k)) \<and>
      Fin (val (n_of_int N c k)) \<le> bound_val val (ub i))"
    "Interval_isConstant_int N k i = Some (bound_val val (lb i) = Fin (val (n_of_int N c k)) \<and>
      bound_val val (ub i) = Fin (val (n_of_int N c k)))"
    "Interval_isConstant N i = (bound_val val (lb i) = bound_val val (ub i))"
  using iv_bounds[OF assms] bound_order[of c "lb i" "Bound_of_int N c k"] bound_order[of c "ub i" "Bound_of_int N c k"]
    bound_order[of c "Bound_of_int N c k" "ub i"] bound_order[of c "lb i" "ub i"]
  by (simp_all add: Interval_contains_int_def Interval_contains_bound_def Interval_isConstant_int_def
      Interval_isConstant_bound_def Interval_isConstant_def)

end

context number_arith
begin

lemma ring_ok:
  assumes "iv_ok N val has c a" "iv_ok N val has c b" "val (n_of_int N c 0) < val (n_of_int N c 1)"
  shows "iv_ok N val has c (Interval_add N a b)" "iv_ok N val has c (Interval_sub N a b)"
    "iv_ok N val has c (Interval_mul N a b)"
  using assms iv_bounds[OF assms(1)] iv_bounds[OF assms(2)]
  by (auto simp: Interval_add_def Interval_sub_def Interval_mul_def Let_def iv_intros
      intro!: make_ok bound_intros bound_min_max_ok simp del: util_min.simps util_max.simps)

lemma getBottom_ok:
  assumes "iv_ok N val has c a" "val (n_of_int N c 0) < val (n_of_int N c 1)"
  shows "iv_ok N val has c (Interval_getBottom N (Interval_caster a))"
    "iv_ok N val has c (Interval_getTop N (Interval_caster a))"
  using assms iv_bounds[OF assms(1)] by (simp_all add: iv_intros)

lemma div_ok:
  assumes ok: "iv_ok N val has c a" "iv_ok N val has c b" and pos: "val (n_of_int N c 0) < val (n_of_int N c 1)"
  shows "iv_result N val has c (Interval_div N a b)"
proof -
  note bnds = iv_bounds[OF ok(1)] iv_bounds[OF ok(2)] and bot = getBottom_ok[OF ok(1) pos]
  have quotient: "\<exists>r. Bound_div N x y = Some r \<and> bound_ok N has c r"
    if "bound_ok N has c x" "bound_ok N has c y" "bound_val val y \<noteq> Fin (val (n_of_int N c 0))" for x y
    using bound_div_ok that by blast
  show ?thesis
  proof (cases "isBottom a \<or> isBottom b \<or> Interval_contains_int N 0 b = Some True \<or> Interval_contains_int N 0 a = Some True")
    case True
    then show ?thesis using bot by (auto simp: Interval_div_def int_tests[OF ok(1)] int_tests[OF ok(2)] iv_result_bind)
  next
    case False
    then have "bound_val val (lb b) \<noteq> Fin (val (n_of_int N c 0))" "bound_val val (ub b) \<noteq> Fin (val (n_of_int N c 0))"
      using iv_flags(1)[OF ok(2)] by (auto simp: int_tests[OF ok(2)])
    then obtain ll ul lu uu where q: "Bound_div N (lb a) (lb b) = Some ll" "Bound_div N (ub a) (lb b) = Some ul"
        "Bound_div N (lb a) (ub b) = Some lu" "Bound_div N (ub a) (ub b) = Some uu"
        "bound_ok N has c ll" "bound_ok N has c ul" "bound_ok N has c lu" "bound_ok N has c uu"
      using quotient bnds by metis
    have "Interval_div N a b = Some (Interval_make N (util_min (Bound_less N) ll [ul, lu, uu])
        (util_max (Bound_less N) ll [ul, lu, uu]))"
      using False q(1-4) by (auto simp: Interval_div_def int_tests[OF ok(1)] int_tests[OF ok(2)]
          simp del: util_min.simps util_max.simps)
    then show ?thesis using q(5-) by (simp add: make_ok bound_min_max_ok del: util_min.simps util_max.simps)
  qed
qed

lemma mod_ok:
  assumes ok: "iv_ok N val has c a" "iv_ok N val has c b" and pos: "val (n_of_int N c 0) < val (n_of_int N c 1)"
    and fin: "bound_val val (lb b) \<noteq> PInf" "bound_val val (ub b) \<noteq> NInf"
  shows "iv_result N val has c (Interval_mod N a b)"
proof -
  note bnds = iv_bounds[OF ok(1)] iv_bounds[OF ok(2)] and bot = getBottom_ok[OF ok(1) pos]
  have const: "has c (n_mod N (b_value (lb a)) (b_value (lb b)))"
    if k: "Interval_isConstant N b" "Interval_isZero N b \<noteq> Some True"
  proof (rule closed)
    show "has c (b_value (lb a))" "has c (b_value (lb b))" using bnds bound_ok_value by blast+
    show "val (b_value (lb b)) \<noteq> val (n_of_int N c 0)"
      using k fin by (auto simp: int_tests[OF ok(2)] Interval_isZero_def bound_val_def split: if_splits)
  qed
  define u where "u = util_min (Bound_less N)
      (util_max (Bound_less N) (Bound_abs N (lb a)) [Bound_abs N (ub a)])
      [Bound_sub N (util_max (Bound_less N) (Bound_abs N (lb b)) [Bound_abs N (ub b)]) (Bound_of_int N c 1)]"
  have u: "bound_ok N has c u" unfolding u_def using bnds
    by (intro bound_min_max_ok bound_intros; simp add: bound_min_max_ok bound_intros del: util_max.simps)
  show ?thesis
    using bot const bnds u
    by (auto simp: Interval_mod_def iv_result_bind Let_def int_tests(1,2)[OF ok(2)] Interval_isZero_def
        Interval_asConstant_def u_def[symmetric] simp del: util_min.simps util_max.simps
        intro!: iv_intros make_ok bound_intros)
qed

lemma shift_range:
  assumes ok: "iv_ok N val has c b" "\<not> isBottom (Interval_shift_range N c b)" and False: "\<not> isBottom b"
  shows "bound_ok N has c (lb (Interval_shift_range N c b))" "bound_ok N has c (ub (Interval_shift_range N c b))"
    "Fin (val (n_of_int N c 0)) \<le> bound_val val (lb (Interval_shift_range N c b))"
    "Fin (val (n_of_int N c 0)) \<le> bound_val val (ub (Interval_shift_range N c b))"
proof -
  let ?r = "Interval_interval N (Bound_of_int N c 0) (plusInfinity N c)"
  have r: "iv_ok N val has c ?r" by (simp add: Interval_interval_def make_ok)
  have s: "iv_ok N val has c (Interval_shift_range N c b)"
    unfolding Interval_shift_range_def by (rule lattice_ok(2)[OF ok(1) r])
  show "bound_ok N has c (lb (Interval_shift_range N c b))" "bound_ok N has c (ub (Interval_shift_range N c b))"
    using iv_bounds[OF s] by auto
  have nb: "\<not> isBottom ?r" using iv_flags(1)[OF r] by (simp add: Interval_interval_def)
  show "Fin (val (n_of_int N c 0)) \<le> bound_val val (lb (Interval_shift_range N c b))"
    using meet_cases(2)[OF ok(1) r False nb] by (simp add: Interval_shift_range_def) (simp add: Interval_interval_def)
  then show "Fin (val (n_of_int N c 0)) \<le> bound_val val (ub (Interval_shift_range N c b))"
    using iv_flags(1)[OF s] ok(2) by (auto intro: order_trans)
qed

lemma shift_ok:
  assumes ok: "iv_ok N val has c a" "iv_ok N val has c b" and pos: "val (n_of_int N c 0) < val (n_of_int N c 1)"
  shows "iv_result N val has c (Interval_shl N a b)" "iv_result N val has c (Interval_shr N a b)"
    "iv_result N val has c (Interval_lshr N a b)"
proof -
  note a = iv_bounds[OF ok(1)] and bot = getBottom_ok[OF ok(1) pos]
  let ?s = "Interval_shift_range N c b"
  have "iv_result N val has c (Interval_shl N a b) \<and> iv_result N val has c (Interval_shr N a b) \<and>
    iv_result N val has c (Interval_lshr N a b)"
  proof (cases "isBottom a \<or> isBottom b \<or> isBottom ?s")
    case True
    then show ?thesis using bot a(3) by (auto simp: Interval_shl_def Interval_shr_def Interval_lshr_def Let_def)
  next
    case False
    then have nb: "\<not> isBottom a" "\<not> isBottom b" "\<not> isBottom ?s" by auto
    note s = shift_range[OF ok(2) nb(3) nb(2)]
    have one: "bound_ok N has c (Bound_of_int N c 1)" by simp
    obtain l u where lu: "Bound_shl N (Bound_of_int N c 1) (lb ?s) = Some l" "bound_ok N has c l"
        "(if isFinite (ub ?s) then Bound_shl N (Bound_of_int N c 1) (ub ?s) else Some (plusInfinity N c)) = Some u"
        "bound_ok N has c u"
      using bound_shift_ok(1)[OF one s(1,3)] bound_shift_ok(1)[OF one s(2,4)]
      by (cases "isFinite (ub ?s)") auto
    have l: "iv_result N val has c (Interval_shl N a b)"
      unfolding Interval_shl_def Let_def a(3) using nb lu
      by (simp add: iv_result_bind del: if_split_asm) (auto intro!: ring_ok(3) ok make_ok pos)
    have "iv_result N val has c (Interval_shr N a b)"
      using nb bot bound_shift_ok(2)[OF a(1) s(1,3)] bound_shift_ok(2)[OF a(1) s(2,4)]
        bound_shift_ok(2)[OF a(2) s(1,3)] bound_shift_ok(2)[OF a(2) s(2,4)]
      by (auto simp: Interval_shr_def Let_def a(3) int_tests[OF ok(1)] iv_result_bind
          intro!: make_ok bound_min_max_ok simp del: util_min.simps util_max.simps)
    moreover have "iv_result N val has c (Interval_lshr N a b)"
      using nb bot bound_shift_ok(3)[OF a(1) s(1,3)] bound_shift_ok(3)[OF a(1) s(2,4)]
        bound_shift_ok(3)[OF a(2) s(1,3)] bound_shift_ok(3)[OF a(2) s(2,4)]
      by (auto simp: Interval_lshr_def Let_def a(3) int_tests[OF ok(1)] iv_result_bind
          intro!: make_ok bound_min_max_ok simp del: util_min.simps util_max.simps)
    ultimately show ?thesis using l by blast
  qed
  then show "iv_result N val has c (Interval_shl N a b)" "iv_result N val has c (Interval_shr N a b)"
    "iv_result N val has c (Interval_lshr N a b)" by auto
qed

lemma bitwise_ok:
  assumes ok: "iv_ok N val has c a" "iv_ok N val has c b" and pos: "val (n_of_int N c 0) < val (n_of_int N c 1)"
  shows "iv_result N val has c (Interval_and N a b)" "iv_result N val has c (Interval_or N a b)"
    "iv_result N val has c (Interval_xor N a b)"
proof -
  note a = iv_bounds[OF ok(1)] and b = iv_bounds[OF ok(2)] and bot = getBottom_ok[OF ok(1) pos]
  note ok = ok a b bound_ok_value[OF a(1)] bound_ok_value[OF b(1)]
  note tests = int_tests(1,2)[OF ok(1)] int_tests(1,2)[OF ok(2)]
  show "iv_result N val has c (Interval_and N a b)"
    using bot ok by (auto simp: Interval_and_def Let_def tests Interval_isZero_def Interval_asConstant_def
        iv_intros closed intro!: make_ok bound_min_max_ok simp del: util_min.simps util_max.simps)
  show "iv_result N val has c (Interval_or N a b)"
    using bot ok by (auto simp: Interval_or_def Let_def tests Interval_isZero_def Interval_asConstant_def
        iv_intros closed)
  show "iv_result N val has c (Interval_xor N a b)"
    using bot ok by (auto simp: Interval_xor_def Let_def tests Interval_isZero_def Interval_asConstant_def
        iv_intros closed)
qed

lemma apply_ok:
  assumes ok: "iv_ok N val has c a" "iv_ok N val has c b" and pos: "val (n_of_int N c 0) < val (n_of_int N c 1)"
    and fin: "bound_val val (lb b) \<noteq> PInf" "bound_val val (ub b) \<noteq> NInf"
  shows "iv_result N val has c (Interval_apply N opcode a b)"
proof -
  have m: "iv_result N val has c (map_option (Interval_clone N) r)" if "iv_result N val has c r" for r
    using that by (auto simp: iv_result_def clone_ok)
  show ?thesis
    using m ring_ok[OF ok pos] div_ok[OF ok pos] mod_ok[OF ok pos fin] shift_ok[OF ok pos] bitwise_ok[OF ok pos]
      iv_bounds(3)[OF ok(1)]
    by (cases opcode) (simp_all add: Interval_apply_def clone_ok iv_intros)
qed

end

section \<open>Property\<close>

text \<open>C39: The arithmetic of intervals does not fail: for every operator, \<open>apply\<close> on two well-formed
  intervals returns a well-formed interval - no bound is divided by zero and no shift amount is
  negative - provided the second interval does not lie at an infinity, and 0 is below 1 in the number type
  (it is not for signed numbers of one bit).\<close>

theorem Interval_apply_total:
  assumes "number_arith N val has" "iv_ok N val has c a" "iv_ok N val has c b"
    and "val (n_of_int N c 0) < val (n_of_int N c 1)"
    and "bound_val val (lb b) \<noteq> PInf" "bound_val val (ub b) \<noteq> NInf"
  shows "\<exists>r. Interval_apply N opcode a b = Some r \<and> iv_ok N val has c r"
  using number_arith.apply_ok[OF assms] by (simp add: iv_result_def)

theorem Interval_apply_total_witness:
  "\<exists>r. Interval_apply (BitInt_number bits_apint True) LSHR (bits_iv 8 1 9) (bits_iv 8 (- 3) 2) = Some r"
proof -
  have "bound_val (ival bits_apint bits_uval True) (lb (bits_iv 8 (- 3) 2)) \<noteq> PInf"
    "bound_val (ival bits_apint bits_uval True) (ub (bits_iv 8 (- 3) 2)) \<noteq> NInf"
    by (simp_all add: bits_iv_def Interval_interval_def)
  then show ?thesis
    using Interval_apply_total[OF bits_arith bits_iv_ok[of 8 1 9] bits_iv_ok[of 8 "- 3" 2] bits_pos, of LSHR] by blast
qed

end
