(* ===== verification/IntervalSound.thy ===== *)
theory IntervalSound
  imports IntervalOps
begin

text \<open>
  Soundness of the arithmetic of intervals (src/Interpreter/Domain/Numerical/Interval.hpp) for
  \<open>BitInt<sign>\<close>: where no operation on the bounds wraps around, the interval computed contains the
  machine result of any two numbers; and where the code loses results.
\<close>

section \<open>Exact results\<close>

definition fits :: "bool \<Rightarrow> nat \<Rightarrow> int \<Rightarrow> bool" where
  "fits sg w z = (if sg then - (2 ^ (w - 1)) \<le> z \<and> z < 2 ^ (w - 1) else 0 \<le> z \<and> z < 2 ^ w)"

locale bitint = apint_laws A uval for A :: "'b apint" and uval :: "'b \<Rightarrow> int" +
  fixes sg :: bool

sublocale bitint \<subseteq> number_arith "BitInt_number A sg" "ival A uval sg" "\<lambda>w x. ap_width A x = w"
  by (rule BitInt_arith)

interpretation bits_signed: bitint bits_apint bits_uval True ..

interpretation bits_unsigned: bitint bits_apint bits_uval False ..

lemma signed_of_fits: "0 < w \<Longrightarrow> 0 \<le> u \<Longrightarrow> u < 2 ^ w \<Longrightarrow> fits True w (signed_of w u)"
  by (cases w) (auto simp: fits_def signed_of_def)

lemma fits_unique:
  assumes "0 < w" "fits sg w y" "fits sg w z" "y mod 2 ^ w = z mod 2 ^ w"
  shows "y = z"
proof (rule ccontr)
  assume ne: "y \<noteq> z"
  have d: "2 ^ w dvd y - z" using assms(4) by (simp add: mod_eq_dvd_iff)
  have "(2 :: int) ^ w = 2 * 2 ^ (w - 1)" using assms(1) by (cases w) simp_all
  then have "\<bar>y - z\<bar> < 2 ^ w" using assms(2,3) by (auto simp: fits_def split: if_splits)
  then show False using d ne zdvd_imp_le[of "2 ^ w" "\<bar>y - z\<bar>"] by simp
qed

context bitint
begin

abbreviation V :: "'b \<Rightarrow> int" where
  "V \<equiv> ival A uval sg"

lemma V_fits: "0 < ap_width A x \<Longrightarrow> fits sg (ap_width A x) (V x)"
  using uval_nonneg[of x] uval_less[of x] signed_of_fits[of "ap_width A x" "uval x"]
  by (auto simp: ival_def fits_def split: if_splits)

lemma V_mod: "V x mod 2 ^ ap_width A x = uval x"
  by (rule ival_mod)

lemma V_exact:
  assumes "0 < ap_width A r" "uval r = z mod 2 ^ ap_width A r" "fits sg (ap_width A r) z"
  shows "V r = z"
  using fits_unique[OF assms(1) V_fits[OF assms(1)] assms(3)] assms(2) V_mod[of r] by simp

lemma V_ring:
  assumes "ap_width A x = w" "ap_width A y = w" "0 < w"
  shows "fits sg w (V x + V y) \<Longrightarrow> V (ap_add A x y) = V x + V y"
    "fits sg w (V x - V y) \<Longrightarrow> V (ap_sub A x y) = V x - V y"
    "fits sg w (V x * V y) \<Longrightarrow> V (ap_mul A x y) = V x * V y"
    "fits sg w (- V x) \<Longrightarrow> V (ap_neg A x) = - V x"
  using assms V_mod[of x] V_mod[of y]
  by (auto intro!: V_exact simp: add sub mul neg mod_simps
      simp flip: mod_add_eq[of "V x"] mod_diff_eq[of "V x"] mod_mult_eq[of "V x"] mod_minus_eq[of "V x"])

abbreviation has_width :: "nat \<Rightarrow> 'b \<Rightarrow> bool" where
  "has_width \<equiv> \<lambda>w x. ap_width A x = w"

abbreviation NB :: "(nat, 'b) number" where
  "NB \<equiv> BitInt_number A sg"

text \<open>The operators of the number dictionary.\<close>

lemma number_ops:
  "n_add NB = ap_add A" "n_sub NB = ap_sub A" "n_mul NB = ap_mul A" "n_neg NB = ap_neg A"
  "n_and NB = ap_and A" "n_or NB = ap_or A" "n_xor NB = ap_xor A"
  "n_mod NB = (if sg then ap_srem A else ap_urem A)" "n_div NB = (if sg then ap_sdiv A else ap_udiv A)"
  "n_of_int NB w k = ap_make A w (scast k)"
  by (auto simp: BitInt_number_def BitInt_defs fun_eq_iff)

lemma V_zero [simp]: "V (ap_make A w 0) = 0"
  by (simp add: ival_def make signed_of_def)

text \<open>Sums, differences and products of bounds.\<close>

lemma bound_value_cases:
  assumes "bound_ok NB has_width w b"
  obtains "isPlusInfinity b" "\<not> isMinusInfinity b" "bound_val V b = PInf"
  | "isMinusInfinity b" "\<not> isPlusInfinity b" "bound_val V b = NInf"
  | "\<not> isPlusInfinity b" "\<not> isMinusInfinity b" "ap_width A (b_value b) = w" "bound_val V b = Fin (V (b_value b))"
  using assms unfolding bound_ok_def bound_val_def by auto

lemma bound_ring:
  assumes "bound_ok NB has_width w a" "bound_ok NB has_width w b" "0 < w"
  shows "(\<And>p q. bound_val V a = Fin p \<Longrightarrow> bound_val V b = Fin q \<Longrightarrow> fits sg w (p + q)) \<Longrightarrow>
      bound_val V (Bound_add NB a b) = (case bound_val V a of Fin p \<Rightarrow>
        (case bound_val V b of Fin q \<Rightarrow> Fin (p + q) | i \<Rightarrow> i) | i \<Rightarrow> i)"
    and "(\<And>p q. bound_val V a = Fin p \<Longrightarrow> bound_val V b = Fin q \<Longrightarrow> fits sg w (p - q)) \<Longrightarrow>
      bound_val V (Bound_sub NB a b) = (case bound_val V a of Fin p \<Rightarrow>
        (case bound_val V b of Fin q \<Rightarrow> Fin (p - q) | PInf \<Rightarrow> NInf | NInf \<Rightarrow> PInf) | i \<Rightarrow> i)"
    and "(\<And>p q. bound_val V a = Fin p \<Longrightarrow> bound_val V b = Fin q \<Longrightarrow> fits sg w (p * q)) \<Longrightarrow>
      bound_val V (Bound_mul NB a b) = (case bound_val V a of Fin p \<Rightarrow>
        (case bound_val V b of Fin q \<Rightarrow> Fin (p * q) | i \<Rightarrow> i) | i \<Rightarrow> i)"
proof -
  note defs = Bound_add_def Bound_add_assign_def Bound_sub_def Bound_sub_assign_def Bound_mul_def
      Bound_mul_assign_def Let_def isFinite_def isInfinite_def number_ops Bound_neg_def
  note ring = V_ring(1-3)[OF _ _ assms(3)]
  show "(\<And>p q. bound_val V a = Fin p \<Longrightarrow> bound_val V b = Fin q \<Longrightarrow> fits sg w (p + q)) \<Longrightarrow>
      bound_val V (Bound_add NB a b) = (case bound_val V a of Fin p \<Rightarrow>
        (case bound_val V b of Fin q \<Rightarrow> Fin (p + q) | i \<Rightarrow> i) | i \<Rightarrow> i)"
    using ring by (cases rule: bound_value_cases[OF assms(1)]; cases rule: bound_value_cases[OF assms(2)])
      (simp_all add: defs, simp_all add: bound_val_def)
  show "(\<And>p q. bound_val V a = Fin p \<Longrightarrow> bound_val V b = Fin q \<Longrightarrow> fits sg w (p - q)) \<Longrightarrow>
      bound_val V (Bound_sub NB a b) = (case bound_val V a of Fin p \<Rightarrow>
        (case bound_val V b of Fin q \<Rightarrow> Fin (p - q) | PInf \<Rightarrow> NInf | NInf \<Rightarrow> PInf) | i \<Rightarrow> i)"
    using ring by (cases rule: bound_value_cases[OF assms(1)]; cases rule: bound_value_cases[OF assms(2)])
      (simp_all add: defs, simp_all add: bound_val_def)
  show "(\<And>p q. bound_val V a = Fin p \<Longrightarrow> bound_val V b = Fin q \<Longrightarrow> fits sg w (p * q)) \<Longrightarrow>
      bound_val V (Bound_mul NB a b) = (case bound_val V a of Fin p \<Rightarrow>
        (case bound_val V b of Fin q \<Rightarrow> Fin (p * q) | i \<Rightarrow> i) | i \<Rightarrow> i)"
    using ring by (cases rule: bound_value_cases[OF assms(1)]; cases rule: bound_value_cases[OF assms(2)])
      (simp_all add: defs, simp_all add: bound_val_def)
qed

end

text \<open>The finite numbers an operation on two intervals computes with: their bounds and the members.\<close>

definition points :: "('n \<Rightarrow> int) \<Rightarrow> ('c, 'n) Interval \<Rightarrow> 'n \<Rightarrow> int set" where
  "points v i x = {p. Fin p \<in> {bound_val v (lb i), bound_val v (ub i), Fin (v x)}}"

context bitint
begin

lemma add_sub_sound:
  assumes w: "0 < w" and ok: "iv_ok NB V has_width w a" "iv_ok NB V has_width w b"
    and x: "x \<in> gamma V has_width w a" and y: "y \<in> gamma V has_width w b"
  shows "(\<And>p q. p \<in> points V a x \<Longrightarrow> q \<in> points V b y \<Longrightarrow> fits sg w (p + q)) \<Longrightarrow>
      ap_add A x y \<in> gamma V has_width w (Interval_add NB a b)"
    and "(\<And>p q. p \<in> points V a x \<Longrightarrow> q \<in> points V b y \<Longrightarrow> fits sg w (p - q)) \<Longrightarrow>
      ap_sub A x y \<in> gamma V has_width w (Interval_sub NB a b)"
proof -
  have nb: "\<not> isBottom a" "\<not> isBottom b" using gamma_bottom ok x y by blast+
  note m = x[unfolded gamma_def mem_Collect_eq] y[unfolded gamma_def mem_Collect_eq]
  note ring = bound_ring[OF iv_bounds(1)[OF ok(1)] _ w] bound_ring[OF iv_bounds(2)[OF ok(1)] _ w]
  have pts: "bound_val V (lb a) = Fin p \<Longrightarrow> p \<in> points V a x" "bound_val V (ub a) = Fin p \<Longrightarrow> p \<in> points V a x"
      "bound_val V (lb b) = Fin p \<Longrightarrow> p \<in> points V b y" "bound_val V (ub b) = Fin p \<Longrightarrow> p \<in> points V b y" for p
    by (auto simp: points_def)
  {
    assume f: "\<And>p q. p \<in> points V a x \<Longrightarrow> q \<in> points V b y \<Longrightarrow> fits sg w (p + q)"
    have v: "V (ap_add A x y) = V x + V y"
      using V_ring(1)[OF _ _ w] m f[of "V x" "V y"] by (simp add: points_def)
    have "bound_val V (Bound_add NB (lb a) (lb b)) \<le> Fin (V x + V y)"
      using m ring(1)[OF iv_bounds(1)[OF ok(2)], OF f[OF pts(1,3)]] by (auto split: ext.splits)
    moreover have "Fin (V x + V y) \<le> bound_val V (Bound_add NB (ub a) (ub b))"
      using m ring(4)[OF iv_bounds(2)[OF ok(2)], OF f[OF pts(2,4)]] by (auto split: ext.splits)
    ultimately show "ap_add A x y \<in> gamma V has_width w (Interval_add NB a b)"
      using m nb v by (simp add: gamma_def Interval_add_def add)
  }
  {
    assume f: "\<And>p q. p \<in> points V a x \<Longrightarrow> q \<in> points V b y \<Longrightarrow> fits sg w (p - q)"
    have v: "V (ap_sub A x y) = V x - V y"
      using V_ring(2)[OF _ _ w] m f[of "V x" "V y"] by (simp add: points_def)
    have "bound_val V (Bound_sub NB (lb a) (ub b)) \<le> Fin (V x - V y)"
      using m ring(2)[OF iv_bounds(2)[OF ok(2)], OF f[OF pts(1,4)]] by (auto split: ext.splits)
    moreover have "Fin (V x - V y) \<le> bound_val V (Bound_sub NB (ub a) (lb b))"
      using m ring(5)[OF iv_bounds(1)[OF ok(2)], OF f[OF pts(2,3)]] by (auto split: ext.splits)
    ultimately show "ap_sub A x y \<in> gamma V has_width w (Interval_sub NB a b)"
      using m nb v by (simp add: gamma_def Interval_sub_def sub)
  }
qed

end

lemma linear_between: "(a :: int) \<le> x \<Longrightarrow> x \<le> b \<Longrightarrow> min (a * y) (b * y) \<le> x * y \<and> x * y \<le> max (a * y) (b * y)"
  by (cases "0 \<le> y") (auto simp: min_le_iff_disj le_max_iff_disj mult_right_mono mult_right_mono_neg)

lemma corners:
  assumes "(a :: int) \<le> x" "x \<le> b" "c \<le> y" "y \<le> d"
  shows "min (a * c) (min (b * c) (min (a * d) (b * d))) \<le> x * y"
    and "x * y \<le> max (a * c) (max (b * c) (max (a * d) (b * d)))"
proof -
  have "min (a * y) (b * y) \<le> x * y \<and> x * y \<le> max (a * y) (b * y)"
    using linear_between[OF assms(1,2)] by blast
  moreover have "min (a * c) (a * d) \<le> a * y \<and> a * y \<le> max (a * c) (a * d)"
    "min (b * c) (b * d) \<le> b * y \<and> b * y \<le> max (b * c) (b * d)"
    using linear_between[OF assms(3,4)] by (simp_all add: mult.commute)
  ultimately show "min (a * c) (min (b * c) (min (a * d) (b * d))) \<le> x * y"
    "x * y \<le> max (a * c) (max (b * c) (max (a * d) (b * d)))" by linarith+
qed

lemma Fin_min_max: "min (Fin a) (Fin b) = Fin (min a b)" "max (Fin a) (Fin b) = Fin (max a b)"
  by (auto simp: min_def max_def)

context bitint
begin

lemma min_max_4:
  assumes "bound_ok NB has_width w p" "bound_ok NB has_width w q" "bound_ok NB has_width w r" "bound_ok NB has_width w s"
  shows "bound_val V (util_min (Bound_less NB) p [q, r, s]) =
      min (bound_val V p) (min (bound_val V q) (min (bound_val V r) (bound_val V s)))"
    "bound_val V (util_max (Bound_less NB) p [q, r, s]) =
      max (bound_val V p) (max (bound_val V q) (max (bound_val V r) (bound_val V s)))"
  using assms bound_min_max[of w p q "[r, s]"] bound_min_max[of w q r "[s]"] bound_min_max[of w r s "[]"]
  by (simp_all del: util_min.simps(2) util_max.simps(2))

lemma mul_sound:
  assumes w: "0 < w" and ok: "iv_ok NB V has_width w a" "iv_ok NB V has_width w b"
    and x: "x \<in> gamma V has_width w a" and y: "y \<in> gamma V has_width w b"
    and fin: "isFinite (lb a)" "isFinite (ub a)" "isFinite (lb b)" "isFinite (ub b)"
    and f: "\<And>p q. p \<in> points V a x \<Longrightarrow> q \<in> points V b y \<Longrightarrow> fits sg w (p * q)"
  shows "ap_mul A x y \<in> gamma V has_width w (Interval_mul NB a b)"
proof -
  have nb: "\<not> isBottom a" "\<not> isBottom b" using gamma_bottom ok x y by blast+
  note m = x[unfolded gamma_def mem_Collect_eq] y[unfolded gamma_def mem_Collect_eq]
  obtain la ua where ab: "bound_val V (lb a) = Fin la" "bound_val V (ub a) = Fin ua"
    using fin by (simp add: bound_val_def isFinite_def isInfinite_def)
  obtain lc uc where cd: "bound_val V (lb b) = Fin lc" "bound_val V (ub b) = Fin uc"
    using fin by (simp add: bound_val_def isFinite_def isInfinite_def)
  have pts: "la \<in> points V a x" "ua \<in> points V a x" "lc \<in> points V b y" "uc \<in> points V b y"
      "V x \<in> points V a x" "V y \<in> points V b y"
    using ab cd by (auto simp: points_def)
  have v: "V (ap_mul A x y) = V x * V y" using V_ring(3)[OF _ _ w] m f[OF pts(5,6)] by simp
  have prod: "bound_val V (Bound_mul NB k l) = Fin (p * q)"
    if "bound_ok NB has_width w k" "bound_ok NB has_width w l" "bound_val V k = Fin p" "bound_val V l = Fin q"
      "p \<in> points V a x" "q \<in> points V b y" for k l p q
    by (subst bound_ring(3)[OF that(1,2) w]) (use f[OF that(5,6)] that(3,4) in auto)
  note oka = iv_bounds[OF ok(1)] and okb = iv_bounds[OF ok(2)]
  note prods = prod[OF oka(1) okb(1) ab(1) cd(1) pts(1,3)] prod[OF oka(2) okb(1) ab(2) cd(1) pts(2,3)]
    prod[OF oka(1) okb(2) ab(1) cd(2) pts(1,4)] prod[OF oka(2) okb(2) ab(2) cd(2) pts(2,4)]
  have le: "la \<le> V x" "V x \<le> ua" "lc \<le> V y" "V y \<le> uc" using m ab cd by auto
  have okp: "bound_ok NB has_width w (Bound_mul NB (lb a) (lb b))" "bound_ok NB has_width w (Bound_mul NB (ub a) (lb b))"
    "bound_ok NB has_width w (Bound_mul NB (lb a) (ub b))" "bound_ok NB has_width w (Bound_mul NB (ub a) (ub b))"
    using oka okb by (auto intro: bound_arith_ok)
  show ?thesis
    using m nb v corners[OF le] unfolding gamma_def
    by (simp add: Interval_mul_def Let_def min_max_4[OF okp] prods Fin_min_max mul del: util_min.simps util_max.simps)
qed

end

lemma or_mask: "0 \<le> u \<Longrightarrow> u < 2 ^ w \<Longrightarrow> or u (2 ^ w - 1) = (2 ^ w - 1 :: int)"
proof -
  assume "0 \<le> u" "u < 2 ^ w"
  then have t: "take_bit w u = u" by (simp add: take_bit_int_eq_self)
  have "or u (mask w) = mask w"
    by (rule bit_eqI) (metis bit_mask_iff bit_or_iff bit_take_bit_iff t)
  then show ?thesis by (simp add: mask_eq_exp_minus_1)
qed

lemma and_mask: "0 \<le> u \<Longrightarrow> u < 2 ^ w \<Longrightarrow> and u (2 ^ w - 1) = (u :: int)"
  by (simp flip: mask_eq_exp_minus_1 add: take_bit_int_eq_self flip: take_bit_eq_mask)

context bitint
begin

lemma gamma_uval:
  assumes "x \<in> gamma V has_width w i" "ap_width A r = w" "uval r = uval x"
  shows "r \<in> gamma V has_width w i"
  using assms by (auto simp: gamma_def ival_def)

lemma constant_uval:
  assumes ok: "iv_ok NB V has_width w i" and x: "x \<in> gamma V has_width w i"
  shows "Interval_isConstant NB i \<Longrightarrow> uval (b_value (lb i)) = uval x \<and> ap_width A (b_value (lb i)) = w"
    "Interval_isConstant_int NB k i = Some True \<Longrightarrow> uval x = uval (ap_make A w (scast k))"
proof -
  have w: "ap_width A x = w" using x by (simp add: gamma_def)
  show "uval (b_value (lb i)) = uval x \<and> ap_width A (b_value (lb i)) = w" if "Interval_isConstant NB i"
    using constant_gamma[OF ok that x] w ival_inj[of x "b_value (lb i)" sg] by simp
  show "uval x = uval (ap_make A w (scast k))" if "Interval_isConstant_int NB k i = Some True"
  proof -
    have "V x = V (ap_make A w (scast k))"
      using that x by (auto simp: int_tests[OF ok] gamma_def number_ops)
    then show ?thesis using ival_inj[of x "ap_make A w (scast k)" sg] w by (simp add: make)
  qed
qed

lemma and_nonneg:
  assumes "ap_width A x = w" "ap_width A y = w" "0 < w" "0 \<le> V x"
  shows "0 \<le> V (ap_and A x y)" "V (ap_and A x y) \<le> V x"
proof -
  have u: "V x = uval x" "sg \<Longrightarrow> uval x < 2 ^ (w - 1)"
    using assms uval_less[of x] by (auto simp: ival_def signed_of_def split: if_splits)
  have "uval (ap_and A x y) \<le> uval x" "0 \<le> uval (ap_and A x y)"
    using assms uval_nonneg[of x] uval_nonneg[of y] by (simp_all add: bits AND_upper1)
  then show "0 \<le> V (ap_and A x y)" "V (ap_and A x y) \<le> V x"
    using u assms(1,2) by (auto simp: ival_def signed_of_def bits split: if_splits)
qed

lemma minus_one: "w \<le> 64 \<Longrightarrow> uval (ap_make A w (scast (- 1 :: 32 word))) = 2 ^ w - 1"
proof -
  assume "w \<le> 64"
  then have "- 1 mod 2 ^ 64 mod 2 ^ w = (- 1 :: int) mod 2 ^ w"
    by (intro mod_mod_cancel le_imp_power_dvd)
  moreover have "uint (- 1 :: 64 word) = - 1 mod 2 ^ 64"
    by (simp add: unsigned_minus_1_eq_mask mask_eq_exp_minus_1)
  ultimately show ?thesis by (simp add: make bits_extremes)
qed

lemma zero_uval: "uval (ap_make A w (scast (0 :: 32 word))) = 0"
  by (simp add: make)

lemma and_sound:
  assumes w: "0 < w" "w \<le> 64" and ok: "iv_ok NB V has_width w a" "iv_ok NB V has_width w b"
    and x: "x \<in> gamma V has_width w a" and y: "y \<in> gamma V has_width w b"
  shows "\<exists>r. Interval_and NB a b = Some r \<and> ap_and A x y \<in> gamma V has_width w r"
proof -
  have nb: "\<not> isBottom a" "\<not> isBottom b" using gamma_bottom ok x y by blast+
  note m = x[unfolded gamma_def mem_Collect_eq] y[unfolded gamma_def mem_Collect_eq]
  have wd: "ap_width A x = w" "ap_width A y = w" "ap_width A (ap_and A x y) = w" using m by (simp_all add: bits)
  note ka = constant_uval[OF ok(1) x] and kb = constant_uval[OF ok(2) y]
  note tests = int_tests(1,2)[OF ok(1)] int_tests(1,2)[OF ok(2)]
  note c = iv_bounds(3)[OF ok(1)]
  have ra: "uval x \<ge> 0" "uval x < 2 ^ w" "uval y \<ge> 0" "uval y < 2 ^ w"
    using uval_nonneg uval_less[of x] uval_less[of y] wd by auto
  obtain za zb ma mb where t: "Interval_isConstant_int NB 0 a = Some za" "Interval_isConstant_int NB 0 b = Some zb"
      "Interval_isConstant_int NB (- 1) a = Some ma" "Interval_isConstant_int NB (- 1) b = Some mb"
    using tests by blast
  define k where "k = (Interval_isConstant NB a \<and> Interval_isConstant NB b)"
  consider (const) k | (zero) "\<not> k" "za \<or> zb" | (ones) "\<not> k" "\<not> za" "\<not> zb" "ma \<or> mb" | (range) "\<not> k" "\<not> za" "\<not> zb" "\<not> ma" "\<not> mb"
    by blast
  then show ?thesis
  proof cases
    case const
    then have k: "Interval_isConstant NB a" "Interval_isConstant NB b" by (simp_all add: k_def)
    have "ap_and A x y \<in> gamma V has_width w (Interval_of (ap_and A (b_value (lb a)) (b_value (lb b))) w)"
      using ka(1)[OF k(1)] kb(1)[OF k(2)] wd by (simp add: gamma_def Interval_of_def ival_def bits)
    then show ?thesis using k nb by (simp add: Interval_and_def Interval_asConstant_def number_ops c Let_def)
  next
    case zero
    have "za \<Longrightarrow> uval x = 0" "zb \<Longrightarrow> uval y = 0" using ka(2)[of 0] kb(2)[of 0] zero_uval[of w] t by simp_all
    then have "uval (ap_and A x y) = 0" using zero(2) wd by (auto simp: bits)
    then have "ap_and A x y \<in> gamma V has_width w (Interval_of_int NB 0 w)"
      using wd by (simp add: gamma_def Interval_of_int_def number_ops ival_def make signed_of_def)
    then show ?thesis using zero nb by (auto simp: Interval_and_def Interval_isZero_def c Let_def t k_def)
  next
    case ones
    have one: "ma \<Longrightarrow> uval x = 2 ^ w - 1" "mb \<Longrightarrow> uval y = 2 ^ w - 1"
      using ka(2)[of "- 1"] kb(2)[of "- 1"] minus_one[OF w(2)] t by auto
    have "ma \<Longrightarrow> uval (ap_and A x y) = uval y" "mb \<Longrightarrow> uval (ap_and A x y) = uval x"
      using one wd ra and_mask[of "uval x" w] and_mask[of "uval y" w] by (simp_all add: bits and.commute)
    then show ?thesis using ones nb gamma_uval[OF x wd(3)] gamma_uval[OF y wd(3)]
      by (cases ma) (auto simp: Interval_and_def Interval_isZero_def c Let_def t k_def)
  next
    case range
    have okz: "bound_ok NB has_width w (Bound_of_int NB w 0)" by simp
    have z: "bound_val V (Bound_of_int NB w 0) = Fin 0" by (simp add: number_ops)
    have ge: "Bound_geq NB (lb a) (Bound_of_int NB w 0) \<longleftrightarrow> Fin 0 \<le> bound_val V (lb a)"
        "Bound_geq NB (lb b) (Bound_of_int NB w 0) \<longleftrightarrow> Fin 0 \<le> bound_val V (lb b)"
      using bound_order(2)[OF iv_bounds(1)[OF ok(1)] okz] bound_order(2)[OF iv_bounds(1)[OF ok(2)] okz] z by simp_all
    have nn: "Fin 0 \<le> bound_val V (lb a) \<Longrightarrow> 0 \<le> V (ap_and A x y) \<and> Fin (V (ap_and A x y)) \<le> bound_val V (ub a)"
    proof -
      assume "Fin 0 \<le> bound_val V (lb a)"
      then have "Fin 0 \<le> Fin (V x)" using m by (blast intro: order_trans)
      then have "0 \<le> V (ap_and A x y)" "Fin (V (ap_and A x y)) \<le> Fin (V x)" using and_nonneg[OF wd(1,2) w(1)] by auto
      then show ?thesis using m by (blast intro: order_trans)
    qed
    have nn': "Fin 0 \<le> bound_val V (lb b) \<Longrightarrow> Fin (V (ap_and A x y)) \<le> bound_val V (ub b)"
    proof -
      assume "Fin 0 \<le> bound_val V (lb b)"
      then have "Fin 0 \<le> Fin (V y)" using m by (blast intro: order_trans)
      then have "V (ap_and A y x) \<le> V y" using and_nonneg[OF wd(2,1) w(1)] by auto
      moreover have "V (ap_and A y x) = V (ap_and A x y)" using wd by (simp add: ival_def bits and.commute)
      ultimately have "Fin (V (ap_and A x y)) \<le> Fin (V y)" by simp
      then show ?thesis using m by (blast intro: order_trans)
    qed
    show ?thesis
      using range nb nn nn' wd iv_min_max(3)[OF ok] z
      by (auto simp: Interval_and_def Interval_isZero_def c Let_def t k_def ge gamma_def Interval_getTop_def
          simp del: util_min.simps(2))
  qed
qed

lemma or_xor_sound:
  assumes w: "0 < w" "w \<le> 64" and ok: "iv_ok NB V has_width w a" "iv_ok NB V has_width w b"
    and x: "x \<in> gamma V has_width w a" and y: "y \<in> gamma V has_width w b"
  shows "\<exists>r. Interval_or NB a b = Some r \<and> ap_or A x y \<in> gamma V has_width w r"
    "\<exists>r. Interval_xor NB a b = Some r \<and> ap_xor A x y \<in> gamma V has_width w r"
proof -
  have nb: "\<not> isBottom a" "\<not> isBottom b" using gamma_bottom ok x y by blast+
  note m = x[unfolded gamma_def mem_Collect_eq] y[unfolded gamma_def mem_Collect_eq]
  have wd: "ap_width A x = w" "ap_width A y = w" "ap_width A (ap_or A x y) = w" "ap_width A (ap_xor A x y) = w"
    using m by (simp_all add: bits)
  note ka = constant_uval[OF ok(1) x] and kb = constant_uval[OF ok(2) y]
  note tests = int_tests(1,2)[OF ok(1)] int_tests(1,2)[OF ok(2)]
  note c = iv_bounds(3)[OF ok(1)]
  have ra: "uval x \<ge> 0" "uval x < 2 ^ w" "uval y \<ge> 0" "uval y < 2 ^ w"
    using uval_nonneg uval_less[of x] uval_less[of y] wd by auto
  obtain za zb ma mb where t: "Interval_isConstant_int NB 0 a = Some za" "Interval_isConstant_int NB 0 b = Some zb"
      "Interval_isConstant_int NB (- 1) a = Some ma" "Interval_isConstant_int NB (- 1) b = Some mb"
    using tests by blast
  have zero: "za \<Longrightarrow> uval x = 0" "zb \<Longrightarrow> uval y = 0" using ka(2)[of 0] kb(2)[of 0] zero_uval[of w] t by simp_all
  have one: "ma \<Longrightarrow> uval x = 2 ^ w - 1" "mb \<Longrightarrow> uval y = 2 ^ w - 1"
    using ka(2)[of "- 1"] kb(2)[of "- 1"] minus_one[OF w(2)] t by auto
  have top: "ap_or A x y \<in> gamma V has_width w (Interval_getTop NB w)" "ap_xor A x y \<in> gamma V has_width w (Interval_getTop NB w)"
    using wd by (simp_all add: gamma_def Interval_getTop_def)
  have const: "ap_or A x y \<in> gamma V has_width w (Interval_of (ap_or A (b_value (lb a)) (b_value (lb b))) w)"
      "ap_xor A x y \<in> gamma V has_width w (Interval_of (ap_xor A (b_value (lb a)) (b_value (lb b))) w)"
    if "Interval_isConstant NB a \<and> Interval_isConstant NB b"
    using ka(1) kb(1) that wd by (simp_all add: gamma_def Interval_of_def ival_def bits)
  have ones: "ap_or A x y \<in> gamma V has_width w (Interval_of_int NB (- 1) w)" if "ma \<or> mb"
  proof -
    have "uval (ap_or A x y) = 2 ^ w - 1"
      using that one wd or_mask[OF ra(1,2)] or_mask[OF ra(3,4)] by (auto simp: bits or.commute)
    then have "V (ap_or A x y) = V (ap_make A w (scast (- 1 :: 32 word)))"
      using wd minus_one[OF w(2)] by (simp add: ival_def make(1))
    then show ?thesis using wd by (simp add: gamma_def Interval_of_int_def number_ops)
  qed
  have sides: "zb \<Longrightarrow> ap_or A x y \<in> gamma V has_width w a \<and> ap_xor A x y \<in> gamma V has_width w a"
    "za \<Longrightarrow> ap_or A x y \<in> gamma V has_width w b \<and> ap_xor A x y \<in> gamma V has_width w b"
    using zero wd gamma_uval[OF x wd(3)] gamma_uval[OF x wd(4)] gamma_uval[OF y wd(3)] gamma_uval[OF y wd(4)]
    by (simp_all add: bits)
  show "\<exists>r. Interval_or NB a b = Some r \<and> ap_or A x y \<in> gamma V has_width w r"
    using nb const(1) ones sides top(1)
    by (cases "Interval_isConstant NB a \<and> Interval_isConstant NB b")
      (auto simp: Interval_or_def Interval_isZero_def Interval_asConstant_def c Let_def t number_ops(1-9))
  show "\<exists>r. Interval_xor NB a b = Some r \<and> ap_xor A x y \<in> gamma V has_width w r"
    using nb const(2) sides top(2)
    by (cases "Interval_isConstant NB a \<and> Interval_isConstant NB b")
      (auto simp: Interval_xor_def Interval_isZero_def Interval_asConstant_def c Let_def t number_ops(1-9))
qed

end

text \<open>The remainder: magnitudes of bounds.\<close>

fun ext_abs :: "int ext \<Rightarrow> int ext" where
  "ext_abs (Fin p) = Fin \<bar>p\<bar>"
| "ext_abs _ = PInf"

fun ext_dec :: "int ext \<Rightarrow> int ext" where
  "ext_dec (Fin p) = Fin (p - 1)"
| "ext_dec i = i"

lemma ext_abs_max: "l \<le> Fin v \<Longrightarrow> Fin v \<le> u \<Longrightarrow> Fin \<bar>v\<bar> \<le> max (ext_abs l) (ext_abs u)"
  by (cases l; cases u) (auto simp: le_max_iff_disj)

lemma ext_dec_mono: "i \<le> j \<Longrightarrow> ext_dec i \<le> ext_dec j"
  by (cases i; cases j) auto

lemma rem_magnitude: "(y :: int) \<noteq> 0 \<Longrightarrow> \<bar>sgn x * (\<bar>x\<bar> mod \<bar>y\<bar>)\<bar> \<le> \<bar>x\<bar> \<and> \<bar>sgn x * (\<bar>x\<bar> mod \<bar>y\<bar>)\<bar> \<le> \<bar>y\<bar> - 1"
proof -
  assume y: "y \<noteq> 0"
  have "\<bar>x\<bar> mod \<bar>y\<bar> \<le> \<bar>x\<bar>" by (rule zmod_le_nonneg_dividend) simp
  moreover have "0 \<le> \<bar>x\<bar> mod \<bar>y\<bar>" "\<bar>x\<bar> mod \<bar>y\<bar> < \<bar>y\<bar>" using y by simp_all
  ultimately show ?thesis by (cases "x = 0") (simp_all add: abs_mult abs_sgn_eq)
qed

context bitint
begin

abbreviation machine_rem :: "'b \<Rightarrow> 'b \<Rightarrow> 'b" where
  "machine_rem \<equiv> BitInt_mod A sg"

lemma machine_rem_def: "machine_rem x y = (if sg then ap_srem A x y else ap_urem A x y)"
  by (simp add: BitInt_defs)

lemma V_rem:
  assumes "ap_width A x = w" "ap_width A y = w" "0 < w" "V y \<noteq> 0"
  shows "ap_width A (machine_rem x y) = w" "V (machine_rem x y) = sgn (V x) * (\<bar>V x\<bar> mod \<bar>V y\<bar>)"
proof -
  have u: "uval y \<noteq> 0" using assms(4) by (auto simp: ival_def signed_of_def split: if_splits)
  show wd: "ap_width A (machine_rem x y) = w" using assms(1,2) u by (simp add: machine_rem_def srem urem)
  show "V (machine_rem x y) = sgn (V x) * (\<bar>V x\<bar> mod \<bar>V y\<bar>)"
  proof (cases sg)
    case True
    have "fits sg w (sgn (V x) * (\<bar>V x\<bar> mod \<bar>V y\<bar>))"
    proof -
      let ?r = "sgn (V x) * (\<bar>V x\<bar> mod \<bar>V y\<bar>)"
      have b: "\<bar>?r\<bar> \<le> \<bar>V y\<bar> - 1" using rem_magnitude[OF assms(4)] by blast
      have "\<bar>V y\<bar> \<le> 2 ^ (w - 1)" using V_fits[of y] assms True by (auto simp: fits_def)
      then show ?thesis using b True by (auto simp: fits_def)
    qed
    moreover have "uval (machine_rem x y) = (sgn (V x) * (\<bar>V x\<bar> mod \<bar>V y\<bar>)) mod 2 ^ w"
      using True assms u unfolding machine_rem_def by (simp add: srem ival_def smod_int_alt_def)
    ultimately show ?thesis using V_exact wd assms(3) by blast
  next
    case False
    then show ?thesis using assms u uval_nonneg[of x] uval_nonneg[of y]
      unfolding machine_rem_def by (auto simp: urem ival_def sgn_if)
  qed
qed

lemma bound_abs_val:
  assumes "bound_ok NB has_width w b" "0 < w" "\<And>p. sg \<Longrightarrow> bound_val V b = Fin p \<Longrightarrow> fits sg w (- p)"
  shows "bound_val V (Bound_abs NB b) = ext_abs (bound_val V b)"
proof -
  have ge: "Bound_geq_int NB b 0 \<longleftrightarrow> Fin 0 \<le> bound_val V b"
    using bound_geq_int[OF assms(1), of 0] by (simp add: number_ops)
  show ?thesis
  proof (cases rule: bound_value_cases[OF assms(1)])
    case 3
    have "\<not> sg \<Longrightarrow> 0 \<le> V (b_value b)" using uval_nonneg by (simp add: ival_def)
    then have "V (b_value b) < 0 \<Longrightarrow> V (ap_neg A (b_value b)) = - V (b_value b)"
      using 3(4) assms(3) V_ring(4)[OF 3(3) 3(3) assms(2)] by (meson not_le)
    then show ?thesis using 3 ge by (simp add: Bound_abs_def Bound_neg_def number_ops(4))
  qed (use ge in \<open>simp_all add: Bound_abs_def Bound_neg_def\<close>)
qed

lemma mod_sound:
  assumes w: "1 < w" and ok: "iv_ok NB V has_width w a" "iv_ok NB V has_width w b"
    and x: "x \<in> gamma V has_width w a" and y: "y \<in> gamma V has_width w b" "V y \<noteq> 0"
    and f: "\<And>p. sg \<Longrightarrow> Fin p \<in> {bound_val V (lb a), bound_val V (ub a), bound_val V (lb b), bound_val V (ub b)} \<Longrightarrow> fits sg w (- p)"
    and lo: "\<not> sg \<Longrightarrow> bound_val V (lb a) \<noteq> NInf"
  shows "\<exists>r. Interval_mod NB a b = Some r \<and> machine_rem x y \<in> gamma V has_width w r"
proof -
  have nb: "\<not> isBottom a" "\<not> isBottom b" using gamma_bottom ok x y by blast+
  note m = x[unfolded gamma_def mem_Collect_eq] y(1)[unfolded gamma_def mem_Collect_eq]
  have w0: "0 < w" using w by simp
  have wd: "ap_width A x = w" "ap_width A y = w" using m by auto
  note rem = V_rem[OF wd w0 y(2)]
  note tests = int_tests(1,2)[OF ok(2)]
  note c = iv_bounds(3)[OF ok(1)] and oka = iv_bounds(1,2)[OF ok(1)] and okb = iv_bounds(1,2)[OF ok(2)]
  have z: "Interval_isZero NB b = Some False"
    using m y(2) by (auto simp: Interval_isZero_def tests number_ops)
  show ?thesis
  proof (cases "Interval_isConstant NB a \<and> Interval_isConstant NB b")
    case True
    have "uval (b_value (lb a)) = uval x \<and> ap_width A (b_value (lb a)) = w"
      "uval (b_value (lb b)) = uval y \<and> ap_width A (b_value (lb b)) = w"
      using constant_uval(1)[OF ok(1) x] constant_uval(1)[OF ok(2) y(1)] True by auto
    then have "V (b_value (lb a)) = V x" "V (b_value (lb b)) = V y"
        and v: "ap_width A (b_value (lb a)) = w" "ap_width A (b_value (lb b)) = w"
      using wd by (simp_all add: ival_def)
    then have "V (machine_rem (b_value (lb a)) (b_value (lb b))) = V (machine_rem x y)"
      using V_rem(2)[OF v w0] rem(2) y(2) by simp
    then have "machine_rem x y \<in> gamma V has_width w (Interval_of (machine_rem (b_value (lb a)) (b_value (lb b))) w)"
      using rem(1) by (simp add: gamma_def Interval_of_def)
    then show ?thesis using True nb z
      by (auto simp: Interval_mod_def Interval_asConstant_def c machine_rem_def number_ops(8))
  next
    case False
    let ?one = "Bound_of_int NB w 1"
    have one: "bound_ok NB has_width w ?one" "bound_val V ?one = Fin 1"
    proof -
      have "(1 :: int) < 2 ^ (w - 1)" "(1 :: int) < 2 ^ w" using w by (simp_all add: one_less_power)
      then show "bound_ok NB has_width w ?one" "bound_val V ?one = Fin 1"
        using w0 by (simp_all add: number_ops ival_def make signed_of_def)
    qed
    define d where "d = util_max (Bound_less NB) (Bound_abs NB (lb b)) [Bound_abs NB (ub b)]"
    define n where "n = util_max (Bound_less NB) (Bound_abs NB (lb a)) [Bound_abs NB (ub a)]"
    define u where "u = util_min (Bound_less NB) n [Bound_sub NB d ?one]"
    have okn: "bound_ok NB has_width w n" "bound_ok NB has_width w d"
      using oka okb unfolding n_def d_def by (auto intro!: bound_min_max_ok bound_abs_ok simp del: util_max.simps)
    have oku: "bound_ok NB has_width w u" "bound_ok NB has_width w (Bound_sub NB d ?one)"
      using okn one unfolding u_def by (auto intro!: bound_min_max_ok bound_arith_ok simp del: util_min.simps)
    have vn: "bound_val V n = max (ext_abs (bound_val V (lb a))) (ext_abs (bound_val V (ub a)))"
      "bound_val V d = max (ext_abs (bound_val V (lb b))) (ext_abs (bound_val V (ub b)))"
      using oka okb f bound_abs_val[OF _ w0] unfolding n_def d_def
      by (subst bound_min_max[of w]; auto intro!: bound_abs_ok)+
    have dge: "Fin \<bar>V y\<bar> \<le> bound_val V d" unfolding vn using m by (intro ext_abs_max) auto
    have vd: "bound_val V (Bound_sub NB d ?one) = ext_dec (bound_val V d)"
    proof (cases "bound_val V d")
      case (Fin p)
      have "1 \<le> p" using dge Fin y(2) by simp
      have "fits sg w p" using Fin V_fits[of "b_value d"] okn(2) w0
        by (cases rule: bound_value_cases[OF okn(2)]) auto
      then have "fits sg w (p - 1)" using \<open>1 \<le> p\<close> w0 by (auto simp: fits_def split: if_splits intro: order_trans[of _ 0])
      then show ?thesis using Fin one(2) by (subst bound_ring(2)[OF okn(2) one(1) w0]) auto
    qed (subst bound_ring(2)[OF okn(2) one(1) w0]; auto)+
    let ?r = "V (machine_rem x y)"
    have mag: "Fin \<bar>?r\<bar> \<le> bound_val V u"
    proof -
      have "\<bar>?r\<bar> \<le> \<bar>V x\<bar>" "\<bar>?r\<bar> \<le> \<bar>V y\<bar> - 1" using rem_magnitude[OF y(2)] rem(2) by auto
      then have "Fin \<bar>?r\<bar> \<le> Fin \<bar>V x\<bar>" "Fin \<bar>?r\<bar> \<le> ext_dec (Fin \<bar>V y\<bar>)" by auto
      moreover have "Fin \<bar>V x\<bar> \<le> bound_val V n" unfolding vn using m by (intro ext_abs_max) auto
      moreover note ext_dec_mono[OF dge]
      ultimately have "Fin \<bar>?r\<bar> \<le> bound_val V n" "Fin \<bar>?r\<bar> \<le> bound_val V (Bound_sub NB d ?one)"
        unfolding vd by (blast intro: order_trans)+
      then show ?thesis using okn oku(2) unfolding u_def by (subst bound_min_max[of w]) auto
    qed
    let ?zero = "Bound_of_int NB w 0"
    have zero: "bound_ok NB has_width w ?zero" "bound_val V ?zero = Fin 0" by (simp_all add: number_ops)
    have less: "Bound_less NB (lb a) ?zero \<longleftrightarrow> bound_val V (lb a) < Fin 0" "Bound_greater NB (ub a) ?zero \<longleftrightarrow> Fin 0 < bound_val V (ub a)"
      using bound_order(4)[OF oka(1) zero(1)] bound_order(5)[OF oka(2) zero(1)] zero(2) by simp_all
    have neg: "bound_val V (Bound_neg NB u) \<le> Fin ?r" if lt: "bound_val V (lb a) < Fin 0"
    proof (cases rule: bound_value_cases[OF oku(1)])
      case 3
      have "sg"
      proof (rule ccontr)
        assume "\<not> sg"
        then have "0 \<le> V (b_value (lb a))" using uval_nonneg by (simp add: ival_def)
        then show False using lt lo \<open>\<not> sg\<close> by (cases rule: bound_value_cases[OF oka(1)]) auto
      qed
      then have "fits sg w (- V (b_value u))"
        using V_fits[of "b_value u"] 3 mag w0 by (auto simp: fits_def)
      then have "V (ap_neg A (b_value u)) = - V (b_value u)" using V_ring(4)[OF 3(3) 3(3) w0] by simp
      then show ?thesis using 3 mag by (simp add: Bound_neg_def number_ops(4))
    qed (use mag in \<open>simp_all add: Bound_neg_def\<close>)
    have "Interval_mod NB a b = Some (if Bound_less NB (lb a) ?zero then
        if Bound_greater NB (ub a) ?zero then Interval_make NB (Bound_neg NB u) u else Interval_make NB (Bound_neg NB u) ?zero
        else Interval_make NB ?zero u)"
      using False nb z unfolding Interval_mod_def Let_def c n_def[symmetric] d_def[symmetric] u_def[symmetric]
      by auto
    moreover have "Fin ?r \<le> bound_val V u" using mag by (auto intro: order_trans[of "Fin ?r" "Fin \<bar>?r\<bar>"])
    moreover obtain k where k: "0 \<le> k" "?r = sgn (V x) * k" using rem(2) y(2)
      by (metis abs_ge_zero pos_mod_sign zero_less_abs_iff)
    moreover have "?r \<le> 0" if "\<not> Fin 0 < bound_val V (ub a)"
    proof -
      have "Fin (V x) \<le> Fin 0" using m that by (meson not_le order_trans)
      then show ?thesis using k by (simp add: sgn_if)
    qed
    moreover have "0 \<le> ?r" if "\<not> bound_val V (lb a) < Fin 0"
    proof -
      have "Fin 0 \<le> Fin (V x)" using m that by (meson not_le order_trans)
      then show ?thesis using k by (simp add: sgn_if)
    qed
    ultimately show ?thesis using rem(1) less neg zero(2) by (auto simp: gamma_def)
  qed
qed

end

section \<open>Properties\<close>

text \<open>The number operation and the exact integer operation an operator stands for.\<close>

definition number_op :: "('c, 'n) number \<Rightarrow> ArithType \<Rightarrow> 'n \<Rightarrow> 'n \<Rightarrow> 'n" where
  "number_op N op = (case op of SUB \<Rightarrow> n_sub N | MUL \<Rightarrow> n_mul N | DIV \<Rightarrow> n_div N | REM \<Rightarrow> n_mod N
     | BAND \<Rightarrow> n_and N | BOR \<Rightarrow> n_or N | XOR \<Rightarrow> n_xor N | SHL \<Rightarrow> n_shl N | ASHR \<Rightarrow> n_shr N | _ \<Rightarrow> n_add N)"

definition exact_op :: "ArithType \<Rightarrow> int \<Rightarrow> int \<Rightarrow> int" where
  "exact_op op = (case op of SUB \<Rightarrow> (-) | MUL \<Rightarrow> (*) | _ \<Rightarrow> (+))"

lemma clone_member: "x \<in> gamma v has c (Interval_clone N i) \<longleftrightarrow> x \<in> gamma v has c i"
  by (simp add: gamma_def)

text \<open>C35: Interval addition, subtraction and multiplication are sound where nothing wraps around:
  if the exact results of the operation on the bounds and on the two numbers fit the width, and for
  multiplication all four bounds are finite (it is unsound with infinite ones, \<open>Interval_apply_loses\<close>), the interval
  computed contains the machine result.\<close>

theorem Interval_ring_sound:
  assumes "apint_laws A u" "0 < w"
    and "iv_ok (BitInt_number A sg) (ival A u sg) (\<lambda>w x. ap_width A x = w) w a"
      "iv_ok (BitInt_number A sg) (ival A u sg) (\<lambda>w x. ap_width A x = w) w b"
    and "x \<in> gamma (ival A u sg) (\<lambda>w x. ap_width A x = w) w a" "y \<in> gamma (ival A u sg) (\<lambda>w x. ap_width A x = w) w b"
    and "op \<in> {ADD, SUB, MUL}"
    and "op = MUL \<Longrightarrow> isFinite (lb a) \<and> isFinite (ub a) \<and> isFinite (lb b) \<and> isFinite (ub b)"
    and "\<And>p q. p \<in> points (ival A u sg) a x \<Longrightarrow> q \<in> points (ival A u sg) b y \<Longrightarrow> fits sg w (exact_op op p q)"
  shows "\<exists>r. Interval_apply (BitInt_number A sg) op a b = Some r \<and>
    number_op (BitInt_number A sg) op x y \<in> gamma (ival A u sg) (\<lambda>w x. ap_width A x = w) w r"
proof -
  have "bitint A u" using assms(1) by (simp add: bitint_def)
  note sound = bitint.add_sub_sound[OF this assms(2-6)] bitint.mul_sound[OF this assms(2-6)]
    and ops = bitint.number_ops[OF \<open>bitint A u\<close>]
  consider "op = ADD" | "op = SUB" | "op = MUL" using assms(7) by blast
  then show ?thesis
    using sound assms(8,9) by cases (simp_all add: Interval_apply_def number_op_def exact_op_def clone_member ops)
qed

theorem Interval_ring_sound_witness:
  "\<exists>r. Interval_apply (BitInt_number bits_apint True) MUL (bits_iv 8 (- 3) 2) (bits_iv 8 5 9) = Some r \<and>
    number_op (BitInt_number bits_apint True) MUL (8, 253) (8, 6)
      \<in> gamma (ival bits_apint bits_uval True) (\<lambda>w x. ap_width bits_apint x = w) 8 r"
proof -
  let ?V = "ival bits_apint bits_uval True" and ?G = "gamma (ival bits_apint bits_uval True) (\<lambda>w x. ap_width bits_apint x = w) 8"
  have m: "(8, 253) \<in> ?G (bits_iv 8 (- 3) 2)" "(8, 6) \<in> ?G (bits_iv 8 5 9)"
    unfolding gamma_def mem_Collect_eq by code_simp+
  have v: "bound_val ?V (lb (bits_iv 8 (- 3) 2)) = Fin (- 3)" "bound_val ?V (ub (bits_iv 8 (- 3) 2)) = Fin 2"
    "bound_val ?V (lb (bits_iv 8 5 9)) = Fin 5" "bound_val ?V (ub (bits_iv 8 5 9)) = Fin 9"
    "?V (8, 253) = - 3" "?V (8, 6) = 6" by code_simp+
  have p: "points ?V (bits_iv 8 (- 3) 2) (8, 253) = {- 3, 2}" "points ?V (bits_iv 8 5 9) (8, 6) = {5, 9, 6}"
    unfolding points_def v by auto
  have f: "isFinite (lb (bits_iv 8 (- 3) 2)) \<and> isFinite (ub (bits_iv 8 (- 3) 2)) \<and> isFinite (lb (bits_iv 8 5 9)) \<and> isFinite (ub (bits_iv 8 5 9))"
    by (simp add: bits_iv_def Interval_interval_def)
  show ?thesis
    by (rule Interval_ring_sound[OF bits.apint_laws_axioms _ bits_iv_ok bits_iv_ok m])
      (use f in \<open>auto simp: p exact_op_def fits_def\<close>)
qed

text \<open>C36: The bitwise operations of intervals of up to 64 bits are sound: the interval computed for
  \<open>&\<close>, \<open>|\<close> and \<open>^\<close> contains the machine result of any two numbers, signed or unsigned.\<close>

theorem Interval_bitwise_sound:
  assumes "apint_laws A u" "0 < w" "w \<le> 64"
    and "iv_ok (BitInt_number A sg) (ival A u sg) (\<lambda>w x. ap_width A x = w) w a"
      "iv_ok (BitInt_number A sg) (ival A u sg) (\<lambda>w x. ap_width A x = w) w b"
    and "x \<in> gamma (ival A u sg) (\<lambda>w x. ap_width A x = w) w a" "y \<in> gamma (ival A u sg) (\<lambda>w x. ap_width A x = w) w b"
    and "op \<in> {BAND, BOR, XOR}"
  shows "\<exists>r. Interval_apply (BitInt_number A sg) op a b = Some r \<and>
    number_op (BitInt_number A sg) op x y \<in> gamma (ival A u sg) (\<lambda>w x. ap_width A x = w) w r"
proof -
  have b: "bitint A u" using assms(1) by (simp add: bitint_def)
  note sound = bitint.and_sound[OF b assms(2-7)] bitint.or_xor_sound[OF b assms(2-7)] and ops = bitint.number_ops[OF b]
  consider "op = BAND" | "op = BOR" | "op = XOR" using assms(8) by blast
  then show ?thesis
    using sound by cases (auto simp: Interval_apply_def number_op_def clone_member ops)
qed

theorem Interval_bitwise_sound_witness:
  "\<exists>r. Interval_apply (BitInt_number bits_apint True) BAND (bits_iv 8 5 9) (bits_iv 8 (- 3) 2) = Some r \<and>
    number_op (BitInt_number bits_apint True) BAND (8, 6) (8, 253)
      \<in> gamma (ival bits_apint bits_uval True) (\<lambda>w x. ap_width bits_apint x = w) 8 r"
proof -
  have m: "(8, 253) \<in> gamma (ival bits_apint bits_uval True) (\<lambda>w x. ap_width bits_apint x = w) 8 (bits_iv 8 (- 3) 2)"
    "(8, 6) \<in> gamma (ival bits_apint bits_uval True) (\<lambda>w x. ap_width bits_apint x = w) 8 (bits_iv 8 5 9)"
    unfolding gamma_def mem_Collect_eq by code_simp+
  show ?thesis
    by (rule Interval_bitwise_sound[OF bits.apint_laws_axioms _ _ bits_iv_ok bits_iv_ok m(2,1)]) simp_all
qed

text \<open>The remainder of intervals is sound for any divisor but zero, if no finite bound is the
  least signed number and the dividend of an unsigned remainder is bounded below.\<close>

theorem Interval_rem_sound:
  assumes "apint_laws A u" "1 < w"
    and "iv_ok (BitInt_number A sg) (ival A u sg) (\<lambda>w x. ap_width A x = w) w a"
      "iv_ok (BitInt_number A sg) (ival A u sg) (\<lambda>w x. ap_width A x = w) w b"
    and "x \<in> gamma (ival A u sg) (\<lambda>w x. ap_width A x = w) w a" "y \<in> gamma (ival A u sg) (\<lambda>w x. ap_width A x = w) w b"
    and "ival A u sg y \<noteq> 0"
    and "\<And>p. sg \<Longrightarrow> Fin p \<in> {bound_val (ival A u sg) (lb a), bound_val (ival A u sg) (ub a),
            bound_val (ival A u sg) (lb b), bound_val (ival A u sg) (ub b)} \<Longrightarrow> p \<noteq> - (2 ^ (w - 1))"
    and "\<not> sg \<Longrightarrow> isFinite (lb a)"
  shows "\<exists>r. Interval_apply (BitInt_number A sg) REM a b = Some r \<and>
    number_op (BitInt_number A sg) REM x y \<in> gamma (ival A u sg) (\<lambda>w x. ap_width A x = w) w r"
proof -
  have b: "bitint A u" using assms(1) by (simp add: bitint_def)
  note order = bitint.axioms(1)[OF b]
  have w0: "0 < w" using assms(2) by simp
  have ok: "bound_ok (BitInt_number A sg) (\<lambda>w x. ap_width A x = w) w i" if "i \<in> {lb a, ub a, lb b, ub b}" for i
    using that assms(3,4) by (auto simp: iv_ok_def)
  have fits: "fits sg w p" if "Fin p \<in> bound_val (ival A u sg) ` {lb a, ub a, lb b, ub b}" for p
  proof -
    obtain i where i: "i \<in> {lb a, ub a, lb b, ub b}" "bound_val (ival A u sg) i = Fin p" using \<open>Fin p \<in> _\<close> by (metis imageE)
    then have "ap_width A (b_value i) = w" "ival A u sg (b_value i) = p"
      using ok[OF i(1)] by (auto simp: bound_ok_def bound_val_def split: if_splits)
    then show ?thesis using bitint.V_fits[OF b, of "b_value i" sg] w0 by simp
  qed
  have neg: "fits sg w (- p)" if "sg" "Fin p \<in> {bound_val (ival A u sg) (lb a), bound_val (ival A u sg) (ub a),
            bound_val (ival A u sg) (lb b), bound_val (ival A u sg) (ub b)}" for p
    using assms(8)[OF that] fits[of p] that by (auto simp: fits_def)
  have lo: "bound_val (ival A u sg) (lb a) \<noteq> NInf" if "\<not> sg"
    using assms(9)[OF that] by (auto simp: isFinite_def isInfinite_def bound_val_def)
  show ?thesis
    using bitint.mod_sound[OF b assms(2-7) neg lo]
    by (auto simp: Interval_apply_def number_op_def clone_member BitInt_number_def)
qed

theorem Interval_rem_sound_witness:
  "\<exists>r. Interval_apply (BitInt_number bits_apint True) REM (bits_iv 8 (- 3) 2) (bits_iv 8 5 9) = Some r \<and>
    number_op (BitInt_number bits_apint True) REM (8, 253) (8, 6)
      \<in> gamma (ival bits_apint bits_uval True) (\<lambda>w x. ap_width bits_apint x = w) 8 r"
proof -
  let ?V = "ival bits_apint bits_uval True" and ?G = "gamma (ival bits_apint bits_uval True) (\<lambda>w x. ap_width bits_apint x = w) 8"
  have m: "(8, 253) \<in> ?G (bits_iv 8 (- 3) 2)" "(8, 6) \<in> ?G (bits_iv 8 5 9)"
    unfolding gamma_def mem_Collect_eq by code_simp+
  have v: "bound_val ?V (lb (bits_iv 8 (- 3) 2)) = Fin (- 3)" "bound_val ?V (ub (bits_iv 8 (- 3) 2)) = Fin 2"
    "bound_val ?V (lb (bits_iv 8 5 9)) = Fin 5" "bound_val ?V (ub (bits_iv 8 5 9)) = Fin 9" "?V (8, 6) = 6" by code_simp+
  show ?thesis
    by (rule Interval_rem_sound[OF bits.apint_laws_axioms _ bits_iv_ok bits_iv_ok m]) (auto simp: v)
qed

text \<open>An operator loses the machine result \<open>m\<close> of two numbers of its arguments.\<close>

definition loses ::
  "(nat, nat \<times> int) number \<Rightarrow> bool \<Rightarrow> ArithType \<Rightarrow> (nat \<times> int \<Rightarrow> nat \<times> int \<Rightarrow> nat \<times> int) \<Rightarrow>
    (nat, nat \<times> int) Interval \<Rightarrow> (nat, nat \<times> int) Interval \<Rightarrow> nat \<times> int \<Rightarrow> nat \<times> int \<Rightarrow> bool" where
  "loses N sg op m a b x y \<longleftrightarrow>
     x \<in> gamma (ival bits_apint bits_uval sg) (\<lambda>w x. ap_width bits_apint x = w) 8 a \<and>
     y \<in> gamma (ival bits_apint bits_uval sg) (\<lambda>w x. ap_width bits_apint x = w) 8 b \<and>
     (case Interval_apply N op a b of None \<Rightarrow> False
      | Some r \<Rightarrow> m x y \<notin> gamma (ival bits_apint bits_uval sg) (\<lambda>w x. ap_width bits_apint x = w) 8 r)"

text \<open>Otherwise the arithmetic loses results, on eight bits: \<open>[-oo, 3] * [-5, -5]\<close> misses
  \<open>-10 * -5\<close>, because a product with an infinity ignores the sign of the other factor;
  \<open>[100, 101] + [27, 28]\<close> is empty, because the upper bound wraps around; \<open>[-128, 3] % [10, 10]\<close>
  misses \<open>-128 % 10\<close>, because \<open>-128\<close> is its own absolute value; \<open>1 << [0, 7]\<close> is empty; the logical
  shift right is an arithmetic one; and the remainder of an unknown unsigned number is empty.\<close>

theorem Interval_apply_loses:
  "loses (BitInt_number bits_apint True) True MUL (ap_mul bits_apint)
     (Interval_interval (BitInt_number bits_apint True) (minusInfinity (BitInt_number bits_apint True) 8) (Bound_of 8 (8, 3)))
     (bits_iv 8 (- 5) (- 5)) (8, 246) (8, 251) \<and>
   loses (BitInt_number bits_apint True) True ADD (ap_add bits_apint) (bits_iv 8 100 101) (bits_iv 8 27 28) (8, 100) (8, 27) \<and>
   loses (BitInt_number bits_apint True) True REM (ap_srem bits_apint) (bits_iv 8 (- 128) 3) (bits_iv 8 10 10) (8, 128) (8, 10) \<and>
   loses (BitInt_number bits_apint True) True SHL (ap_shl bits_apint) (bits_iv 8 1 1) (bits_iv 8 0 7) (8, 1) (8, 2) \<and>
   loses (BitInt_number bits_apint True) True LSHR (ap_lshr bits_apint) (bits_iv 8 (- 8) (- 8)) (bits_iv 8 1 1) (8, 248) (8, 1) \<and>
   loses (BitInt_number bits_apint False) False REM (ap_urem bits_apint) (Interval_top (BitInt_number bits_apint False) 8)
     (Interval_constant (BitInt_number bits_apint False) (8, 3) 8) (8, 5) (8, 3)"
  unfolding loses_def gamma_def mem_Collect_eq by (intro conjI) code_simp+

end
