(* ===== verification/DoubleIntervals.thy ===== *)
theory DoubleIntervals
  imports IntervalSound
begin

text \<open>
  The integer domain of the abstract interpreter (src/Interpreter/Domain/Numerical/DoubleInterval.hpp):
  a pair of an interval of signed numbers and one of unsigned numbers, both top or both bottom where
  one is.  Pairs are interned by equality, as intervals are.
\<close>

record ('c, 'n) DoubleInterval =
  di_first :: "('c, 'n) Interval"
  di_second :: "('c, 'n) Interval"

text \<open>The two number types of the pair are \<open>N1\<close> and \<open>N2\<close>.\<close>

definition DI_normalize ::
  "('c, 'n) number \<Rightarrow> ('c, 'n) number \<Rightarrow> ('c, 'n) DoubleInterval \<Rightarrow> ('c, 'n) DoubleInterval" where
  "DI_normalize N1 N2 d =
     (if isTop (di_first d) \<or> isTop (di_second d) then
        \<lparr>di_first = Interval_top N1 (Interval_caster (di_first d)),
         di_second = Interval_top N2 (Interval_caster (di_second d))\<rparr>
      else if isBottom (di_first d) \<or> isBottom (di_second d) then
        \<lparr>di_first = Interval_bottom N1 (Interval_caster (di_first d)),
         di_second = Interval_bottom N2 (Interval_caster (di_second d))\<rparr>
      else d)"

definition DI_interval ::
  "('c, 'n) number \<Rightarrow> ('c, 'n) number \<Rightarrow> ('c, 'n) Interval \<Rightarrow> ('c, 'n) Interval \<Rightarrow> ('c, 'n) DoubleInterval" where
  "DI_interval N1 N2 f s = DI_normalize N1 N2 \<lparr>di_first = f, di_second = s\<rparr>"

definition DI_top :: "('c, 'n) number \<Rightarrow> ('c, 'n) number \<Rightarrow> 'c \<Rightarrow> 'c \<Rightarrow> ('c, 'n) DoubleInterval" where
  "DI_top N1 N2 c1 c2 = DI_interval N1 N2 (Interval_top N1 c1) (Interval_top N2 c2)"

definition DI_bottom :: "('c, 'n) number \<Rightarrow> ('c, 'n) number \<Rightarrow> 'c \<Rightarrow> 'c \<Rightarrow> ('c, 'n) DoubleInterval" where
  "DI_bottom N1 N2 c1 c2 = DI_interval N1 N2 (Interval_bottom N1 c1) (Interval_bottom N2 c2)"

definition DI_constant ::
  "('c, 'n) number \<Rightarrow> ('c, 'n) number \<Rightarrow> 'n \<Rightarrow> 'n \<Rightarrow> 'c \<Rightarrow> 'c \<Rightarrow> ('c, 'n) DoubleInterval" where
  "DI_constant N1 N2 n1 n2 c1 c2 = DI_interval N1 N2 (Interval_constant N1 n1 c1) (Interval_constant N2 n2 c2)"

definition DI_isTop :: "('c, 'n) DoubleInterval \<Rightarrow> bool" where
  "DI_isTop d = (isTop (di_first d) \<and> isTop (di_second d))"

definition DI_isBottom :: "('c, 'n) DoubleInterval \<Rightarrow> bool" where
  "DI_isBottom d = (isBottom (di_first d) \<and> isBottom (di_second d))"

definition DI_isConstant :: "('c, 'n) number \<Rightarrow> ('c, 'n) number \<Rightarrow> ('c, 'n) DoubleInterval \<Rightarrow> bool" where
  "DI_isConstant N1 N2 d = (Interval_isConstant N1 (di_first d) \<and> Interval_isConstant N2 (di_second d))"

definition DI_intersects ::
  "('c, 'n) number \<Rightarrow> ('c, 'n) number \<Rightarrow> ('c, 'n) DoubleInterval \<Rightarrow> ('c, 'n) DoubleInterval \<Rightarrow> bool" where
  "DI_intersects N1 N2 this other =
     (Interval_intersects N1 (di_first this) (di_first other) \<or> Interval_intersects N2 (di_second this) (di_second other))"

definition DI_leq ::
  "('c, 'n) number \<Rightarrow> ('c, 'n) number \<Rightarrow> ('c, 'n) DoubleInterval \<Rightarrow> ('c, 'n) DoubleInterval \<Rightarrow> bool" where
  "DI_leq N1 N2 this other =
     (if DI_isBottom this then True else if DI_isBottom other then False
      else Interval_leq N1 (di_first this) (di_first other) \<and> Interval_leq N2 (di_second this) (di_second other))"

definition DI_equals ::
  "('c, 'n) number \<Rightarrow> ('c, 'n) number \<Rightarrow> ('c, 'n) DoubleInterval \<Rightarrow> ('c, 'n) DoubleInterval \<Rightarrow> bool" where
  "DI_equals N1 N2 this other =
     (if this = other then True else if DI_isBottom this then DI_isBottom other else if DI_isBottom other then False
      else Interval_equals N1 (di_first this) (di_first other) \<and> Interval_equals N2 (di_second this) (di_second other))"

definition DI_join ::
  "('c, 'n) number \<Rightarrow> ('c, 'n) number \<Rightarrow> ('c, 'n) DoubleInterval \<Rightarrow> ('c, 'n) DoubleInterval \<Rightarrow> ('c, 'n) DoubleInterval" where
  "DI_join N1 N2 this other =
     (if DI_isBottom this then other else if DI_isBottom other then this
      else DI_interval N1 N2 (Interval_join N1 (di_first this) (di_first other))
             (Interval_join N2 (di_second this) (di_second other)))"

definition DI_meet ::
  "('c, 'n) number \<Rightarrow> ('c, 'n) number \<Rightarrow> ('c, 'n) DoubleInterval \<Rightarrow> ('c, 'n) DoubleInterval \<Rightarrow> ('c, 'n) DoubleInterval" where
  "DI_meet N1 N2 this other =
     (if DI_isBottom this \<or> DI_isBottom other then
        DI_bottom N1 N2 (Interval_caster (di_first this)) (Interval_caster (di_second this))
      else DI_interval N1 N2 (Interval_meet N1 (di_first this) (di_first other))
             (Interval_meet N2 (di_second this) (di_second other)))"

definition DI_widen ::
  "('c, 'n) number \<Rightarrow> ('c, 'n) number \<Rightarrow> ('c, 'n) DoubleInterval \<Rightarrow> ('c, 'n) DoubleInterval \<Rightarrow> ('c, 'n) DoubleInterval" where
  "DI_widen N1 N2 this other =
     (if DI_isBottom this then other else if DI_isBottom other then this
      else DI_interval N1 N2 (Interval_widen N1 (di_first this) (di_first other))
             (Interval_widen N2 (di_second this) (di_second other)))"

definition DI_apply ::
  "('c, 'n) number \<Rightarrow> ('c, 'n) number \<Rightarrow> ArithType \<Rightarrow> ('c, 'n) DoubleInterval \<Rightarrow> ('c, 'n) DoubleInterval \<Rightarrow> ('c, 'n) DoubleInterval option" where
  "DI_apply N1 N2 opcode this other =
     Interval_apply N1 opcode (di_first this) (di_first other) \<bind> (\<lambda>f.
     Interval_apply N2 opcode (di_second this) (di_second other) \<bind> (\<lambda>s.
     Some (DI_interval N1 N2 f s)))"

definition DI_apply_cond ::
  "'b apint \<Rightarrow> ('c, 'n) number \<Rightarrow> ('c, 'n) number \<Rightarrow> ConditionType \<Rightarrow> ('c, 'n) DoubleInterval \<Rightarrow>
    ('c, 'n) DoubleInterval \<Rightarrow> (nat, 'b) Interval option" where
  "DI_apply_cond A N1 N2 opcode this other =
     Interval_apply_cond A N1 opcode (di_first this) (di_first other) \<bind> (\<lambda>f.
     Interval_apply_cond A N2 opcode (di_second this) (di_second other) \<bind> (\<lambda>s.
     Some (Interval_join (BitInt_number A False) f s)))"

definition DI_splitByEq ::
  "('c, 'n) number \<Rightarrow> ('c, 'n) number \<Rightarrow> ('c, 'n) DoubleInterval \<Rightarrow> ('c, 'n) DoubleInterval \<Rightarrow> ('c, 'n) DoubleInterval Split" where
  "DI_splitByEq N1 N2 this other =
     (if DI_isBottom this \<or> DI_isBottom other then \<lparr>split_true = this, split_false = this\<rparr>
      else let fsplit = Interval_splitByEq N1 (di_first this) (di_first other);
               ssplit = Interval_splitByEq N2 (di_second this) (di_second other)
           in \<lparr>split_true = DI_interval N1 N2 (split_true fsplit) (split_true ssplit),
               split_false = DI_interval N1 N2 (split_false fsplit) (split_false ssplit)\<rparr>)"

definition DI_splitByLess ::
  "('c, 'n) number \<Rightarrow> ('c, 'n) number \<Rightarrow> ('c, 'n) DoubleInterval \<Rightarrow> ('c, 'n) DoubleInterval \<Rightarrow> ('c, 'n) DoubleInterval Split" where
  "DI_splitByLess N1 N2 this other =
     (if DI_isBottom this \<or> DI_isBottom other then \<lparr>split_true = this, split_false = this\<rparr>
      else let fsplit = Interval_splitByLess N1 (di_first this) (di_first other);
               ssplit = Interval_splitByLess N2 (di_second this) (di_second other)
           in \<lparr>split_true = DI_interval N1 N2 (split_true fsplit) (split_true ssplit),
               split_false = DI_interval N1 N2 (split_false fsplit) (split_false ssplit)\<rparr>)"

section \<open>Soundness\<close>

text \<open>The numbers of a pair are those of its signed part that are numbers of its unsigned part.\<close>

abbreviation SN :: "'b apint \<Rightarrow> (nat, 'b) number" where
  "SN A \<equiv> BitInt_number A True"

abbreviation UI :: "'b apint \<Rightarrow> (nat, 'b) number" where
  "UI A \<equiv> BitInt_number A False"

definition DI_gamma :: "'b apint \<Rightarrow> ('b \<Rightarrow> int) \<Rightarrow> nat \<Rightarrow> (nat, 'b) DoubleInterval \<Rightarrow> 'b set" where
  "DI_gamma A u w d = gamma (ival A u True) (\<lambda>w x. ap_width A x = w) w (di_first d) \<inter>
     gamma (ival A u False) (\<lambda>w x. ap_width A x = w) w (di_second d)"

definition DI_ok :: "'b apint \<Rightarrow> ('b \<Rightarrow> int) \<Rightarrow> nat \<Rightarrow> (nat, 'b) DoubleInterval \<Rightarrow> bool" where
  "DI_ok A u w d \<longleftrightarrow> iv_ok (SN A) (ival A u True) (\<lambda>w x. ap_width A x = w) w (di_first d) \<and>
     iv_ok (UI A) (ival A u False) (\<lambda>w x. ap_width A x = w) w (di_second d)"

context apint_laws
begin

lemmas signed_order = BitInt_order[of True] and unsigned_order = BitInt_order[of False]

lemma DI_interval_gamma:
  assumes "iv_ok (SN A) (ival A uval True) (\<lambda>w x. ap_width A x = w) w f"
    and "iv_ok (UI A) (ival A uval False) (\<lambda>w x. ap_width A x = w) w s"
    and "x \<in> gamma (ival A uval True) (\<lambda>w x. ap_width A x = w) w f"
    and "x \<in> gamma (ival A uval False) (\<lambda>w x. ap_width A x = w) w s"
  shows "x \<in> DI_gamma A uval w (DI_interval (SN A) (UI A) f s)"
proof -
  have "\<not> isBottom f" "\<not> isBottom s"
    using assms number_order.gamma_bottom[OF signed_order] number_order.gamma_bottom[OF unsigned_order] by blast+
  moreover have "ap_width A x = w" using assms(3) by (simp add: gamma_def)
  ultimately show ?thesis using assms
    by (simp add: DI_interval_def DI_normalize_def DI_gamma_def)
      (simp add: gamma_def Interval_top_def number_order.iv_bounds(3)[OF signed_order assms(1)]
        number_order.iv_bounds(3)[OF unsigned_order assms(2)])
qed

lemma DI_interval_ok:
  assumes "iv_ok (SN A) (ival A uval True) (\<lambda>w x. ap_width A x = w) w f"
    and "iv_ok (UI A) (ival A uval False) (\<lambda>w x. ap_width A x = w) w s"
  shows "DI_ok A uval w (DI_interval (SN A) (UI A) f s)"
  using assms number_order.constants_ok(4,5)[OF signed_order, of w] number_order.constants_ok(4,5)[OF unsigned_order, of w]
  by (simp add: DI_ok_def DI_interval_def DI_normalize_def number_order.iv_bounds(3)[OF signed_order assms(1)]
      number_order.iv_bounds(3)[OF unsigned_order assms(2)])

lemma DI_bottom_gamma: "DI_ok A uval w d \<Longrightarrow> DI_isBottom d \<Longrightarrow> DI_gamma A uval w d = {}"
  using number_order.gamma_bottom[OF signed_order] by (auto simp: DI_ok_def DI_isBottom_def DI_gamma_def)

lemma pos: "0 < w \<Longrightarrow> ival A uval False (n_of_int (UI A) w 0) < ival A uval False (n_of_int (UI A) w 1)"
    "1 < w \<Longrightarrow> ival A uval True (n_of_int (SN A) w 0) < ival A uval True (n_of_int (SN A) w 1)"
proof -
  show "0 < w \<Longrightarrow> ival A uval False (n_of_int (UI A) w 0) < ival A uval False (n_of_int (UI A) w 1)"
    by (simp add: BitInt_number_def Adapter_of_int_def ival_def make one_less_power)
  assume "1 < w"
  then have "(1 :: int) < 2 ^ w" "(1 :: int) < 2 ^ (w - 1)" by (simp_all add: one_less_power)
  then show "ival A uval True (n_of_int (SN A) w 0) < ival A uval True (n_of_int (SN A) w 1)"
    using \<open>1 < w\<close> by (simp add: BitInt_number_def Adapter_of_int_def ival_def make signed_of_def)
qed

lemma DI_lattice_sound:
  assumes "1 < w" "DI_ok A uval w a" "DI_ok A uval w b"
  shows "DI_gamma A uval w a \<union> DI_gamma A uval w b \<subseteq> DI_gamma A uval w (DI_join (SN A) (UI A) a b)"
    "DI_gamma A uval w a \<union> DI_gamma A uval w b \<subseteq> DI_gamma A uval w (DI_widen (SN A) (UI A) a b)"
    "DI_gamma A uval w a \<inter> DI_gamma A uval w b \<subseteq> DI_gamma A uval w (DI_meet (SN A) (UI A) a b)"
proof -
  note ok = assms(2,3)[unfolded DI_ok_def]
  have w: "0 < w" using assms(1) by simp
  note S = number_order.gamma_lattice[OF signed_order conjunct1[OF ok(1)] conjunct1[OF ok(2)]]
    and U = number_order.gamma_lattice[OF unsigned_order conjunct2[OF ok(1)] conjunct2[OF ok(2)]]
    and okS = number_order.lattice_ok[OF signed_order conjunct1[OF ok(1)] conjunct1[OF ok(2)]]
    and okU = number_order.lattice_ok[OF unsigned_order conjunct2[OF ok(1)] conjunct2[OF ok(2)]]
    and bot = DI_bottom_gamma[OF assms(2)] DI_bottom_gamma[OF assms(3)]
  note wS = number_order.widen_upper[OF signed_order conjunct1[OF ok(1)] conjunct1[OF ok(2)]]
    and wU = number_order.widen_upper[OF unsigned_order conjunct2[OF ok(1)] conjunct2[OF ok(2)]]
  have m: "x \<in> DI_gamma A uval w d \<longleftrightarrow> x \<in> gamma (ival A uval True) (\<lambda>w x. ap_width A x = w) w (di_first d) \<and>
      x \<in> gamma (ival A uval False) (\<lambda>w x. ap_width A x = w) w (di_second d)" for x d by (simp add: DI_gamma_def)
  show "DI_gamma A uval w a \<union> DI_gamma A uval w b \<subseteq> DI_gamma A uval w (DI_join (SN A) (UI A) a b)"
  proof
    fix x assume x: "x \<in> DI_gamma A uval w a \<union> DI_gamma A uval w b"
    then have "x \<in> DI_gamma A uval w (DI_interval (SN A) (UI A) (Interval_join (SN A) (di_first a) (di_first b))
        (Interval_join (UI A) (di_second a) (di_second b)))"
      using S(1) U(1) by (intro DI_interval_gamma okS okU) (auto simp: m)
    then show "x \<in> DI_gamma A uval w (DI_join (SN A) (UI A) a b)"
      using x bot by (auto simp: DI_join_def)
  qed
  show "DI_gamma A uval w a \<union> DI_gamma A uval w b \<subseteq> DI_gamma A uval w (DI_widen (SN A) (UI A) a b)"
  proof
    fix x assume x: "x \<in> DI_gamma A uval w a \<union> DI_gamma A uval w b"
    have "gamma (ival A uval True) (\<lambda>w x. ap_width A x = w) w i \<subseteq>
        gamma (ival A uval True) (\<lambda>w x. ap_width A x = w) w (Interval_widen (SN A) (di_first a) (di_first b))"
      if "i \<in> {di_first a, di_first b}" for i
      using that number_order.gamma_mono[OF signed_order _ okS(3)] wS ok by blast
    moreover have "gamma (ival A uval False) (\<lambda>w x. ap_width A x = w) w i \<subseteq>
        gamma (ival A uval False) (\<lambda>w x. ap_width A x = w) w (Interval_widen (UI A) (di_second a) (di_second b))"
      if "i \<in> {di_second a, di_second b}" for i
      using that number_order.gamma_mono[OF unsigned_order _ okU(3)] wU ok by blast
    ultimately have "x \<in> DI_gamma A uval w (DI_interval (SN A) (UI A) (Interval_widen (SN A) (di_first a) (di_first b))
        (Interval_widen (UI A) (di_second a) (di_second b)))"
      using x by (intro DI_interval_gamma okS okU) (auto simp: m)
    then show "x \<in> DI_gamma A uval w (DI_widen (SN A) (UI A) a b)"
      using x bot by (auto simp: DI_widen_def)
  qed
  show "DI_gamma A uval w a \<inter> DI_gamma A uval w b \<subseteq> DI_gamma A uval w (DI_meet (SN A) (UI A) a b)"
  proof
    fix x assume x: "x \<in> DI_gamma A uval w a \<inter> DI_gamma A uval w b"
    then have "x \<in> DI_gamma A uval w (DI_interval (SN A) (UI A) (Interval_meet (SN A) (di_first a) (di_first b))
        (Interval_meet (UI A) (di_second a) (di_second b)))"
      using S(2) U(2) pos w assms(1) by (intro DI_interval_gamma okS okU) (auto simp: m)
    then show "x \<in> DI_gamma A uval w (DI_meet (SN A) (UI A) a b)"
      using x bot by (auto simp: DI_meet_def)
  qed
qed

text \<open>Splitting keeps a number that is on its side in both orders.\<close>

lemma DI_split_sound:
  assumes "DI_ok A uval w a" "DI_ok A uval w b" "x \<in> DI_gamma A uval w a" "y \<in> DI_gamma A uval w b"
  defines "v \<equiv> \<lambda>sg. ival A uval sg"
  shows "(\<And>sg. v sg x = v sg y) \<Longrightarrow> x \<in> DI_gamma A uval w (split_true (DI_splitByEq (SN A) (UI A) a b))"
    "(\<And>sg. v sg x \<noteq> v sg y) \<Longrightarrow> x \<in> DI_gamma A uval w (split_false (DI_splitByEq (SN A) (UI A) a b))"
    "(\<And>sg. v sg x \<le> v sg y) \<Longrightarrow> x \<in> DI_gamma A uval w (split_true (DI_splitByLess (SN A) (UI A) a b))"
    "(\<And>sg. \<not> v sg x < v sg y) \<Longrightarrow> x \<in> DI_gamma A uval w (split_false (DI_splitByLess (SN A) (UI A) a b))"
proof -
  note ok = assms(1,2)[unfolded DI_ok_def] and mem = assms(3,4)[unfolded DI_gamma_def Int_iff]
  have nb: "\<not> DI_isBottom a" "\<not> DI_isBottom b" using assms(1-4) DI_bottom_gamma by blast+
  note S = number_order.split_sound[OF signed_order conjunct1[OF ok(1)] conjunct1[OF ok(2)] conjunct1[OF mem(1)] conjunct1[OF mem(2)]]
    and U = number_order.split_sound[OF unsigned_order conjunct2[OF ok(1)] conjunct2[OF ok(2)] conjunct2[OF mem(1)] conjunct2[OF mem(2)]]
    and okS = number_order.split_ok[OF signed_order conjunct1[OF ok(1)] conjunct1[OF ok(2)]]
    and okU = number_order.split_ok[OF unsigned_order conjunct2[OF ok(1)] conjunct2[OF ok(2)]]
  show "(\<And>sg. v sg x = v sg y) \<Longrightarrow> x \<in> DI_gamma A uval w (split_true (DI_splitByEq (SN A) (UI A) a b))"
    using S(1) U(1) okS(1) okU(1) nb by (simp add: DI_splitByEq_def Let_def v_def DI_interval_gamma)
  show "(\<And>sg. v sg x \<noteq> v sg y) \<Longrightarrow> x \<in> DI_gamma A uval w (split_false (DI_splitByEq (SN A) (UI A) a b))"
    using S(2) U(2) okS(2) okU(2) nb by (simp add: DI_splitByEq_def Let_def v_def DI_interval_gamma)
  show "(\<And>sg. v sg x \<le> v sg y) \<Longrightarrow> x \<in> DI_gamma A uval w (split_true (DI_splitByLess (SN A) (UI A) a b))"
    using S(3) U(3) okS(3) okU(3) nb by (simp add: DI_splitByLess_def Let_def v_def DI_interval_gamma)
  show "(\<And>sg. \<not> v sg x < v sg y) \<Longrightarrow> x \<in> DI_gamma A uval w (split_false (DI_splitByLess (SN A) (UI A) a b))"
    using S(4) U(4) okS(4) okU(4) nb by (simp add: DI_splitByLess_def Let_def v_def DI_interval_gamma)
qed

lemma DI_split_ok:
  assumes "DI_ok A uval w a" "DI_ok A uval w b"
  shows "DI_ok A uval w (split_true (DI_splitByEq (SN A) (UI A) a b))" "DI_ok A uval w (split_false (DI_splitByEq (SN A) (UI A) a b))"
    "DI_ok A uval w (split_true (DI_splitByLess (SN A) (UI A) a b))" "DI_ok A uval w (split_false (DI_splitByLess (SN A) (UI A) a b))"
proof -
  note ok = assms[unfolded DI_ok_def]
  note okS = number_order.split_ok[OF signed_order conjunct1[OF ok(1)] conjunct1[OF ok(2)]]
    and okU = number_order.split_ok[OF unsigned_order conjunct2[OF ok(1)] conjunct2[OF ok(2)]]
  show "DI_ok A uval w (split_true (DI_splitByEq (SN A) (UI A) a b))" "DI_ok A uval w (split_false (DI_splitByEq (SN A) (UI A) a b))"
    "DI_ok A uval w (split_true (DI_splitByLess (SN A) (UI A) a b))" "DI_ok A uval w (split_false (DI_splitByLess (SN A) (UI A) a b))"
    using assms okS okU by (simp_all add: DI_splitByEq_def DI_splitByLess_def Let_def DI_interval_ok)
qed

lemma DI_cond_sound:
  assumes "DI_ok A uval w a" "DI_ok A uval w b" "x \<in> DI_gamma A uval w a" "y \<in> DI_gamma A uval w b"
    and "cond_val op (ival A uval True x) (ival A uval True y) = Some v \<or> cond_val op (ival A uval False x) (ival A uval False y) = Some v"
  shows "\<exists>r. DI_apply_cond A (SN A) (UI A) op a b = Some r \<and>
    ap_make A 1 (if v then 1 else 0) \<in> gamma uval (\<lambda>w x. ap_width A x = w) 1 r"
proof -
  let ?G = "gamma uval (\<lambda>w x. ap_width A x = w) 1"
  have uv: "ival A uval False = uval" by (auto simp: ival_def)
  have c: "\<exists>v. cond_val op p q = Some v" if "\<exists>v p q. cond_val op (p :: int) q = Some v" for p q :: int
    using that by (cases op) (auto simp: cond_val_def)
  note ok = assms(1,2)[unfolded DI_ok_def] and mem = assms(3,4)[unfolded DI_gamma_def Int_iff]
  obtain v1 where v1: "cond_val op (ival A uval True x) (ival A uval True y) = Some v1" using c assms(5) by blast
  obtain v2 where v2: "cond_val op (ival A uval False x) (ival A uval False y) = Some v2" using c assms(5) by blast
  obtain r1 where r1: "Interval_apply_cond A (SN A) op (di_first a) (di_first b) = Some r1" "ap_make A 1 (if v1 then 1 else 0) \<in> ?G r1"
    using number_order.apply_cond_sound[OF signed_order apint_laws_axioms _ _ _ _ v1] ok mem by blast
  obtain r2 where r2: "Interval_apply_cond A (UI A) op (di_second a) (di_second b) = Some r2" "ap_make A 1 (if v2 then 1 else 0) \<in> ?G r2"
    using number_order.apply_cond_sound[OF unsigned_order apint_laws_axioms _ _ _ _ v2] ok mem by blast
  have "iv_ok (UI A) (ival A uval False) (\<lambda>w x. ap_width A x = w) 1 r" if "Interval_apply_cond A N op' i j = Some r" for N op' i j r
  proof -
    have "r = getBool_TOP A \<or> (\<exists>t. r = AF_getBool A t)"
      using that by (auto simp: Interval_apply_cond_def Interval_asConstant_def split: if_splits ConditionType.splits)
    then show ?thesis
      by (auto simp: getBool_TOP_def AF_getBool_def make intro!: number_order.constants_ok[OF unsigned_order])
  qed
  then have "?G r1 \<union> ?G r2 \<subseteq> ?G (Interval_join (UI A) r1 r2)"
    using number_order.gamma_lattice(1)[OF unsigned_order, of 1 r1 r2] r1(1) r2(1) unfolding uv by blast
  then show ?thesis using r1 r2 v1 v2 assms(5) by (auto simp: DI_apply_cond_def)
qed

end

section \<open>Properties\<close>

definition bits_DI :: "int \<Rightarrow> int \<Rightarrow> int \<Rightarrow> int \<Rightarrow> (nat, nat \<times> int) DoubleInterval" where
  "bits_DI sl su ul uu = DI_interval (SN bits_apint) (UI bits_apint)
     (Interval_interval (SN bits_apint) (Bound_of 8 (8, sl mod 256)) (Bound_of 8 (8, su mod 256)))
     (Interval_interval (UI bits_apint) (Bound_of 8 (8, ul)) (Bound_of 8 (8, uu)))"

text \<open>The integer domain is sound: \<open>join\<close> and \<open>widen\<close> contain the numbers of both pairs, \<open>meet\<close>
  the common ones, and the interval of booleans a comparison answers contains the truth value of the
  signed and of the unsigned comparison of any two numbers.\<close>

theorem DI_sound:
  assumes "apint_laws A u" "1 < w" "DI_ok A u w a" "DI_ok A u w b"
  shows "DI_gamma A u w a \<union> DI_gamma A u w b \<subseteq> DI_gamma A u w (DI_join (SN A) (UI A) a b) \<and>
    DI_gamma A u w a \<union> DI_gamma A u w b \<subseteq> DI_gamma A u w (DI_widen (SN A) (UI A) a b) \<and>
    DI_gamma A u w a \<inter> DI_gamma A u w b \<subseteq> DI_gamma A u w (DI_meet (SN A) (UI A) a b) \<and>
    (\<forall>x\<in>DI_gamma A u w a. \<forall>y\<in>DI_gamma A u w b. \<forall>op sg v. cond_val op (ival A u sg x) (ival A u sg y) = Some v \<longrightarrow>
       (\<exists>r. DI_apply_cond A (SN A) (UI A) op a b = Some r \<and>
          ap_make A 1 (if v then 1 else 0) \<in> gamma u (\<lambda>w x. ap_width A x = w) 1 r))"
proof (intro conjI ballI allI impI)
  fix x y op sg v
  assume "x \<in> DI_gamma A u w a" "y \<in> DI_gamma A u w b" "cond_val op (ival A u sg x) (ival A u sg y) = Some v"
  then show "\<exists>r. DI_apply_cond A (SN A) (UI A) op a b = Some r \<and>
      ap_make A 1 (if v then 1 else 0) \<in> gamma u (\<lambda>w x. ap_width A x = w) 1 r"
    using apint_laws.DI_cond_sound[OF assms(1,3,4), of x y op v] by (cases sg) simp_all
qed (rule apint_laws.DI_lattice_sound[OF assms])+

theorem DI_sound_witness:
  "(8, 200) \<in> DI_gamma bits_apint bits_uval 8 (DI_join (SN bits_apint) (UI bits_apint) (bits_DI 1 5 1 5) (bits_DI (- 60) 0 0 255))"
proof -
  have ok: "DI_ok bits_apint bits_uval 8 (bits_DI 1 5 1 5)" "DI_ok bits_apint bits_uval 8 (bits_DI (- 60) 0 0 255)"
    unfolding DI_ok_def iv_ok_def bound_ok_def by code_simp+
  have "(8, 200) \<in> DI_gamma bits_apint bits_uval 8 (bits_DI (- 60) 0 0 255)"
    unfolding DI_gamma_def gamma_def Int_iff mem_Collect_eq by code_simp
  then show ?thesis using DI_sound[OF bits.apint_laws_axioms _ ok] by auto
qed

text \<open>But splitting and the remainder lose numbers, on eight bits: the unsigned half of
  \<open>splitByLess\<close> drops -1 from the numbers below 0 in the branch where it is below 0, and the
  remainder of an unknown number by 3 is empty.\<close>

theorem DI_loses:
  "(8, 255) \<in> DI_gamma bits_apint bits_uval 8 (bits_DI (- 1) 5 0 255) \<and>
   (8, 0) \<in> DI_gamma bits_apint bits_uval 8 (bits_DI 0 0 0 0) \<and>
   ival bits_apint bits_uval True (8, 255) < ival bits_apint bits_uval True (8, 0) \<and>
   (8, 255) \<notin> DI_gamma bits_apint bits_uval 8
      (split_true (DI_splitByLess (SN bits_apint) (UI bits_apint) (bits_DI (- 1) 5 0 255) (bits_DI 0 0 0 0))) \<and>
   map_option DI_isBottom (DI_apply (SN bits_apint) (UI bits_apint) REM
      (DI_top (SN bits_apint) (UI bits_apint) 8 8) (bits_DI 3 3 3 3)) = Some True"
  unfolding DI_gamma_def gamma_def Int_iff mem_Collect_eq by (intro conjI) code_simp+

end
