(* ===== verification/SeparateDomains.thy ===== *)
theory SeparateDomains
  imports DoubleIntervals "HOL-Library.AList"
begin

text \<open>
  Environments of the abstract interpreter (src/Interpreter/Domain/SeparateDomain.hpp) and the interval
  domain over them (src/Interpreter/Domain/Numerical/IntervalDomain.hpp,
  src/Interpreter/IR/DomainStorage.cpp).  The hash map of variables is an association list with
  distinct keys; the loops over it are folds.  The operations of the domain of the values are a
  parameter, the record \<open>domain\<close>.
\<close>

section \<open>SeparateDomain\<close>

record 'd domain =
  d_join :: "'d \<Rightarrow> 'd \<Rightarrow> 'd"
  d_meet :: "'d \<Rightarrow> 'd \<Rightarrow> 'd"
  d_widen :: "'d \<Rightarrow> 'd \<Rightarrow> 'd"
  d_equals :: "'d \<Rightarrow> 'd \<Rightarrow> bool"

record ('x, 'd) SeparateDomain =
  sd_values :: "('x \<times> 'd) list"
  sd_isBottom :: bool

definition SD_top :: "('x, 'd) SeparateDomain" where
  "SD_top = \<lparr>sd_values = [], sd_isBottom = False\<rparr>"

definition SD_bottom :: "('x, 'd) SeparateDomain" where
  "SD_bottom = \<lparr>sd_values = [], sd_isBottom = True\<rparr>"

definition SD_isTop :: "('x, 'd) SeparateDomain \<Rightarrow> bool" where
  "SD_isTop s = (\<not> sd_isBottom s \<and> sd_values s = [])"

definition SD_setTop :: "('x, 'd) SeparateDomain \<Rightarrow> ('x, 'd) SeparateDomain" where
  "SD_setTop s = s\<lparr>sd_values := [], sd_isBottom := False\<rparr>"

definition SD_setBottom :: "('x, 'd) SeparateDomain \<Rightarrow> ('x, 'd) SeparateDomain" where
  "SD_setBottom s = s\<lparr>sd_values := [], sd_isBottom := True\<rparr>"

definition SD_get :: "('x, 'd) SeparateDomain \<Rightarrow> 'x \<Rightarrow> 'd option" where
  "SD_get s x = map_of (sd_values s) x"

definition SD_set :: "'x \<Rightarrow> 'd \<Rightarrow> ('x, 'd) SeparateDomain \<Rightarrow> ('x, 'd) SeparateDomain" where
  "SD_set x v s = s\<lparr>sd_values := AList.update x v (sd_values s), sd_isBottom := False\<rparr>"

definition SD_forget :: "'x \<Rightarrow> ('x, 'd) SeparateDomain \<Rightarrow> ('x, 'd) SeparateDomain" where
  "SD_forget x s = (if sd_isBottom s then s else s\<lparr>sd_values := AList.delete x (sd_values s)\<rparr>)"

text \<open>The loop of \<open>leq\<close> and \<open>equals\<close>: every entry has an equal one on the other side.\<close>

fun entries_equal :: "'d domain \<Rightarrow> ('x \<times> 'd) list \<Rightarrow> ('x \<times> 'd) list \<Rightarrow> bool" where
  "entries_equal D [] other = True"
| "entries_equal D ((x, v) # rest) other =
     (case map_of other x of None \<Rightarrow> False
      | Some v' \<Rightarrow> if \<not> d_equals D v v' then False else entries_equal D rest other)"

definition SD_leq :: "'d domain \<Rightarrow> ('x, 'd) SeparateDomain \<Rightarrow> ('x, 'd) SeparateDomain \<Rightarrow> bool" where
  "SD_leq D this other =
     (if sd_isBottom this then True else if sd_isBottom other then False
      else entries_equal D (sd_values this) (sd_values other))"

definition SD_equals :: "'d domain \<Rightarrow> ('x, 'd) SeparateDomain \<Rightarrow> ('x, 'd) SeparateDomain \<Rightarrow> bool" where
  "SD_equals D this other =
     (if sd_isBottom this then sd_isBottom other else if sd_isBottom other then False
      else if length (sd_values this) \<noteq> length (sd_values other) then False
      else entries_equal D (sd_values this) (sd_values other))"

text \<open>The loop of \<open>joinWith\<close>, \<open>meetWith\<close> and \<open>widenWith\<close>.\<close>

fun merge_entries :: "('d \<Rightarrow> 'd \<Rightarrow> 'd) \<Rightarrow> ('x \<times> 'd) list \<Rightarrow> ('x \<times> 'd) list \<Rightarrow> ('x \<times> 'd) list" where
  "merge_entries f values [] = values"
| "merge_entries f values ((x, v) # rest) =
     merge_entries f (case map_of values x of None \<Rightarrow> AList.update x v values
                      | Some cur \<Rightarrow> AList.update x (f cur v) values) rest"

definition SD_joinWith :: "'d domain \<Rightarrow> ('x, 'd) SeparateDomain \<Rightarrow> ('x, 'd) SeparateDomain \<Rightarrow> ('x, 'd) SeparateDomain" where
  "SD_joinWith D this other =
     (if sd_isBottom other then this else if sd_isBottom this then other
      else this\<lparr>sd_values := merge_entries (d_join D) (sd_values this) (sd_values other)\<rparr>)"

definition SD_meetWith :: "'d domain \<Rightarrow> ('x, 'd) SeparateDomain \<Rightarrow> ('x, 'd) SeparateDomain \<Rightarrow> ('x, 'd) SeparateDomain" where
  "SD_meetWith D this other =
     (if sd_isBottom this then this else if sd_isBottom other then SD_setBottom this
      else this\<lparr>sd_values := merge_entries (d_meet D) (sd_values this) (sd_values other)\<rparr>)"

definition SD_widenWith :: "'d domain \<Rightarrow> ('x, 'd) SeparateDomain \<Rightarrow> ('x, 'd) SeparateDomain \<Rightarrow> ('x, 'd) SeparateDomain" where
  "SD_widenWith D this other =
     (if sd_isBottom other then this else if sd_isBottom this then other
      else this\<lparr>sd_values := merge_entries (d_widen D) (sd_values this) (sd_values other)\<rparr>)"

definition SD_join :: "'d domain \<Rightarrow> ('x, 'd) SeparateDomain \<Rightarrow> ('x, 'd) SeparateDomain \<Rightarrow> ('x, 'd) SeparateDomain" where
  "SD_join D this other = (let result = this in SD_joinWith D result other)"

definition SD_meet :: "'d domain \<Rightarrow> ('x, 'd) SeparateDomain \<Rightarrow> ('x, 'd) SeparateDomain \<Rightarrow> ('x, 'd) SeparateDomain" where
  "SD_meet D this other = (let result = this in SD_meetWith D result other)"

definition SD_widen :: "'d domain \<Rightarrow> ('x, 'd) SeparateDomain \<Rightarrow> ('x, 'd) SeparateDomain \<Rightarrow> ('x, 'd) SeparateDomain" where
  "SD_widen D this other = (let result = this in SD_widenWith D result other)"

section \<open>IntervalDomain\<close>

text \<open>The interval domain is an environment; a missing variable is a null pointer (\<open>None\<close>), and using
  it is a crash.\<close>

definition ID_assign :: "'x \<Rightarrow> 'd \<Rightarrow> ('x, 'd) SeparateDomain \<Rightarrow> ('x, 'd) SeparateDomain" where
  "ID_assign x i s = SD_set x i s"

definition ID_applyTo ::
  "(ArithType \<Rightarrow> 'd \<Rightarrow> 'd \<Rightarrow> 'd option) \<Rightarrow> ArithType \<Rightarrow> 'x \<Rightarrow> 'x \<Rightarrow> 'x \<Rightarrow> ('x, 'd) SeparateDomain \<Rightarrow> ('x, 'd) SeparateDomain option" where
  "ID_applyTo ap op x y z s =
     SD_get s y \<bind> (\<lambda>l. SD_get s z \<bind> (\<lambda>r. ap op l r \<bind> (\<lambda>v. Some (SD_set x v s))))"

definition ID_applyTo_cond ::
  "(ConditionType \<Rightarrow> 'd \<Rightarrow> 'd \<Rightarrow> 'e option) \<Rightarrow> ConditionType \<Rightarrow> 'x \<Rightarrow> 'x \<Rightarrow> ('x, 'd) SeparateDomain \<Rightarrow> 'e option" where
  "ID_applyTo_cond ap op x y s = SD_get s x \<bind> (\<lambda>l. SD_get s y \<bind> (\<lambda>r. ap op l r))"

text \<open>\<open>get\<close> of the implementation over LLVM values (DomainStorage.cpp) takes the value of a constant
  from the variable factory, a parameter here, and the rest from the environment; \<open>addConstraint\<close>
  refines both variables of a condition that holds.  The operands are read before they are refined.\<close>

definition IDI_get :: "('x \<Rightarrow> 'd option) \<Rightarrow> ('x, 'd) SeparateDomain \<Rightarrow> 'x \<Rightarrow> 'd option" where
  "IDI_get constants s x = (case constants x of Some d \<Rightarrow> Some d | None \<Rightarrow> SD_get s x)"

definition addConstraint ::
  "('x \<Rightarrow> 'd option) \<Rightarrow> ('d \<Rightarrow> 'd \<Rightarrow> 'd Split) \<Rightarrow> ('d \<Rightarrow> 'd \<Rightarrow> 'd Split) \<Rightarrow> ConditionType \<Rightarrow> 'x \<Rightarrow> 'x \<Rightarrow>
    ('x, 'd) SeparateDomain \<Rightarrow> ('x, 'd) SeparateDomain option" where
  "addConstraint constants splitByEq splitByLess op x y s =
     IDI_get constants s x \<bind> (\<lambda>lhv. IDI_get constants s y \<bind> (\<lambda>rhv.
       let eq = ID_assign y (split_true (splitByEq rhv lhv)) (ID_assign x (split_true (splitByEq lhv rhv)) s);
           neq = ID_assign y (split_false (splitByEq rhv lhv)) (ID_assign x (split_false (splitByEq lhv rhv)) s);
           greater = ID_assign y (split_true (splitByLess rhv lhv)) (ID_assign x (split_false (splitByLess lhv rhv)) s);
           less = ID_assign y (split_false (splitByLess rhv lhv)) (ID_assign x (split_true (splitByLess lhv rhv)) s)
       in Some (case op of EQ \<Rightarrow> eq | NEQ \<Rightarrow> neq
          | GT \<Rightarrow> greater | GE \<Rightarrow> greater | UGT \<Rightarrow> greater | UGE \<Rightarrow> greater
          | LT \<Rightarrow> less | LE \<Rightarrow> less | ULT \<Rightarrow> less | ULE \<Rightarrow> less
          | TRUE \<Rightarrow> s | FALSE \<Rightarrow> s | UNKNOWN \<Rightarrow> s)))"

section \<open>Environments as maps\<close>

definition sd_ok :: "('x, 'd) SeparateDomain \<Rightarrow> bool" where
  "sd_ok s \<longleftrightarrow> distinct (map fst (sd_values s)) \<and> (sd_isBottom s \<longrightarrow> sd_values s = [])"

definition map_merge :: "('d \<Rightarrow> 'd \<Rightarrow> 'd) \<Rightarrow> ('x \<Rightarrow> 'd option) \<Rightarrow> ('x \<Rightarrow> 'd option) \<Rightarrow> 'x \<Rightarrow> 'd option" where
  "map_merge f m n x = (case n x of None \<Rightarrow> m x | Some v \<Rightarrow> Some (case m x of None \<Rightarrow> v | Some c \<Rightarrow> f c v))"

lemma merge_entries_map:
  "distinct (map fst es) \<Longrightarrow> map_of (merge_entries f vs es) = map_merge f (map_of vs) (map_of es)"
proof (induction es arbitrary: vs)
  case (Cons e es)
  obtain x v where e: "e = (x, v)" by fastforce
  have n: "map_of es x = None" using Cons.prems e by (simp add: map_of_eq_None_iff)
  show ?case
    using Cons e n by (auto simp: map_merge_def update_conv' fun_eq_iff split: option.splits)
qed (simp add: map_merge_def fun_eq_iff)

lemma merge_entries_distinct: "distinct (map fst vs) \<Longrightarrow> distinct (map fst (merge_entries f vs es))"
  by (induction f vs es rule: merge_entries.induct) (auto simp: distinct_update split: option.splits)

lemma entries_equal_iff:
  "entries_equal D es other \<longleftrightarrow> (\<forall>(x, v)\<in>set es. \<exists>v'. map_of other x = Some v' \<and> d_equals D v v')"
  by (induction D es other rule: entries_equal.induct) (auto split: option.splits)

lemma SD_ok_ops:
  assumes "sd_ok s" "sd_ok t"
  shows "sd_ok (SD_join D s t)" "sd_ok (SD_meet D s t)" "sd_ok (SD_widen D s t)" "sd_ok (SD_set x v s)" "sd_ok (SD_forget x s)"
  using assms
  by (auto simp: SD_join_def SD_joinWith_def SD_meet_def SD_meetWith_def SD_widen_def SD_widenWith_def sd_ok_def
      SD_setBottom_def SD_set_def SD_forget_def merge_entries_distinct distinct_update distinct_delete)

lemma SD_get_set [simp]: "SD_get (SD_set x v s) z = (if z = x then Some v else SD_get s z)"
  by (simp add: SD_get_def SD_set_def update_conv')

section \<open>Properties\<close>

text \<open>C37: The operations on environments are operations on partial maps: setting and forgetting update the
  map at one variable; in \<open>join\<close>, \<open>meet\<close> and \<open>widen\<close> of two environments that are not bottom a variable both
  know has the joined, met or widened value, and a variable only one of them knows keeps its value; the bottom
  environment is neutral for \<open>join\<close> and \<open>widen\<close>, and a meet with it is bottom.  All keep the keys distinct.\<close>

theorem SeparateDomain_pointwise:
  assumes "sd_ok s" "sd_ok t"
  shows "SD_get (SD_set x v s) = (SD_get s)(x \<mapsto> v) \<and> SD_get (SD_forget x s) = (SD_get s)(x := None) \<and>
    (\<not> sd_isBottom s \<and> \<not> sd_isBottom t \<longrightarrow>
      SD_get (SD_join D s t) = map_merge (d_join D) (SD_get s) (SD_get t) \<and>
      SD_get (SD_meet D s t) = map_merge (d_meet D) (SD_get s) (SD_get t) \<and>
      SD_get (SD_widen D s t) = map_merge (d_widen D) (SD_get s) (SD_get t)) \<and>
    (sd_isBottom s \<longrightarrow> SD_join D s t = t \<and> SD_widen D s t = t) \<and>
    (sd_isBottom t \<longrightarrow> SD_join D s t = s \<and> SD_widen D s t = s) \<and>
    (sd_isBottom (SD_meet D s t) \<longleftrightarrow> sd_isBottom s \<or> sd_isBottom t) \<and>
    sd_ok (SD_join D s t) \<and> sd_ok (SD_meet D s t) \<and> sd_ok (SD_widen D s t) \<and> sd_ok (SD_set x v s) \<and> sd_ok (SD_forget x s)"
proof (intro conjI)
  have bottom: "sd_isBottom e \<Longrightarrow> sd_ok e \<Longrightarrow> e = \<lparr>sd_values = [], sd_isBottom = True\<rparr>" for e :: "('a, 'b) SeparateDomain"
    by (cases e) (simp add: sd_ok_def)
  show "sd_isBottom s \<longrightarrow> SD_join D s t = t \<and> SD_widen D s t = t" "sd_isBottom t \<longrightarrow> SD_join D s t = s \<and> SD_widen D s t = s"
    using assms bottom[of s] bottom[of t] by (auto simp: SD_join_def SD_joinWith_def SD_widen_def SD_widenWith_def)
  show "sd_isBottom (SD_meet D s t) \<longleftrightarrow> sd_isBottom s \<or> sd_isBottom t"
    by (simp add: SD_meet_def SD_meetWith_def SD_setBottom_def)
  show "sd_ok (SD_join D s t)" "sd_ok (SD_meet D s t)" "sd_ok (SD_widen D s t)" "sd_ok (SD_set x v s)" "sd_ok (SD_forget x s)"
    by (rule SD_ok_ops[OF assms])+
qed (use assms in \<open>auto simp: SD_join_def SD_joinWith_def SD_meet_def SD_meetWith_def SD_widen_def SD_widenWith_def
      SD_get_def[abs_def] SD_set_def SD_forget_def sd_ok_def merge_entries_map update_conv' delete_conv' fun_eq_iff\<close>)

theorem SeparateDomain_pointwise_witness:
  "SD_get (SD_join \<lparr>d_join = max, d_meet = min, d_widen = max, d_equals = (=)\<rparr>
     \<lparr>sd_values = [(''x'', 1), (''y'', 5 :: int)], sd_isBottom = False\<rparr>
     \<lparr>sd_values = [(''z'', 2), (''x'', 3)], sd_isBottom = False\<rparr>) ''x'' = Some 3"
proof -
  have "sd_ok \<lparr>sd_values = [(''x'', 1), (''y'', 5 :: int)], sd_isBottom = False\<rparr>"
    "sd_ok \<lparr>sd_values = [(''z'', 2), (''x'', 3 :: int)], sd_isBottom = False\<rparr>"
    by (simp_all add: sd_ok_def)
  from SeparateDomain_pointwise[OF this, of _ _ "\<lparr>d_join = max, d_meet = min, d_widen = max, d_equals = (=)\<rparr>"]
  show ?thesis by (simp add: map_merge_def SD_get_def)
qed

text \<open>But the order of environments does not fit \<open>join\<close>: \<open>leq\<close> asks for equal values and for no
  unknown variable, so the environment that \<open>isTop\<close> calls top is below every other one, and the join
  of \<open>x = 0\<close> and \<open>x = 1\<close> is above neither.\<close>

theorem SeparateDomain_leq_not_join:
  "(\<not> sd_isBottom s \<longrightarrow> SD_isTop (SD_top :: ('x, 'd) SeparateDomain) \<and> SD_leq D SD_top s) \<and>
   (\<not> d_equals D a (d_join D a b) \<longrightarrow>
      \<not> SD_leq D \<lparr>sd_values = [(x :: 'x, a)], sd_isBottom = False\<rparr>
          (SD_join D \<lparr>sd_values = [(x, a)], sd_isBottom = False\<rparr> \<lparr>sd_values = [(x, b)], sd_isBottom = False\<rparr>))"
  by (auto simp: SD_isTop_def SD_top_def SD_leq_def SD_join_def SD_joinWith_def)

theorem SeparateDomain_leq_not_join_witness:
  "\<not> SD_leq \<lparr>d_join = max, d_meet = min, d_widen = max, d_equals = (=)\<rparr>
      \<lparr>sd_values = [(''x'', 0 :: int)], sd_isBottom = False\<rparr>
      (SD_join \<lparr>d_join = max, d_meet = min, d_widen = max, d_equals = (=)\<rparr>
        \<lparr>sd_values = [(''x'', 0)], sd_isBottom = False\<rparr> \<lparr>sd_values = [(''x'', 1)], sd_isBottom = False\<rparr>)"
  by (rule mp[OF conjunct2[OF SeparateDomain_leq_not_join]]) simp

text \<open>The shape of \<open>addConstraint\<close>: it is sound for any description \<open>G\<close> of numbers by domains that the
  splits of the operands keep on the side of the condition.\<close>

lemma addConstraint_keeps:
  assumes "\<And>z i. IDI_get constants s z = Some i \<Longrightarrow> G z i"
    and "IDI_get constants s x = Some a" "IDI_get constants s y = Some b"
    and "op = EQ \<Longrightarrow> G x (split_true (eqs a b)) \<and> G y (split_true (eqs b a))"
    and "op = NEQ \<Longrightarrow> G x (split_false (eqs a b)) \<and> G y (split_false (eqs b a))"
    and "op \<in> {LT, LE, ULT, ULE} \<Longrightarrow> G x (split_true (lt a b)) \<and> G y (split_false (lt b a))"
    and "op \<in> {GT, GE, UGT, UGE} \<Longrightarrow> G x (split_false (lt a b)) \<and> G y (split_true (lt b a))"
    and "addConstraint constants eqs lt op x y s = Some s'" "IDI_get constants s' z = Some i"
  shows "G z i"
proof -
  have "constants z = Some i \<or> (constants z = None \<and> SD_get s' z = Some i)"
    using assms(9) by (auto simp: IDI_get_def split: option.splits)
  then show ?thesis
  proof
    assume "constants z = Some i"
    then show ?thesis using assms(1)[of z i] by (simp add: IDI_get_def)
  next
    assume z: "constants z = None \<and> SD_get s' z = Some i"
    have old: "SD_get s z = Some i \<Longrightarrow> ?thesis" using assms(1)[of z i] z by (simp add: IDI_get_def)
    show ?thesis
      using z old assms(4-8) assms(2,3)
      by (cases op) (auto simp: addConstraint_def Let_def ID_assign_def split: if_splits)
  qed
qed

text \<open>The environments of booleans and floating-point numbers hold intervals, of one number type.\<close>

theorem addConstraint_intervals:
  assumes N: "number_order N val has"
    and env: "\<And>z i. IDI_get constants s z = Some i \<Longrightarrow> iv_ok N val has c i \<and> \<sigma> z \<in> gamma val has c i"
    and "cond_val op (val (\<sigma> x)) (val (\<sigma> y)) = Some True"
    and "addConstraint constants (Interval_splitByEq N) (Interval_splitByLess N) op x y s = Some s'"
    and "IDI_get constants s' z = Some i"
  shows "iv_ok N val has c i \<and> \<sigma> z \<in> gamma val has c i"
proof -
  obtain a b where ab: "IDI_get constants s x = Some a" "IDI_get constants s y = Some b"
    using assms(4) by (auto simp: addConstraint_def bind_Some_iff)
  note a = env[OF ab(1)] and b = env[OF ab(2)]
  note S = number_order.split_sound[OF N conjunct1[OF a] conjunct1[OF b] conjunct2[OF a] conjunct2[OF b]]
    number_order.split_sound[OF N conjunct1[OF b] conjunct1[OF a] conjunct2[OF b] conjunct2[OF a]]
    number_order.split_ok[OF N conjunct1[OF a] conjunct1[OF b]] number_order.split_ok[OF N conjunct1[OF b] conjunct1[OF a]]
  from env ab show ?thesis
    by (rule addConstraint_keeps[OF _ _ _ _ _ _ _ assms(4,5), where G = "\<lambda>z i. iv_ok N val has c i \<and> \<sigma> z \<in> gamma val has c i"])
      (use assms(3) S in \<open>auto simp: cond_val_def not_less\<close>)
qed

text \<open>C6: Adding a condition to an environment of the integers is sound for the states in which the condition
  holds of the operands both as signed and as unsigned numbers: if every variable and constant has its
  number, of its own width, in its pair of a signed and an unsigned interval, it still has after the two
  operands, of equal width, are refined, and the pairs stay well formed.  A condition that holds
  in one of the two orders only is not covered, because the code splits both halves of a pair by it and so
  loses numbers (\<open>DI_loses\<close>); equalities and inequalities mean the same in both.\<close>

theorem addConstraint_sound:
  assumes A: "apint_laws A u"
    and env: "\<And>z i. IDI_get constants s z = Some i \<Longrightarrow> DI_ok A u (wd z) i \<and> \<sigma> z \<in> DI_gamma A u (wd z) i"
    and "wd x = wd y" "\<And>sg. cond_val op (ival A u sg (\<sigma> x)) (ival A u sg (\<sigma> y)) = Some True"
    and "addConstraint constants (DI_splitByEq (SN A) (UI A)) (DI_splitByLess (SN A) (UI A)) op x y s = Some s'"
    and "IDI_get constants s' z = Some i"
  shows "DI_ok A u (wd z) i \<and> \<sigma> z \<in> DI_gamma A u (wd z) i"
proof -
  obtain a b where ab: "IDI_get constants s x = Some a" "IDI_get constants s y = Some b"
    using assms(5) by (auto simp: addConstraint_def bind_Some_iff)
  note a = env[OF ab(1)] and b = env[OF ab(2), folded assms(3)]
  note S = apint_laws.DI_split_sound[OF A conjunct1[OF a] conjunct1[OF b] conjunct2[OF a] conjunct2[OF b]]
    apint_laws.DI_split_sound[OF A conjunct1[OF b] conjunct1[OF a] conjunct2[OF b] conjunct2[OF a]]
    apint_laws.DI_split_ok[OF A conjunct1[OF a] conjunct1[OF b]] apint_laws.DI_split_ok[OF A conjunct1[OF b] conjunct1[OF a]]
  let ?v = "\<lambda>sg. ival A u sg"
  have c: "op = EQ \<Longrightarrow> ?v sg (\<sigma> x) = ?v sg (\<sigma> y)" "op = EQ \<Longrightarrow> ?v sg (\<sigma> y) = ?v sg (\<sigma> x)"
    "op = NEQ \<Longrightarrow> ?v sg (\<sigma> x) \<noteq> ?v sg (\<sigma> y)" "op = NEQ \<Longrightarrow> ?v sg (\<sigma> y) \<noteq> ?v sg (\<sigma> x)"
    "op \<in> {LT, LE, ULT, ULE} \<Longrightarrow> ?v sg (\<sigma> x) \<le> ?v sg (\<sigma> y)" "op \<in> {LT, LE, ULT, ULE} \<Longrightarrow> \<not> ?v sg (\<sigma> y) < ?v sg (\<sigma> x)"
    "op \<in> {GT, GE, UGT, UGE} \<Longrightarrow> ?v sg (\<sigma> y) \<le> ?v sg (\<sigma> x)" "op \<in> {GT, GE, UGT, UGE} \<Longrightarrow> \<not> ?v sg (\<sigma> x) < ?v sg (\<sigma> y)" for sg
    using assms(4)[of sg] by (auto simp: cond_val_def)
  show ?thesis
    by (rule addConstraint_keeps[where G = "\<lambda>z i. DI_ok A u (wd z) i \<and> \<sigma> z \<in> DI_gamma A u (wd z) i", OF env ab _ _ _ _ assms(5,6)])
      (assumption, unfold assms(3)[symmetric], (intro conjI S; erule c)+)
qed

theorem addConstraint_sound_witness:
  "\<exists>s' i. addConstraint (\<lambda>z. None) (DI_splitByEq (SN bits_apint) (UI bits_apint)) (DI_splitByLess (SN bits_apint) (UI bits_apint))
     ULT ''x'' ''y'' \<lparr>sd_values = [(''x'', bits_DI 0 20 0 20), (''y'', bits_DI 3 9 3 9)], sd_isBottom = False\<rparr> = Some s' \<and>
     IDI_get (\<lambda>z. None) s' ''x'' = Some i \<and> i \<noteq> bits_DI 0 20 0 20 \<and> (8, 7) \<in> DI_gamma bits_apint bits_uval 8 i"
proof -
  let ?s = "\<lparr>sd_values = [(''x'', bits_DI 0 20 0 20), (''y'', bits_DI 3 9 3 9)], sd_isBottom = False\<rparr>"
  let ?i = "split_true (DI_splitByLess (SN bits_apint) (UI bits_apint) (bits_DI 0 20 0 20) (bits_DI 3 9 3 9))"
  let ?\<sigma> = "\<lambda>z. if z = ''x'' then (8, 7) else (8, 9)"
  have m: "(8, 7) \<in> DI_gamma bits_apint bits_uval 8 (bits_DI 0 20 0 20)" "(8, 9) \<in> DI_gamma bits_apint bits_uval 8 (bits_DI 3 9 3 9)"
    unfolding DI_gamma_def gamma_def Int_iff mem_Collect_eq by code_simp+
  have ok: "DI_ok bits_apint bits_uval 8 (bits_DI 0 20 0 20)" "DI_ok bits_apint bits_uval 8 (bits_DI 3 9 3 9)"
    unfolding DI_ok_def iv_ok_def bound_ok_def by code_simp+
  have g: "IDI_get (\<lambda>z. None) ?s z = Some i \<Longrightarrow> DI_ok bits_apint bits_uval 8 i \<and> ?\<sigma> z \<in> DI_gamma bits_apint bits_uval 8 i" for z i
    using m ok by (auto simp: IDI_get_def SD_get_def split: if_splits)
  have lt: "cond_val ULT (ival bits_apint bits_uval sg (?\<sigma> ''x'')) (ival bits_apint bits_uval sg (?\<sigma> ''y'')) = Some True" for sg
    by (cases sg; simp only:; code_simp)
  obtain s' where s': "addConstraint (\<lambda>z. None) (DI_splitByEq (SN bits_apint) (UI bits_apint)) (DI_splitByLess (SN bits_apint) (UI bits_apint))
     ULT ''x'' ''y'' ?s = Some s'"
    by (simp add: addConstraint_def IDI_get_def SD_get_def Let_def)
  then have i: "IDI_get (\<lambda>z. None) s' ''x'' = Some ?i"
    by (auto simp: addConstraint_def IDI_get_def Let_def SD_get_def ID_assign_def SD_set_def)
  have "?i \<noteq> bits_DI 0 20 0 20" by code_simp
  then show ?thesis
    using addConstraint_sound[OF bits.apint_laws_axioms g _ lt s' i] s' i by auto
qed

end
