(* ===== verification/Terms.thy ===== *)
theory Terms
  imports TypeFactory Conditions
begin

text \<open>
  Terms (src/Term).  A term is the base object of \<open>Term.h\<close> - class tag, type, name,
  subterms - with the extra fields of its class inside the class tag.  \<open>mk_C\<close> is the
  constructor of class \<open>C\<close> (it computes the name and the subterms).  Pointers to terms are compared by value here: two pointers the code
  compares with \<open>!=\<close> in \<open>accept\<close> differ when the terms differ.  Doubles are their
  64-bit patterns.
\<close>

datatype ArgumentKind = ANY | STRING

datatype term_class =
    ArgumentTerm uint ArgumentKind
  | ArgumentCountTerm
  | AxiomTerm
  | BinaryTerm ArithType
  | BoundTerm
  | CastTerm bool
  | CmpTerm ConditionType
  | ConstTerm
  | FreeVarTerm string
  | GepTerm bool
  | LoadTerm
  | OpaqueBigIntConstantTerm
  | OpaqueBoolConstantTerm bool
  | OpaqueBuiltinTerm string
  | OpaqueCallTerm
  | OpaqueFloatingConstantTerm "64 word"
  | OpaqueIndexingTerm
  | OpaqueIntConstantTerm "64 word"
  | OpaqueInvalidPtrTerm
  | OpaqueMemberAccessTerm string bool
  | OpaqueNamedConstantTerm string
  | OpaqueNullPtrTerm
  | OpaqueStringConstantTerm string
  | OpaqueUndefTerm
  | OpaqueVarTerm string
  | ReadPropertyTerm
  | ReturnPtrTerm string
  | ReturnValueTerm string
  | SignTerm
  | TernaryTerm
  | UnaryTerm UnaryArithType
  | ValueTerm string bool
  | VarArgumentTerm uint

datatype Term = Term (tclass: term_class) (ttype: Type) (tname: string) (subterms: "Term list")

section \<open>Constructors\<close>

definition mk_ArgumentTerm :: "Type \<Rightarrow> uint \<Rightarrow> string \<Rightarrow> ArgumentKind \<Rightarrow> Term" where
  "mk_ArgumentTerm ty idx nm kind = Term (ArgumentTerm idx kind) ty nm []"

definition mk_ArgumentCountTerm :: "Type \<Rightarrow> Term" where
  "mk_ArgumentCountTerm ty = Term ArgumentCountTerm ty ''<arg_count>'' []"

text \<open>The constructor asserts that the axiom is a \<open>Bool\<close>.\<close>

definition mk_AxiomTerm :: "Type \<Rightarrow> Term \<Rightarrow> Term \<Rightarrow> Term option" where
  "mk_AxiomTerm ty lhv rhv =
     (if ttype rhv = TBool
      then Some (Term AxiomTerm ty (''('' @ tname lhv @ '' with axiom '' @ tname rhv @ '')'') [lhv, rhv])
      else None)"

definition mk_BinaryTerm :: "Type \<Rightarrow> ArithType \<Rightarrow> Term \<Rightarrow> Term \<Rightarrow> Term" where
  "mk_BinaryTerm ty opc lhv rhv =
     Term (BinaryTerm opc) ty
       (''('' @ tname lhv @ '' '' @ arithString opc @ '' '' @ tname rhv @ '')'') [lhv, rhv]"

definition mk_BoundTerm :: "Type \<Rightarrow> Term \<Rightarrow> Term" where
  "mk_BoundTerm ty rhv = Term BoundTerm ty (''bound('' @ tname rhv @ '')'') [rhv]"

text \<open>\<open>CastTerm::update\<close> computes the name from the current type; the constructor calls it.\<close>

definition CastTerm_update :: "env \<Rightarrow> Type \<Rightarrow> bool \<Rightarrow> Term \<Rightarrow> string option" where
  "CastTerm_update E ty signExtend rhv = do {
     s \<leftarrow> toString E ty;
     Some (''cast('' @ (if signExtend then ''+'' else '''') @ s @ '', '' @ tname rhv @ '')'') }"

definition mk_CastTerm :: "env \<Rightarrow> Type \<Rightarrow> bool \<Rightarrow> Term \<Rightarrow> Term option" where
  "mk_CastTerm E ty signExtend rhv = do {
     nm \<leftarrow> CastTerm_update E ty signExtend rhv;
     Some (Term (CastTerm signExtend) ty nm [rhv]) }"

definition mk_CmpTerm :: "Type \<Rightarrow> ConditionType \<Rightarrow> Term \<Rightarrow> Term \<Rightarrow> Term option" where
  "mk_CmpTerm ty opc lhv rhv = do {
     s \<leftarrow> conditionString opc;
     Some (Term (CmpTerm opc) ty (''('' @ tname lhv @ '' '' @ s @ '' '' @ tname rhv @ '')'') [lhv, rhv]) }"

definition mk_ConstTerm :: "Type \<Rightarrow> string \<Rightarrow> Term" where
  "mk_ConstTerm ty nm = Term ConstTerm ty nm []"

definition mk_FreeVarTerm :: "Type \<Rightarrow> string \<Rightarrow> Term" where
  "mk_FreeVarTerm ty vname = Term (FreeVarTerm vname) ty vname []"

definition mk_GepTerm :: "env \<Rightarrow> Type \<Rightarrow> Term \<Rightarrow> Term list \<Rightarrow> bool \<Rightarrow> Term" where
  "mk_GepTerm E ty base shifts inBounds =
     Term (GepTerm inBounds) ty
       (''gep'' @ (if inBounds then ''[inbounds]'' else '''') @ ''('' @ tname base @ '','' @
        env_fold E ''0'' (\<lambda>acc e. acc @ ''+'' @ e) (map tname shifts) @ '')'')
       (base # shifts)"

definition mk_LoadTerm :: "Type \<Rightarrow> Term \<Rightarrow> Term" where
  "mk_LoadTerm ty rhv = Term LoadTerm ty (''*('' @ tname rhv @ '')'') [rhv]"

definition mk_OpaqueBigIntConstantTerm :: "Type \<Rightarrow> string \<Rightarrow> Term" where
  "mk_OpaqueBigIntConstantTerm ty val = Term OpaqueBigIntConstantTerm ty val []"

definition mk_OpaqueBoolConstantTerm :: "Type \<Rightarrow> bool \<Rightarrow> Term" where
  "mk_OpaqueBoolConstantTerm ty val =
     Term (OpaqueBoolConstantTerm val) ty (if val then ''true'' else ''false'') []"

definition mk_OpaqueBuiltinTerm :: "Type \<Rightarrow> string \<Rightarrow> Term" where
  "mk_OpaqueBuiltinTerm ty vname = Term (OpaqueBuiltinTerm vname) ty (CHR 0x5C # vname) []"

definition mk_OpaqueCallTerm :: "env \<Rightarrow> Type \<Rightarrow> Term \<Rightarrow> Term list \<Rightarrow> Term" where
  "mk_OpaqueCallTerm E ty lhv rhv =
     Term OpaqueCallTerm ty
       (tname lhv @ ''('' @ env_reduce E '''' (\<lambda>acc e. acc @ '', '' @ e) (map tname rhv) @ '')'')
       (lhv # rhv)"

definition mk_OpaqueFloatingConstantTerm :: "env \<Rightarrow> Type \<Rightarrow> 64 word \<Rightarrow> Term" where
  "mk_OpaqueFloatingConstantTerm E ty val =
     Term (OpaqueFloatingConstantTerm val) ty (env_double E val) []"

definition mk_OpaqueIndexingTerm :: "Type \<Rightarrow> Term \<Rightarrow> Term \<Rightarrow> Term" where
  "mk_OpaqueIndexingTerm ty lhv rhv =
     Term OpaqueIndexingTerm ty (tname lhv @ ''['' @ tname rhv @ '']'') [lhv, rhv]"

definition mk_OpaqueIntConstantTerm :: "Type \<Rightarrow> 64 word \<Rightarrow> Term" where
  "mk_OpaqueIntConstantTerm ty val =
     Term (OpaqueIntConstantTerm val) ty (int_to_string (sint val)) []"

definition mk_OpaqueInvalidPtrTerm :: "Type \<Rightarrow> Term" where
  "mk_OpaqueInvalidPtrTerm ty = Term OpaqueInvalidPtrTerm ty ''<invalid>'' []"

definition mk_OpaqueMemberAccessTerm :: "Type \<Rightarrow> Term \<Rightarrow> string \<Rightarrow> bool \<Rightarrow> Term" where
  "mk_OpaqueMemberAccessTerm ty lhv prop indirect =
     Term (OpaqueMemberAccessTerm prop indirect) ty
       (tname lhv @ (if indirect then ''->'' else ''.'') @ prop) [lhv]"

definition mk_OpaqueNamedConstantTerm :: "Type \<Rightarrow> string \<Rightarrow> Term" where
  "mk_OpaqueNamedConstantTerm ty vname = Term (OpaqueNamedConstantTerm vname) ty (''@'' @ vname) []"

definition mk_OpaqueNullPtrTerm :: "Type \<Rightarrow> Term" where
  "mk_OpaqueNullPtrTerm ty = Term OpaqueNullPtrTerm ty ''<nullptr>'' []"

definition mk_OpaqueStringConstantTerm :: "Type \<Rightarrow> string \<Rightarrow> Term" where
  "mk_OpaqueStringConstantTerm ty val = Term (OpaqueStringConstantTerm val) ty val []"

definition mk_OpaqueUndefTerm :: "Type \<Rightarrow> Term" where
  "mk_OpaqueUndefTerm ty = Term OpaqueUndefTerm ty ''<undef>'' []"

definition mk_OpaqueVarTerm :: "Type \<Rightarrow> string \<Rightarrow> Term" where
  "mk_OpaqueVarTerm ty vname = Term (OpaqueVarTerm vname) ty vname []"

definition mk_ReadPropertyTerm :: "Type \<Rightarrow> Term \<Rightarrow> Term \<Rightarrow> Term" where
  "mk_ReadPropertyTerm ty propName rhv =
     Term ReadPropertyTerm ty (''read('' @ tname propName @ '','' @ tname rhv @ '')'') [rhv, propName]"

definition mk_ReturnPtrTerm :: "Type \<Rightarrow> string \<Rightarrow> Term" where
  "mk_ReturnPtrTerm ty funcName =
     Term (ReturnPtrTerm funcName) ty (''&'' @ [CHR 0x5C] @ ''result_'' @ funcName) []"

definition mk_ReturnValueTerm :: "Type \<Rightarrow> string \<Rightarrow> Term" where
  "mk_ReturnValueTerm ty funcName =
     Term (ReturnValueTerm funcName) ty ([CHR 0x5C] @ ''result_'' @ funcName) []"

definition mk_SignTerm :: "Type \<Rightarrow> Term \<Rightarrow> Term" where
  "mk_SignTerm ty rhv = Term SignTerm ty (''sign('' @ tname rhv @ '')'') [rhv]"

definition mk_TernaryTerm :: "Type \<Rightarrow> Term \<Rightarrow> Term \<Rightarrow> Term \<Rightarrow> Term" where
  "mk_TernaryTerm ty cnd tru fls =
     Term TernaryTerm ty (''('' @ tname cnd @ '' ? '' @ tname tru @ '' : '' @ tname fls @ '')'') [cnd, tru, fls]"

definition mk_UnaryTerm :: "Type \<Rightarrow> UnaryArithType \<Rightarrow> Term \<Rightarrow> Term" where
  "mk_UnaryTerm ty opc rhv =
     Term (UnaryTerm opc) ty (unaryArithString opc @ ''('' @ tname rhv @ '')'') [rhv]"

definition mk_ValueTerm :: "Type \<Rightarrow> string \<Rightarrow> bool \<Rightarrow> Term" where
  "mk_ValueTerm ty vname global =
     Term (ValueTerm vname global) ty (vname @ (if global then ''.global'' else '''')) []"

definition mk_VarArgumentTerm :: "Type \<Rightarrow> uint \<Rightarrow> Term" where
  "mk_VarArgumentTerm ty idx =
     Term (VarArgumentTerm idx) ty (''<vararg'' @ nat_to_string (unat idx) @ ''>'') []"

end
