(* ===== verification/TermFactory.thy ===== *)
theory TermFactory
  imports Terms
begin

text \<open>
  The factory methods of src/Term/TermFactory.cpp that do not read LLVM values, with the
  \<open>getTermType\<close> of each class, the \<open>accept\<close> methods, and \<open>setType\<close>.
\<close>

section \<open>Types of terms\<close>

definition BinaryTerm_getTermType :: "env \<Rightarrow> Term \<Rightarrow> Term \<Rightarrow> Type option" where
  "BinaryTerm_getTermType E lhv rhv = merge E (ttype lhv) (ttype rhv)"

definition CmpTerm_getTermType :: "env \<Rightarrow> Term \<Rightarrow> Term \<Rightarrow> Type option" where
  "CmpTerm_getTermType E lhv rhv = do {
     merged \<leftarrow> merge E (ttype lhv) (ttype rhv);
     Some (if isValid merged then getBool else merged) }"

definition TernaryTerm_getTermType :: "env \<Rightarrow> Term \<Rightarrow> Term \<Rightarrow> Term \<Rightarrow> Type option" where
  "TernaryTerm_getTermType E cnd tru fls = merge E (ttype tru) (ttype fls)"

definition UnaryTerm_getTermType :: "Term \<Rightarrow> Type" where
  "UnaryTerm_getTermType rhv = ttype rhv"

definition AxiomTerm_getTermType :: "Term \<Rightarrow> Term \<Rightarrow> Type" where
  "AxiomTerm_getTermType lhv rhv = ttype lhv"

definition LoadTerm_getTermType :: "env \<Rightarrow> Term \<Rightarrow> Type option" where
  "LoadTerm_getTermType E rhv =
     (let ty = ttype rhv in
      if isInvalid ty then Some ty
      else case ty of
        TPointer p ms \<Rightarrow> Some p
      | _ \<Rightarrow> do { s \<leftarrow> toString E ty; Some (getTypeError (''Load from a non-pointer: '' @ s)) })"

definition SignTerm_getTermType :: "env \<Rightarrow> Term \<Rightarrow> Type option" where
  "SignTerm_getTermType E rhv =
     (let ty = ttype rhv in
      if isInvalid ty then Some ty
      else case ty of
        TInteger b s \<Rightarrow> Some (getInteger 1 Unknown)
      | TFloat \<Rightarrow> Some (getInteger 1 Unknown)
      | _ \<Rightarrow> do { s \<leftarrow> toString E ty; Some (getTypeError (''Sign for non-numerical: '' @ s)) })"

text \<open>The element of an aggregate: the assertions on a structure index are the failures.\<close>

definition getAggregateElement :: "env \<Rightarrow> Type \<Rightarrow> Term \<Rightarrow> Type option" where
  "getAggregateElement E parent idx = (case parent of
      TRecord nm \<Rightarrow> do {
        body \<leftarrow> RecordBodyRef_get E nm;
        case tclass idx of
          OpaqueIntConstantTerm index \<Rightarrow>
            (if 0 \<le> sint index \<and> unat index < getNumFields body
             then map_option field_type (RecordBody_at body index)
             else None)
        | _ \<Rightarrow> None }
    | TArray e sz \<Rightarrow> Some e
    | _ \<Rightarrow> None)"

fun gep_child_loop :: "env \<Rightarrow> Type \<Rightarrow> Term list \<Rightarrow> Type option" where
  "gep_child_loop E ret [] = Some ret"
| "gep_child_loop E ret (ix # ixs) = do {
     t \<leftarrow> getAggregateElement E ret ix;
     gep_child_loop E t ixs }"

definition getGepChild :: "env \<Rightarrow> Type \<Rightarrow> Term list \<Rightarrow> Type option" where
  "getGepChild E parent index = (case parent of
      TPointer p ms \<Rightarrow> (case index of [] \<Rightarrow> None | _ # rest \<Rightarrow> gep_child_loop E p rest)
    | _ \<Rightarrow> None)"

section \<open>Factory methods\<close>

definition getArgumentTermExternal :: "size_t \<Rightarrow> string \<Rightarrow> Type \<Rightarrow> Term" where
  "getArgumentTermExternal numero nm ty = mk_ArgumentTerm ty (ucast numero) nm ANY"

definition getArgumentCountTerm :: "Term" where
  "getArgumentCountTerm = mk_ArgumentCountTerm (getInteger 64 Unknown)"

definition getVarArgumentTerm :: "size_t \<Rightarrow> Term" where
  "getVarArgumentTerm numero = mk_VarArgumentTerm getUnknownType (ucast numero)"

definition getNullPtrTerm :: "Term" where
  "getNullPtrTerm = mk_OpaqueNullPtrTerm getUnknownType"

definition getInvalidPtrTerm :: "Term" where
  "getInvalidPtrTerm = mk_OpaqueInvalidPtrTerm getUnknownType"

definition getBooleanTerm :: "bool \<Rightarrow> Term" where
  "getBooleanTerm b = mk_OpaqueBoolConstantTerm getBool b"

definition getTrueTerm :: "Term" where
  "getTrueTerm = getBooleanTerm True"

definition getFalseTerm :: "Term" where
  "getFalseTerm = getBooleanTerm False"

definition getIntTerm_typed :: "64 word \<Rightarrow> Type \<Rightarrow> Term" where
  "getIntTerm_typed val ty = mk_OpaqueIntConstantTerm ty val"

definition getIntTerm :: "64 word \<Rightarrow> uint \<Rightarrow> Signedness \<Rightarrow> Term" where
  "getIntTerm val sz sign = getIntTerm_typed val (getInteger (ucast sz) sign)"

definition getRealTerm :: "env \<Rightarrow> 64 word \<Rightarrow> Term" where
  "getRealTerm E d = mk_OpaqueFloatingConstantTerm E getFloat d"

definition getValueTerm :: "Type \<Rightarrow> string \<Rightarrow> bool \<Rightarrow> Term" where
  "getValueTerm ty nm global = mk_ValueTerm ty nm global"

definition getFreeVarTerm :: "Type \<Rightarrow> string \<Rightarrow> Term" where
  "getFreeVarTerm ty nm = mk_FreeVarTerm ty nm"

definition getTernaryTerm :: "env \<Rightarrow> Term \<Rightarrow> Term \<Rightarrow> Term \<Rightarrow> Term option" where
  "getTernaryTerm E cnd tru fls = do {
     ty \<leftarrow> TernaryTerm_getTermType E cnd tru fls;
     Some (mk_TernaryTerm ty cnd tru fls) }"

definition getBinaryTerm :: "env \<Rightarrow> ArithType \<Rightarrow> Term \<Rightarrow> Term \<Rightarrow> Term option" where
  "getBinaryTerm E opc lhv rhv = do {
     ty \<leftarrow> BinaryTerm_getTermType E lhv rhv;
     Some (mk_BinaryTerm ty opc lhv rhv) }"

definition getUnaryTerm :: "UnaryArithType \<Rightarrow> Term \<Rightarrow> Term" where
  "getUnaryTerm opc rhv = mk_UnaryTerm (UnaryTerm_getTermType rhv) opc rhv"

definition getLoadTerm :: "env \<Rightarrow> Term \<Rightarrow> Term option" where
  "getLoadTerm E rhv = do {
     ty \<leftarrow> LoadTerm_getTermType E rhv;
     Some (mk_LoadTerm ty rhv) }"

definition getCastTerm :: "env \<Rightarrow> Type \<Rightarrow> bool \<Rightarrow> Term \<Rightarrow> Term option" where
  "getCastTerm E ty signExtend rhv = mk_CastTerm E ty signExtend rhv"

definition getUnlogicLoadTerm :: "env \<Rightarrow> Term \<Rightarrow> Term option" where
  "getUnlogicLoadTerm E rhv = do {
     c \<leftarrow> getCastTerm E (getPointer getUnknownType 0) False rhv;
     getLoadTerm E c }"

definition getReadPropertyTerm :: "env \<Rightarrow> Type \<Rightarrow> Term \<Rightarrow> Term \<Rightarrow> Term option" where
  "getReadPropertyTerm E ty propName rhv = do {
     rhv' \<leftarrow> (case ttype rhv of
                TPointer p ms \<Rightarrow> Some rhv
              | _ \<Rightarrow> getCastTerm E (getPointer getUnknownType 0) False rhv);
     Some (mk_ReadPropertyTerm ty propName rhv') }"

definition getGepTerm :: "env \<Rightarrow> Term \<Rightarrow> Term list \<Rightarrow> bool \<Rightarrow> Term option" where
  "getGepTerm E base shifts isTriviallyInbounds = do {
     tp \<leftarrow> getGepChild E (ttype base) shifts;
     Some (mk_GepTerm E (getPointer tp 0) base shifts isTriviallyInbounds) }"

definition getCmpTerm :: "env \<Rightarrow> ConditionType \<Rightarrow> Term \<Rightarrow> Term \<Rightarrow> Term option" where
  "getCmpTerm E opc lhv rhv = do {
     ty \<leftarrow> CmpTerm_getTermType E lhv rhv;
     mk_CmpTerm ty opc lhv rhv }"

definition getOpaqueVarTerm :: "string \<Rightarrow> Term" where
  "getOpaqueVarTerm nm = mk_OpaqueVarTerm getUnknownType nm"

definition getOpaqueBuiltinTerm :: "string \<Rightarrow> Term" where
  "getOpaqueBuiltinTerm nm = mk_OpaqueBuiltinTerm getUnknownType nm"

definition getOpaqueNamedConstantTerm :: "string \<Rightarrow> Term" where
  "getOpaqueNamedConstantTerm nm = mk_OpaqueNamedConstantTerm getUnknownType nm"

definition getOpaqueConstantTerm_int :: "64 word \<Rightarrow> size_t \<Rightarrow> Term" where
  "getOpaqueConstantTerm_int v bitSize =
     mk_OpaqueIntConstantTerm (if bitSize = 0 then getUnknownType else getInteger bitSize Unknown) v"

definition getOpaqueConstantTerm_double :: "env \<Rightarrow> 64 word \<Rightarrow> Term" where
  "getOpaqueConstantTerm_double E v = mk_OpaqueFloatingConstantTerm E getFloat v"

definition getOpaqueConstantTerm_bool :: "bool \<Rightarrow> Term" where
  "getOpaqueConstantTerm_bool v = mk_OpaqueBoolConstantTerm getBool v"

definition getOpaqueConstantTerm_string :: "string \<Rightarrow> Term" where
  "getOpaqueConstantTerm_string v = mk_OpaqueStringConstantTerm getUnknownType v"

definition getOpaqueIndexingTerm :: "Term \<Rightarrow> Term \<Rightarrow> Term" where
  "getOpaqueIndexingTerm lhv rhv = mk_OpaqueIndexingTerm getUnknownType lhv rhv"

definition getOpaqueMemberAccessTerm :: "Term \<Rightarrow> string \<Rightarrow> bool \<Rightarrow> Term" where
  "getOpaqueMemberAccessTerm lhv prop indirect = mk_OpaqueMemberAccessTerm getUnknownType lhv prop indirect"

definition getOpaqueCallTerm :: "env \<Rightarrow> Term \<Rightarrow> Term list \<Rightarrow> Term" where
  "getOpaqueCallTerm E lhv rhv = mk_OpaqueCallTerm E getUnknownType lhv rhv"

definition getSignTerm :: "env \<Rightarrow> Term \<Rightarrow> Term option" where
  "getSignTerm E rhv = do {
     ty \<leftarrow> SignTerm_getTermType E rhv;
     Some (mk_SignTerm ty rhv) }"

definition getAxiomTerm :: "Term \<Rightarrow> Term \<Rightarrow> Term option" where
  "getAxiomTerm lhv rhv = mk_AxiomTerm (AxiomTerm_getTermType lhv rhv) lhv rhv"

definition getBoundTerm :: "Term \<Rightarrow> Term" where
  "getBoundTerm rhv = mk_BoundTerm (getInteger 64 Unsigned) rhv"

text \<open>\<open>setType\<close> copies the term with the new type and calls the class's \<open>update\<close>, which
  does something for casts only.\<close>

definition setType :: "env \<Rightarrow> Type \<Rightarrow> Term \<Rightarrow> Term option" where
  "setType E ty t = (case t of
     Term c old nm subs \<Rightarrow> (case (c, subs) of
         (CastTerm se, [rhv]) \<Rightarrow> do { nm' \<leftarrow> CastTerm_update E ty se rhv; Some (Term c ty nm' subs) }
       | (CastTerm se, _) \<Rightarrow> None
       | _ \<Rightarrow> Some (Term c ty nm subs)))"

section \<open>The accept methods\<close>

definition AxiomTerm_accept :: "(Term \<Rightarrow> Term option) \<Rightarrow> Term \<Rightarrow> Term option" where
  "AxiomTerm_accept tr t = (case subterms t of
     [lhv, rhv] \<Rightarrow> do { l \<leftarrow> tr lhv; r \<leftarrow> tr rhv;
       if lhv \<noteq> l \<or> rhv \<noteq> r then getAxiomTerm l r else Some t }
   | _ \<Rightarrow> None)"

definition BinaryTerm_accept :: "env \<Rightarrow> (Term \<Rightarrow> Term option) \<Rightarrow> ArithType \<Rightarrow> Term \<Rightarrow> Term option" where
  "BinaryTerm_accept E tr opc t = (case subterms t of
     [lhv, rhv] \<Rightarrow> do { l \<leftarrow> tr lhv; r \<leftarrow> tr rhv;
       if lhv \<noteq> l \<or> rhv \<noteq> r then getBinaryTerm E opc l r else Some t }
   | _ \<Rightarrow> None)"

definition BoundTerm_accept :: "(Term \<Rightarrow> Term option) \<Rightarrow> Term \<Rightarrow> Term option" where
  "BoundTerm_accept tr t = (case subterms t of
     [rhv] \<Rightarrow> do { r \<leftarrow> tr rhv; if rhv \<noteq> r then Some (getBoundTerm r) else Some t }
   | _ \<Rightarrow> None)"

definition CastTerm_accept :: "env \<Rightarrow> (Term \<Rightarrow> Term option) \<Rightarrow> bool \<Rightarrow> Term \<Rightarrow> Term option" where
  "CastTerm_accept E tr signExtend t = (case subterms t of
     [rhv] \<Rightarrow> do { r \<leftarrow> tr rhv;
       if rhv \<noteq> r then getCastTerm E (ttype t) signExtend r else Some t }
   | _ \<Rightarrow> None)"

definition CmpTerm_accept :: "env \<Rightarrow> (Term \<Rightarrow> Term option) \<Rightarrow> ConditionType \<Rightarrow> Term \<Rightarrow> Term option" where
  "CmpTerm_accept E tr opc t = (case subterms t of
     [lhv, rhv] \<Rightarrow> do { l \<leftarrow> tr lhv; r \<leftarrow> tr rhv;
       if lhv \<noteq> l \<or> rhv \<noteq> r then getCmpTerm E opc l r else Some t }
   | _ \<Rightarrow> None)"

definition GepTerm_accept :: "env \<Rightarrow> (Term \<Rightarrow> Term option) \<Rightarrow> bool \<Rightarrow> Term \<Rightarrow> Term option" where
  "GepTerm_accept E tr inb t = (case subterms t of
     base # shifts \<Rightarrow> do { b \<leftarrow> tr base; ss \<leftarrow> omap tr shifts;
       if base \<noteq> b \<or> shifts \<noteq> ss then getGepTerm E b ss inb else Some t }
   | [] \<Rightarrow> None)"

definition LoadTerm_accept :: "env \<Rightarrow> (Term \<Rightarrow> Term option) \<Rightarrow> Term \<Rightarrow> Term option" where
  "LoadTerm_accept E tr t = (case subterms t of
     [rhv] \<Rightarrow> do { r \<leftarrow> tr rhv; if rhv \<noteq> r then getLoadTerm E r else Some t }
   | _ \<Rightarrow> None)"

definition OpaqueCallTerm_accept :: "env \<Rightarrow> (Term \<Rightarrow> Term option) \<Rightarrow> Term \<Rightarrow> Term option" where
  "OpaqueCallTerm_accept E tr t = (case subterms t of
     lhv # rhv \<Rightarrow> do { l \<leftarrow> tr lhv; rs \<leftarrow> omap tr rhv;
       if lhv \<noteq> l \<or> rhv \<noteq> rs then Some (getOpaqueCallTerm E l rs) else Some t }
   | [] \<Rightarrow> None)"

definition OpaqueIndexingTerm_accept :: "(Term \<Rightarrow> Term option) \<Rightarrow> Term \<Rightarrow> Term option" where
  "OpaqueIndexingTerm_accept tr t = (case subterms t of
     [lhv, rhv] \<Rightarrow> do { l \<leftarrow> tr lhv; r \<leftarrow> tr rhv;
       if lhv \<noteq> l \<or> rhv \<noteq> r then Some (getOpaqueIndexingTerm l r) else Some t }
   | _ \<Rightarrow> None)"

definition OpaqueMemberAccessTerm_accept ::
  "(Term \<Rightarrow> Term option) \<Rightarrow> string \<Rightarrow> bool \<Rightarrow> Term \<Rightarrow> Term option" where
  "OpaqueMemberAccessTerm_accept tr prop indirect t = (case subterms t of
     [lhv] \<Rightarrow> do { l \<leftarrow> tr lhv;
       if lhv \<noteq> l then Some (getOpaqueMemberAccessTerm l prop indirect) else Some t }
   | _ \<Rightarrow> None)"

definition ReadPropertyTerm_accept :: "env \<Rightarrow> (Term \<Rightarrow> Term option) \<Rightarrow> Term \<Rightarrow> Term option" where
  "ReadPropertyTerm_accept E tr t = (case subterms t of
     [rhv, propName] \<Rightarrow> do { r \<leftarrow> tr rhv; p \<leftarrow> tr propName;
       if rhv \<noteq> r \<or> propName \<noteq> p then getReadPropertyTerm E (ttype t) p r else Some t }
   | _ \<Rightarrow> None)"

definition SignTerm_accept :: "env \<Rightarrow> (Term \<Rightarrow> Term option) \<Rightarrow> Term \<Rightarrow> Term option" where
  "SignTerm_accept E tr t = (case subterms t of
     [rhv] \<Rightarrow> do { r \<leftarrow> tr rhv; if rhv \<noteq> r then getSignTerm E r else Some t }
   | _ \<Rightarrow> None)"

definition TernaryTerm_accept :: "env \<Rightarrow> (Term \<Rightarrow> Term option) \<Rightarrow> Term \<Rightarrow> Term option" where
  "TernaryTerm_accept E tr t = (case subterms t of
     [cnd, tru, fls] \<Rightarrow> do { c \<leftarrow> tr cnd; a \<leftarrow> tr tru; b \<leftarrow> tr fls;
       if cnd \<noteq> c \<or> tru \<noteq> a \<or> fls \<noteq> b then getTernaryTerm E c a b else Some t }
   | _ \<Rightarrow> None)"

definition UnaryTerm_accept :: "(Term \<Rightarrow> Term option) \<Rightarrow> UnaryArithType \<Rightarrow> Term \<Rightarrow> Term option" where
  "UnaryTerm_accept tr opc t = (case subterms t of
     [rhv] \<Rightarrow> do { r \<leftarrow> tr rhv; if rhv \<noteq> r then Some (getUnaryTerm opc r) else Some t }
   | _ \<Rightarrow> None)"

text \<open>The classes without subterms answer themselves.\<close>

definition accept :: "env \<Rightarrow> (Term \<Rightarrow> Term option) \<Rightarrow> Term \<Rightarrow> Term option" where
  "accept E tr t = (case tclass t of
      AxiomTerm \<Rightarrow> AxiomTerm_accept tr t
    | BinaryTerm opc \<Rightarrow> BinaryTerm_accept E tr opc t
    | BoundTerm \<Rightarrow> BoundTerm_accept tr t
    | CastTerm se \<Rightarrow> CastTerm_accept E tr se t
    | CmpTerm opc \<Rightarrow> CmpTerm_accept E tr opc t
    | GepTerm inb \<Rightarrow> GepTerm_accept E tr inb t
    | LoadTerm \<Rightarrow> LoadTerm_accept E tr t
    | OpaqueCallTerm \<Rightarrow> OpaqueCallTerm_accept E tr t
    | OpaqueIndexingTerm \<Rightarrow> OpaqueIndexingTerm_accept tr t
    | OpaqueMemberAccessTerm prop ind \<Rightarrow> OpaqueMemberAccessTerm_accept tr prop ind t
    | ReadPropertyTerm \<Rightarrow> ReadPropertyTerm_accept E tr t
    | SignTerm \<Rightarrow> SignTerm_accept E tr t
    | TernaryTerm \<Rightarrow> TernaryTerm_accept E tr t
    | UnaryTerm opc \<Rightarrow> UnaryTerm_accept tr opc t
    | _ \<Rightarrow> Some t)"

section \<open>Facts about accept\<close>

named_theorems accept_defs \<open>definitions of the accept methods\<close>
declare AxiomTerm_accept_def [accept_defs] BinaryTerm_accept_def [accept_defs]
  BoundTerm_accept_def [accept_defs] CastTerm_accept_def [accept_defs] CmpTerm_accept_def [accept_defs]
  GepTerm_accept_def [accept_defs] LoadTerm_accept_def [accept_defs] OpaqueCallTerm_accept_def [accept_defs]
  OpaqueIndexingTerm_accept_def [accept_defs] OpaqueMemberAccessTerm_accept_def [accept_defs]
  ReadPropertyTerm_accept_def [accept_defs] SignTerm_accept_def [accept_defs]
  TernaryTerm_accept_def [accept_defs] UnaryTerm_accept_def [accept_defs]

text \<open>The factory call of each class on the transformed subterms.\<close>

definition rebuild :: "env \<Rightarrow> term_class \<Rightarrow> Type \<Rightarrow> Term list \<Rightarrow> Term option" where
  "rebuild E c ty ss = (case c of
     AxiomTerm \<Rightarrow> (case ss of [l, r] \<Rightarrow> getAxiomTerm l r | _ \<Rightarrow> None)
   | BinaryTerm opc \<Rightarrow> (case ss of [l, r] \<Rightarrow> getBinaryTerm E opc l r | _ \<Rightarrow> None)
   | BoundTerm \<Rightarrow> (case ss of [r] \<Rightarrow> Some (getBoundTerm r) | _ \<Rightarrow> None)
   | CastTerm se \<Rightarrow> (case ss of [r] \<Rightarrow> getCastTerm E ty se r | _ \<Rightarrow> None)
   | CmpTerm opc \<Rightarrow> (case ss of [l, r] \<Rightarrow> getCmpTerm E opc l r | _ \<Rightarrow> None)
   | GepTerm inb \<Rightarrow> (case ss of b # ss \<Rightarrow> getGepTerm E b ss inb | _ \<Rightarrow> None)
   | LoadTerm \<Rightarrow> (case ss of [r] \<Rightarrow> getLoadTerm E r | _ \<Rightarrow> None)
   | OpaqueCallTerm \<Rightarrow> (case ss of l # rs \<Rightarrow> Some (getOpaqueCallTerm E l rs) | _ \<Rightarrow> None)
   | OpaqueIndexingTerm \<Rightarrow> (case ss of [l, r] \<Rightarrow> Some (getOpaqueIndexingTerm l r) | _ \<Rightarrow> None)
   | OpaqueMemberAccessTerm p i \<Rightarrow> (case ss of [l] \<Rightarrow> Some (getOpaqueMemberAccessTerm l p i) | _ \<Rightarrow> None)
   | ReadPropertyTerm \<Rightarrow> (case ss of [r, p] \<Rightarrow> getReadPropertyTerm E ty p r | _ \<Rightarrow> None)
   | SignTerm \<Rightarrow> (case ss of [r] \<Rightarrow> getSignTerm E r | _ \<Rightarrow> None)
   | TernaryTerm \<Rightarrow> (case ss of [c, a, b] \<Rightarrow> getTernaryTerm E c a b | _ \<Rightarrow> None)
   | UnaryTerm opc \<Rightarrow> (case ss of [r] \<Rightarrow> Some (getUnaryTerm opc r) | _ \<Rightarrow> None)
   | _ \<Rightarrow> None)"

definition arity_ok :: "term_class \<Rightarrow> nat \<Rightarrow> bool" where
  "arity_ok c n = (case c of
     AxiomTerm \<Rightarrow> n = 2 | BinaryTerm opc \<Rightarrow> n = 2 | BoundTerm \<Rightarrow> n = 1 | CastTerm se \<Rightarrow> n = 1
   | CmpTerm opc \<Rightarrow> n = 2 | GepTerm inb \<Rightarrow> n > 0 | LoadTerm \<Rightarrow> n = 1 | OpaqueCallTerm \<Rightarrow> n > 0
   | OpaqueIndexingTerm \<Rightarrow> n = 2 | OpaqueMemberAccessTerm p i \<Rightarrow> n = 1 | ReadPropertyTerm \<Rightarrow> n = 2
   | SignTerm \<Rightarrow> n = 1 | TernaryTerm \<Rightarrow> n = 3 | UnaryTerm opc \<Rightarrow> n = 1
   | _ \<Rightarrow> n = 0)"

lemma length_1: "length xs = Suc 0 \<longleftrightarrow> (\<exists>a. xs = [a])"
  by (cases xs) auto
lemma length_2: "length xs = 2 \<longleftrightarrow> (\<exists>a b. xs = [a, b])"
  by (cases xs; cases "tl xs") auto
lemma length_3: "length xs = 3 \<longleftrightarrow> (\<exists>a b c. xs = [a, b, c])"
  by (cases xs; cases "tl xs"; cases "tl (tl xs)") auto

lemma obind_assoc: "Option.bind (Option.bind m f) g = Option.bind m (\<lambda>x. Option.bind (f x) g)"
  by (cases m) simp_all

lemma obind_ext: "(\<And>x. f x = g x) \<Longrightarrow> Option.bind m f = Option.bind m g"
  by (cases m) simp_all

text \<open>One law for all classes: transform the subterms, rebuild if one of them changed.\<close>

lemma accept_unfold:
  assumes "arity_ok (tclass t) (length (subterms t))"
  shows "accept E tr t = do {
     cs \<leftarrow> omap tr (subterms t);
     if cs = subterms t then Some t else rebuild E (tclass t) (ttype t) cs }"
  using assms
  by (cases "tclass t")
    (auto simp: accept_def accept_defs arity_ok_def rebuild_def length_1 length_2 length_3 gr0_conv_Suc length_Suc_conv obind_assoc
      intro!: obind_ext)

lemma accept_no_arity:
  "\<not> arity_ok (tclass t) (length (subterms t)) \<Longrightarrow> accept E tr t = accept E tr' t"
  by (cases "tclass t") (auto simp: accept_def accept_defs arity_ok_def rebuild_def split: list.split)

lemma accept_cong [fundef_cong]:
  assumes "t = t'" "\<And>s. s \<in> set (subterms t') \<Longrightarrow> tr s = tr' s"
  shows "accept E tr t = accept E tr' t'"
proof (cases "arity_ok (tclass t) (length (subterms t))")
  case True
  have "omap tr (subterms t) = omap tr' (subterms t)" using assms by (intro omap_cong) auto
  then show ?thesis using accept_unfold[OF True] assms(1) by simp
next
  case False
  show ?thesis using accept_no_arity[OF False, of E tr tr'] assms(1) by blast
qed

section \<open>Well-formed terms\<close>

text \<open>The name a class gives a term of a type with subterms of given names.\<close>

definition name_ok :: "env \<Rightarrow> term_class \<Rightarrow> Type \<Rightarrow> string list \<Rightarrow> string \<Rightarrow> bool" where
  "name_ok E c ty ns nm = (case c of
      ArgumentCountTerm \<Rightarrow> nm = ''<arg_count>''
    | AxiomTerm \<Rightarrow> nm = ''('' @ ns ! 0 @ '' with axiom '' @ ns ! 1 @ '')''
    | BinaryTerm opc \<Rightarrow> nm = ''('' @ ns ! 0 @ '' '' @ arithString opc @ '' '' @ ns ! 1 @ '')''
    | BoundTerm \<Rightarrow> nm = ''bound('' @ ns ! 0 @ '')''
    | CastTerm se \<Rightarrow> (\<exists>s. toString E ty = Some s \<and>
        nm = ''cast('' @ (if se then ''+'' else '''') @ s @ '', '' @ ns ! 0 @ '')'')
    | CmpTerm opc \<Rightarrow> (\<exists>s. conditionString opc = Some s \<and>
        nm = ''('' @ ns ! 0 @ '' '' @ s @ '' '' @ ns ! 1 @ '')'')
    | FreeVarTerm v \<Rightarrow> nm = v
    | GepTerm inb \<Rightarrow> nm = ''gep'' @ (if inb then ''[inbounds]'' else '''') @ ''('' @ ns ! 0 @ '','' @
        env_fold E ''0'' (\<lambda>acc e. acc @ ''+'' @ e) (tl ns) @ '')''
    | LoadTerm \<Rightarrow> nm = ''*('' @ ns ! 0 @ '')''
    | OpaqueBoolConstantTerm b \<Rightarrow> nm = (if b then ''true'' else ''false'')
    | OpaqueBuiltinTerm v \<Rightarrow> nm = CHR 0x5C # v
    | OpaqueCallTerm \<Rightarrow> nm = ns ! 0 @ ''('' @
        env_reduce E '''' (\<lambda>acc e. acc @ '', '' @ e) (tl ns) @ '')''
    | OpaqueFloatingConstantTerm d \<Rightarrow> nm = env_double E d
    | OpaqueIndexingTerm \<Rightarrow> nm = ns ! 0 @ ''['' @ ns ! 1 @ '']''
    | OpaqueIntConstantTerm v \<Rightarrow> nm = int_to_string (sint v)
    | OpaqueInvalidPtrTerm \<Rightarrow> nm = ''<invalid>''
    | OpaqueMemberAccessTerm p i \<Rightarrow> nm = ns ! 0 @ (if i then ''->'' else ''.'') @ p
    | OpaqueNamedConstantTerm v \<Rightarrow> nm = ''@'' @ v
    | OpaqueNullPtrTerm \<Rightarrow> nm = ''<nullptr>''
    | OpaqueStringConstantTerm v \<Rightarrow> nm = v
    | OpaqueUndefTerm \<Rightarrow> nm = ''<undef>''
    | OpaqueVarTerm v \<Rightarrow> nm = v
    | ReadPropertyTerm \<Rightarrow> nm = ''read('' @ ns ! 1 @ '','' @ ns ! 0 @ '')''
    | ReturnPtrTerm f \<Rightarrow> nm = ''&'' @ [CHR 0x5C] @ ''result_'' @ f
    | ReturnValueTerm f \<Rightarrow> nm = [CHR 0x5C] @ ''result_'' @ f
    | SignTerm \<Rightarrow> nm = ''sign('' @ ns ! 0 @ '')''
    | TernaryTerm \<Rightarrow> nm = ''('' @ ns ! 0 @ '' ? '' @ ns ! 1 @ '' : '' @ ns ! 2 @ '')''
    | UnaryTerm opc \<Rightarrow> nm = unaryArithString opc @ ''('' @ ns ! 0 @ '')''
    | ValueTerm v g \<Rightarrow> nm = v @ (if g then ''.global'' else '''')
    | VarArgumentTerm i \<Rightarrow> nm = ''<vararg'' @ nat_to_string (unat i) @ ''>''
    | _ \<Rightarrow> True)"

text \<open>The invariant of every term: its class's arity, the name its constructor computes, a
  \<open>Bool\<close> axiom.  The type is free, because of \<open>setType\<close>.\<close>

fun wf_term :: "env \<Rightarrow> Term \<Rightarrow> bool" where
  "wf_term E (Term c ty nm ss) =
     (arity_ok c (length ss) \<and> name_ok E c ty (map tname ss) nm \<and>
      (c = AxiomTerm \<longrightarrow> ttype (ss ! 1) = TBool) \<and> (\<forall>s\<in>set ss. wf_term E s))"

named_theorems mk_defs \<open>constructor definitions\<close>
declare mk_ArgumentTerm_def [mk_defs] mk_ArgumentCountTerm_def [mk_defs] mk_AxiomTerm_def [mk_defs]
  mk_BinaryTerm_def [mk_defs] mk_BoundTerm_def [mk_defs] mk_CastTerm_def [mk_defs] CastTerm_update_def [mk_defs]
  mk_CmpTerm_def [mk_defs] mk_ConstTerm_def [mk_defs] mk_FreeVarTerm_def [mk_defs] mk_GepTerm_def [mk_defs]
  mk_LoadTerm_def [mk_defs] mk_OpaqueBigIntConstantTerm_def [mk_defs] mk_OpaqueBoolConstantTerm_def [mk_defs]
  mk_OpaqueBuiltinTerm_def [mk_defs] mk_OpaqueCallTerm_def [mk_defs] mk_OpaqueFloatingConstantTerm_def [mk_defs]
  mk_OpaqueIndexingTerm_def [mk_defs] mk_OpaqueIntConstantTerm_def [mk_defs] mk_OpaqueInvalidPtrTerm_def [mk_defs]
  mk_OpaqueMemberAccessTerm_def [mk_defs] mk_OpaqueNamedConstantTerm_def [mk_defs] mk_OpaqueNullPtrTerm_def [mk_defs]
  mk_OpaqueStringConstantTerm_def [mk_defs] mk_OpaqueUndefTerm_def [mk_defs] mk_OpaqueVarTerm_def [mk_defs]
  mk_ReadPropertyTerm_def [mk_defs] mk_ReturnPtrTerm_def [mk_defs] mk_ReturnValueTerm_def [mk_defs]
  mk_SignTerm_def [mk_defs] mk_TernaryTerm_def [mk_defs] mk_UnaryTerm_def [mk_defs] mk_ValueTerm_def [mk_defs]
  mk_VarArgumentTerm_def [mk_defs]

named_theorems get_defs \<open>factory methods\<close>
declare getArgumentTermExternal_def [get_defs] getArgumentCountTerm_def [get_defs] getVarArgumentTerm_def [get_defs]
  getNullPtrTerm_def [get_defs] getInvalidPtrTerm_def [get_defs] getBooleanTerm_def [get_defs]
  getTrueTerm_def [get_defs] getFalseTerm_def [get_defs] getIntTerm_typed_def [get_defs] getIntTerm_def [get_defs]
  getRealTerm_def [get_defs] getValueTerm_def [get_defs] getFreeVarTerm_def [get_defs] getTernaryTerm_def [get_defs]
  getBinaryTerm_def [get_defs] getUnaryTerm_def [get_defs] getLoadTerm_def [get_defs] getCastTerm_def [get_defs]
  getReadPropertyTerm_def [get_defs] getGepTerm_def [get_defs]
  getCmpTerm_def [get_defs] getOpaqueVarTerm_def [get_defs] getOpaqueBuiltinTerm_def [get_defs]
  getOpaqueNamedConstantTerm_def [get_defs] getOpaqueConstantTerm_int_def [get_defs]
  getOpaqueConstantTerm_double_def [get_defs] getOpaqueConstantTerm_bool_def [get_defs]
  getOpaqueConstantTerm_string_def [get_defs] getOpaqueIndexingTerm_def [get_defs]
  getOpaqueMemberAccessTerm_def [get_defs] getOpaqueCallTerm_def [get_defs] getSignTerm_def [get_defs]
  getAxiomTerm_def [get_defs] getBoundTerm_def [get_defs]

lemmas wf_unfold = arity_ok_def name_ok_def mk_defs bind_Some_iff

lemma wf_leaf_terms [simp]:
  "wf_term E (getArgumentTermExternal k nm ty)" "wf_term E getArgumentCountTerm"
  "wf_term E (getVarArgumentTerm k)" "wf_term E getNullPtrTerm" "wf_term E getInvalidPtrTerm"
  "wf_term E (getBooleanTerm b)" "wf_term E getTrueTerm" "wf_term E getFalseTerm"
  "wf_term E (getIntTerm_typed v ty)" "wf_term E (getIntTerm v sz sg)" "wf_term E (getRealTerm E d)"
  "wf_term E (getValueTerm ty nm g)" "wf_term E (getFreeVarTerm ty nm)" "wf_term E (getOpaqueVarTerm nm)"
  "wf_term E (getOpaqueBuiltinTerm nm)" "wf_term E (getOpaqueNamedConstantTerm nm)"
  "wf_term E (getOpaqueConstantTerm_int v bits)" "wf_term E (getOpaqueConstantTerm_double E d)"
  "wf_term E (getOpaqueConstantTerm_bool x)" "wf_term E (getOpaqueConstantTerm_string nm)"
  by (simp_all add: get_defs wf_unfold)

lemma wf_get_total [simp]:
  "wf_term E r \<Longrightarrow> wf_term E (getUnaryTerm u r)"
  "wf_term E r \<Longrightarrow> wf_term E (getBoundTerm r)"
  "wf_term E l \<Longrightarrow> wf_term E r \<Longrightarrow> wf_term E (getOpaqueIndexingTerm l r)"
  "wf_term E l \<Longrightarrow> wf_term E (getOpaqueMemberAccessTerm l p i)"
  "wf_term E l \<Longrightarrow> \<forall>r\<in>set rs. wf_term E r \<Longrightarrow> wf_term E (getOpaqueCallTerm E l rs)"
  by (simp_all add: get_defs wf_unfold)

lemma wf_get_partial:
  "getAxiomTerm l r = Some t \<Longrightarrow> wf_term E l \<Longrightarrow> wf_term E r \<Longrightarrow> wf_term E t"
  "getBinaryTerm E opc l r = Some t \<Longrightarrow> wf_term E l \<Longrightarrow> wf_term E r \<Longrightarrow> wf_term E t"
  "getCmpTerm E c l r = Some t \<Longrightarrow> wf_term E l \<Longrightarrow> wf_term E r \<Longrightarrow> wf_term E t"
  "getTernaryTerm E a l r = Some t \<Longrightarrow> wf_term E a \<Longrightarrow> wf_term E l \<Longrightarrow> wf_term E r \<Longrightarrow> wf_term E t"
  "getLoadTerm E r = Some t \<Longrightarrow> wf_term E r \<Longrightarrow> wf_term E t"
  "getSignTerm E r = Some t \<Longrightarrow> wf_term E r \<Longrightarrow> wf_term E t"
  "getCastTerm E ty se r = Some t \<Longrightarrow> wf_term E r \<Longrightarrow> wf_term E t"
  "getGepTerm E l rs inb = Some t \<Longrightarrow> wf_term E l \<Longrightarrow> \<forall>r\<in>set rs. wf_term E r \<Longrightarrow> wf_term E t"
  by (auto simp: get_defs wf_unfold split: if_splits)

lemma wf_getReadPropertyTerm:
  assumes "getReadPropertyTerm E ty p r = Some t" "wf_term E p" "wf_term E r"
  shows "wf_term E t"
proof -
  obtain r' where r: "(case ttype r of TPointer p ms \<Rightarrow> Some r
      | _ \<Rightarrow> getCastTerm E (getPointer getUnknownType 0) False r) = Some r'"
    and t: "t = mk_ReadPropertyTerm ty p r'"
    using assms(1) by (auto simp: getReadPropertyTerm_def bind_Some_iff)
  have "wf_term E r'" using r assms(3) wf_get_partial(7) by (auto split: Type.splits)
  then show ?thesis using t assms(2) by (simp add: wf_unfold)
qed

lemma wf_rebuild:
  assumes "rebuild E c ty ss = Some t" "\<forall>s\<in>set ss. wf_term E s"
  shows "wf_term E t"
  using assms
  by (cases c)
    (auto simp: rebuild_def split: list.splits intro: wf_get_partial wf_getReadPropertyTerm simp del: wf_term.simps)

lemma wf_arity: "wf_term E t \<Longrightarrow> arity_ok (tclass t) (length (subterms t))"
  by (cases t) simp

lemma wf_subterm: "wf_term E t \<Longrightarrow> s \<in> set (subterms t) \<Longrightarrow> wf_term E s"
  by (cases t) simp

lemma wf_accept:
  assumes "accept E tr t = Some t'" "wf_term E t"
    and "\<And>s s'. s \<in> set (subterms t) \<Longrightarrow> tr s = Some s' \<Longrightarrow> wf_term E s'"
  shows "wf_term E t'"
proof -
  obtain cs where cs: "omap tr (subterms t) = Some cs"
      "(if cs = subterms t then Some t else rebuild E (tclass t) (ttype t) cs) = Some t'"
    using assms(1) by (auto simp: accept_unfold[OF wf_arity[OF assms(2)]] bind_Some_iff)
  have "\<forall>s\<in>set cs. wf_term E s"
    using cs(1) assms(3) by (auto simp: omap_Some_list_all2 list_all2_conv_all_nth in_set_conv_nth) metis
  then show ?thesis using cs(2) assms(2) wf_rebuild by (auto split: if_splits)
qed

lemma wf_setType:
  assumes "setType E ty t = Some t'" "wf_term E t"
  shows "wf_term E t' \<and> ttype t' = ty \<and> tclass t' = tclass t \<and> subterms t' = subterms t"
  using assms
  by (cases t; cases "tclass t")
    (auto simp: setType_def wf_unfold split: list.splits)

section \<open>The types of rebuilt terms\<close>

text \<open>The typing rules: the type \<open>ty\<close> of a term of class \<open>c\<close> over the operands \<open>ss\<close> that replaces one of type \<open>old\<close>.\<close>

definition typing :: "env \<Rightarrow> term_class \<Rightarrow> Type \<Rightarrow> Term list \<Rightarrow> Type \<Rightarrow> bool" where
  "typing E c old ss ty = (case c of
      BinaryTerm opc \<Rightarrow> merge E (ttype (ss ! 0)) (ttype (ss ! 1)) = Some ty
    | CmpTerm opc \<Rightarrow> (\<exists>m. merge E (ttype (ss ! 0)) (ttype (ss ! 1)) = Some m \<and> (isValid m \<longrightarrow> ty = TBool) \<and> (isInvalid m \<longrightarrow> ty = m))
    | TernaryTerm \<Rightarrow> merge E (ttype (ss ! 1)) (ttype (ss ! 2)) = Some ty
    | UnaryTerm opc \<Rightarrow> ty = ttype (ss ! 0)
    | AxiomTerm \<Rightarrow> ty = ttype (ss ! 0) \<and> ttype (ss ! 1) = TBool
    | BoundTerm \<Rightarrow> ty = TInteger 64 Unsigned
    | CastTerm se \<Rightarrow> ty = old
    | ReadPropertyTerm \<Rightarrow> ty = old
    | LoadTerm \<Rightarrow> (case ttype (ss ! 0) of TPointer to ms \<Rightarrow> ty = to | TTypeError msg \<Rightarrow> ty = TTypeError msg | _ \<Rightarrow> isInvalid ty)
    | SignTerm \<Rightarrow> (case ttype (ss ! 0) of TInteger b sg \<Rightarrow> ty = TInteger 1 Unknown | TFloat \<Rightarrow> ty = TInteger 1 Unknown
        | TTypeError msg \<Rightarrow> ty = TTypeError msg | _ \<Rightarrow> isInvalid ty)
    | GepTerm inb \<Rightarrow> (\<exists>to. getGepChild E (ttype (hd ss)) (tl ss) = Some to \<and>
        (isValid to \<longrightarrow> ty = TPointer to 0) \<and> (isInvalid to \<longrightarrow> ty = to))
    | OpaqueCallTerm \<Rightarrow> ty = TUnknown
    | OpaqueIndexingTerm \<Rightarrow> ty = TUnknown
    | OpaqueMemberAccessTerm p i \<Rightarrow> ty = TUnknown
    | _ \<Rightarrow> False)"

text \<open>A property is read of a pointer: another operand is cast to one.\<close>

definition operands :: "term_class \<Rightarrow> Term list \<Rightarrow> Term list \<Rightarrow> bool" where
  "operands c ss ss' = (if c = ReadPropertyTerm \<and> (\<forall>to ms. ttype (ss ! 0) \<noteq> TPointer to ms)
     then \<exists>nm. ss' = [Term (CastTerm False) (TPointer TUnknown 0) nm [ss ! 0], ss ! 1] else ss' = ss)"

lemma get_typed:
  "getBinaryTerm E op l r = Some t \<Longrightarrow> tclass t = BinaryTerm op \<and> subterms t = [l, r] \<and> merge E (ttype l) (ttype r) = Some (ttype t)"
  "getCmpTerm E cd l r = Some t \<Longrightarrow> tclass t = CmpTerm cd \<and> subterms t = [l, r] \<and>
     (\<exists>m. merge E (ttype l) (ttype r) = Some m \<and> (isValid m \<longrightarrow> ttype t = TBool) \<and> (isInvalid m \<longrightarrow> ttype t = m))"
  "getTernaryTerm E a l r = Some t \<Longrightarrow> tclass t = TernaryTerm \<and> subterms t = [a, l, r] \<and> merge E (ttype l) (ttype r) = Some (ttype t)"
  "getAxiomTerm l r = Some t \<Longrightarrow> tclass t = AxiomTerm \<and> subterms t = [l, r] \<and> ttype t = ttype l \<and> ttype r = TBool"
  "getCastTerm E ty se r = Some t \<Longrightarrow> tclass t = CastTerm se \<and> subterms t = [r] \<and> ttype t = ty"
  "getGepTerm E b ss inb = Some t \<Longrightarrow> tclass t = GepTerm inb \<and> subterms t = b # ss \<and>
     (\<exists>to. getGepChild E (ttype b) ss = Some to \<and> (isValid to \<longrightarrow> ttype t = TPointer to 0) \<and> (isInvalid to \<longrightarrow> ttype t = to))"
  by (auto simp: get_defs mk_defs bind_Some_iff BinaryTerm_getTermType_def CmpTerm_getTermType_def TernaryTerm_getTermType_def
      AxiomTerm_getTermType_def getBool_def getPointer_def isInvalid_def split: if_splits)

lemma getLoad_typed: "getLoadTerm E r = Some t \<Longrightarrow> tclass t = LoadTerm \<and> subterms t = [r] \<and> typing E LoadTerm old [r] (ttype t)"
  by (cases "ttype r") (auto simp: getLoadTerm_def mk_LoadTerm_def bind_Some_iff LoadTerm_getTermType_def getTypeError_def
      isInvalid_def isValid_def typing_def)

lemma getSign_typed: "getSignTerm E r = Some t \<Longrightarrow> tclass t = SignTerm \<and> subterms t = [r] \<and> typing E SignTerm old [r] (ttype t)"
  by (cases "ttype r") (auto simp: getSignTerm_def mk_SignTerm_def bind_Some_iff SignTerm_getTermType_def getTypeError_def
      getInteger_def isInvalid_def isValid_def typing_def)

lemma getReadProperty_typed:
  "getReadPropertyTerm E ty p r = Some t \<Longrightarrow> tclass t = ReadPropertyTerm \<and> ttype t = ty \<and> operands ReadPropertyTerm [r, p] (subterms t)"
  by (cases "ttype r") (auto simp: getReadPropertyTerm_def mk_ReadPropertyTerm_def getCastTerm_def mk_CastTerm_def bind_Some_iff operands_def
      getPointer_def getUnknownType_def isInvalid_def isValid_def)

lemma rebuild_typed:
  assumes "rebuild E c ty ss = Some t"
  shows "tclass t = c \<and> typing E c ty ss (ttype t) \<and> operands c ss (subterms t)"
proof (cases "c = LoadTerm \<or> c = SignTerm \<or> c = ReadPropertyTerm")
  case True
  then show ?thesis using assms
    by (auto simp: rebuild_def operands_def[of LoadTerm] operands_def[of SignTerm] typing_def[of E ReadPropertyTerm]
        dest: getLoad_typed[where old = ty] getSign_typed[where old = ty] getReadProperty_typed split: list.splits)
next
  case False
  then show ?thesis
    using assms
    by (cases c) (auto simp: rebuild_def typing_def operands_def getUnaryTerm_def mk_UnaryTerm_def UnaryTerm_getTermType_def
        getBoundTerm_def mk_BoundTerm_def getInteger_def getOpaqueCallTerm_def mk_OpaqueCallTerm_def getOpaqueIndexingTerm_def
        mk_OpaqueIndexingTerm_def getOpaqueMemberAccessTerm_def mk_OpaqueMemberAccessTerm_def getUnknownType_def
        dest!: get_typed split: list.splits)
qed

lemma accept_typed:
  assumes "accept E tr t = Some t'" "wf_term E t"
  shows "tclass t' = tclass t \<and> (\<exists>ss. omap tr (subterms t) = Some ss \<and>
    (if ss = subterms t then t' = t else typing E (tclass t) (ttype t) ss (ttype t') \<and> operands (tclass t) ss (subterms t')))"
proof -
  obtain ss where ss: "omap tr (subterms t) = Some ss"
      "(if ss = subterms t then Some t else rebuild E (tclass t) (ttype t) ss) = Some t'"
    using assms(1) by (auto simp: accept_unfold[OF wf_arity[OF assms(2)]] bind_Some_iff)
  show ?thesis
  proof (cases "ss = subterms t")
    case False
    then have "rebuild E (tclass t) (ttype t) ss = Some t'" using ss(2) by simp
    then show ?thesis using rebuild_typed ss(1) False by auto
  qed (use ss in auto)
qed

section \<open>Properties\<close>

text \<open>C27: The operations that copy terms keep them well formed.  \<open>setType\<close> sets the type, keeps class and operands,
  and keeps the name of every class but a cast, which prints its new type.  \<open>accept\<close> with a transformation that keeps the
  operands well formed answers the term itself if no operand changes, and otherwise a well-formed term of
  the class over the new operands, with the name of the class and the type its typing rule gives the new operands
  (the operand of a property is cast to a pointer first, where it is none).\<close>

theorem term_ops_wf:
  assumes "wf_term E t"
    and "\<forall>s\<in>set (subterms t). \<forall>s'. tr s = Some s' \<longrightarrow> wf_term E s'"
  shows "(\<forall>t'. setType E ty t = Some t' \<longrightarrow> wf_term E t' \<and> ttype t' = ty \<and> tclass t' = tclass t \<and> subterms t' = subterms t \<and>
            ((\<forall>se. tclass t \<noteq> CastTerm se) \<longrightarrow> tname t' = tname t)) \<and>
         (\<forall>t'. accept E tr t = Some t' \<longrightarrow> wf_term E t' \<and> tclass t' = tclass t \<and>
            (\<exists>ss. omap tr (subterms t) = Some ss \<and>
              (if ss = subterms t then t' = t else typing E (tclass t) (ttype t) ss (ttype t') \<and> operands (tclass t) ss (subterms t'))))"
proof (intro conjI allI impI)
  fix t' assume t': "setType E ty t = Some t'"
  show "wf_term E t'" "ttype t' = ty" "tclass t' = tclass t" "subterms t' = subterms t"
    using wf_setType[OF t' assms(1)] by blast+
  show "tname t' = tname t" if "\<forall>se. tclass t \<noteq> CastTerm se"
    using t' that by (cases t) (auto simp: setType_def split: term_class.splits)
next
  fix t' assume t': "accept E tr t = Some t'"
  show "wf_term E t'" using wf_accept[OF t' assms(1)] assms(2) by blast
  show "tclass t' = tclass t" "\<exists>ss. omap tr (subterms t) = Some ss \<and>
      (if ss = subterms t then t' = t else typing E (tclass t) (ttype t) ss (ttype t') \<and> operands (tclass t) ss (subterms t'))"
    using accept_typed[OF t' assms(1)] by blast+
qed

theorem term_ops_wf_witness:
  "let x = getValueTerm (TPointer (TInteger 32 Signed) 0) ''x'' False; y = getValueTerm (TPointer TFloat 0) ''y'' False in
   \<exists>t t'. getLoadTerm empty_env x = Some t \<and> accept empty_env (\<lambda>s. Some y) t = Some t' \<and>
     wf_term empty_env t' \<and> ttype t' = TFloat \<and> tname t' = ''*(y)'' \<and>
     setType empty_env TBool t = Some (Term LoadTerm TBool ''*(x)'' [x])"
proof -
  let ?x = "getValueTerm (TPointer (TInteger 32 Signed) 0) ''x'' False" and ?y = "getValueTerm (TPointer TFloat 0) ''y'' False"
  let ?t = "Term LoadTerm (TInteger 32 Signed) ''*(x)'' [?x]"
  have t: "getLoadTerm empty_env ?x = Some ?t"
    by (simp add: get_defs mk_defs LoadTerm_getTermType_def isInvalid_def isValid_def)
  have wf: "wf_term empty_env ?t" by (simp add: get_defs wf_unfold)
  obtain t' where t': "accept empty_env (\<lambda>s. Some ?y) ?t = Some t'"
    by (simp add: accept_def LoadTerm_accept_def get_defs mk_defs LoadTerm_getTermType_def isInvalid_def isValid_def)
  obtain r where r: "setType empty_env TBool ?t = Some r" by (simp add: setType_def)
  have y: "\<forall>s\<in>set (subterms ?t). \<forall>s'. Some ?y = Some s' \<longrightarrow> wf_term empty_env s'" by simp
  note spec = term_ops_wf[where ty = TBool, OF wf y]
  have "wf_term empty_env t' \<and> tclass t' = LoadTerm \<and> ttype t' = TFloat \<and> subterms t' = [?y]"
    using conjunct2[OF spec, rule_format, OF t'] by (auto simp: typing_def operands_def get_defs mk_defs split: if_splits)
  moreover have "r = Term LoadTerm TBool ''*(x)'' [?x]"
    using conjunct1[OF spec, rule_format, OF r] by (cases r) simp
  ultimately have props: "wf_term empty_env t' \<and> tclass t' = LoadTerm \<and> ttype t' = TFloat \<and> subterms t' = [?y]"
    "r = Term LoadTerm TBool ''*(x)'' [?x]" by blast+
  have "tname t' = ''*(y)''" using props(1) by (cases t') (auto simp: wf_unfold get_defs)
  then show ?thesis using t t' r props by (auto simp: Let_def)
qed

end
