(* ===== verification/TermEquality.thy ===== *)
theory TermEquality
  imports TermFactory
begin

text \<open>
  Equality and hashing of terms (\<open>Term::equals\<close>, \<open>Term::hashCode\<close> and the overrides of the
  classes with extra fields, src/Util/hash.hpp).  The address of a class tag, the id of an
  interned string and the standard library's hash functions are the fields of \<open>hash_env\<close>.
  A double is read from its bits exactly: \<open>double_scaled\<close> is its value times \<open>2 ^ 1074\<close>.
\<close>

section \<open>Doubles\<close>

definition double_exponent :: "64 word \<Rightarrow> nat" where
  "double_exponent d = unat (drop_bit 52 d) mod 2 ^ 11"

definition double_mantissa :: "64 word \<Rightarrow> int" where
  "double_mantissa d = uint d mod 2 ^ 52"

definition double_scaled :: "64 word \<Rightarrow> int option" where
  "double_scaled d =
     (let e = double_exponent d; m = double_mantissa d;
          v = (if e = 0 then m else (2 ^ 52 + m) * 2 ^ (e - 1))
      in if e = 2047 then None else Some (if bit d 63 then - v else v))"

text \<open>\<open>std::abs(a - b) < EPS\<close> with \<open>EPS = 2 ^ -50\<close>: the rounded difference is below
  \<open>EPS\<close> when the exact one is below the midpoint of \<open>EPS\<close> and the double before it,
  \<open>2 ^ -50 - 2 ^ -104\<close>; a difference with an infinity or a NaN never is.\<close>

definition double_close :: "64 word \<Rightarrow> 64 word \<Rightarrow> bool" where
  "double_close a b = (case (double_scaled a, double_scaled b) of
     (Some x, Some y) \<Rightarrow> abs (x - y) < 2 ^ 1024 - 2 ^ 970
   | _ \<Rightarrow> False)"

section \<open>Class tags\<close>

definition class_tag :: "term_class \<Rightarrow> nat" where
  "class_tag c = (case c of
      ArgumentTerm i k \<Rightarrow> 0 | ArgumentCountTerm \<Rightarrow> 1 | AxiomTerm \<Rightarrow> 2 | BoundTerm \<Rightarrow> 3
    | BinaryTerm opc \<Rightarrow> 4 | CastTerm s \<Rightarrow> 5 | CmpTerm opc \<Rightarrow> 6 | ConstTerm \<Rightarrow> 7 | GepTerm b \<Rightarrow> 8
    | LoadTerm \<Rightarrow> 9 | OpaqueBoolConstantTerm b \<Rightarrow> 10 | OpaqueBuiltinTerm v \<Rightarrow> 11
    | OpaqueNamedConstantTerm v \<Rightarrow> 12 | OpaqueCallTerm \<Rightarrow> 13 | OpaqueFloatingConstantTerm d \<Rightarrow> 14
    | OpaqueIndexingTerm \<Rightarrow> 15 | OpaqueInvalidPtrTerm \<Rightarrow> 16 | OpaqueIntConstantTerm v \<Rightarrow> 17
    | OpaqueBigIntConstantTerm \<Rightarrow> 18 | OpaqueNullPtrTerm \<Rightarrow> 19 | OpaqueStringConstantTerm v \<Rightarrow> 20
    | OpaqueUndefTerm \<Rightarrow> 21 | OpaqueVarTerm v \<Rightarrow> 22 | OpaqueMemberAccessTerm p i \<Rightarrow> 23
    | ReadPropertyTerm \<Rightarrow> 24 | ReturnValueTerm f \<Rightarrow> 25 | ReturnPtrTerm f \<Rightarrow> 26 | SignTerm \<Rightarrow> 27
    | TernaryTerm \<Rightarrow> 28 | UnaryTerm opc \<Rightarrow> 29 | ValueTerm v g \<Rightarrow> 30 | FreeVarTerm v \<Rightarrow> 31
    | VarArgumentTerm i \<Rightarrow> 32)"

section \<open>Equality\<close>

text \<open>What the override of a class compares beside \<open>Term::equals\<close>.\<close>

definition ArgumentTerm_extra :: "uint \<times> ArgumentKind \<Rightarrow> uint \<times> ArgumentKind \<Rightarrow> bool" where
  "ArgumentTerm_extra a b = (fst b = fst a \<and> snd b = snd a)"

definition BinaryTerm_extra :: "ArithType \<Rightarrow> ArithType \<Rightarrow> bool" where
  "BinaryTerm_extra a b = (b = a)"

definition CmpTerm_extra :: "ConditionType \<Rightarrow> ConditionType \<Rightarrow> bool" where
  "CmpTerm_extra a b = (b = a)"

definition UnaryTerm_extra :: "UnaryArithType \<Rightarrow> UnaryArithType \<Rightarrow> bool" where
  "UnaryTerm_extra a b = (b = a)"

definition VarArgumentTerm_extra :: "uint \<Rightarrow> uint \<Rightarrow> bool" where
  "VarArgumentTerm_extra a b = (b = a)"

definition OpaqueFloatingConstantTerm_extra :: "64 word \<Rightarrow> 64 word \<Rightarrow> bool" where
  "OpaqueFloatingConstantTerm_extra a b = double_close b a"

definition OpaqueMemberAccessTerm_extra :: "string \<times> bool \<Rightarrow> string \<times> bool \<Rightarrow> bool" where
  "OpaqueMemberAccessTerm_extra a b = (fst b = fst a \<and> snd b = snd a)"

definition extra_equals :: "term_class \<Rightarrow> term_class \<Rightarrow> bool" where
  "extra_equals c c' = (case (c, c') of
      (ArgumentTerm i k, ArgumentTerm i' k') \<Rightarrow> ArgumentTerm_extra (i, k) (i', k')
    | (BinaryTerm a, BinaryTerm b) \<Rightarrow> BinaryTerm_extra a b
    | (CmpTerm a, CmpTerm b) \<Rightarrow> CmpTerm_extra a b
    | (UnaryTerm a, UnaryTerm b) \<Rightarrow> UnaryTerm_extra a b
    | (VarArgumentTerm a, VarArgumentTerm b) \<Rightarrow> VarArgumentTerm_extra a b
    | (OpaqueFloatingConstantTerm a, OpaqueFloatingConstantTerm b) \<Rightarrow> OpaqueFloatingConstantTerm_extra a b
    | (OpaqueMemberAccessTerm p i, OpaqueMemberAccessTerm p' i') \<Rightarrow>
        OpaqueMemberAccessTerm_extra (p, i) (p', i')
    | _ \<Rightarrow> True)"

fun equals :: "Term \<Rightarrow> Term \<Rightarrow> bool" and equal_subterms :: "Term list \<Rightarrow> Term list \<Rightarrow> bool" where
  "equals (Term c ty nm ss) (Term c' ty' nm' ss') =
     (class_tag c = class_tag c' \<and> nm = nm' \<and> equal_subterms ss ss' \<and> extra_equals c c')"
| "equal_subterms [] [] = True"
| "equal_subterms (s # ss) (s' # ss') = (equals s s' \<and> equal_subterms ss ss')"
| "equal_subterms _ _ = False"

section \<open>Hashing\<close>

record hash_env =
  h_tag :: "nat \<Rightarrow> size_t"
  h_name :: "string \<Rightarrow> size_t"
  h_string :: "string \<Rightarrow> size_t"
  h_int :: "nat \<Rightarrow> size_t"
  h_double :: "64 word \<Rightarrow> size_t"

text \<open>\<open>hasher<3, 17>\<close> on a pack of arguments whose hashes are given.\<close>

fun defaultHasher :: "size_t list \<Rightarrow> size_t" where
  "defaultHasher [] = 3"
| "defaultHasher (h # hs) = 17 * defaultHasher hs + h"

fun hash_vector_loop :: "size_t \<Rightarrow> size_t list \<Rightarrow> size_t" where
  "hash_vector_loop res [] = res"
| "hash_vector_loop res (h # hs) = hash_vector_loop (17 * res + h) hs"

definition hash_vector :: "size_t list \<Rightarrow> size_t" where
  "hash_vector hs = hash_vector_loop 3 hs"

definition ArithType_code :: "ArithType \<Rightarrow> nat" where
  "ArithType_code a = (case a of ADD \<Rightarrow> 0 | SUB \<Rightarrow> 1 | MUL \<Rightarrow> 2 | DIV \<Rightarrow> 3 | REM \<Rightarrow> 4 | LAND \<Rightarrow> 5
    | LOR \<Rightarrow> 6 | BAND \<Rightarrow> 7 | BOR \<Rightarrow> 8 | XOR \<Rightarrow> 9 | SHL \<Rightarrow> 10 | ASHR \<Rightarrow> 11 | LSHR \<Rightarrow> 12 | IMPLIES \<Rightarrow> 13)"

definition ConditionType_code :: "ConditionType \<Rightarrow> nat" where
  "ConditionType_code c = (case c of EQ \<Rightarrow> 0 | NEQ \<Rightarrow> 1 | GT \<Rightarrow> 2 | GE \<Rightarrow> 3 | LT \<Rightarrow> 4 | LE \<Rightarrow> 5
    | UGT \<Rightarrow> 6 | UGE \<Rightarrow> 7 | ULT \<Rightarrow> 8 | ULE \<Rightarrow> 9 | TRUE \<Rightarrow> 10 | FALSE \<Rightarrow> 11 | UNKNOWN \<Rightarrow> 12)"

definition UnaryArithType_code :: "UnaryArithType \<Rightarrow> nat" where
  "UnaryArithType_code u = (case u of NEG \<Rightarrow> 0 | NOT \<Rightarrow> 1 | BNOT \<Rightarrow> 2)"

definition ArgumentKind_code :: "ArgumentKind \<Rightarrow> nat" where
  "ArgumentKind_code k = (case k of ANY \<Rightarrow> 0 | STRING \<Rightarrow> 1)"

text \<open>The override of a class hashes its extra fields after \<open>Term::hashCode\<close>.\<close>

definition extra_hash :: "hash_env \<Rightarrow> term_class \<Rightarrow> size_t \<Rightarrow> size_t" where
  "extra_hash H c base = (case c of
      ArgumentTerm i k \<Rightarrow> defaultHasher [base, h_int H (unat i), h_int H (ArgumentKind_code k)]
    | BinaryTerm opc \<Rightarrow> defaultHasher [base, h_int H (ArithType_code opc)]
    | CmpTerm opc \<Rightarrow> defaultHasher [base, h_int H (ConditionType_code opc)]
    | UnaryTerm opc \<Rightarrow> defaultHasher [base, h_int H (UnaryArithType_code opc)]
    | VarArgumentTerm i \<Rightarrow> defaultHasher [base, h_int H (unat i)]
    | OpaqueFloatingConstantTerm d \<Rightarrow> defaultHasher [base, h_double H d]
    | OpaqueMemberAccessTerm p i \<Rightarrow> defaultHasher [base, h_string H p, h_int H (if i then 1 else 0)]
    | _ \<Rightarrow> base)"

fun hashCode :: "hash_env \<Rightarrow> Term \<Rightarrow> size_t" where
  "hashCode H (Term c ty nm ss) =
     extra_hash H c (defaultHasher [h_tag H (class_tag c), h_name H nm, hash_vector (map (hashCode H) ss)])"

section \<open>Facts\<close>

lemma double_close_sym: "double_close a b = double_close b a"
  unfolding double_close_def by (auto simp: abs_minus_commute split: option.splits)

lemma double_close_refl: "double_scaled d \<noteq> None \<Longrightarrow> double_close d d"
  by (auto simp: double_close_def)

definition float_class :: "term_class \<Rightarrow> bool" where
  "float_class c = (case c of OpaqueFloatingConstantTerm d \<Rightarrow> True | _ \<Rightarrow> False)"

fun float_free :: "Term \<Rightarrow> bool" where
  "float_free (Term c ty nm ss) = (\<not> float_class c \<and> (\<forall>s\<in>set ss. float_free s))"

text \<open>The fields an override compares, as one value, to compare two classes at once.\<close>

datatype extra = NoExtra | ExtraArg uint ArgumentKind | ExtraArith ArithType | ExtraCond ConditionType
  | ExtraUnary UnaryArithType | ExtraIdx uint | ExtraFloat "64 word" | ExtraMember string bool

definition extra_of :: "term_class \<Rightarrow> extra" where
  "extra_of c = (case c of
      ArgumentTerm i k \<Rightarrow> ExtraArg i k | BinaryTerm a \<Rightarrow> ExtraArith a | CmpTerm a \<Rightarrow> ExtraCond a
    | UnaryTerm a \<Rightarrow> ExtraUnary a | VarArgumentTerm i \<Rightarrow> ExtraIdx i | OpaqueFloatingConstantTerm d \<Rightarrow> ExtraFloat d
    | OpaqueMemberAccessTerm p i \<Rightarrow> ExtraMember p i | _ \<Rightarrow> NoExtra)"

fun extra_match :: "extra \<Rightarrow> extra \<Rightarrow> bool" where
  "extra_match (ExtraFloat a) (ExtraFloat b) = double_close a b"
| "extra_match a b = (a = b)"

lemmas extra_defs = ArgumentTerm_extra_def BinaryTerm_extra_def CmpTerm_extra_def UnaryTerm_extra_def
  VarArgumentTerm_extra_def OpaqueMemberAccessTerm_extra_def OpaqueFloatingConstantTerm_extra_def

lemma extra_equals_match:
  "class_tag c = class_tag c' \<Longrightarrow> extra_equals c c' = extra_match (extra_of c) (extra_of c')"
  by (cases c; cases c')
    (simp_all add: class_tag_def extra_equals_def extra_of_def extra_defs double_close_sym, auto)

lemma extra_match_sym: "extra_match a b = extra_match b a"
  by (cases a; cases b) (auto simp: double_close_sym)

lemma float_class_extra: "float_class c \<longleftrightarrow> (\<exists>d. extra_of c = ExtraFloat d)"
  by (cases c) (simp_all add: float_class_def extra_of_def)

lemma extra_match_nonfloat: "\<not> float_class c \<Longrightarrow> extra_match (extra_of c) x \<longleftrightarrow> x = extra_of c"
  by (cases "extra_of c"; cases x) (auto simp: float_class_extra)

lemma float_class_tag: "float_class c \<longleftrightarrow> class_tag c = 14"
  by (cases c) (simp_all add: float_class_def class_tag_def)

text \<open>For the other classes, equal tags and extra fields hash alike.\<close>

lemma extra_hash_tag: "extra_hash H c base = (case extra_of c of
      ExtraArg i k \<Rightarrow> defaultHasher [base, h_int H (unat i), h_int H (ArgumentKind_code k)]
    | ExtraArith opc \<Rightarrow> defaultHasher [base, h_int H (ArithType_code opc)]
    | ExtraCond opc \<Rightarrow> defaultHasher [base, h_int H (ConditionType_code opc)]
    | ExtraUnary opc \<Rightarrow> defaultHasher [base, h_int H (UnaryArithType_code opc)]
    | ExtraIdx i \<Rightarrow> defaultHasher [base, h_int H (unat i)]
    | ExtraFloat d \<Rightarrow> defaultHasher [base, h_double H d]
    | ExtraMember p i \<Rightarrow> defaultHasher [base, h_string H p, h_int H (if i then 1 else 0)]
    | NoExtra \<Rightarrow> base)"
  by (cases c) (simp_all add: extra_hash_def extra_of_def)

lemma term_equals_iff:
  "equals (Term c ty nm ss) (Term c' ty' nm' ss') \<longleftrightarrow>
     class_tag c = class_tag c' \<and> nm = nm' \<and> equal_subterms ss ss' \<and> extra_match (extra_of c) (extra_of c')"
  using extra_equals_match by auto

lemma equal_subterms_all2: "equal_subterms xs ys = list_all2 equals xs ys"
  by (induction xs arbitrary: ys; case_tac ys) auto

declare equals.simps [simp del] term_equals_iff [simp]

lemma equals_refl: "float_free t \<Longrightarrow> equals t t"
proof (induction t)
  case (Term c ty nm ss)
  then show ?case by (auto simp: equal_subterms_all2 extra_match_nonfloat list.rel_refl_strong)
qed

lemma equals_sym: "equals a b \<Longrightarrow> equals b a"
proof (induction a arbitrary: b)
  case (Term c ty nm ss)
  obtain c' ty' nm' ss' where b: "b = Term c' ty' nm' ss'" by (cases b)
  have "list_all2 equals ss' ss"
    using Term b by (auto simp: equal_subterms_all2 list_all2_conv_all_nth)
  then show ?case using Term.prems b by (auto simp: equal_subterms_all2 extra_match_sym)
qed

lemma equals_float_free: "equals a b \<Longrightarrow> float_free a \<Longrightarrow> float_free b"
proof (induction a arbitrary: b)
  case (Term c ty nm ss)
  obtain c' ty' nm' ss' where b: "b = Term c' ty' nm' ss'" by (cases b)
  have "\<not> float_class c'" using Term b by (simp add: float_class_tag)
  moreover have "float_free (ss' ! i)" if "i < length ss'" for i
  proof -
    have "equals (ss ! i) (ss' ! i)" "i < length ss"
      using Term.prems(1) b that by (auto simp: equal_subterms_all2 list_all2_conv_all_nth)
    then show ?thesis using Term.IH[of "ss ! i"] Term.prems(2) by simp
  qed
  then have "\<forall>s\<in>set ss'. float_free s" by (auto simp: in_set_conv_nth)
  ultimately show ?case using b by simp
qed

lemma equals_trans: "equals a b \<Longrightarrow> equals b d \<Longrightarrow> float_free a \<Longrightarrow> equals a d"
proof (induction a arbitrary: b d)
  case (Term c ty nm ss)
  obtain c' ty' nm' ss' where b: "b = Term c' ty' nm' ss'" by (cases b)
  obtain c2 ty2 nm2 ss2 where d: "d = Term c2 ty2 nm2 ss2" by (cases d)
  have "list_all2 equals ss ss2"
    unfolding list_all2_conv_all_nth
  proof (intro conjI allI impI)
    have "length ss = length ss'" "length ss' = length ss2"
      using Term.prems b d by (auto simp: equal_subterms_all2 list_all2_conv_all_nth)
    then show "length ss = length ss2" by simp
    fix i assume i: "i < length ss"
    then have "equals (ss ! i) (ss' ! i)" "equals (ss' ! i) (ss2 ! i)"
      using Term.prems b d by (auto simp: equal_subterms_all2 list_all2_conv_all_nth)
    then show "equals (ss ! i) (ss2 ! i)" using Term.IH[of "ss ! i"] Term.prems(3) i by auto
  qed
  moreover have "\<not> float_class c'" using equals_float_free Term.prems b by fastforce
  ultimately show ?case using Term.prems b d by (auto simp: equal_subterms_all2 extra_match_nonfloat)
qed

lemma equals_hashCode: "equals a b \<Longrightarrow> float_free a \<Longrightarrow> hashCode H a = hashCode H b"
proof (induction a arbitrary: b)
  case (Term c ty nm ss)
  obtain c' ty' nm' ss' where b: "b = Term c' ty' nm' ss'" by (cases b)
  have "map (hashCode H) ss = map (hashCode H) ss'"
    using Term b by (auto simp: equal_subterms_all2 list_all2_conv_all_nth intro!: nth_equalityI)
  moreover have "extra_of c' = extra_of c" using Term b by (simp add: extra_match_nonfloat)
  ultimately show ?case using Term.prems b by (simp add: extra_hash_tag)
qed

lemma mult_17_inj: "17 * a = 17 * b \<Longrightarrow> a = (b :: size_t)"
proof -
  assume "17 * a = 17 * b"
  then have eq: "0xF0F0F0F0F0F0F0F1 * (17 * a) = 0xF0F0F0F0F0F0F0F1 * (17 * b)" by simp
  have inv: "0xF0F0F0F0F0F0F0F1 * 17 = (1 :: size_t)" by code_simp
  have "0xF0F0F0F0F0F0F0F1 * (17 * x) = x" for x :: size_t
    by (simp only: mult.assoc[symmetric] inv mult_1)
  then show ?thesis using eq by (simp only:)
qed

section \<open>Properties\<close>

text \<open>C28: On terms without floating-point constants, \<open>equals\<close> is an equivalence relation that
  \<open>hashCode\<close> respects, whatever the addresses of the class tags, the ids of the interned names and
  the standard hash functions are: hash sets of such terms find what was put in.\<close>

theorem equals_hash_consistent:
  assumes "float_free a"
  shows "equals a a \<and> (equals a b \<longrightarrow> equals b a \<and> hashCode H a = hashCode H b \<and>
           (equals b c \<longrightarrow> equals a c))"
  using equals_refl[OF assms] equals_sym equals_hashCode[OF _ assms] equals_trans[OF _ _ assms] by blast

theorem equals_hash_consistent_witness:
  "let H = \<lparr>h_tag = of_nat, h_name = (\<lambda>s. of_nat (length s)), h_string = (\<lambda>s. 0), h_int = of_nat, h_double = id\<rparr>
   in hashCode H (getValueTerm TBool ''x'' True) = hashCode H (getValueTerm TFloat ''x.global'' False)"
proof -
  have f: "float_free (getValueTerm TBool ''x'' True)"
    by (simp add: get_defs mk_defs float_class_def)
  have "equals (getValueTerm TBool ''x'' True) (getValueTerm TFloat ''x.global'' False)"
    by (simp add: get_defs mk_defs class_tag_def extra_of_def)
  then have "hashCode H (getValueTerm TBool ''x'' True) = hashCode H (getValueTerm TFloat ''x.global'' False)" for H
    using equals_hash_consistent[OF f] by blast
  then show ?thesis by (simp only: Let_def)
qed

text \<open>Floating constants break that: three doubles that print alike, each within \<open>EPS\<close> of
  the next, are pairwise neighbours that are equal while the outer two are not; and equal neighbours
  have different hash codes as soon as the standard hash of the doubles differs.\<close>

theorem float_equals_not_transitive:
  assumes "env_double E 0x3FF0000000000000 = env_double E 0x3FF0000000000003"
    and "env_double E 0x3FF0000000000003 = env_double E 0x3FF0000000000006"
    and "h_double H 0x3FF0000000000000 \<noteq> h_double H 0x3FF0000000000003"
  shows "equals (getRealTerm E 0x3FF0000000000000) (getRealTerm E 0x3FF0000000000003) \<and>
         equals (getRealTerm E 0x3FF0000000000003) (getRealTerm E 0x3FF0000000000006) \<and>
         \<not> equals (getRealTerm E 0x3FF0000000000000) (getRealTerm E 0x3FF0000000000006) \<and>
         hashCode H (getRealTerm E 0x3FF0000000000000) \<noteq> hashCode H (getRealTerm E 0x3FF0000000000003)"
proof -
  have s: "double_scaled 0x3FF0000000000000 = Some (2 ^ 52 * 2 ^ 1022)"
    "double_scaled 0x3FF0000000000003 = Some ((2 ^ 52 + 3) * 2 ^ 1022)"
    "double_scaled 0x3FF0000000000006 = Some ((2 ^ 52 + 6) * 2 ^ 1022)" by code_simp+
  have "double_close 0x3FF0000000000000 0x3FF0000000000003" "double_close 0x3FF0000000000003 0x3FF0000000000006"
    "\<not> double_close 0x3FF0000000000000 0x3FF0000000000006"
    unfolding double_close_def s prod.case option.case by code_simp+
  then show ?thesis using assms
    by (auto simp: get_defs mk_defs class_tag_def extra_of_def extra_hash_tag hash_vector_def dest: mult_17_inj)
qed

theorem float_equals_not_transitive_witness:
  "\<exists>E H. equals (getRealTerm E 0x3FF0000000000000) (getRealTerm E 0x3FF0000000000003) \<and>
     hashCode H (getRealTerm E 0x3FF0000000000000) \<noteq> hashCode H (getRealTerm E 0x3FF0000000000003)"
proof -
  let ?E = "empty_env\<lparr>env_double := (\<lambda>d. ''1'')\<rparr>"
  let ?H = "\<lparr>h_tag = of_nat, h_name = (\<lambda>s. 0), h_string = (\<lambda>s. 0), h_int = of_nat, h_double = (\<lambda>d. d)\<rparr>"
  show ?thesis
    using float_equals_not_transitive[of ?E ?H] by (intro exI[of _ ?E] exI[of _ ?H]) simp
qed

end
