(* ===== verification/Locations.thy ===== *)
theory Locations
  imports Prelude
begin

text \<open>
  Source locations (src/Util/locations.h): \<open>LocalLocus\<close> is a line and a column, both
  \<open>unsigned\<close>, with all bits set for an unknown one; \<open>Locus\<close> adds the file name.
\<close>

record LocalLocus =
  line :: uint
  col :: uint

record Locus =
  filename :: string
  loc :: LocalLocus

datatype measure_kind = measure_line | measure_col

definition UNKNOWN_LOC :: uint where
  "UNKNOWN_LOC = not 0"

definition unknown_LocalLocus :: LocalLocus where
  "unknown_LocalLocus = \<lparr>line = UNKNOWN_LOC, col = UNKNOWN_LOC\<rparr>"

definition unknown_Locus :: Locus where
  "unknown_Locus = \<lparr>filename = '''', loc = unknown_LocalLocus\<rparr>"

definition LocalLocus_add :: "LocalLocus \<Rightarrow> LocalLocus \<Rightarrow> LocalLocus" where
  "LocalLocus_add a b = \<lparr>line = line a + line b, col = col a + col b\<rparr>"

definition LocalLocus_sub :: "LocalLocus \<Rightarrow> LocalLocus \<Rightarrow> LocalLocus" where
  "LocalLocus_sub a b =
     \<lparr>line = (if line b < line a then line a - line b else 1),
      col = (if col b < col a then col a - col b else 1)\<rparr>"

definition LocalLocus_char :: "LocalLocus \<Rightarrow> char \<Rightarrow> LocalLocus" where
  "LocalLocus_char l ch =
     (if ch = CHR 0x0A then l\<lparr>col := 1, line := line l + 1\<rparr> else l\<lparr>col := col l + 1\<rparr>)"

definition LocalLocus_string :: "LocalLocus \<Rightarrow> string \<Rightarrow> LocalLocus" where
  "LocalLocus_string l str = foldl LocalLocus_char l str"

definition LocalLocus_isUnknown :: "LocalLocus \<Rightarrow> bool" where
  "LocalLocus_isUnknown l = (col l = UNKNOWN_LOC \<or> line l = UNKNOWN_LOC)"

definition LocalLocus_advance :: "32 word \<Rightarrow> measure_kind \<Rightarrow> LocalLocus \<Rightarrow> LocalLocus" where
  "LocalLocus_advance howmuch what l =
    (if LocalLocus_isUnknown l then l
     else case what of
       measure_col \<Rightarrow>
         (let newCol = int (unat (col l)) + sint howmuch
          in l\<lparr>col := (if newCol < 1 then 1 else word_of_int newCol)\<rparr>)
     | measure_line \<Rightarrow>
         (let newLine = int (unat (line l)) + sint howmuch
          in l\<lparr>line := (if newLine < 1 then 1 else word_of_int newLine), col := 1\<rparr>))"

definition Locus_isUnknown :: "Locus \<Rightarrow> bool" where
  "Locus_isUnknown l = (filename l = '''' \<or> LocalLocus_isUnknown (loc l))"

definition Locus_advance :: "32 word \<Rightarrow> measure_kind \<Rightarrow> Locus \<Rightarrow> Locus" where
  "Locus_advance howmuch what l = l\<lparr>loc := LocalLocus_advance howmuch what (loc l)\<rparr>"

section \<open>Facts\<close>

definition newlines :: "string \<Rightarrow> nat" where
  "newlines s = length (filter (\<lambda>c. c = CHR 0x0A) s)"

definition last_line :: "string \<Rightarrow> string" where
  "last_line s = rev (takeWhile (\<lambda>c. c \<noteq> CHR 0x0A) (rev s))"

lemma last_line_snoc: "last_line (s @ [c]) = (if c = CHR 0x0A then [] else last_line s @ [c])"
  by (simp add: last_line_def)

lemma LocalLocus_string_snoc:
  "LocalLocus_string l (s @ [c]) = LocalLocus_char (LocalLocus_string l s) c"
  by (simp add: LocalLocus_string_def)

lemma last_line_all: "newlines s = 0 \<Longrightarrow> last_line s = s"
proof -
  assume "newlines s = 0"
  then have "\<forall>c\<in>set (rev s). c \<noteq> CHR 0x0A" by (auto simp: newlines_def filter_empty_conv)
  then have "takeWhile (\<lambda>c. c \<noteq> CHR 0x0A) (rev s) = rev s" by (rule takeWhile_eq_all_conv[THEN iffD2])
  then show ?thesis unfolding last_line_def by (metis rev_rev_ident)
qed

text \<open>Reading a text advances a location to the line with as many line breaks more, and to
  the column after the text's last line, counted from 1 after a line break and from the old column
  without one (in 32-bit arithmetic).\<close>

theorem LocalLocus_string_position:
  "LocalLocus_string l s =
     \<lparr>line = line l + of_nat (newlines s),
      col = (if newlines s = 0 then col l else 1) + of_nat (length (last_line s))\<rparr>"
proof (induction s rule: rev_induct)
  case Nil
  show ?case by (simp add: LocalLocus_string_def newlines_def last_line_def)
next
  case (snoc c s)
  then show ?case
    by (auto simp: LocalLocus_string_snoc LocalLocus_char_def newlines_def last_line_snoc)
qed

end
