(* ===== verification/Predicates.thy ===== *)
theory Predicates
  imports TermEquality Locations
begin

text \<open>
  Predicates (src/Predicate): the base object of \<open>Predicate.h\<close> (class tag, type, location,
  printed form, operands) with the extra fields of its class inside the class tag.  \<open>mk_C\<close> is
  the constructor of class \<open>C\<close>, the \<open>get\<close> functions are those of \<open>PredicateFactory.h\<close>
  and \<open>C_accept\<close> the class's \<open>accept\<close>.
\<close>

datatype PredicateType = PATH | STATE | REQUIRES | ENSURES | ASSERT | ASSUME | INVARIANT

datatype pred_class =
    AllocaPredicate
  | CallPredicate bool
  | DefaultSwitchCasePredicate
  | EqualityPredicate
  | GlobalsPredicate
  | InequalityPredicate
  | MallocPredicate
  | MarkPredicate
  | SeqDataPredicate
  | SeqDataZeroPredicate size_t
  | StorePredicate
  | WriteBoundPredicate
  | WritePropertyPredicate

datatype predicate =
  Predicate (pclass: pred_class) (ptype: PredicateType) (plocation: Locus) (asString: string) (ops: "Term list")

definition Predicate_setType :: "PredicateType \<Rightarrow> predicate \<Rightarrow> predicate" where
  "Predicate_setType ty p = Predicate (pclass p) ty (plocation p) (asString p) (ops p)"

definition Predicate_setLocations :: "Locus \<Rightarrow> predicate \<Rightarrow> predicate" where
  "Predicate_setLocations l p = Predicate (pclass p) (ptype p) l (asString p) (ops p)"

definition Predicate_toString :: "predicate \<Rightarrow> string" where
  "Predicate_toString p = (case ptype p of
      REQUIRES \<Rightarrow> ''@R '' @ asString p
    | ENSURES \<Rightarrow> ''@E '' @ asString p
    | ASSERT \<Rightarrow> ''@A '' @ asString p
    | ASSUME \<Rightarrow> ''@U '' @ asString p
    | PATH \<Rightarrow> ''@P '' @ asString p
    | INVARIANT \<Rightarrow> ''@I '' @ asString p
    | STATE \<Rightarrow> asString p)"

section \<open>Constructors\<close>

definition mk_AllocaPredicate :: "Term \<Rightarrow> Term \<Rightarrow> Term \<Rightarrow> Locus \<Rightarrow> PredicateType \<Rightarrow> predicate" where
  "mk_AllocaPredicate lhv n orig l ty =
     Predicate AllocaPredicate ty l (tname lhv @ ''=alloca('' @ tname n @ '','' @ tname orig @ '')'') [lhv, n, orig]"

definition mk_CallPredicate ::
  "env \<Rightarrow> Term option \<Rightarrow> Term \<Rightarrow> Term list \<Rightarrow> Locus \<Rightarrow> PredicateType \<Rightarrow> predicate" where
  "mk_CallPredicate E lhv func as l ty =
     Predicate (CallPredicate (lhv \<noteq> None)) ty l
       ((case lhv of None \<Rightarrow> '''' | Some t \<Rightarrow> tname t @ ''='') @ tname func @ ''('' @
        env_reduce E '''' (\<lambda>acc e. acc @ '', '' @ e) (map tname as) @ '')'')
       ((case lhv of None \<Rightarrow> [] | Some t \<Rightarrow> [t]) @ func # as)"

definition mk_DefaultSwitchCasePredicate ::
  "env \<Rightarrow> Term \<Rightarrow> Term list \<Rightarrow> Locus \<Rightarrow> PredicateType \<Rightarrow> predicate" where
  "mk_DefaultSwitchCasePredicate E cond cases l ty =
     Predicate DefaultSwitchCasePredicate ty l
       (tname cond @ ''=not('' @ env_reduce E '''' (\<lambda>acc e. acc @ ''|'' @ e) (map tname cases) @ '')'')
       (cond # cases)"

definition mk_EqualityPredicate :: "Term \<Rightarrow> Term \<Rightarrow> Locus \<Rightarrow> PredicateType \<Rightarrow> predicate" where
  "mk_EqualityPredicate lhv rhv l ty =
     Predicate EqualityPredicate ty l (tname lhv @ ''='' @ tname rhv) [lhv, rhv]"

definition mk_GlobalsPredicate :: "env \<Rightarrow> Term list \<Rightarrow> Locus \<Rightarrow> PredicateType \<Rightarrow> predicate" where
  "mk_GlobalsPredicate E globals l ty =
     Predicate GlobalsPredicate ty l
       (''globals('' @ env_reduce E '''' (\<lambda>acc e. acc @ '','' @ e) (map tname globals) @ '')'') globals"

definition mk_InequalityPredicate :: "Term \<Rightarrow> Term \<Rightarrow> Locus \<Rightarrow> PredicateType \<Rightarrow> predicate" where
  "mk_InequalityPredicate lhv rhv l ty =
     Predicate InequalityPredicate ty l (tname lhv @ ''!='' @ tname rhv) [lhv, rhv]"

definition mk_MallocPredicate :: "Term \<Rightarrow> Term \<Rightarrow> Term \<Rightarrow> Locus \<Rightarrow> PredicateType \<Rightarrow> predicate" where
  "mk_MallocPredicate lhv n orig l ty =
     Predicate MallocPredicate ty l (tname lhv @ ''=malloc('' @ tname n @ '','' @ tname orig @ '')'') [lhv, n, orig]"

definition mk_MarkPredicate :: "Term \<Rightarrow> Locus \<Rightarrow> PredicateType \<Rightarrow> predicate" where
  "mk_MarkPredicate i l ty = Predicate MarkPredicate ty l (''mark('' @ tname i @ '')'') [i]"

definition mk_SeqDataPredicate :: "env \<Rightarrow> Term \<Rightarrow> Term list \<Rightarrow> Locus \<Rightarrow> PredicateType \<Rightarrow> predicate" where
  "mk_SeqDataPredicate E base data l ty =
     Predicate SeqDataPredicate ty l
       (tname base @ ''=('' @ env_reduce E '''' (\<lambda>acc e. acc @ '','' @ e) (map tname data) @ '')'')
       (base # data)"

definition mk_SeqDataZeroPredicate :: "Term \<Rightarrow> size_t \<Rightarrow> Locus \<Rightarrow> PredicateType \<Rightarrow> predicate" where
  "mk_SeqDataZeroPredicate base sz l ty =
     Predicate (SeqDataZeroPredicate sz) ty l
       (tname base @ ''=(0 x '' @ nat_to_string (unat sz) @ '')'') [base]"

definition mk_StorePredicate :: "Term \<Rightarrow> Term \<Rightarrow> Locus \<Rightarrow> PredicateType \<Rightarrow> predicate" where
  "mk_StorePredicate lhv rhv l ty =
     Predicate StorePredicate ty l (''*'' @ tname lhv @ ''='' @ tname rhv) [lhv, rhv]"

definition mk_WriteBoundPredicate :: "Term \<Rightarrow> Term \<Rightarrow> Locus \<Rightarrow> PredicateType \<Rightarrow> predicate" where
  "mk_WriteBoundPredicate lhv rhv l ty =
     Predicate WriteBoundPredicate ty l (''writeBound('' @ tname lhv @ '','' @ tname rhv @ '')'') [lhv, rhv]"

definition mk_WritePropertyPredicate :: "Term \<Rightarrow> Term \<Rightarrow> Term \<Rightarrow> Locus \<Rightarrow> PredicateType \<Rightarrow> predicate" where
  "mk_WritePropertyPredicate propName lhv rhv l ty =
     Predicate WritePropertyPredicate ty l
       (''write('' @ tname propName @ '','' @ tname lhv @ '','' @ tname rhv @ '')'') [lhv, rhv, propName]"

section \<open>Factory methods\<close>

definition getEqualityPredicate :: "Term \<Rightarrow> Term \<Rightarrow> Locus \<Rightarrow> PredicateType \<Rightarrow> predicate" where
  "getEqualityPredicate lhv rhv l ty = mk_EqualityPredicate lhv rhv l ty"

definition getInequalityPredicate :: "Term \<Rightarrow> Term \<Rightarrow> Locus \<Rightarrow> PredicateType \<Rightarrow> predicate" where
  "getInequalityPredicate lhv rhv l ty = mk_InequalityPredicate lhv rhv l ty"

definition getLoadPredicate :: "Term \<Rightarrow> Term \<Rightarrow> Locus \<Rightarrow> predicate" where
  "getLoadPredicate lhv loadTerm l = getEqualityPredicate lhv loadTerm l STATE"

definition getStorePredicate :: "Term \<Rightarrow> Term \<Rightarrow> Locus \<Rightarrow> PredicateType \<Rightarrow> predicate" where
  "getStorePredicate lhv rhv l ty = mk_StorePredicate lhv rhv l ty"

definition getCallPredicate :: "env \<Rightarrow> Term option \<Rightarrow> Term \<Rightarrow> Term list \<Rightarrow> Locus \<Rightarrow> predicate" where
  "getCallPredicate E lhv func as l = mk_CallPredicate E lhv func as l STATE"

definition getWritePropertyPredicate :: "Term \<Rightarrow> Term \<Rightarrow> Term \<Rightarrow> Locus \<Rightarrow> predicate" where
  "getWritePropertyPredicate propName lhv rhv l = mk_WritePropertyPredicate propName lhv rhv l STATE"

definition getWriteBoundPredicate :: "Term \<Rightarrow> Term \<Rightarrow> Locus \<Rightarrow> predicate" where
  "getWriteBoundPredicate lhv rhv l = mk_WriteBoundPredicate lhv rhv l STATE"

definition getAllocaPredicate :: "Term \<Rightarrow> Term \<Rightarrow> Term \<Rightarrow> Locus \<Rightarrow> predicate" where
  "getAllocaPredicate lhv n orig l = mk_AllocaPredicate lhv n orig l STATE"

definition getMallocPredicate :: "Term \<Rightarrow> Term \<Rightarrow> Term \<Rightarrow> Locus \<Rightarrow> predicate" where
  "getMallocPredicate lhv n orig l = mk_MallocPredicate lhv n orig l STATE"

definition getBooleanPredicate :: "Term \<Rightarrow> Term \<Rightarrow> Locus \<Rightarrow> predicate" where
  "getBooleanPredicate v b l = getEqualityPredicate v b l PATH"

definition getDefaultSwitchCasePredicate :: "env \<Rightarrow> Term \<Rightarrow> Term list \<Rightarrow> Locus \<Rightarrow> predicate" where
  "getDefaultSwitchCasePredicate E cond cases l = mk_DefaultSwitchCasePredicate E cond cases l PATH"

definition getGlobalsPredicate :: "env \<Rightarrow> Term list \<Rightarrow> Locus \<Rightarrow> predicate" where
  "getGlobalsPredicate E globals l = mk_GlobalsPredicate E globals l STATE"

definition getSeqDataPredicate :: "env \<Rightarrow> Term \<Rightarrow> Term list \<Rightarrow> Locus \<Rightarrow> predicate" where
  "getSeqDataPredicate E base data l = mk_SeqDataPredicate E base data l STATE"

definition getSeqDataZeroPredicate :: "Term \<Rightarrow> size_t \<Rightarrow> Locus \<Rightarrow> predicate" where
  "getSeqDataZeroPredicate base sz l = mk_SeqDataZeroPredicate base sz l STATE"

definition getMarkPredicate :: "Term \<Rightarrow> Locus \<Rightarrow> predicate" where
  "getMarkPredicate i l = mk_MarkPredicate i l STATE"

section \<open>The accept methods\<close>

text \<open>The predicates with a fixed number of operands transform them in order and are rebuilt with the
  old location and type when one has changed.\<close>

definition AllocaPredicate_accept :: "(Term \<Rightarrow> Term option) \<Rightarrow> predicate \<Rightarrow> predicate option" where
  "AllocaPredicate_accept tr p = (case ops p of
     [lhv, n, orig] \<Rightarrow> do { l \<leftarrow> tr lhv; n' \<leftarrow> tr n; o' \<leftarrow> tr orig;
       Some (if lhv \<noteq> l \<or> n \<noteq> n' \<or> orig \<noteq> o'
             then mk_AllocaPredicate l n' o' (plocation p) (ptype p) else p) }
   | _ \<Rightarrow> None)"

definition CallPredicate_accept :: "env \<Rightarrow> (Term \<Rightarrow> Term option) \<Rightarrow> bool \<Rightarrow> predicate \<Rightarrow> predicate option" where
  "CallPredicate_accept E tr hasLhv p =
    (if hasLhv
     then case ops p of
       lhv # func # as \<Rightarrow> do { l \<leftarrow> tr lhv; f \<leftarrow> tr func; as' \<leftarrow> omap tr as;
         Some (if func \<noteq> f \<or> lhv \<noteq> l \<or> as \<noteq> as'
               then mk_CallPredicate E (Some l) f as' (plocation p) (ptype p) else p) }
     | _ \<Rightarrow> None
     else case ops p of
       func # as \<Rightarrow> do { f \<leftarrow> tr func; as' \<leftarrow> omap tr as;
         Some (if func \<noteq> f \<or> as \<noteq> as'
               then mk_CallPredicate E None f as' (plocation p) (ptype p) else p) }
     | _ \<Rightarrow> None)"

definition DefaultSwitchCasePredicate_accept ::
  "env \<Rightarrow> (Term \<Rightarrow> Term option) \<Rightarrow> predicate \<Rightarrow> predicate option" where
  "DefaultSwitchCasePredicate_accept E tr p = (case ops p of
     cond # cases \<Rightarrow> do { c \<leftarrow> tr cond; cs \<leftarrow> omap tr cases;
       Some (if cond \<noteq> c \<or> cases \<noteq> cs
             then mk_DefaultSwitchCasePredicate E c cs (plocation p) (ptype p) else p) }
   | [] \<Rightarrow> None)"

definition EqualityPredicate_accept :: "(Term \<Rightarrow> Term option) \<Rightarrow> predicate \<Rightarrow> predicate option" where
  "EqualityPredicate_accept tr p = (case ops p of
     [lhv, rhv] \<Rightarrow> do { l \<leftarrow> tr lhv; r \<leftarrow> tr rhv;
       Some (if lhv \<noteq> l \<or> rhv \<noteq> r then mk_EqualityPredicate l r (plocation p) (ptype p) else p) }
   | _ \<Rightarrow> None)"

definition GlobalsPredicate_accept :: "env \<Rightarrow> (Term \<Rightarrow> Term option) \<Rightarrow> predicate \<Rightarrow> predicate option" where
  "GlobalsPredicate_accept E tr p = do { gs \<leftarrow> omap tr (ops p);
     Some (if ops p \<noteq> gs then mk_GlobalsPredicate E gs (plocation p) (ptype p) else p) }"

definition InequalityPredicate_accept :: "(Term \<Rightarrow> Term option) \<Rightarrow> predicate \<Rightarrow> predicate option" where
  "InequalityPredicate_accept tr p = (case ops p of
     [lhv, rhv] \<Rightarrow> do { l \<leftarrow> tr lhv; r \<leftarrow> tr rhv;
       Some (if lhv \<noteq> l \<or> rhv \<noteq> r then mk_InequalityPredicate l r (plocation p) (ptype p) else p) }
   | _ \<Rightarrow> None)"

definition MallocPredicate_accept :: "(Term \<Rightarrow> Term option) \<Rightarrow> predicate \<Rightarrow> predicate option" where
  "MallocPredicate_accept tr p = (case ops p of
     [lhv, n, orig] \<Rightarrow> do { l \<leftarrow> tr lhv; n' \<leftarrow> tr n; o' \<leftarrow> tr orig;
       Some (if lhv \<noteq> l \<or> n \<noteq> n' \<or> orig \<noteq> o'
             then mk_MallocPredicate l n' o' (plocation p) (ptype p) else p) }
   | _ \<Rightarrow> None)"

definition SeqDataPredicate_accept :: "env \<Rightarrow> (Term \<Rightarrow> Term option) \<Rightarrow> predicate \<Rightarrow> predicate option" where
  "SeqDataPredicate_accept E tr p = (case ops p of
     base # data \<Rightarrow> do { b \<leftarrow> tr base; ds \<leftarrow> omap tr data;
       Some (if base \<noteq> b \<or> data \<noteq> ds
             then mk_SeqDataPredicate E b ds (plocation p) (ptype p) else p) }
   | [] \<Rightarrow> None)"

definition SeqDataZeroPredicate_accept ::
  "(Term \<Rightarrow> Term option) \<Rightarrow> size_t \<Rightarrow> predicate \<Rightarrow> predicate option" where
  "SeqDataZeroPredicate_accept tr sz p = (case ops p of
     [base] \<Rightarrow> do { b \<leftarrow> tr base;
       Some (if base \<noteq> b then mk_SeqDataZeroPredicate b sz (plocation p) (ptype p) else p) }
   | _ \<Rightarrow> None)"

definition StorePredicate_accept :: "(Term \<Rightarrow> Term option) \<Rightarrow> predicate \<Rightarrow> predicate option" where
  "StorePredicate_accept tr p = (case ops p of
     [lhv, rhv] \<Rightarrow> do { l \<leftarrow> tr lhv; r \<leftarrow> tr rhv;
       Some (if lhv \<noteq> l \<or> rhv \<noteq> r then mk_StorePredicate l r (plocation p) (ptype p) else p) }
   | _ \<Rightarrow> None)"

definition WriteBoundPredicate_accept :: "(Term \<Rightarrow> Term option) \<Rightarrow> predicate \<Rightarrow> predicate option" where
  "WriteBoundPredicate_accept tr p = (case ops p of
     [lhv, rhv] \<Rightarrow> do { l \<leftarrow> tr lhv; r \<leftarrow> tr rhv;
       Some (if lhv \<noteq> l \<or> rhv \<noteq> r then mk_WriteBoundPredicate l r (plocation p) (ptype p) else p) }
   | _ \<Rightarrow> None)"

definition WritePropertyPredicate_accept :: "(Term \<Rightarrow> Term option) \<Rightarrow> predicate \<Rightarrow> predicate option" where
  "WritePropertyPredicate_accept tr p = (case ops p of
     [lhv, rhv, propName] \<Rightarrow> do { l \<leftarrow> tr lhv; r \<leftarrow> tr rhv; pn \<leftarrow> tr propName;
       Some (if lhv \<noteq> l \<or> rhv \<noteq> r \<or> propName \<noteq> pn
             then mk_WritePropertyPredicate pn l r (plocation p) (ptype p) else p) }
   | _ \<Rightarrow> None)"

definition MarkPredicate_accept :: "predicate \<Rightarrow> predicate option" where
  "MarkPredicate_accept p = Some p"

definition pred_accept :: "env \<Rightarrow> (Term \<Rightarrow> Term option) \<Rightarrow> predicate \<Rightarrow> predicate option" where
  "pred_accept E tr p = (case pclass p of
      AllocaPredicate \<Rightarrow> AllocaPredicate_accept tr p
    | CallPredicate h \<Rightarrow> CallPredicate_accept E tr h p
    | DefaultSwitchCasePredicate \<Rightarrow> DefaultSwitchCasePredicate_accept E tr p
    | EqualityPredicate \<Rightarrow> EqualityPredicate_accept tr p
    | GlobalsPredicate \<Rightarrow> GlobalsPredicate_accept E tr p
    | InequalityPredicate \<Rightarrow> InequalityPredicate_accept tr p
    | MallocPredicate \<Rightarrow> MallocPredicate_accept tr p
    | MarkPredicate \<Rightarrow> MarkPredicate_accept p
    | SeqDataPredicate \<Rightarrow> SeqDataPredicate_accept E tr p
    | SeqDataZeroPredicate sz \<Rightarrow> SeqDataZeroPredicate_accept tr sz p
    | StorePredicate \<Rightarrow> StorePredicate_accept tr p
    | WriteBoundPredicate \<Rightarrow> WriteBoundPredicate_accept tr p
    | WritePropertyPredicate \<Rightarrow> WritePropertyPredicate_accept tr p)"

section \<open>Equality, hashing, receivers\<close>

definition pclass_tag :: "pred_class \<Rightarrow> nat" where
  "pclass_tag c = (case c of
      AllocaPredicate \<Rightarrow> 0 | CallPredicate h \<Rightarrow> 1 | DefaultSwitchCasePredicate \<Rightarrow> 2 | EqualityPredicate \<Rightarrow> 3
    | GlobalsPredicate \<Rightarrow> 4 | InequalityPredicate \<Rightarrow> 5 | MallocPredicate \<Rightarrow> 6 | MarkPredicate \<Rightarrow> 7
    | SeqDataPredicate \<Rightarrow> 8 | SeqDataZeroPredicate sz \<Rightarrow> 9 | StorePredicate \<Rightarrow> 10
    | WriteBoundPredicate \<Rightarrow> 11 | WritePropertyPredicate \<Rightarrow> 12)"

definition PredicateType_code :: "PredicateType \<Rightarrow> nat" where
  "PredicateType_code t = (case t of PATH \<Rightarrow> 0 | STATE \<Rightarrow> 1 | REQUIRES \<Rightarrow> 2 | ENSURES \<Rightarrow> 3
    | ASSERT \<Rightarrow> 4 | ASSUME \<Rightarrow> 5 | INVARIANT \<Rightarrow> 6)"

definition Predicate_equals :: "predicate \<Rightarrow> predicate \<Rightarrow> bool" where
  "Predicate_equals p q =
     (pclass_tag (pclass p) = pclass_tag (pclass q) \<and> ptype p = ptype q \<and> equal_subterms (ops p) (ops q))"

definition Predicate_hashCode :: "hash_env \<Rightarrow> predicate \<Rightarrow> size_t" where
  "Predicate_hashCode H p = defaultHasher
     [h_tag H (100 + pclass_tag (pclass p)), h_int H (PredicateType_code (ptype p)),
      hash_vector (map (hashCode H) (ops p))]"

text \<open>\<open>PredicateUtils::getReceiver\<close>: the term a predicate writes; \<open>None\<close> is the null pointer.\<close>

definition getReceiver :: "predicate \<Rightarrow> Term option" where
  "getReceiver p =
    (if ptype p \<noteq> STATE \<and> ptype p \<noteq> INVARIANT then None
     else case pclass p of
        AllocaPredicate \<Rightarrow> vector_at (ops p) 0
      | MallocPredicate \<Rightarrow> vector_at (ops p) 0
      | EqualityPredicate \<Rightarrow> vector_at (ops p) 0
      | SeqDataPredicate \<Rightarrow> vector_at (ops p) 0
      | SeqDataZeroPredicate sz \<Rightarrow> vector_at (ops p) 0
      | StorePredicate \<Rightarrow> vector_at (ops p) 0
      | WriteBoundPredicate \<Rightarrow> vector_at (ops p) 0
      | WritePropertyPredicate \<Rightarrow> vector_at (ops p) 0
      | GlobalsPredicate \<Rightarrow> (if length (ops p) = 1 then vector_at (ops p) 0 else None)
      | _ \<Rightarrow> None)"

section \<open>Facts\<close>

definition pred_string :: "env \<Rightarrow> pred_class \<Rightarrow> string list \<Rightarrow> string" where
  "pred_string E c ns = (case c of
      AllocaPredicate \<Rightarrow> ns ! 0 @ ''=alloca('' @ ns ! 1 @ '','' @ ns ! 2 @ '')''
    | CallPredicate h \<Rightarrow>
        (if h then ns ! 0 @ ''='' @ ns ! 1 @ ''('' @ env_reduce E '''' (\<lambda>acc e. acc @ '', '' @ e) (drop 2 ns) @ '')''
         else ns ! 0 @ ''('' @ env_reduce E '''' (\<lambda>acc e. acc @ '', '' @ e) (drop 1 ns) @ '')'')
    | DefaultSwitchCasePredicate \<Rightarrow>
        ns ! 0 @ ''=not('' @ env_reduce E '''' (\<lambda>acc e. acc @ ''|'' @ e) (drop 1 ns) @ '')''
    | EqualityPredicate \<Rightarrow> ns ! 0 @ ''='' @ ns ! 1
    | GlobalsPredicate \<Rightarrow> ''globals('' @ env_reduce E '''' (\<lambda>acc e. acc @ '','' @ e) ns @ '')''
    | InequalityPredicate \<Rightarrow> ns ! 0 @ ''!='' @ ns ! 1
    | MallocPredicate \<Rightarrow> ns ! 0 @ ''=malloc('' @ ns ! 1 @ '','' @ ns ! 2 @ '')''
    | MarkPredicate \<Rightarrow> ''mark('' @ ns ! 0 @ '')''
    | SeqDataPredicate \<Rightarrow> ns ! 0 @ ''=('' @ env_reduce E '''' (\<lambda>acc e. acc @ '','' @ e) (drop 1 ns) @ '')''
    | SeqDataZeroPredicate sz \<Rightarrow> ns ! 0 @ ''=(0 x '' @ nat_to_string (unat sz) @ '')''
    | StorePredicate \<Rightarrow> ''*'' @ ns ! 0 @ ''='' @ ns ! 1
    | WriteBoundPredicate \<Rightarrow> ''writeBound('' @ ns ! 0 @ '','' @ ns ! 1 @ '')''
    | WritePropertyPredicate \<Rightarrow> ''write('' @ ns ! 2 @ '','' @ ns ! 0 @ '','' @ ns ! 1 @ '')'')"

definition pred_arity :: "pred_class \<Rightarrow> nat \<Rightarrow> bool" where
  "pred_arity c n = (case c of
      AllocaPredicate \<Rightarrow> n = 3 | CallPredicate h \<Rightarrow> n > (if h then 1 else 0)
    | DefaultSwitchCasePredicate \<Rightarrow> n > 0 | EqualityPredicate \<Rightarrow> n = 2 | GlobalsPredicate \<Rightarrow> True
    | InequalityPredicate \<Rightarrow> n = 2 | MallocPredicate \<Rightarrow> n = 3 | MarkPredicate \<Rightarrow> n = 1
    | SeqDataPredicate \<Rightarrow> n > 0 | SeqDataZeroPredicate sz \<Rightarrow> n = 1 | StorePredicate \<Rightarrow> n = 2
    | WriteBoundPredicate \<Rightarrow> n = 2 | WritePropertyPredicate \<Rightarrow> n = 3)"

text \<open>The invariant of every predicate: its class's number of operands, the form its constructor
  prints.\<close>

definition wf_predicate :: "env \<Rightarrow> predicate \<Rightarrow> bool" where
  "wf_predicate E p = (pred_arity (pclass p) (length (ops p)) \<and>
     asString p = pred_string E (pclass p) (map tname (ops p)))"

definition with_ops :: "env \<Rightarrow> predicate \<Rightarrow> Term list \<Rightarrow> predicate" where
  "with_ops E p cs = Predicate (pclass p) (ptype p) (plocation p) (pred_string E (pclass p) (map tname cs)) cs"

lemma with_ops_same: "wf_predicate E p \<Longrightarrow> with_ops E p (ops p) = p"
  by (cases p) (simp add: with_ops_def wf_predicate_def)

lemma with_ops_simps [simp]:
  "pclass (with_ops E p cs) = pclass p" "ptype (with_ops E p cs) = ptype p"
  "plocation (with_ops E p cs) = plocation p" "ops (with_ops E p cs) = cs"
  by (simp_all add: with_ops_def)

lemma wf_with_ops: "wf_predicate E p \<Longrightarrow> length cs = length (ops p) \<Longrightarrow> wf_predicate E (with_ops E p cs)"
  by (simp add: wf_predicate_def with_ops_def)

lemmas pred_mk_defs = mk_AllocaPredicate_def mk_CallPredicate_def mk_DefaultSwitchCasePredicate_def
  mk_EqualityPredicate_def mk_GlobalsPredicate_def mk_InequalityPredicate_def mk_MallocPredicate_def
  mk_MarkPredicate_def mk_SeqDataPredicate_def mk_SeqDataZeroPredicate_def mk_StorePredicate_def
  mk_WriteBoundPredicate_def mk_WritePropertyPredicate_def

lemmas pred_get_defs = getEqualityPredicate_def getInequalityPredicate_def getLoadPredicate_def
  getStorePredicate_def getCallPredicate_def getWritePropertyPredicate_def getWriteBoundPredicate_def
  getAllocaPredicate_def getMallocPredicate_def getBooleanPredicate_def getDefaultSwitchCasePredicate_def
  getGlobalsPredicate_def getSeqDataPredicate_def getSeqDataZeroPredicate_def getMarkPredicate_def

lemmas pred_accept_defs = pred_accept_def AllocaPredicate_accept_def CallPredicate_accept_def
  DefaultSwitchCasePredicate_accept_def EqualityPredicate_accept_def GlobalsPredicate_accept_def
  InequalityPredicate_accept_def MallocPredicate_accept_def MarkPredicate_accept_def
  SeqDataPredicate_accept_def SeqDataZeroPredicate_accept_def StorePredicate_accept_def
  WriteBoundPredicate_accept_def WritePropertyPredicate_accept_def

lemma wf_get_predicates [simp]:
  "wf_predicate E (getEqualityPredicate a b l ty)" "wf_predicate E (getInequalityPredicate a b l ty)"
  "wf_predicate E (getLoadPredicate a b l)" "wf_predicate E (getStorePredicate a b l ty)"
  "wf_predicate E (getCallPredicate E r f as l)" "wf_predicate E (getWritePropertyPredicate n a b l)"
  "wf_predicate E (getWriteBoundPredicate a b l)" "wf_predicate E (getAllocaPredicate a b c l)"
  "wf_predicate E (getMallocPredicate a b c l)" "wf_predicate E (getBooleanPredicate a b l)"
  "wf_predicate E (getDefaultSwitchCasePredicate E a as l)" "wf_predicate E (getGlobalsPredicate E as l)"
  "wf_predicate E (getSeqDataPredicate E a as l)" "wf_predicate E (getSeqDataZeroPredicate a sz l)"
  "wf_predicate E (getMarkPredicate a l)"
  by (auto simp: pred_get_defs pred_mk_defs wf_predicate_def pred_arity_def pred_string_def split: option.split)

lemma wf_predicate_set [simp]:
  "wf_predicate E (Predicate_setType ty p) = wf_predicate E p"
  "wf_predicate E (Predicate_setLocations l p) = wf_predicate E p"
  by (simp_all add: wf_predicate_def Predicate_setType_def Predicate_setLocations_def)

lemma length_gt1: "Suc 0 < length xs \<longleftrightarrow> (\<exists>a b ys. xs = a # b # ys)"
  by (cases xs; cases "tl xs") auto

lemma length_gt0: "xs \<noteq> [] \<longleftrightarrow> (\<exists>a ys. xs = a # ys)"
  by (cases xs) auto

text \<open>All classes but marks transform their operands in order and are rebuilt on them; a mark is
  kept as it is.\<close>

lemma pred_accept_unfold:
  assumes "wf_predicate E p"
  shows "pred_accept E tr p =
     (if pclass p = MarkPredicate then Some p else map_option (with_ops E p) (omap tr (ops p)))"
proof -
  obtain c ty l s os where p: "p = Predicate c ty l s os" by (cases p)
  have s: "s = pred_string E c (map tname os)" and a: "pred_arity c (length os)"
    using assms by (simp_all add: p wf_predicate_def)
  show ?thesis
    unfolding p s using a
    by (cases c)
      (auto simp: pred_accept_defs pred_arity_def pred_string_def with_ops_def pred_mk_defs length_1 length_2
        length_3 length_gt1 length_gt0 obind_assoc map_conv_bind_option comp_def
        intro!: obind_ext split: if_splits)
qed

lemma with_ops_wf_none:
  "wf_predicate E p \<Longrightarrow> omap tr (ops p) = Some cs \<Longrightarrow> wf_predicate E (with_ops E p cs)"
  by (rule wf_with_ops) (auto dest: omap_Some_length)

section \<open>Properties\<close>

text \<open>\<open>accept\<close> of every predicate the factory builds transforms the operands in order and
  answers the predicate with the transformed operands: class, type and location stay, the printed form
  is that of the new operands, and only marks are left alone.  It fails only where the
  transformation of an operand fails.\<close>

theorem pred_accept_spec:
  assumes "wf_predicate E p" "pclass p \<noteq> MarkPredicate"
  shows "(case omap tr (ops p) of
     None \<Rightarrow> pred_accept E tr p = None
   | Some cs \<Rightarrow> (\<exists>q. pred_accept E tr p = Some q \<and> pclass q = pclass p \<and> ptype q = ptype p \<and>
       plocation q = plocation p \<and> ops q = cs \<and> wf_predicate E q))"
  using assms with_ops_wf_none[OF assms(1)] by (auto simp: pred_accept_unfold split: option.split)

theorem pred_accept_spec_witness:
  "\<exists>q. pred_accept empty_env (\<lambda>t. Some getNullPtrTerm)
         (getStorePredicate getTrueTerm getFalseTerm unknown_Locus PATH) = Some q \<and>
       ops q = [getNullPtrTerm, getNullPtrTerm] \<and> ptype q = PATH"
proof -
  let ?p = "getStorePredicate getTrueTerm getFalseTerm unknown_Locus PATH"
  have "omap (\<lambda>t. Some getNullPtrTerm) (ops ?p) = Some [getNullPtrTerm, getNullPtrTerm]" "ptype ?p = PATH"
      "pclass ?p \<noteq> MarkPredicate"
    by (simp_all add: getStorePredicate_def mk_StorePredicate_def)
  then show ?thesis using pred_accept_spec[of empty_env ?p "\<lambda>t. Some getNullPtrTerm"] by auto
qed

text \<open>The equality of predicates ignores fields that are not operands: two zero
  initialisations of the same memory are equal whatever their sizes, and the call \<open>f(g)\<close> without a
  result equals the call \<open>f = g()\<close>, in every hash environment with equal hash codes, although they
  print differently.\<close>

theorem Predicate_equals_ignores_fields:
  assumes "float_free b" "float_free f" "float_free g"
  shows "Predicate_equals (getSeqDataZeroPredicate b m l) (getSeqDataZeroPredicate b n l) \<and>
    Predicate_hashCode H (getSeqDataZeroPredicate b m l) = Predicate_hashCode H (getSeqDataZeroPredicate b n l) \<and>
    (m \<noteq> n \<longrightarrow> asString (getSeqDataZeroPredicate b m l) \<noteq> asString (getSeqDataZeroPredicate b n l)) \<and>
    Predicate_equals (getCallPredicate E None f [g] l) (getCallPredicate E (Some f) g [] l) \<and>
    Predicate_hashCode H (getCallPredicate E None f [g] l) = Predicate_hashCode H (getCallPredicate E (Some f) g [] l)"
  using assms
  by (auto simp: Predicate_equals_def Predicate_hashCode_def pred_get_defs pred_mk_defs pclass_tag_def
      equals_refl word_unat_eq_iff dest: nat_to_string_inj)

theorem Predicate_equals_ignores_fields_witness:
  "Predicate_equals (getSeqDataZeroPredicate getNullPtrTerm 1 unknown_Locus)
     (getSeqDataZeroPredicate getNullPtrTerm 2 unknown_Locus)"
  using Predicate_equals_ignores_fields[of getNullPtrTerm getNullPtrTerm getNullPtrTerm 1 unknown_Locus 2]
  by (simp add: get_defs mk_defs float_class_def)

end
