(* ===== verification/States.thy ===== *)
theory States
  imports Predicates
begin

text \<open>
  Predicate states (src/State): a state is a list of predicates with the source locations it
  has visited (\<open>BasicPredicateState\<close>), a state after another (\<open>PredicateStateChain\<close>) or a
  choice of states (\<open>PredicateStateChoice\<close>).  The virtual methods of the three classes are the
  equations of one function each.  The states a transformation or a factory call builds are
  described by the execution paths they stand for (\<open>paths\<close>): the abstract view in which the
  operations are list operations.
\<close>

datatype pstate =
    Basic "predicate list" "Locus set"
  | Chain pstate pstate
  | Choice "pstate list"

section \<open>Operations\<close>

fun addPredicate :: "predicate \<Rightarrow> pstate \<Rightarrow> pstate" where
  "addPredicate p (Basic data loci) = Basic (data @ [p]) loci"
| "addPredicate p (Chain base cur) = Chain base (addPredicate p cur)"
| "addPredicate p (Choice cs) = Choice (map (addPredicate p) cs)"

fun addVisited :: "Locus \<Rightarrow> pstate \<Rightarrow> pstate" where
  "addVisited l (Basic data loci) = Basic data (insert l loci)"
| "addVisited l (Chain base cur) = Chain base (addVisited l cur)"
| "addVisited l (Choice cs) = Choice (map (addVisited l) cs)"

text \<open>\<open>hasVisitedFrom\<close> erases what a state has visited from the set it gets by reference.\<close>

fun hasVisitedFrom :: "pstate \<Rightarrow> Locus set \<Rightarrow> bool \<times> Locus set"
  and hasVisitedFrom_any :: "pstate list \<Rightarrow> Locus set \<Rightarrow> bool \<times> Locus set" where
  "hasVisitedFrom (Basic data loci) visited = (let v = visited - loci in (v = {}, v))"
| "hasVisitedFrom (Chain base cur) visited =
     (let (r, v) = hasVisitedFrom cur visited in
      if r then (True, v) else hasVisitedFrom base v)"
| "hasVisitedFrom (Choice cs) visited = hasVisitedFrom_any cs visited"
| "hasVisitedFrom_any [] visited = (False, visited)"
| "hasVisitedFrom_any (c # cs) visited =
     (let (r, v) = hasVisitedFrom c visited in
      if r then (True, v) else hasVisitedFrom_any cs v)"

definition hasVisited :: "pstate \<Rightarrow> Locus list \<Rightarrow> bool" where
  "hasVisited s ls = (case s of
      Basic data loci \<Rightarrow> list_all (\<lambda>l. l \<in> loci) ls
    | _ \<Rightarrow> fst (hasVisitedFrom s (set ls)))"

fun getVisited :: "pstate \<Rightarrow> Locus set" where
  "getVisited (Basic data loci) = loci"
| "getVisited (Chain base cur) = getVisited base \<union> getVisited cur"
| "getVisited (Choice cs) = \<Union> (set (map getVisited cs))"

text \<open>\<open>map\<close> with a mapper that may fail.\<close>

fun state_map :: "(predicate \<Rightarrow> predicate option) \<Rightarrow> pstate \<Rightarrow> pstate option" where
  "state_map m (Basic data loci) = do { d \<leftarrow> omap m data; Some (Basic d loci) }"
| "state_map m (Chain base cur) = do {
     b \<leftarrow> state_map m base; c \<leftarrow> state_map m cur; Some (Chain b c) }"
| "state_map m (Choice cs) = do { cs' \<leftarrow> omap (state_map m) cs; Some (Choice cs') }"

fun state_filter :: "(predicate \<Rightarrow> bool) \<Rightarrow> pstate \<Rightarrow> pstate" where
  "state_filter f (Basic data loci) = Basic (filter f data) loci"
| "state_filter f (Chain base cur) = Chain (state_filter f base) (state_filter f cur)"
| "state_filter f (Choice cs) = Choice (map (state_filter f) cs)"

fun filterByTypes :: "PredicateType list \<Rightarrow> pstate \<Rightarrow> pstate" where
  "filterByTypes types (Basic data loci) = Basic (filter (\<lambda>p. \<exists>t\<in>set types. ptype p = t) data) loci"
| "filterByTypes types (Chain base cur) = Chain (filterByTypes types base) (filterByTypes types cur)"
| "filterByTypes types (Choice cs) = Choice (map (filterByTypes types) cs)"

fun state_reverse :: "pstate \<Rightarrow> pstate" where
  "state_reverse (Basic data loci) = Basic (rev data) loci"
| "state_reverse (Chain base cur) = Chain (state_reverse cur) (state_reverse base)"
| "state_reverse (Choice cs) = Choice (map state_reverse cs)"

fun splitByTypes :: "PredicateType list \<Rightarrow> pstate \<Rightarrow> pstate \<times> pstate" where
  "splitByTypes types (Basic data loci) =
     (let yes = foldl (\<lambda>acc p. if \<exists>t\<in>set types. ptype p = t then acc @ [p] else acc) [] data;
          no = foldl (\<lambda>acc p. if \<exists>t\<in>set types. ptype p = t then acc else acc @ [p]) [] data
      in (Basic yes loci, Basic no loci))"
| "splitByTypes types (Chain base cur) =
     (let bs = splitByTypes types base; cs = splitByTypes types cur
      in (Chain (fst bs) (fst cs), Chain (snd bs) (snd cs)))"
| "splitByTypes types (Choice cs) =
     (let splits = map (splitByTypes types) cs in (Choice (map fst splits), Choice (map snd splits)))"

text \<open>Equality compares data only, not the visited locations.\<close>

fun state_equals :: "pstate \<Rightarrow> pstate \<Rightarrow> bool" and state_equals_list :: "pstate list \<Rightarrow> pstate list \<Rightarrow> bool" where
  "state_equals (Basic d l) (Basic d' l') = list_all2 Predicate_equals d d'"
| "state_equals (Chain b c) (Chain b' c') = (state_equals b b' \<and> state_equals c c')"
| "state_equals (Choice cs) (Choice cs') = state_equals_list cs cs'"
| "state_equals _ _ = False"
| "state_equals_list [] [] = True"
| "state_equals_list (c # cs) (c' # cs') = (state_equals c c' \<and> state_equals_list cs cs')"
| "state_equals_list _ _ = False"

text \<open>The data of a basic state are compared by pointer when it is sliced; \<open>same\<close> is the
  comparison of two predicate pointers.\<close>

definition starts_with :: "('a \<Rightarrow> 'a \<Rightarrow> bool) \<Rightarrow> 'a list \<Rightarrow> 'a list \<Rightarrow> bool" where
  "starts_with same xs ys = (length ys \<le> length xs \<and> list_all2 same (take (length ys) xs) ys)"

fun sliceOn :: "(predicate \<Rightarrow> predicate \<Rightarrow> bool) \<Rightarrow> pstate \<Rightarrow> pstate \<Rightarrow> pstate option" where
  "sliceOn same (Basic data loci) on =
     (if state_equals (Basic data loci) on then Some (Basic [] {})
      else case on of
        Basic data' loci' \<Rightarrow>
          (if starts_with same data data' then Some (Basic (drop (length data') data) {}) else None)
      | _ \<Rightarrow> None)"
| "sliceOn same (Chain base cur) on =
     (if state_equals base on then Some cur
      else case sliceOn same base on of
        Some baseSlice \<Rightarrow> Some (Chain baseSlice cur)
      | None \<Rightarrow> None)"
| "sliceOn same (Choice cs) on =
     (let slices = map (\<lambda>c. sliceOn same c on) cs in
      if list_all (\<lambda>s. s \<noteq> None) slices then Some (Choice (map the slices)) else None)"

fun isEmpty :: "pstate \<Rightarrow> bool" where
  "isEmpty (Basic data loci) = (data = [])"
| "isEmpty (Chain base cur) = (isEmpty cur \<and> isEmpty base)"
| "isEmpty (Choice cs) = list_all isEmpty cs"

fun state_size :: "pstate \<Rightarrow> uint" where
  "state_size (Basic data loci) = of_nat (length data)"
| "state_size (Chain base cur) = state_size cur + state_size base"
| "state_size (Choice cs) = sum_list (map state_size cs)"

text \<open>The pattern of \<open>simplify\<close>: two basic states of one equality each, of the same term with the
  two Boolean constants.  The matcher compares terms with \<open>equals\<close>.\<close>

definition is_bool_equality :: "bool \<Rightarrow> pstate \<Rightarrow> Term option" where
  "is_bool_equality b s = (case s of
      Basic [p] loci \<Rightarrow>
        (if pclass p = EqualityPredicate
         then case ops p of
           [lhv, rhv] \<Rightarrow> (if tclass rhv = OpaqueBoolConstantTerm b then Some lhv else None)
         | _ \<Rightarrow> None
         else None)
    | _ \<Rightarrow> None)"

definition complementary :: "pstate list \<Rightarrow> bool" where
  "complementary ss = (case ss of
      [a, b] \<Rightarrow>
        (case (is_bool_equality True a, is_bool_equality False b) of
           (Some x, Some y) \<Rightarrow> equals x y
         | _ \<Rightarrow> (case (is_bool_equality False a, is_bool_equality True b) of
             (Some x, Some y) \<Rightarrow> equals x y
           | _ \<Rightarrow> False))
    | _ \<Rightarrow> False)"

fun simplify :: "pstate \<Rightarrow> pstate" where
  "simplify (Basic data loci) = Basic data loci"
| "simplify (Chain base cur) =
     (let b = simplify base; c = simplify cur in
      if isEmpty c then b else if isEmpty b then c else Chain b c)"
| "simplify (Choice cs) =
     (let simplified = filter (\<lambda>c. \<not> isEmpty c) (map simplify cs) in
      if complementary simplified then Choice []
      else case simplified of [c] \<Rightarrow> c | _ \<Rightarrow> Choice simplified)"

definition swapBase :: "pstate \<Rightarrow> pstate \<Rightarrow> pstate \<Rightarrow> pstate" where
  "swapBase newBase base cur = Chain (Chain newBase base) cur"

definition swapCurr :: "pstate \<Rightarrow> pstate \<Rightarrow> pstate \<Rightarrow> pstate" where
  "swapCurr newCurr base cur = Chain base (Chain cur newCurr)"

section \<open>Printing\<close>

definition nl :: string where
  "nl = [CHR 0x0A]"

fun state_toString :: "pstate \<Rightarrow> string" where
  "state_toString (Basic data loci) =
     ''('' @ nl @
     (case data of [] \<Rightarrow> ''''
      | p # ps \<Rightarrow> ''  '' @ Predicate_toString p @
          concat (map (\<lambda>e. '','' @ nl @ ''  '' @ Predicate_toString e) ps)) @
     nl @ '')''"
| "state_toString (Chain base cur) = state_toString base @ ''->'' @ state_toString cur"
| "state_toString (Choice cs) =
     ''(BEGIN'' @ nl @
     (case map state_toString cs of [] \<Rightarrow> ''''
      | s # ss \<Rightarrow> ''<OR>'' @ s @ concat (map (\<lambda>e. '','' @ nl @ ''<OR>'' @ e) ss)) @
     nl @ ''END)''"

section \<open>Factory and builder\<close>

definition PSF_Basic_empty :: pstate where
  "PSF_Basic_empty = Basic [] {}"

definition PSF_Basic :: "predicate list \<Rightarrow> pstate" where
  "PSF_Basic data = Basic data {}"

definition PSF_Chain :: "pstate \<Rightarrow> pstate \<Rightarrow> pstate" where
  "PSF_Chain base cur =
     (if isEmpty base then cur else if isEmpty cur then base else Chain base cur)"

definition PSF_Chain_pred :: "pstate \<Rightarrow> predicate \<Rightarrow> pstate" where
  "PSF_Chain_pred base p = Chain base (addPredicate p PSF_Basic_empty)"

definition PSF_Choice :: "pstate list \<Rightarrow> pstate" where
  "PSF_Choice choices = (case choices of [c] \<Rightarrow> c | _ \<Rightarrow> Choice choices)"

text \<open>The builder's state is the state built so far.\<close>

definition PSB_add_state :: "pstate \<Rightarrow> pstate \<Rightarrow> pstate" where
  "PSB_add_state State s =
     (if isEmpty s then State else if isEmpty State then s else PSF_Chain State s)"

definition PSB_add_pred :: "pstate \<Rightarrow> predicate \<Rightarrow> pstate" where
  "PSB_add_pred State p = PSB_add_state State (addPredicate p PSF_Basic_empty)"

definition PSB_visit :: "pstate \<Rightarrow> Locus \<Rightarrow> pstate" where
  "PSB_visit State l = addVisited l State"

definition PSB_add_all :: "pstate \<Rightarrow> pstate list \<Rightarrow> pstate" where
  "PSB_add_all State ss = foldl PSB_add_state State ss"

section \<open>Paths\<close>

text \<open>The sequences of predicates a state stands for: one for a basic state, the concatenations of
  one path of the base and one of the current state for a chain, those of the alternatives for a
  choice.\<close>

fun paths :: "pstate \<Rightarrow> predicate list set" where
  "paths (Basic data loci) = {data}"
| "paths (Chain base cur) = {p @ q | p q. p \<in> paths base \<and> q \<in> paths cur}"
| "paths (Choice cs) = \<Union> (set (map paths cs))"

text \<open>No alternative-free choice anywhere: such a choice has no path.\<close>

fun no_empty_choice :: "pstate \<Rightarrow> bool" where
  "no_empty_choice (Basic data loci) = True"
| "no_empty_choice (Chain base cur) = (no_empty_choice base \<and> no_empty_choice cur)"
| "no_empty_choice (Choice cs) = (cs \<noteq> [] \<and> list_all no_empty_choice cs)"

section \<open>Path semantics of the operations\<close>

abbreviation path_product :: "predicate list set \<Rightarrow> predicate list set \<Rightarrow> predicate list set" where
  "path_product A B \<equiv> {p @ q | p q. p \<in> A \<and> q \<in> B}"

lemma path_product_Nil [simp]: "path_product {[]} B = B" "path_product A {[]} = A"
  by auto

lemma path_product_image:
  assumes "\<And>p q. g (p @ q) = g p @ g q"
  shows "g ` path_product A B = path_product (g ` A) (g ` B)"
proof (intro equalityI subsetI)
  fix x assume "x \<in> g ` path_product A B"
  then obtain p q where "p \<in> A" "q \<in> B" "x = g (p @ q)" by auto
  then show "x \<in> path_product (g ` A) (g ` B)" using assms by auto
next
  fix x assume "x \<in> path_product (g ` A) (g ` B)"
  then obtain p q where "p \<in> A" "q \<in> B" "x = g p @ g q" by auto
  then have "x = g (p @ q)" "p @ q \<in> path_product A B" using assms by auto
  then show "x \<in> g ` path_product A B" by blast
qed

lemma addPredicate_paths [simp]: "paths (addPredicate p s) = (\<lambda>x. x @ [p]) ` paths s"
proof (induction p s rule: addPredicate.induct)
  case (2 p base cur)
  then show ?case by (fastforce simp: image_iff)
qed auto

lemma addVisited_paths [simp]: "paths (addVisited l s) = paths s"
  by (induction l s rule: addVisited.induct) auto

lemma state_filter_paths [simp]: "paths (state_filter f s) = filter f ` paths s"
proof (induction f s rule: state_filter.induct)
  case (2 f base cur)
  then show ?case by (fastforce simp: image_iff)
qed auto

lemma filterByTypes_filter: "filterByTypes ts s = state_filter (\<lambda>p. ptype p \<in> set ts) s"
  by (induction ts s rule: filterByTypes.induct) auto

lemma state_reverse_paths [simp]: "paths (state_reverse s) = rev ` paths s"
proof (induction s rule: state_reverse.induct)
  case (2 base cur)
  then show ?case by (fastforce simp: image_iff)
qed auto

lemma foldl_filter:
  "foldl (\<lambda>acc p. if P p then acc @ [p] else acc) acc xs = acc @ filter P xs"
  by (induction xs arbitrary: acc) auto

lemma foldl_filter_not:
  "foldl (\<lambda>acc p. if P p then acc else acc @ [p]) acc xs = acc @ filter (\<lambda>p. \<not> P p) xs"
  by (induction xs arbitrary: acc) auto

lemma splitByTypes_filter:
  "splitByTypes ts s = (state_filter (\<lambda>p. ptype p \<in> set ts) s, state_filter (\<lambda>p. ptype p \<notin> set ts) s)"
  by (induction ts s rule: splitByTypes.induct) (auto simp: Let_def foldl_filter foldl_filter_not)

text \<open>The predicates of a state.\<close>

fun preds :: "pstate \<Rightarrow> predicate set" where
  "preds (Basic data loci) = set data"
| "preds (Chain base cur) = preds base \<union> preds cur"
| "preds (Choice cs) = \<Union> (set (map preds cs))"

lemma paths_preds: "x \<in> paths s \<Longrightarrow> set x \<subseteq> preds s"
proof (induction s arbitrary: x rule: paths.induct)
  case (2 base cur)
  then show ?case by fastforce
qed auto

lemma state_map_total:
  "(\<And>p. p \<in> preds s \<Longrightarrow> m p = Some (f p)) \<Longrightarrow>
   \<exists>s'. state_map m s = Some s' \<and> paths s' = map f ` paths s \<and> getVisited s' = getVisited s"
proof (induction m s rule: state_map.induct)
  case (1 m data loci)
  then show ?case by (auto simp: omap_map_Some[of data m f])
next
  case (2 m base cur)
  then obtain b c where "state_map m base = Some b" "paths b = map f ` paths base" "getVisited b = getVisited base"
      "state_map m cur = Some c" "paths c = map f ` paths cur" "getVisited c = getVisited cur"
    by (metis UnCI preds.simps(2))
  then show ?case by (simp add: path_product_image)
next
  case (3 m cs)
  have "\<exists>s'. state_map m c = Some s' \<and> paths s' = map f ` paths c \<and> getVisited s' = getVisited c" if "c \<in> set cs" for c
    using 3 that by fastforce
  then obtain g where g: "\<And>c. c \<in> set cs \<Longrightarrow>
      state_map m c = Some (g c) \<and> paths (g c) = map f ` paths c \<and> getVisited (g c) = getVisited c"
    by metis
  then show ?case by (simp add: omap_map_Some[of cs _ g] image_UN)
qed

lemma no_empty_choice_paths: "no_empty_choice s \<Longrightarrow> paths s \<noteq> {}"
proof (induction s rule: no_empty_choice.induct)
  case (2 base cur)
  then show ?case by auto
next
  case (3 cs)
  then obtain c where "c \<in> set cs" by (cases cs) auto
  then show ?case using 3 by (fastforce simp: list_all_iff)
qed simp

lemma isEmpty_paths: "isEmpty s \<Longrightarrow> paths s \<subseteq> {[]}"
proof (induction s rule: isEmpty.induct)
  case (2 base cur)
  then show ?case by fastforce
next
  case (3 cs)
  then show ?case by (fastforce simp: list_all_iff)
qed simp

lemma isEmpty_iff_paths: "no_empty_choice s \<Longrightarrow> isEmpty s \<longleftrightarrow> paths s = {[]}"
proof
  assume "no_empty_choice s" "isEmpty s"
  then show "paths s = {[]}" using isEmpty_paths[of s] no_empty_choice_paths[of s] by auto
next
  assume "no_empty_choice s" "paths s = {[]}"
  then show "isEmpty s"
  proof (induction s rule: isEmpty.induct)
    case (2 base cur)
    have ne: "paths base \<noteq> {}" "paths cur \<noteq> {}" using 2 no_empty_choice_paths by auto
    have "p @ q = []" if "p \<in> paths base" "q \<in> paths cur" for p q
      using 2(4) that by auto
    then have "paths base = {[]}" "paths cur = {[]}" using ne by auto
    then show ?case using 2 by simp
  next
    case (3 cs)
    have "paths c = {[]}" if "c \<in> set cs" for c
    proof -
      have "paths c \<subseteq> {[]}" using 3(3) that by auto
      then show ?thesis using 3(2) that no_empty_choice_paths[of c] by (auto simp: list_all_iff)
    qed
    then show ?case using 3 by (auto simp: list_all_iff)
  qed simp
qed

lemma PSF_Chain_paths:
  "no_empty_choice a \<Longrightarrow> no_empty_choice b \<Longrightarrow> paths (PSF_Chain a b) = path_product (paths a) (paths b)"
  unfolding PSF_Chain_def by (simp add: isEmpty_iff_paths)

lemma PSF_Chain_ok: "no_empty_choice a \<Longrightarrow> no_empty_choice b \<Longrightarrow> no_empty_choice (PSF_Chain a b)"
  by (simp add: PSF_Chain_def)

lemma PSB_add_state_paths:
  "no_empty_choice a \<Longrightarrow> no_empty_choice b \<Longrightarrow> paths (PSB_add_state a b) = path_product (paths a) (paths b)"
  unfolding PSB_add_state_def by (simp add: isEmpty_iff_paths PSF_Chain_paths)

lemma PSB_add_state_ok: "no_empty_choice a \<Longrightarrow> no_empty_choice b \<Longrightarrow> no_empty_choice (PSB_add_state a b)"
  by (simp add: PSB_add_state_def PSF_Chain_ok)

lemma PSF_Choice_paths [simp]: "paths (PSF_Choice cs) = (\<Union>c\<in>set cs. paths c)"
  by (simp add: PSF_Choice_def split: list.split)

lemma no_empty_choice_add [simp]: "no_empty_choice (addPredicate p s) = no_empty_choice s"
  by (induction p s rule: addPredicate.induct) (auto simp: list_all_iff)

text \<open>The interface of everything that sequences states: an operation that glues the paths of two
  states, on states that have a path.\<close>

locale sequencing =
  fixes sem :: "'s \<Rightarrow> predicate list set" and ok :: "'s \<Rightarrow> bool" and glue :: "'s \<Rightarrow> 's \<Rightarrow> 's"
  assumes glue_sem: "ok a \<Longrightarrow> ok b \<Longrightarrow> sem (glue a b) = path_product (sem a) (sem b)"
    and glue_ok: "ok a \<Longrightarrow> ok b \<Longrightarrow> ok (glue a b)"
begin

fun concat_paths :: "predicate list set \<Rightarrow> 's list \<Rightarrow> predicate list set" where
  "concat_paths A [] = A"
| "concat_paths A (s # ss) = concat_paths (path_product A (sem s)) ss"

lemma fold_glue: "ok s \<Longrightarrow> list_all ok ss \<Longrightarrow>
   sem (foldl glue s ss) = concat_paths (sem s) ss \<and> ok (foldl glue s ss)"
  by (induction ss arbitrary: s) (simp_all add: glue_sem glue_ok)

lemma glue_assoc: "ok a \<Longrightarrow> ok b \<Longrightarrow> ok c \<Longrightarrow> sem (glue (glue a b) c) = sem (glue a (glue b c))"
proof -
  assume o: "ok a" "ok b" "ok c"
  have "path_product (path_product A B) C = path_product A (path_product B C)" for A B C
    by (auto, (metis append.assoc)+)
  then show ?thesis using o by (simp add: glue_sem glue_ok)
qed

end

interpretation chain: sequencing paths no_empty_choice PSF_Chain
  by unfold_locales (simp_all add: PSF_Chain_paths PSF_Chain_ok)

interpretation builder: sequencing paths no_empty_choice PSB_add_state
  by unfold_locales (simp_all add: PSB_add_state_paths PSB_add_state_ok)

section \<open>Visited locations\<close>

lemma hasVisitedFrom_spec:
  "no_empty_choice s \<Longrightarrow> hasVisitedFrom s V = (r, W) \<Longrightarrow>
     r = (V \<subseteq> getVisited s) \<and> (W = (if r then {} else V - getVisited s))"
  "list_all no_empty_choice cs \<Longrightarrow> cs \<noteq> [] \<or> V \<noteq> {} \<Longrightarrow> hasVisitedFrom_any cs V = (r, W) \<Longrightarrow>
     r = (V \<subseteq> \<Union> (getVisited ` set cs)) \<and> (W = (if r then {} else V - \<Union> (getVisited ` set cs)))"
proof (induction s V and cs V arbitrary: r W and r W rule: hasVisitedFrom_hasVisitedFrom_any.induct)
  case (2 base cur visited)
  obtain r1 v1 where 1: "hasVisitedFrom cur visited = (r1, v1)" by force
  have c: "r1 = (visited \<subseteq> getVisited cur)" "v1 = (if r1 then {} else visited - getVisited cur)"
    using "2.IH"(1)[OF _ 1] "2.prems" by auto
  show ?case
  proof (cases r1)
    case True
    then show ?thesis using 1 c "2.prems" by auto
  next
    case False
    obtain r2 v2 where 2: "hasVisitedFrom base v1 = (r2, v2)" by force
    have "r2 = (v1 \<subseteq> getVisited base)" "v2 = (if r2 then {} else v1 - getVisited base)"
      using "2.IH"(2)[OF 1[symmetric] refl False _ 2] "2.prems" by auto
    then show ?thesis using 1 2 c False "2.prems" by auto
  qed
next
  case (5 c cs visited)
  obtain r1 v1 where 1: "hasVisitedFrom c visited = (r1, v1)" by force
  have c: "r1 = (visited \<subseteq> getVisited c)" "v1 = (if r1 then {} else visited - getVisited c)"
    using "5.IH"(1)[OF _ 1] "5.prems" by auto
  show ?case
  proof (cases r1)
    case True
    then show ?thesis using 1 c "5.prems" by auto
  next
    case False
    then have ne: "v1 \<noteq> {}" using c by auto
    obtain r2 v2 where 2: "hasVisitedFrom_any cs v1 = (r2, v2)" by force
    have "r2 = (v1 \<subseteq> \<Union> (getVisited ` set cs))" "v2 = (if r2 then {} else v1 - \<Union> (getVisited ` set cs))"
      using "5.IH"(2)[OF 1[symmetric] refl False _ _ 2] "5.prems" ne by auto
    then show ?thesis using 1 2 c False "5.prems" by auto
  qed
qed (auto simp: Let_def)

lemma hasVisited_spec:
  assumes "no_empty_choice s"
  shows "hasVisited s ls \<longleftrightarrow> set ls \<subseteq> getVisited s"
proof (cases s)
  case (Basic data loci)
  then show ?thesis by (auto simp: hasVisited_def list_all_iff)
next
  case (Chain base cur)
  then show ?thesis using hasVisitedFrom_spec(1)[OF assms, of "set ls"]
    by (cases "hasVisitedFrom s (set ls)") (auto simp: hasVisited_def)
next
  case (Choice cs)
  then show ?thesis using hasVisitedFrom_spec(1)[OF assms, of "set ls"]
    by (cases "hasVisitedFrom s (set ls)") (auto simp: hasVisited_def)
qed

section \<open>Slicing\<close>

abbreviation path_equals :: "predicate list \<Rightarrow> predicate list \<Rightarrow> bool" where
  "path_equals \<equiv> list_all2 Predicate_equals"

text \<open>Two sets of paths that match each other up to predicate equality.\<close>

definition paths_match :: "predicate list set \<Rightarrow> predicate list set \<Rightarrow> bool" where
  "paths_match A B = ((\<forall>x\<in>A. \<exists>y\<in>B. path_equals x y) \<and> (\<forall>y\<in>B. \<exists>x\<in>A. path_equals x y))"

lemma paths_matchI:
  "(\<And>x. x \<in> A \<Longrightarrow> \<exists>y\<in>B. path_equals x y) \<Longrightarrow> (\<And>y. y \<in> B \<Longrightarrow> \<exists>x\<in>A. path_equals x y) \<Longrightarrow> paths_match A B"
  by (simp add: paths_match_def)

lemma paths_match_product:
  assumes "paths_match A A'" "paths_match B B'"
  shows "paths_match (path_product A B) (path_product A' B')"
proof (rule paths_matchI)
  fix x assume "x \<in> path_product A B"
  then obtain p q where x: "x = p @ q" "p \<in> A" "q \<in> B" by auto
  then obtain p' q' where "p' \<in> A'" "path_equals p p'" "q' \<in> B'" "path_equals q q'"
    using assms unfolding paths_match_def by metis
  then show "\<exists>y\<in>path_product A' B'. path_equals x y" using x list_all2_appendI by blast
next
  fix y assume "y \<in> path_product A' B'"
  then obtain p q where y: "y = p @ q" "p \<in> A'" "q \<in> B'" by auto
  then obtain p' q' where "p' \<in> A" "path_equals p' p" "q' \<in> B" "path_equals q' q"
    using assms unfolding paths_match_def by metis
  then show "\<exists>x\<in>path_product A B. path_equals x y" using y list_all2_appendI by blast
qed

lemma paths_match_UN:
  assumes "\<And>i. i \<in> I \<Longrightarrow> paths_match (f i) (g i)"
  shows "paths_match (\<Union> (f ` I)) (\<Union> (g ` I))"
proof (rule paths_matchI)
  fix x assume "x \<in> \<Union> (f ` I)"
  then show "\<exists>y\<in>\<Union> (g ` I). path_equals x y" using assms unfolding paths_match_def by fast
next
  fix y assume "y \<in> \<Union> (g ` I)"
  then show "\<exists>x\<in>\<Union> (f ` I). path_equals x y" using assms unfolding paths_match_def by fast
qed

lemma paths_match_self:
  assumes "\<And>x p. x \<in> A \<Longrightarrow> p \<in> set x \<Longrightarrow> Predicate_equals p p"
  shows "paths_match A A"
proof (rule paths_matchI)
  fix x assume "x \<in> A"
  then have "path_equals x x" using assms by (blast intro: list.rel_refl_strong)
  then show "\<exists>y\<in>A. path_equals x y" "\<exists>y\<in>A. path_equals y x" using \<open>x \<in> A\<close> by blast+
qed

lemma paths_match_Un:
  "paths_match A A' \<Longrightarrow> paths_match B B' \<Longrightarrow> paths_match (A \<union> B) (A' \<union> B')"
  unfolding paths_match_def by fast

lemma state_equals_paths:
  "state_equals a b \<Longrightarrow> paths_match (paths a) (paths b)"
  "state_equals_list as bs \<Longrightarrow> paths_match (\<Union> (paths ` set as)) (\<Union> (paths ` set bs))"
  by (induction a b and as bs rule: state_equals_state_equals_list.induct)
    (simp_all add: paths_match_product paths_match_Un, simp_all add: paths_match_def)

lemma preds_refl_paths:
  "(\<And>p. p \<in> preds s \<Longrightarrow> Predicate_equals p p) \<Longrightarrow> paths_match (paths s) (paths s)"
  using paths_preds by (intro paths_match_self) blast

lemma path_product_assoc: "path_product (path_product A B) C = path_product A (path_product B C)"
  by (auto, (metis append.assoc)+)

lemma starts_with_append:
  assumes "starts_with same xs ys" "\<And>p q. same p q \<Longrightarrow> p = q"
  shows "xs = ys @ drop (length ys) xs"
proof -
  have "list_all2 (=) (take (length ys) xs) ys"
    using assms by (auto simp: starts_with_def intro: list_all2_mono)
  then have "take (length ys) xs = ys" by (simp add: list_all2_eq)
  then show ?thesis by (metis append_take_drop_id)
qed

lemma sliceOn_paths:
  "sliceOn same s on = Some r \<Longrightarrow> (\<And>p q. same p q \<Longrightarrow> p = q) \<Longrightarrow>
   (\<And>p. p \<in> preds s \<Longrightarrow> Predicate_equals p p) \<Longrightarrow>
   paths_match (paths s) (path_product (paths on) (paths r))"
proof (induction same s on arbitrary: r rule: sliceOn.induct)
  case (1 same data loci on)
  show ?case
  proof (cases "state_equals (Basic data loci) on")
    case True
    then have "r = Basic [] {}" using 1(1) by simp
    then show ?thesis using state_equals_paths(1)[OF True] by simp
  next
    case False
    then obtain d l where on: "on = Basic d l" "starts_with same data d" "r = Basic (drop (length d) data) {}"
      using 1(1) by (auto split: pstate.splits if_splits)
    then have "data = d @ drop (length d) data" using starts_with_append 1(2) by metis
    then have "path_product (paths on) (paths r) = paths (Basic data loci)" using on by auto
    then show ?thesis using preds_refl_paths[of "Basic data loci"] 1(3) by simp
  qed
next
  case (2 same base cur on)
  have cur: "paths_match (paths cur) (paths cur)" using 2(4) by (intro preds_refl_paths) simp
  show ?case
  proof (cases "state_equals base on")
    case True
    then show ?thesis using 2(2) paths_match_product[OF state_equals_paths(1)[OF True] cur] by simp
  next
    case False
    then obtain b where b: "sliceOn same base on = Some b" "r = Chain b cur"
      using 2(2) by (auto split: option.splits)
    have "paths_match (paths base) (path_product (paths on) (paths b))"
      using 2(1)[OF False b(1)] 2(3,4) by simp
    from paths_match_product[OF this cur]
    have "paths_match (paths (Chain base cur)) (path_product (path_product (paths on) (paths b)) (paths cur))"
      by simp
    moreover have "path_product (path_product (paths on) (paths b)) (paths cur) = path_product (paths on) (paths r)"
      unfolding b(2) paths.simps by (rule path_product_assoc)
    ultimately show ?thesis by simp
  qed
next
  case (3 same cs on)
  then have all: "\<And>c. c \<in> set cs \<Longrightarrow> \<exists>q. sliceOn same c on = Some q"
      and r: "r = Choice (map (\<lambda>c. the (sliceOn same c on)) cs)"
    by (auto simp: list_all_iff Let_def comp_def split: if_splits)
  have "paths_match (paths c) (path_product (paths on) (paths (the (sliceOn same c on))))" if "c \<in> set cs" for c
    using 3(1)[OF that] all[OF that] 3(3,4) that by fastforce
  then have "paths_match (\<Union> (paths ` set cs)) (\<Union> ((\<lambda>c. path_product (paths on) (paths (the (sliceOn same c on)))) ` set cs))"
    by (rule paths_match_UN)
  moreover have "(\<Union> ((\<lambda>c. path_product (paths on) (paths (the (sliceOn same c on)))) ` set cs)) =
      path_product (paths on) (paths r)"
    by (auto simp: r)
  ultimately show ?case by simp
qed

section \<open>Simplification\<close>

text \<open>Where simplification drops nothing: no alternative simplifies to an empty state and no choice
  of two alternatives is the complementary pair.\<close>

fun simplify_safe :: "pstate \<Rightarrow> bool" where
  "simplify_safe (Basic data loci) = True"
| "simplify_safe (Chain base cur) = (simplify_safe base \<and> simplify_safe cur)"
| "simplify_safe (Choice cs) = (cs \<noteq> [] \<and> list_all simplify_safe cs \<and>
     list_all (\<lambda>c. \<not> isEmpty (simplify c)) cs \<and> \<not> complementary (map simplify cs))"

lemma simplify_paths:
  "simplify_safe s \<Longrightarrow> paths (simplify s) = paths s \<and> no_empty_choice (simplify s)"
proof (induction s rule: simplify.induct)
  case (2 base cur)
  then have IH: "paths (simplify base) = paths base" "no_empty_choice (simplify base)"
      "paths (simplify cur) = paths cur" "no_empty_choice (simplify cur)" by (auto simp: Let_def)
  then show ?case
    using isEmpty_iff_paths[of "simplify base"] isEmpty_iff_paths[of "simplify cur"]
    by (auto simp: Let_def)
next
  case (3 cs)
  have f: "filter (\<lambda>c. \<not> isEmpty c) (map simplify cs) = map simplify cs"
    using 3(2) by (auto simp: list_all_iff filter_id_conv)
  have IH: "\<And>c. c \<in> set cs \<Longrightarrow> paths (simplify c) = paths c \<and> no_empty_choice (simplify c)"
    using 3 by (auto simp: list_all_iff)
  have s: "simplify (Choice cs) = (case map simplify cs of [c] \<Rightarrow> c | _ \<Rightarrow> Choice (map simplify cs))"
    using 3(2) by (simp add: f Let_def)
  have "paths (case xs of [c] \<Rightarrow> c | _ \<Rightarrow> Choice xs) = (\<Union>c\<in>set xs. paths c)" for xs
    by (simp split: list.split)
  then have "paths (simplify (Choice cs)) = (\<Union>c\<in>set (map simplify cs). paths c)"
    unfolding s by blast
  moreover have "no_empty_choice (simplify (Choice cs))"
    unfolding s using IH 3(2) by (auto simp: list_all_iff split: list.split)
  ultimately show ?case using IH by auto
qed simp

lemma getVisited_filter [simp]: "getVisited (state_filter f s) = getVisited s"
  by (induction f s rule: state_filter.induct) auto

lemma getVisited_reverse [simp]: "getVisited (state_reverse s) = getVisited s"
  by (induction s rule: state_reverse.induct) auto

lemma getVisited_addPredicate [simp]:
  "getVisited (addPredicate p s) = getVisited s"
  by (induction p s rule: addPredicate.induct) auto

section \<open>Properties\<close>

text \<open>C7: The operations on states are list operations on their paths: adding a predicate appends
  it to every path, filtering filters, reversing reverses every path, mapping with a mapper that
  succeeds on the predicates of the state maps every path; none of them touches the visited
  locations, and visiting a location touches no path.\<close>

theorem state_ops_paths:
  assumes "\<And>p. p \<in> preds s \<Longrightarrow> m p = Some (f p)"
  shows "paths (addPredicate p s) = (\<lambda>x. x @ [p]) ` paths s \<and> getVisited (addPredicate p s) = getVisited s \<and>
    paths (state_filter g s) = filter g ` paths s \<and> getVisited (state_filter g s) = getVisited s \<and>
    paths (state_reverse s) = rev ` paths s \<and> getVisited (state_reverse s) = getVisited s \<and>
    paths (addVisited l s) = paths s \<and>
    (\<exists>s'. state_map m s = Some s' \<and> paths s' = map f ` paths s \<and> getVisited s' = getVisited s)"
  using state_map_total[of s m f] assms by simp

theorem state_ops_paths_witness:
  "paths (state_reverse (Chain (Basic [getMarkPredicate getTrueTerm unknown_Locus] {})
      (Basic [getMarkPredicate getFalseTerm unknown_Locus] {}))) =
   {[getMarkPredicate getFalseTerm unknown_Locus, getMarkPredicate getTrueTerm unknown_Locus]}"
  using state_ops_paths[of "Chain (Basic [getMarkPredicate getTrueTerm unknown_Locus] {})
      (Basic [getMarkPredicate getFalseTerm unknown_Locus] {})" Some "\<lambda>p. p"] by auto

text \<open>C5: C5: \<open>splitByTypes\<close> splits every path into its predicates of the given types and the others,
  in order; the first half is what \<open>filterByTypes\<close> answers, and both keep all visited locations.\<close>

theorem splitByTypes_partition:
  "\<exists>yes no. splitByTypes ts s = (yes, no) \<and> yes = filterByTypes ts s \<and>
     paths yes = filter (\<lambda>p. ptype p \<in> set ts) ` paths s \<and>
     paths no = filter (\<lambda>p. ptype p \<notin> set ts) ` paths s \<and>
     getVisited yes = getVisited s \<and> getVisited no = getVisited s"
  by (simp add: splitByTypes_filter filterByTypes_filter)

text \<open>C23: Chaining states and building a state from parts keep the meaning: on states without an
  empty choice, the factory's \<open>Chain\<close> (which drops empty sides) has the concatenations of one path of
  each side as its paths, and a builder that adds a list of states stands for the concatenations
  of one path of each.\<close>

theorem builder_paths:
  assumes "no_empty_choice s" "no_empty_choice t" "list_all no_empty_choice ss"
  shows "paths (PSF_Chain s t) = {p @ q | p q. p \<in> paths s \<and> q \<in> paths t} \<and>
     paths (PSB_add_all s ss) = builder.concat_paths (paths s) ss \<and>
     paths (PSB_add_pred s p) = (\<lambda>x. x @ [p]) ` paths s \<and> no_empty_choice (PSB_add_all s ss)"
proof -
  have "paths (PSB_add_pred s p) = (\<lambda>x. x @ [p]) ` paths s"
    using PSB_add_state_paths[OF assms(1), of "addPredicate p PSF_Basic_empty"]
    by (auto simp: PSB_add_pred_def PSF_Basic_empty_def)
  then show ?thesis
    using chain.glue_sem[OF assms(1,2)] builder.fold_glue[OF assms(1,3)] by (simp add: PSB_add_all_def)
qed

theorem builder_paths_witness:
  "paths (PSB_add_all (Basic [] {}) [Choice [Basic [getMarkPredicate getTrueTerm unknown_Locus] {}, Basic [] {}],
       Basic [getMarkPredicate getFalseTerm unknown_Locus] {}]) =
   {[getMarkPredicate getTrueTerm unknown_Locus, getMarkPredicate getFalseTerm unknown_Locus],
    [getMarkPredicate getFalseTerm unknown_Locus]}"
  using builder_paths[of "Basic [] {}" "Basic [] {}"
      "[Choice [Basic [getMarkPredicate getTrueTerm unknown_Locus] {}, Basic [] {}],
        Basic [getMarkPredicate getFalseTerm unknown_Locus] {}]"]
  by auto

text \<open>C24: On states without an empty choice \<open>hasVisited\<close> holds exactly when every location asked for
  is among the visited ones, although the search erases locations from a shared set and stops early;
  and such a state is empty exactly when its only path is the empty one.\<close>

theorem hasVisited_isEmpty_spec:
  assumes "no_empty_choice s"
  shows "(hasVisited s ls \<longleftrightarrow> set ls \<subseteq> getVisited s) \<and> (isEmpty s \<longleftrightarrow> paths s = {[]})"
  using hasVisited_spec[OF assms] isEmpty_iff_paths[OF assms] by blast

theorem hasVisited_isEmpty_spec_witness:
  "let l = unknown_Locus; l' = unknown_Locus\<lparr>filename := ''a.c''\<rparr> in
   hasVisited (Choice [addVisited l (Basic [] {}), addVisited l' (Basic [] {})]) [l, l', l]"
  unfolding Let_def by (subst hasVisited_isEmpty_spec[THEN conjunct1]) simp_all

text \<open>C1: Slicing a state on a base answers the rest: when it answers, the paths of the state are, up
  to predicate equality, the paths of the base each continued by a path of the slice; where
  \<open>same\<close> compares the pointers of predicates.\<close>

theorem sliceOn_correct:
  assumes "sliceOn same s on = Some r" "\<And>p q. same p q \<Longrightarrow> p = q"
    and "\<And>p. p \<in> preds s \<Longrightarrow> Predicate_equals p p"
  shows "paths_match (paths s) {p @ q | p q. p \<in> paths on \<and> q \<in> paths r}"
  using assms by (rule sliceOn_paths)

theorem sliceOn_correct_witness:
  "\<exists>r. sliceOn (=) (Chain (Basic [getMarkPredicate getTrueTerm unknown_Locus] {})
         (Basic [getMarkPredicate getFalseTerm unknown_Locus] {}))
         (Basic [getMarkPredicate getTrueTerm unknown_Locus] {}) = Some r \<and>
       paths_match {[getMarkPredicate getTrueTerm unknown_Locus, getMarkPredicate getFalseTerm unknown_Locus]}
         {p @ q | p q. p = [getMarkPredicate getTrueTerm unknown_Locus] \<and> q \<in> paths r}"
proof -
  let ?p = "getMarkPredicate getTrueTerm unknown_Locus" and ?q = "getMarkPredicate getFalseTerm unknown_Locus"
  let ?s = "Chain (Basic [?p] {}) (Basic [?q] {})"
  have refl: "Predicate_equals ?p ?p" "Predicate_equals ?q ?q"
    by (simp_all add: Predicate_equals_def pred_get_defs pred_mk_defs get_defs mk_defs extra_of_def)
  have s: "sliceOn (=) ?s (Basic [?p] {}) = Some (Basic [?q] {})" using refl by simp
  have "paths_match (paths ?s) {p @ q | p q. p \<in> paths (Basic [?p] {}) \<and> q \<in> paths (Basic [?q] {})}"
    by (rule sliceOn_correct[OF s]) (use refl in auto)
  then show ?thesis using s by (intro exI[of _ "Basic [?q] {}"]) auto
qed

text \<open>C22: Simplification keeps the paths of a state without empty choices in which no alternative of a choice
  simplifies to an empty state and no choice simplifies to the complementary pair.\<close>

theorem simplify_keeps_paths:
  assumes "simplify_safe s"
  shows "paths (simplify s) = paths s"
  using simplify_paths[OF assms] by simp

theorem simplify_keeps_paths_witness:
  "paths (simplify (Chain (Basic [] {}) (Choice [Basic [getMarkPredicate getTrueTerm unknown_Locus] {}]))) =
   {[getMarkPredicate getTrueTerm unknown_Locus]}"
  by (subst simplify_keeps_paths) (auto simp: complementary_def)

text \<open>Otherwise it loses executions: the choice between doing nothing and a state \<open>s\<close>
  simplifies to \<open>s\<close> alone, and the choice between a Term being true and it being false to a state
  without any path, which counts as empty.\<close>

theorem simplify_loses_paths:
  assumes "equals x x" "ps \<noteq> []"
  shows "[] \<in> paths (Choice [Basic [] L, Basic ps L']) \<and> simplify (Choice [Basic [] L, Basic ps L']) = Basic ps L' \<and>
    (let c = Choice [Basic [getEqualityPredicate x getTrueTerm l ty] {},
                     Basic [getEqualityPredicate x getFalseTerm l ty] {}]
     in card (paths c) = 2 \<and> paths (simplify c) = {} \<and> isEmpty (simplify c))"
proof -
  have "getEqualityPredicate x getTrueTerm l ty \<noteq> getEqualityPredicate x getFalseTerm l ty"
    by (simp add: pred_get_defs pred_mk_defs get_defs mk_defs)
  then show ?thesis using assms
    by (simp add: complementary_def is_bool_equality_def Let_def)
      (simp add: pred_get_defs pred_mk_defs get_defs mk_defs)
qed

theorem simplify_loses_paths_witness:
  "isEmpty (simplify (Choice [Basic [getEqualityPredicate getNullPtrTerm getTrueTerm unknown_Locus PATH] {},
                              Basic [getEqualityPredicate getNullPtrTerm getFalseTerm unknown_Locus PATH] {}]))"
  using simplify_loses_paths[of getNullPtrTerm "[getMarkPredicate getTrueTerm unknown_Locus]" "{}" "{}" unknown_Locus PATH]
  by (simp add: Let_def get_defs mk_defs extra_of_def)

end
