(* ===== verification/Transformers.thy ===== *)
theory Transformers
  imports States
begin

text \<open>
  The transformer framework (src/State/Transformer/Transformer.hpp) and the collectors built on it.
  A transformer is a visitor with state: \<open>transform\<close> of a term transforms its subterms through
  \<open>accept\<close>, then calls the hook of the term's class and the hook of all terms; predicates and states
  are handled in the same way.  The record \<open>Transformer\<close> holds the hooks, which the C++ subclasses
  override, over a state of type \<open>'s\<close>, the subclass's fields; \<open>None\<close> is a failed assertion.

  \<open>PredicateStateChain::fmap\<close> evaluates \<open>f(base)\<close> and \<open>f(curr)\<close> as arguments of one call, in an
  order C++ leaves open: it is the parameter \<open>base_first\<close>.
\<close>

section \<open>Traversal with state\<close>

fun omap_st :: "('a \<Rightarrow> 's \<Rightarrow> ('b \<times> 's) option) \<Rightarrow> 'a list \<Rightarrow> 's \<Rightarrow> ('b list \<times> 's) option" where
  "omap_st f [] s = Some ([], s)"
| "omap_st f (x # xs) s = do {
     (y, s1) \<leftarrow> f x s;
     (ys, s2) \<leftarrow> omap_st f xs s1;
     Some (y # ys, s2) }"

lemma omap_st_cong [fundef_cong]:
  "xs = ys \<Longrightarrow> s = t \<Longrightarrow> (\<And>x u. x \<in> set ys \<Longrightarrow> f x u = g x u) \<Longrightarrow> omap_st f xs s = omap_st g ys t"
  by (induction ys arbitrary: xs s t) (auto intro!: obind_ext split: prod.splits)

lemma omap_st_id: "(\<And>x u. x \<in> set xs \<Longrightarrow> f x u = Some (x, u)) \<Longrightarrow> omap_st f xs s = Some (xs, s)"
  by (induction xs arbitrary: s) auto

lemma omap_st_fold:
  "(\<And>x u. x \<in> set xs \<Longrightarrow> f x u = Some (x, g x u)) \<Longrightarrow> omap_st f xs s = Some (xs, fold g xs s)"
  by (induction xs arbitrary: s) auto

lemma omap_st_pure:
  "(\<And>x u. x \<in> set xs \<Longrightarrow> f x u = map_option (\<lambda>y. (y, u)) (g x)) \<Longrightarrow>
   omap_st f xs s = map_option (\<lambda>ys. (ys, s)) (omap g xs)"
proof (induction xs arbitrary: s)
  case (Cons a xs)
  have "f a s = map_option (\<lambda>y. (y, s)) (g a)" using Cons.prems by simp
  then show ?case using Cons.IH[of s] Cons.prems by (cases "g a"; cases "omap g xs") simp_all
qed simp

text \<open>\<open>accept\<close> with state: the subterms in order, then the class's factory method if one of them has
  changed.  Without state it is \<open>accept\<close> of TermFactory.\<close>

definition accept_st ::
  "env \<Rightarrow> (Term \<Rightarrow> 's \<Rightarrow> (Term \<times> 's) option) \<Rightarrow> Term \<Rightarrow> 's \<Rightarrow> (Term \<times> 's) option" where
  "accept_st E tr t s = do {
     (cs, s1) \<leftarrow> omap_st tr (subterms t) s;
     t1 \<leftarrow> (if cs = subterms t then Some t else rebuild E (tclass t) (ttype t) cs);
     Some (t1, s1) }"

lemma accept_st_pure:
  assumes "arity_ok (tclass t) (length (subterms t))"
    and "\<And>x u. x \<in> set (subterms t) \<Longrightarrow> tr x u = map_option (\<lambda>y. (y, u)) (tr' x)"
  shows "accept_st E tr t s = map_option (\<lambda>y. (y, s)) (accept E tr' t)"
proof -
  have "omap_st tr (subterms t) s = map_option (\<lambda>ys. (ys, s)) (omap tr' (subterms t))"
    using assms(2) by (rule omap_st_pure)
  then show ?thesis
    by (cases "omap tr' (subterms t)")
      (auto simp: accept_unfold[OF assms(1)] accept_st_def map_option_case split: option.split)
qed

lemma accept_st_cong [fundef_cong]:
  "t = u \<Longrightarrow> s = s' \<Longrightarrow> (\<And>x v. x \<in> set (subterms u) \<Longrightarrow> f x v = g x v) \<Longrightarrow>
   accept_st E f t s = accept_st E g u s'"
  using omap_st_cong[of "subterms u" "subterms u" s' s' f g] by (simp add: accept_st_def)

definition pred_accept_st ::
  "env \<Rightarrow> (Term \<Rightarrow> 's \<Rightarrow> (Term \<times> 's) option) \<Rightarrow> predicate \<Rightarrow> 's \<Rightarrow> (predicate \<times> 's) option" where
  "pred_accept_st E tr p s =
     (if pclass p = MarkPredicate then Some (p, s)
      else do { (cs, s1) \<leftarrow> omap_st tr (ops p) s; Some (if cs = ops p then p else with_ops E p cs, s1) })"

lemma pred_accept_st_pure:
  assumes "wf_predicate E p" "\<And>x u. x \<in> set (ops p) \<Longrightarrow> tr x u = map_option (\<lambda>y. (y, u)) (tr' x)"
  shows "pred_accept_st E tr p s = map_option (\<lambda>q. (q, s)) (pred_accept E tr' p)"
proof -
  have "omap_st tr (ops p) s = map_option (\<lambda>ys. (ys, s)) (omap tr' (ops p))"
    using assms(2) by (rule omap_st_pure)
  then show ?thesis
    using with_ops_same[OF assms(1)]
    by (cases "omap tr' (ops p)") (auto simp: pred_accept_unfold[OF assms(1)] pred_accept_st_def)
qed

section \<open>The hooks and the three traversals\<close>

record 's Transformer =
  transformTermClass :: "Term \<Rightarrow> 's \<Rightarrow> (Term \<times> 's) option"
  transformTerm :: "Term \<Rightarrow> 's \<Rightarrow> (Term \<times> 's) option"
  transformPredicateClass :: "predicate \<Rightarrow> 's \<Rightarrow> (predicate \<times> 's) option"
  transformPredicate :: "predicate \<Rightarrow> 's \<Rightarrow> (predicate \<times> 's) option"
  transformStateClass :: "pstate \<Rightarrow> 's \<Rightarrow> (pstate \<times> 's) option"
  transformPredicateState :: "pstate \<Rightarrow> 's \<Rightarrow> (pstate \<times> 's) option"

text \<open>The hooks of the base class answer their argument.\<close>

definition base_Transformer :: "'s Transformer" where
  "base_Transformer = \<lparr>
     transformTermClass = (\<lambda>t s. Some (t, s)), transformTerm = (\<lambda>t s. Some (t, s)),
     transformPredicateClass = (\<lambda>p s. Some (p, s)), transformPredicate = (\<lambda>p s. Some (p, s)),
     transformStateClass = (\<lambda>p s. Some (p, s)), transformPredicateState = (\<lambda>p s. Some (p, s))\<rparr>"

lemma base_hooks [simp]:
  "transformTermClass base_Transformer t s = Some (t, s)" "transformTerm base_Transformer t s = Some (t, s)"
  "transformPredicateClass base_Transformer p s = Some (p, s)" "transformPredicate base_Transformer p s = Some (p, s)"
  "transformStateClass base_Transformer ps s = Some (ps, s)" "transformPredicateState base_Transformer ps s = Some (ps, s)"
  by (simp_all add: base_Transformer_def)

function (sequential) transform_term :: "env \<Rightarrow> 's Transformer \<Rightarrow> Term \<Rightarrow> 's \<Rightarrow> (Term \<times> 's) option" where
  "transform_term E T t s = do {
     (t1, s1) \<leftarrow> accept_st E (transform_term E T) t s;
     (t2, s2) \<leftarrow> transformTermClass T t1 s1;
     transformTerm T t2 s2 }"
  by pat_completeness auto
termination
proof (relation "measure (\<lambda>(E, T, t, s). size t)", goal_cases)
  case (2 E T t s x v)
  then show ?case by (cases t) (auto simp: less_Suc_eq_le intro: order_trans[OF size_list_estimation'[OF _ order_refl]])
qed simp

declare transform_term.simps [simp del]

definition transform_pred :: "env \<Rightarrow> 's Transformer \<Rightarrow> predicate \<Rightarrow> 's \<Rightarrow> (predicate \<times> 's) option" where
  "transform_pred E T p s = do {
     (p1, s1) \<leftarrow> pred_accept_st E (transform_term E T) p s;
     (p2, s2) \<leftarrow> transformPredicateClass T p1 s1;
     transformPredicate T p2 s2 }"

definition transform_pair ::
  "bool \<Rightarrow> ('a \<Rightarrow> 's \<Rightarrow> ('b \<times> 's) option) \<Rightarrow> 'a \<Rightarrow> 'a \<Rightarrow> 's \<Rightarrow> ('b \<times> 'b \<times> 's) option" where
  "transform_pair base_first f x y s =
     (if base_first then do { (a, s1) \<leftarrow> f x s; (b, s2) \<leftarrow> f y s1; Some (a, b, s2) }
      else do { (b, s1) \<leftarrow> f y s; (a, s2) \<leftarrow> f x s1; Some (a, b, s2) })"

lemma transform_pair_cong [fundef_cong]:
  "x = x' \<Longrightarrow> y = y' \<Longrightarrow> s = s' \<Longrightarrow> (\<And>u. f x' u = g x' u) \<Longrightarrow> (\<And>u. f y' u = g y' u) \<Longrightarrow>
   transform_pair b f x y s = transform_pair b g x' y' s'"
  by (auto simp: transform_pair_def intro!: obind_ext split: prod.splits)

text \<open>\<open>transformEsab\<close>: the class hook of the transformed state, then the hook of all states.  All
  the overrides keep the class of the state up to that call.\<close>

definition transformEsab :: "'s Transformer \<Rightarrow> pstate \<Rightarrow> 's \<Rightarrow> (pstate \<times> 's) option" where
  "transformEsab T ps s = do { (ps1, s1) \<leftarrow> transformStateClass T ps s; transformPredicateState T ps1 s1 }"

definition transformBasic ::
  "env \<Rightarrow> 's Transformer \<Rightarrow> predicate list \<Rightarrow> Locus set \<Rightarrow> 's \<Rightarrow> (pstate \<times> 's) option" where
  "transformBasic E T data loci s = do {
     (data1, s1) \<leftarrow> omap_st (transform_pred E T) data s;
     Some (Basic data1 loci, s1) }"

text \<open>\<open>basic\<close> is \<open>transformBasic\<close> or the subclass's override of it.\<close>

fun transform_with ::
  "bool \<Rightarrow> (predicate list \<Rightarrow> Locus set \<Rightarrow> 's \<Rightarrow> (pstate \<times> 's) option) \<Rightarrow> 's Transformer \<Rightarrow> pstate \<Rightarrow> 's \<Rightarrow> (pstate \<times> 's) option" where
  "transform_with bf basic T (Basic data loci) s = do {
     (b, s1) \<leftarrow> basic data loci s;
     transformEsab T b s1 }"
| "transform_with bf basic T (Chain base cur) s = do {
     (b, c, s1) \<leftarrow> transform_pair bf (transform_with bf basic T) base cur s;
     transformEsab T (Chain b c) s1 }"
| "transform_with bf basic T (Choice cs) s = do {
     (cs1, s1) \<leftarrow> omap_st (transform_with bf basic T) cs s;
     transformEsab T (Choice cs1) s1 }"

definition transform_state ::
  "bool \<Rightarrow> env \<Rightarrow> 's Transformer \<Rightarrow> pstate \<Rightarrow> 's \<Rightarrow> (pstate \<times> 's) option" where
  "transform_state bf E T = transform_with bf (transformBasic E T) T"

text \<open>\<open>AggregateTransformer\<close>: two transformers in a row.\<close>

definition aggregate_state ::
  "bool \<Rightarrow> env \<Rightarrow> 's Transformer \<Rightarrow> 't Transformer \<Rightarrow> pstate \<Rightarrow> 's \<times> 't \<Rightarrow> (pstate \<times> 's \<times> 't) option" where
  "aggregate_state bf E first rest ps st = do {
     (pps, s1) \<leftarrow> transform_state bf E first ps (fst st);
     (res, t1) \<leftarrow> transform_state bf E rest pps (snd st);
     Some (res, s1, t1) }"

definition aggregate_term :: "env \<Rightarrow> 's Transformer \<Rightarrow> 't Transformer \<Rightarrow> Term \<Rightarrow> 's \<times> 't \<Rightarrow> (Term \<times> 's \<times> 't) option" where
  "aggregate_term E first rest t st = do {
     (tt, s1) \<leftarrow> transform_term E first t (fst st);
     (res, t1) \<leftarrow> transform_term E rest tt (snd st);
     Some (res, s1, t1) }"

section \<open>Caching\<close>

text \<open>\<open>CachingTransformer\<close> keeps the results for the states it has seen.  The code's key is a pointer;
  here it is the state, so every hit of the code is a hit here.\<close>

type_synonym 's cached = "(pstate \<Rightarrow> pstate option) \<times> 's"

definition with_cache ::
  "(pstate \<Rightarrow> 's cached \<Rightarrow> (pstate \<times> 's cached) option) \<Rightarrow> pstate \<Rightarrow> 's cached \<Rightarrow> (pstate \<times> 's cached) option" where
  "with_cache base_transform ps cs = (case fst cs ps of
      Some cached \<Rightarrow> Some (cached, cs)
    | None \<Rightarrow> do { (r, c1, s1) \<leftarrow> base_transform ps cs; Some (r, c1(ps \<mapsto> r), s1) })"

definition on_state :: "('a \<Rightarrow> 's \<Rightarrow> ('b \<times> 's) option) \<Rightarrow> 'a \<Rightarrow> 's cached \<Rightarrow> ('b \<times> 's cached) option" where
  "on_state f x cs = map_option (\<lambda>(r, s1). (r, fst cs, s1)) (f x (snd cs))"

fun caching_transform ::
  "bool \<Rightarrow> (predicate list \<Rightarrow> Locus set \<Rightarrow> 's \<Rightarrow> (pstate \<times> 's) option) \<Rightarrow> 's Transformer \<Rightarrow> pstate \<Rightarrow> 's cached \<Rightarrow> (pstate \<times> 's cached) option" where
  "caching_transform bf basic T (Basic data loci) cs =
     with_cache (\<lambda>_ cs. do {
       (b, cs1) \<leftarrow> on_state (basic data) loci cs;
       on_state (transformEsab T) b cs1 }) (Basic data loci) cs"
| "caching_transform bf basic T (Chain base cur) cs =
     with_cache (\<lambda>_ cs. do {
       (b, c, cs1) \<leftarrow> transform_pair bf (caching_transform bf basic T) base cur cs;
       on_state (transformEsab T) (Chain b c) cs1 }) (Chain base cur) cs"
| "caching_transform bf basic T (Choice choices) cs =
     with_cache (\<lambda>_ cs. do {
       (cs', cs1) \<leftarrow> omap_st (caching_transform bf basic T) choices cs;
       on_state (transformEsab T) (Choice cs') cs1 }) (Choice choices) cs"

text \<open>A cache is transparent for a transformer without state of its own.\<close>

definition cache_ok :: "(pstate \<Rightarrow> pstate option) \<Rightarrow> (pstate \<Rightarrow> pstate option) \<Rightarrow> bool" where
  "cache_ok f c = (\<forall>ps r. c ps = Some r \<longrightarrow> f ps = Some r)"

definition agrees :: "(pstate \<Rightarrow> pstate option) \<Rightarrow> pstate option \<Rightarrow> (pstate \<times> unit cached) option \<Rightarrow> bool" where
  "agrees f r x = (case x of None \<Rightarrow> r = None | Some (r', c, _) \<Rightarrow> r = Some r' \<and> cache_ok f c)"

lemma with_cache_agrees:
  assumes "cache_ok f (fst cs)" "agrees f (f ps) (g ps cs)"
  shows "agrees f (f ps) (with_cache g ps cs)"
  using assms by (auto simp: with_cache_def agrees_def cache_ok_def split: option.splits if_splits)

lemma agreesE:
  assumes "agrees f r x"
  obtains "x = None" "r = None" | r' c where "x = Some (r', c, ())" "r = Some r'" "cache_ok f c"
  using assms by (cases x) (auto simp: agrees_def)

lemma map_option_fst_unit [simp]: "map_option fst x = Some r \<longleftrightarrow> x = Some (r, ())"
  by (cases x) auto

lemma omap_st_agrees:
  fixes cs :: "unit cached"
  assumes "cache_ok f (fst cs)"
    and "\<And>x (cs :: unit cached). x \<in> set xs \<Longrightarrow> cache_ok f (fst cs) \<Longrightarrow> agrees f (f x) (g x cs)"
  shows "case omap_st g xs cs of None \<Rightarrow> omap f xs = None | Some (ys, c, _) \<Rightarrow> omap f xs = Some ys \<and> cache_ok f c"
  using assms
proof (induction xs arbitrary: cs)
  case (Cons x xs)
  have "agrees f (f x) (g x cs)" using Cons.prems by simp
  then show ?case
  proof (cases rule: agreesE)
    case (2 r c)
    then show ?thesis using Cons.IH[of "(c, ())"] Cons.prems(2) by (auto split: option.splits)
  qed simp
qed (auto split: prod.split)

abbreviation uncached ::
  "bool \<Rightarrow> (predicate list \<Rightarrow> Locus set \<Rightarrow> unit \<Rightarrow> (pstate \<times> unit) option) \<Rightarrow> unit Transformer \<Rightarrow> pstate \<Rightarrow> pstate option" where
  "uncached bf basic T ps \<equiv> map_option fst (transform_with bf basic T ps ())"

lemma omap_st_unit: "omap_st f xs () = map_option (\<lambda>ys. (ys, ())) (omap (\<lambda>x. map_option fst (f x ())) xs)"
proof (rule omap_st_pure)
  show "f x u = map_option (\<lambda>y. (y, u)) (map_option fst (f x ()))" for x u by (cases "f x ()") auto
qed

lemma caching_agrees:
  "cache_ok (uncached bf basic T) (fst cs) \<Longrightarrow>
   agrees (uncached bf basic T) (uncached bf basic T ps) (caching_transform bf basic T ps cs)"
proof (induction ps arbitrary: cs)
  case (Basic data loci)
  show ?case
    unfolding caching_transform.simps using Basic
    by (intro with_cache_agrees) (auto simp: agrees_def on_state_def bind_Some_iff bind_None_iff split: option.splits)
next
  case (Chain base cur)
  have "agrees (uncached bf basic T) (uncached bf basic T (Chain base cur))
      (do { (b, c, cs1) \<leftarrow> transform_pair bf (caching_transform bf basic T) base cur cs;
            on_state (transformEsab T) (Chain b c) cs1 })"
  proof (cases bf)
    case True
    show ?thesis
    proof (cases rule: agreesE[OF Chain.IH(1)[OF Chain.prems]])
      case (2 b c)
      then show ?thesis
        by (cases rule: agreesE[OF Chain.IH(2)[of "(c, ())"]])
          (auto simp: True transform_pair_def agrees_def on_state_def split: option.splits)
    qed (simp add: True transform_pair_def agrees_def)
  next
    case False
    show ?thesis
    proof (cases rule: agreesE[OF Chain.IH(2)[OF Chain.prems]])
      case (2 b c)
      then show ?thesis
        by (cases rule: agreesE[OF Chain.IH(1)[of "(c, ())"]])
          (auto simp: False transform_pair_def agrees_def on_state_def split: option.splits)
    qed (simp add: False transform_pair_def agrees_def)
  qed
  then show ?case unfolding caching_transform.simps by (rule with_cache_agrees[OF Chain.prems])
next
  case (Choice choices)
  have "agrees (uncached bf basic T) (uncached bf basic T (Choice choices))
      (do { (cs', cs1) \<leftarrow> omap_st (caching_transform bf basic T) choices cs;
            on_state (transformEsab T) (Choice cs') cs1 })"
    using omap_st_agrees[of "uncached bf basic T" cs choices "caching_transform bf basic T"] Choice
    by (auto simp: omap_st_unit agrees_def on_state_def split: option.splits)
  then show ?case unfolding caching_transform.simps by (rule with_cache_agrees[OF Choice.prems])
qed

lemma caching_transparent:
  "map_option fst (caching_transform bf basic T ps (Map.empty, ())) = uncached bf basic T ps"
  using caching_agrees[of bf basic T "(Map.empty, ())" ps]
  by (auto simp: cache_ok_def agrees_def split: option.splits)

text \<open>A transformer that overrides \<open>transformBasic\<close> alone maps the basic states.\<close>

fun map_basic :: "(predicate list \<Rightarrow> Locus set \<Rightarrow> pstate) \<Rightarrow> pstate \<Rightarrow> pstate" where
  "map_basic f (Basic data loci) = f data loci"
| "map_basic f (Chain base cur) = Chain (map_basic f base) (map_basic f cur)"
| "map_basic f (Choice cs) = Choice (map (map_basic f) cs)"

lemma base_transformEsab [simp]: "transformEsab base_Transformer ps s = Some (ps, s)"
  by (simp add: transformEsab_def)

lemma transform_with_basic:
  assumes "\<And>data loci. basic data loci () = Some (f data loci, ())"
  shows "transform_with bf basic base_Transformer ps () = Some (map_basic f ps, ())"
proof (induction ps)
  case (Choice cs)
  have "omap (\<lambda>x. map_option fst (transform_with bf basic base_Transformer x ())) cs = Some (map (map_basic f) cs)"
    using Choice by (intro omap_map_Some) simp
  then show ?case by (simp add: omap_st_unit)
next
  case (Chain base cur)
  then show ?case by (cases bf) (simp_all add: transform_pair_def)
qed (simp add: assms)

lemma map_basic_paths:
  assumes "\<And>data loci. paths (f data loci) = {g data}" "\<And>p q. g (p @ q) = g p @ g q"
  shows "paths (map_basic f ps) = g ` paths ps"
proof (induction ps)
  case (Chain base cur)
  then show ?case using path_product_image[of g "paths base" "paths cur"] assms(2) by simp
qed (auto simp: assms(1))

section \<open>Transformers that only look\<close>

text \<open>The order in which terms and predicates are seen: subterms first, the operands of every predicate
  but a mark.\<close>

fun postorder :: "Term \<Rightarrow> Term list" where
  "postorder (Term c ty nm ss) = concat (map postorder ss) @ [Term c ty nm ss]"

definition pred_terms :: "predicate \<Rightarrow> Term list" where
  "pred_terms p = (if pclass p = MarkPredicate then [] else concat (map postorder (ops p)))"

fun state_preds :: "bool \<Rightarrow> pstate \<Rightarrow> predicate list" where
  "state_preds bf (Basic data loci) = data"
| "state_preds bf (Chain base cur) =
     (if bf then state_preds bf base @ state_preds bf cur else state_preds bf cur @ state_preds bf base)"
| "state_preds bf (Choice cs) = concat (map (state_preds bf) cs)"

lemma postorder_unfold: "postorder t = concat (map postorder (subterms t)) @ [t]"
  by (cases t) simp

lemma set_state_preds [simp]: "set (state_preds bf s) = preds s"
  by (induction bf s rule: state_preds.induct) auto

locale observer =
  fixes T :: "'s Transformer" and see_term :: "Term \<Rightarrow> 's \<Rightarrow> 's" and see_pred :: "predicate \<Rightarrow> 's \<Rightarrow> 's"
  assumes term_hooks: "transformTermClass T t s \<bind> (\<lambda>(t1, s1). transformTerm T t1 s1) = Some (t, see_term t s)"
    and pred_hooks: "transformPredicateClass T p s \<bind> (\<lambda>(p1, s1). transformPredicate T p1 s1) = Some (p, see_pred p s)"
    and state_hooks: "transformEsab T ps s = Some (ps, s)"
begin

lemma sees_term: "transform_term E T t s = Some (t, fold see_term (postorder t) s)"
proof (induction t arbitrary: s)
  case (Term c ty nm ss)
  have "omap_st (transform_term E T) ss s = Some (ss, fold (\<lambda>x. fold see_term (postorder x)) ss s)"
    using Term by (intro omap_st_fold) auto
  moreover have "fold (\<lambda>x. fold see_term (postorder x)) ss s = fold see_term (concat (map postorder ss)) s"
    by (induction ss arbitrary: s) simp_all
  ultimately show ?case
    by (subst transform_term.simps) (simp add: accept_st_def term_hooks)
qed

lemma sees_terms:
  "omap_st (transform_term E T) ts s = Some (ts, fold see_term (concat (map postorder ts)) s)"
  by (induction ts arbitrary: s) (simp_all add: sees_term)

definition see_pred_all :: "predicate \<Rightarrow> 's \<Rightarrow> 's" where
  "see_pred_all p s = see_pred p (fold see_term (pred_terms p) s)"

lemma sees_pred: "transform_pred E T p s = Some (p, see_pred_all p s)"
  by (auto simp: transform_pred_def pred_accept_st_def sees_terms pred_hooks see_pred_all_def pred_terms_def)

lemma sees_terms_only:
  assumes "\<And>p u. see_pred p u = u"
  shows "fold see_pred_all ps s = fold see_term (concat (map pred_terms ps)) s"
  by (induction ps arbitrary: s) (simp_all add: see_pred_all_def assms)

lemma sees_state: "transform_state bf E T ps s = Some (ps, fold see_pred_all (state_preds bf ps) s)"
  unfolding transform_state_def
proof (induction ps arbitrary: s)
  case (Basic data loci)
  have "omap_st (transform_pred E T) data s = Some (data, fold see_pred_all data s)"
    by (rule omap_st_fold) (rule sees_pred)
  then show ?case by (simp add: transformBasic_def state_hooks)
next
  case (Chain base cur)
  then show ?case by (cases bf) (simp_all add: transform_pair_def state_hooks)
next
  case (Choice cs)
  have "omap_st (transform_with bf (transformBasic E T) T) cs s = Some (cs, fold (\<lambda>c. fold see_pred_all (state_preds bf c)) cs s)"
    using Choice by (intro omap_st_fold) auto
  moreover have "fold (\<lambda>c. fold see_pred_all (state_preds bf c)) cs s =
      fold see_pred_all (concat (map (state_preds bf) cs)) s"
    by (induction cs arbitrary: s) simp_all
  ultimately show ?case by (simp add: state_hooks)
qed

end

text \<open>Unordered sets of terms, hashed and compared by value: a list without equal members.\<close>

definition Set_count :: "Term list \<Rightarrow> Term \<Rightarrow> bool" where
  "Set_count ts t = (\<exists>u\<in>set ts. equals u t)"

definition Set_insert :: "Term \<Rightarrow> Term list \<Rightarrow> Term list" where
  "Set_insert t ts = (if Set_count ts t then ts else ts @ [t])"

definition collects :: "Term set \<Rightarrow> Term list \<Rightarrow> bool" where
  "collects A ts = (set ts \<subseteq> A \<and> (\<forall>a\<in>A. Set_count ts a) \<and>
     (\<forall>i<length ts. \<forall>j<i. \<not> equals (ts ! j) (ts ! i)))"

lemma collects_insert:
  assumes "collects A ts" "equals t t"
  shows "collects (insert t A) (Set_insert t ts)"
proof (cases "Set_count ts t")
  case True
  then show ?thesis using assms by (auto simp: collects_def Set_insert_def)
next
  case False
  have "\<not> equals ((ts @ [t]) ! j) ((ts @ [t]) ! i)" if "i < Suc (length ts)" "j < i" for i j
    using assms(1) False that unfolding collects_def Set_count_def
    by (cases "i = length ts") (auto simp: nth_append)
  moreover have "set ts \<subseteq> A" "\<forall>a\<in>A. Set_count ts a" using assms(1) by (simp_all add: collects_def)
  ultimately show ?thesis
    using False assms(2) by (auto simp: Set_insert_def collects_def Set_count_def)
qed

lemma collects_empty [simp]: "collects {} []"
  by (simp add: collects_def)

lemma collects_fold:
  assumes "collects A ts" "\<And>x. x \<in> set xs \<Longrightarrow> Q x \<Longrightarrow> equals (g x) (g x)"
  shows "collects (A \<union> g ` {x \<in> set xs. Q x}) (fold (\<lambda>x acc. if Q x then Set_insert (g x) acc else acc) xs ts)"
  using assms
proof (induction xs arbitrary: A ts)
  case (Cons x xs)
  have "collects (if Q x then insert (g x) A else A) (if Q x then Set_insert (g x) ts else ts)"
    using Cons.prems by (auto intro: collects_insert)
  then have "collects ((if Q x then insert (g x) A else A) \<union> g ` {x \<in> set xs. Q x})
      (fold (\<lambda>x acc. if Q x then Set_insert (g x) acc else acc) (x # xs) ts)"
    using Cons.IH Cons.prems(2) by (auto split: if_splits)
  moreover have "(if Q x then insert (g x) A else A) \<union> g ` {x \<in> set xs. Q x} = A \<union> g ` {y \<in> set (x # xs). Q y}"
    by auto
  ultimately show ?case by simp
qed simp

section \<open>Collectors\<close>

text \<open>\<open>TermCollector\<close> with a filter; \<open>TermUtils::getFullTermSet\<close> collects everything.\<close>

definition TermCollector :: "(Term \<Rightarrow> bool) \<Rightarrow> Term list Transformer" where
  "TermCollector flt = base_Transformer\<lparr>
     transformTerm := (\<lambda>t terms. Some (t, if flt t then Set_insert t terms else terms))\<rparr>"

definition getFullTermSet :: "env \<Rightarrow> Term \<Rightarrow> Term list option" where
  "getFullTermSet E t = map_option snd (transform_term E (TermCollector (\<lambda>_. True)) t [])"

definition getFullTermSet_state :: "bool \<Rightarrow> env \<Rightarrow> pstate \<Rightarrow> Term list option" where
  "getFullTermSet_state bf E ps = map_option snd (transform_state bf E (TermCollector (\<lambda>_. True)) ps [])"

definition isVariable :: "Term \<Rightarrow> bool" where
  "isVariable t = (case tclass t of
      ValueTerm v g \<Rightarrow> True | ArgumentTerm i k \<Rightarrow> True | ConstTerm \<Rightarrow> True | FreeVarTerm v \<Rightarrow> True
    | ReturnValueTerm f \<Rightarrow> True | ReturnPtrTerm f \<Rightarrow> True | _ \<Rightarrow> False)"

definition VariableCollector :: "Term list Transformer" where
  "VariableCollector = base_Transformer\<lparr>
     transformTermClass := (\<lambda>t collection. Some (t, if isVariable t then Set_insert t collection else collection))\<rparr>"

definition collectVariables :: "bool \<Rightarrow> env \<Rightarrow> pstate \<Rightarrow> Term list option" where
  "collectVariables bf E ps = map_option snd (transform_state bf E VariableCollector ps [])"

text \<open>\<open>PointerCollector\<close>: the pointers that are loaded from or stored to.\<close>

definition load_pointer :: "Term \<Rightarrow> Term list" where
  "load_pointer t = (case (tclass t, subterms t) of (LoadTerm, rhv # _) \<Rightarrow> [rhv] | _ \<Rightarrow> [])"

definition store_pointer :: "predicate \<Rightarrow> Term list" where
  "store_pointer p = (case (pclass p, ops p) of (StorePredicate, lhv # _) \<Rightarrow> [lhv] | _ \<Rightarrow> [])"

definition PointerCollector :: "Term list Transformer" where
  "PointerCollector = base_Transformer\<lparr>
     transformTermClass := (\<lambda>t collection. Some (t, fold Set_insert (load_pointer t) collection)),
     transformPredicateClass := (\<lambda>p collection. Some (p, fold Set_insert (store_pointer p) collection))\<rparr>"

definition isDereferencedPointer :: "Term list \<Rightarrow> Term \<Rightarrow> bool" where
  "isDereferencedPointer collection ptr = Set_count collection ptr"

definition collectPointers :: "bool \<Rightarrow> env \<Rightarrow> pstate \<Rightarrow> Term list option" where
  "collectPointers bf E ps = map_option snd (transform_state bf E PointerCollector ps [])"

text \<open>\<open>TermSizeCalculator\<close>: two counters of machine size.\<close>

definition TermSizeCalculator :: "(size_t \<times> size_t) Transformer" where
  "TermSizeCalculator = base_Transformer\<lparr>
     transformTerm := (\<lambda>t (termSize, predicateSize). Some (t, termSize + 1, predicateSize)),
     transformPredicate := (\<lambda>p (termSize, predicateSize). Some (p, termSize, predicateSize + 1))\<rparr>"

definition measure_state :: "bool \<Rightarrow> env \<Rightarrow> pstate \<Rightarrow> (size_t \<times> size_t) option" where
  "measure_state bf E ps = map_option snd (transform_state bf E TermSizeCalculator ps (0, 0))"

text \<open>\<open>GlobalVariableFinder\<close>: the values the slot tracker finds for global names, if they are global
  variables.  Slot tracker and value classes are LLVM's: parameters.\<close>

definition GlobalVariableFinder :: "(string \<Rightarrow> 'v option) \<Rightarrow> ('v \<Rightarrow> bool) \<Rightarrow> 'v set Transformer" where
  "GlobalVariableFinder getGlobalValue isGlobalVariable = base_Transformer\<lparr>
     transformTermClass := (\<lambda>t globals. Some (t, case tclass t of
         ValueTerm v g \<Rightarrow> (if g then (case getGlobalValue v of
             Some val \<Rightarrow> if isGlobalVariable val then insert val globals else globals
           | None \<Rightarrow> globals) else globals)
       | _ \<Rightarrow> globals))\<rparr>"

text \<open>\<open>ArrayBoundsCollector\<close>: for every equation \<open>x = gep(base, ...)\<close> with a pointer base, \<open>x\<close> is
  an element of the base's set.\<close>

definition gep_base :: "predicate \<Rightarrow> (Term \<times> Term) option" where
  "gep_base p = (case (pclass p, ops p) of
      (EqualityPredicate, [l, r]) \<Rightarrow> (case (tclass r, subterms r) of
         (GepTerm inb, base # _) \<Rightarrow> (case ttype base of TPointer e ms \<Rightarrow> Some (base, l) | _ \<Rightarrow> None)
       | _ \<Rightarrow> None)
    | _ \<Rightarrow> None)"

fun bounds_insert :: "Term \<Rightarrow> Term \<Rightarrow> (Term \<times> Term list) list \<Rightarrow> (Term \<times> Term list) list" where
  "bounds_insert k v [] = [(k, [v])]"
| "bounds_insert k v ((k', vs) # rest) =
     (if equals k' k then (k', Set_insert v vs) # rest else (k', vs) # bounds_insert k v rest)"

definition ArrayBoundsCollector :: "(Term \<times> Term list) list Transformer" where
  "ArrayBoundsCollector = base_Transformer\<lparr>
     transformPredicate := (\<lambda>p arrayBounds. Some (p, case gep_base p of
         Some (base, l) \<Rightarrow> bounds_insert base l arrayBounds | None \<Rightarrow> arrayBounds))\<rparr>"

interpretation terms: observer "TermCollector (\<lambda>_. True)" Set_insert "\<lambda>p. id"
  by unfold_locales (simp_all add: TermCollector_def base_Transformer_def transformEsab_def)

interpretation vars: observer VariableCollector "\<lambda>t acc. if isVariable t then Set_insert t acc else acc" "\<lambda>p. id"
  by unfold_locales (simp_all add: VariableCollector_def base_Transformer_def transformEsab_def)

interpretation ptrs: observer PointerCollector "\<lambda>t. fold Set_insert (load_pointer t)" "\<lambda>p. fold Set_insert (store_pointer p)"
  by unfold_locales (simp_all add: PointerCollector_def base_Transformer_def transformEsab_def)

interpretation sizes: observer TermSizeCalculator "\<lambda>t (a, b). (a + 1, b)" "\<lambda>p (a, b). (a, b + 1)"
  by unfold_locales (auto simp: TermSizeCalculator_def base_Transformer_def transformEsab_def)

interpretation globals: observer "GlobalVariableFinder slot isg"
    "\<lambda>t acc. acc \<union> {v. \<exists>n. tclass t = ValueTerm n True \<and> slot n = Some v \<and> isg v}" "\<lambda>p. id" for slot isg
  by unfold_locales (auto simp: GlobalVariableFinder_def base_Transformer_def transformEsab_def
      split: term_class.split option.split)

interpretation arrays: observer ArrayBoundsCollector "\<lambda>t. id"
    "\<lambda>p acc. case gep_base p of Some (b, l) \<Rightarrow> bounds_insert b l acc | None \<Rightarrow> acc"
  by unfold_locales (simp_all add: ArrayBoundsCollector_def base_Transformer_def transformEsab_def)

section \<open>What the collectors collect\<close>

definition state_terms :: "pstate \<Rightarrow> Term set" where
  "state_terms ps = (\<Union>p\<in>preds ps. set (pred_terms p))"

definition all_terms :: "bool \<Rightarrow> pstate \<Rightarrow> Term list" where
  "all_terms bf ps = concat (map pred_terms (state_preds bf ps))"

lemma set_all_terms [simp]: "set (all_terms bf ps) = state_terms ps"
  by (simp add: all_terms_def state_terms_def)

lemma fold_concat_map: "fold (\<lambda>p. fold f (g p)) ps s = fold f (concat (map g ps)) s"
  by (induction ps arbitrary: s) simp_all

lemma postorder_subterm: "x \<in> set (postorder t) \<Longrightarrow> y \<in> set (subterms x) \<Longrightarrow> y \<in> set (postorder t)"
proof (induction t)
  case (Term c ty nm ss)
  have self: "y \<in> set (postorder y)" for y by (subst postorder_unfold) simp
  show ?case
  proof (cases "x = Term c ty nm ss")
    case True
    then show ?thesis using Term.prems(2) self[of y] by auto
  next
    case False
    then show ?thesis using Term by auto
  qed
qed

lemma self_postorder [simp]: "t \<in> set (postorder t)"
  by (subst postorder_unfold) simp

text \<open>The pointers a predicate dereferences.\<close>

definition pred_pointers :: "predicate \<Rightarrow> Term list" where
  "pred_pointers p = concat (map load_pointer (pred_terms p)) @ store_pointer p"

lemma pred_pointers_seen: "t \<in> set (pred_pointers p) \<Longrightarrow> t \<in> set (pred_terms p)"
proof -
  assume t: "t \<in> set (pred_pointers p)"
  have "t \<in> set (pred_terms p)" if "x \<in> set (pred_terms p)" "t \<in> set (load_pointer x)" for x
  proof -
    have "t \<in> set (subterms x)" using that(2)
      by (cases "subterms x") (auto simp: load_pointer_def split: term_class.splits)
    then show ?thesis using that(1) postorder_subterm by (auto simp: pred_terms_def split: if_splits)
  qed
  moreover have "t \<in> set (pred_terms p)" if "t \<in> set (store_pointer p)"
    using that
    by (cases "ops p") (auto simp: store_pointer_def pred_terms_def split: pred_class.splits)
  ultimately show ?thesis using t by (auto simp: pred_pointers_def)
qed

lemma pointers_fold:
  "fold ptrs.see_pred_all ps acc = fold Set_insert (concat (map pred_pointers ps)) acc"
  by (induction ps arbitrary: acc) (simp_all add: ptrs.see_pred_all_def pred_pointers_def fold_concat_map)

lemma collects_all:
  "(\<And>x. x \<in> set xs \<Longrightarrow> equals x x) \<Longrightarrow> collects (set xs) (fold Set_insert xs [])"
  using collects_fold[of "{}" "[]" xs "\<lambda>x. True" "\<lambda>x. x"] by simp

lemma measure_fold:
  "fold (\<lambda>t (a, b). (a + 1, b)) ts (a :: size_t, b :: size_t) = (a + of_nat (length ts), b)"
  by (induction ts arbitrary: a) (simp_all add: algebra_simps)

lemma sizes_fold:
  "fold (sizes.see_pred_all) ps (a, b) = (a + of_nat (length (concat (map pred_terms ps))), b + of_nat (length ps))"
  by (induction ps arbitrary: a b) (simp_all add: sizes.see_pred_all_def measure_fold algebra_simps)

text \<open>C31: The collectors collect what they are for from every state whose terms hold no floating-point constant, whatever the
  evaluation order: the variables, all terms, and the dereferenced pointers, each once up to equality, while
  the term and the predicate counter answer the numbers of term nodes and predicates modulo 2^64; and the traversal of each
  of them answers the state unchanged.\<close>

theorem collectors_exact:
  assumes "\<And>t. t \<in> state_terms ps \<Longrightarrow> float_free t"
  shows "(\<exists>R. collectVariables bf E ps = Some R \<and> transform_state bf E VariableCollector ps [] = Some (ps, R) \<and>
      collects {t \<in> state_terms ps. isVariable t} R) \<and>
    (\<exists>R. getFullTermSet_state bf E ps = Some R \<and> transform_state bf E (TermCollector (\<lambda>_. True)) ps [] = Some (ps, R) \<and>
      collects (state_terms ps) R) \<and>
    (\<exists>R. collectPointers bf E ps = Some R \<and> transform_state bf E PointerCollector ps [] = Some (ps, R) \<and>
      collects (\<Union>p\<in>preds ps. set (pred_pointers p)) R) \<and>
    (\<exists>R. measure_state bf E ps = Some R \<and> transform_state bf E TermSizeCalculator ps (0, 0) = Some (ps, R) \<and>
      R = (of_nat (length (all_terms bf ps)), of_nat (length (state_preds bf ps))))"
proof (intro conjI)
  have eq: "equals t t" if "t \<in> set (all_terms bf ps)" for t using assms that equals_refl by simp
  show "\<exists>R. collectVariables bf E ps = Some R \<and> transform_state bf E VariableCollector ps [] = Some (ps, R) \<and>
      collects {t \<in> state_terms ps. isVariable t} R"
    using collects_fold[of "{}" "[]" "all_terms bf ps" isVariable "\<lambda>x. x"] eq
    by (simp add: collectVariables_def vars.sees_state vars.sees_terms_only all_terms_def [symmetric])
  show "\<exists>R. getFullTermSet_state bf E ps = Some R \<and> transform_state bf E (TermCollector (\<lambda>_. True)) ps [] = Some (ps, R) \<and>
      collects (state_terms ps) R"
    using collects_all[of "all_terms bf ps"] eq
    by (simp add: getFullTermSet_state_def terms.sees_state terms.sees_terms_only all_terms_def [symmetric])
  show "\<exists>R. measure_state bf E ps = Some R \<and> transform_state bf E TermSizeCalculator ps (0, 0) = Some (ps, R) \<and>
      R = (of_nat (length (all_terms bf ps)), of_nat (length (state_preds bf ps)))"
    by (simp add: measure_state_def sizes.sees_state sizes_fold all_terms_def)
  have "equals t t" if "t \<in> set (concat (map pred_pointers (state_preds bf ps)))" for t
    using that pred_pointers_seen by (intro equals_refl assms) (auto simp: state_terms_def)
  then show "\<exists>R. collectPointers bf E ps = Some R \<and> transform_state bf E PointerCollector ps [] = Some (ps, R) \<and>
      collects (\<Union>p\<in>preds ps. set (pred_pointers p)) R"
    using collects_all[of "concat (map pred_pointers (state_preds bf ps))"]
    by (simp add: collectPointers_def ptrs.sees_state pointers_fold)
qed

theorem collectors_exact_witness:
  "(\<exists>R. collectVariables False empty_env
       (Basic [getStorePredicate (getValueTerm TBool ''x'' False) getTrueTerm unknown_Locus STATE] {}) = Some R \<and>
     collects {getValueTerm TBool ''x'' False} R) \<and>
   measure_state True empty_env
     (Basic [getStorePredicate (getValueTerm TBool ''x'' False) getTrueTerm unknown_Locus STATE] {}) = Some (2, 1)"
proof -
  let ?s = "Basic [getStorePredicate (getValueTerm TBool ''x'' False) getTrueTerm unknown_Locus STATE] {}"
  have f: "float_free t" if "t \<in> state_terms ?s" for t
    using that by (auto simp: state_terms_def pred_terms_def getStorePredicate_def mk_StorePredicate_def get_defs mk_defs float_class_def)
  have v: "{t \<in> state_terms ?s. isVariable t} = {getValueTerm TBool ''x'' False}"
    by (auto simp: state_terms_def pred_terms_def getStorePredicate_def mk_StorePredicate_def get_defs mk_defs isVariable_def)
  have n: "length (all_terms True ?s) = 2"
    by (simp add: all_terms_def pred_terms_def getStorePredicate_def mk_StorePredicate_def get_defs mk_defs)
  show ?thesis
    using collectors_exact[of ?s False empty_env, OF f] collectors_exact[of ?s True empty_env, OF f] v n by auto
qed

end
