(* ===== verification/StateTransformers.thy ===== *)
theory StateTransformers
  imports Transformers
begin

text \<open>
  Transformers of predicate states (src/State/Transformer): \<open>MarkEraser\<close>, \<open>StateOptimizer\<close>,
  \<open>Normalizer\<close>, \<open>Cropper\<close>, \<open>PropertyPredicateFilterer\<close>, \<open>MemoryContextSplitter\<close> and
  \<open>ContractTransmogrifier\<close>.
\<close>

section \<open>MarkEraser\<close>

definition MarkEraser_transformBasic ::
  "predicate list \<Rightarrow> Locus set \<Rightarrow> unit \<Rightarrow> (pstate \<times> unit) option" where
  "MarkEraser_transformBasic data loci s =
     Some (state_filter (\<lambda>p. pclass p \<noteq> MarkPredicate) (Basic data loci), s)"

definition eraseMarks :: "bool \<Rightarrow> pstate \<Rightarrow> pstate option" where
  "eraseMarks bf ps = map_option fst
     (caching_transform bf MarkEraser_transformBasic base_Transformer ps (Map.empty, ()))"

section \<open>StateOptimizer\<close>

text \<open>\<open>merge\<close> answers null when one of the states is not basic; its cache is transparent.\<close>

definition so_merge :: "pstate \<Rightarrow> pstate \<Rightarrow> pstate option" where
  "so_merge a b = (case (a, b) of (Basic d l, Basic d' l') \<Rightarrow> Some (PSF_Basic (d @ d')) | _ \<Rightarrow> None)"

fun state_nodes :: "pstate \<Rightarrow> nat" where
  "state_nodes (Basic data loci) = 1"
| "state_nodes (Chain base cur) = Suc (state_nodes base + state_nodes cur)"
| "state_nodes (Choice cs) = Suc (sum_list (map state_nodes cs))"

text \<open>The chain the factory answers is cast to a chain without a check: \<open>None\<close> is the undefined
  behaviour of the cast of another state.\<close>

lemma so_merge_Some: "so_merge a b = Some m \<longleftrightarrow> (\<exists>d l d' l'. a = Basic d l \<and> b = Basic d' l' \<and> m = Basic (d @ d') {})"
  by (auto simp: so_merge_def PSF_Basic_def split: pstate.split)

lemma nodes_PSF_Chain: "PSF_Chain a b = Chain x y \<Longrightarrow> state_nodes x + state_nodes y \<le> state_nodes a + state_nodes b"
  by (auto simp: PSF_Chain_def split: if_splits)

function so_chain :: "pstate \<Rightarrow> pstate \<Rightarrow> pstate option" where
  "so_chain base cur =
     (case so_merge base cur of
        Some merged \<Rightarrow> Some merged
      | None \<Rightarrow> (case (base, cur) of
          (Chain b c, Basic d l) \<Rightarrow>
            (case so_merge c cur of
               Some merged \<Rightarrow> (case PSF_Chain b merged of Chain x y \<Rightarrow> so_chain x y | _ \<Rightarrow> None)
             | None \<Rightarrow> Some (Chain base cur))
        | (Basic d l, Chain b c) \<Rightarrow>
            (case so_merge base b of
               Some merged \<Rightarrow> (case PSF_Chain merged c of Chain x y \<Rightarrow> so_chain x y | _ \<Rightarrow> None)
             | None \<Rightarrow> Some (Chain base cur))
        | _ \<Rightarrow> Some (Chain base cur)))"
  by pat_completeness auto
termination
  by (relation "measure (\<lambda>(a, b). state_nodes a + state_nodes b)")
    (auto simp: so_merge_Some dest!: nodes_PSF_Chain)

declare so_chain.simps [simp del]

definition StateOptimizer :: "unit Transformer" where
  "StateOptimizer = base_Transformer\<lparr>
     transformStateClass := (\<lambda>ps s. case ps of
         Chain base cur \<Rightarrow> map_option (\<lambda>r. (r, s)) (so_chain base cur)
       | _ \<Rightarrow> Some (ps, s))\<rparr>"

definition StateOptimizer_transformBasic ::
  "predicate list \<Rightarrow> Locus set \<Rightarrow> unit \<Rightarrow> (pstate \<times> unit) option" where
  "StateOptimizer_transformBasic data loci s = Some (Basic data loci, s)"

definition optimize :: "bool \<Rightarrow> pstate \<Rightarrow> pstate option" where
  "optimize bf ps = map_option fst
     (caching_transform bf StateOptimizer_transformBasic StateOptimizer ps (Map.empty, ()))"

section \<open>Normalizer\<close>

text \<open>\<open>handleAnd\<close> appends the conjuncts of a conjunction to the accumulator.\<close>

fun handleAnd :: "Term \<Rightarrow> Term list \<Rightarrow> bool \<times> Term list" where
  "handleAnd (Term (BinaryTerm LAND) ty nm [a, b]) acc =
     (let (ra, acc1) = handleAnd a acc;
          acc2 = (if ra then acc1 else acc1 @ [a]);
          (rb, acc3) = handleAnd b acc2
      in (True, if rb then acc3 else acc3 @ [b]))"
| "handleAnd _ acc = (False, acc)"

text \<open>A predicate \<open>t = true\<close> with a conjunction \<open>t\<close> becomes the tombstone; \<open>transformBasic\<close> puts
  the equations of the accumulator in its place.\<close>

definition normalize_pred :: "predicate \<Rightarrow> predicate list" where
  "normalize_pred p = (case (pclass p, ops p) of
      (EqualityPredicate, [t, r]) \<Rightarrow>
        (if tclass r = OpaqueBoolConstantTerm True then
           (let (tombstone, accumulator) = handleAnd t [] in
            if tombstone
            then map (\<lambda>part. getEqualityPredicate part getTrueTerm (plocation p) (ptype p)) accumulator
            else [p])
         else [p])
    | _ \<Rightarrow> [p])"

definition Normalizer_transformBasic ::
  "predicate list \<Rightarrow> Locus set \<Rightarrow> unit \<Rightarrow> (pstate \<times> unit) option" where
  "Normalizer_transformBasic data loci s =
     (let ret = concat (map normalize_pred data)
      in Some (if ret \<noteq> data then PSF_Basic ret else Basic data loci, s))"

definition normalize :: "bool \<Rightarrow> pstate \<Rightarrow> pstate option" where
  "normalize bf ps = map_option fst (transform_with bf Normalizer_transformBasic base_Transformer ps ())"

section \<open>Cropper\<close>

text \<open>The state of the cropper is its flag \<open>crop\<close>.  The visited locations are lost: the result of
  \<open>addVisited\<close> is not used.\<close>

fun crop_data :: "(predicate \<Rightarrow> bool) \<Rightarrow> predicate list \<Rightarrow> predicate list \<Rightarrow> predicate list \<times> bool" where
  "crop_data checker collect [] = (collect, False)"
| "crop_data checker collect (p # ps) =
     (if checker p then (collect @ [p], True) else crop_data checker (collect @ [p]) ps)"

fun crop_state :: "(predicate \<Rightarrow> bool) \<Rightarrow> pstate \<Rightarrow> bool \<Rightarrow> pstate \<times> bool"
  and crop_choices :: "(predicate \<Rightarrow> bool) \<Rightarrow> pstate list \<Rightarrow> pstate list" where
  "crop_state checker (Basic data loci) crop =
     (if crop then (Basic data loci, crop)
      else let (collect, changed) = crop_data checker [] data in
        if changed then (PSF_Basic collect, True) else (Basic data loci, crop))"
| "crop_state checker (Chain base cur) crop =
     (if crop then (Chain base cur, crop)
      else let (rebase, crop1) = crop_state checker base crop in
        if crop1 then (rebase, crop1)
        else let (recurr, crop2) = crop_state checker cur crop1 in
          if crop2 then (PSF_Chain rebase recurr, crop2) else (Chain base cur, crop2))"
| "crop_state checker (Choice cs) crop =
     (if crop then (Choice cs, crop)
      else let croppedChoice = crop_choices checker cs in
        if croppedChoice = [] then (Choice cs, False) else (PSF_Choice croppedChoice, True))"
| "crop_choices checker [] = []"
| "crop_choices checker (c # cs) =
     (let (cropped, crop) = crop_state checker c False
      in if crop then cropped # crop_choices checker cs else crop_choices checker cs)"

definition cropStateOn :: "(predicate \<Rightarrow> bool) \<Rightarrow> pstate \<Rightarrow> pstate" where
  "cropStateOn checker ps = fst (crop_state checker ps False)"

section \<open>Property filter, contracts, memory contexts\<close>

text \<open>\<open>PropertyPredicateFilterer\<close>: the predicates that write or read a property become null and are
  filtered out; the state is simplified.\<close>

definition mentions_property :: "env \<Rightarrow> predicate \<Rightarrow> bool" where
  "mentions_property E p =
     (pclass p = WritePropertyPredicate \<or>
      (\<exists>it\<in>set (ops p). case getFullTermSet E it of
          Some ts \<Rightarrow> (\<exists>a\<in>set ts. tclass a = ReadPropertyTerm) | None \<Rightarrow> False))"

definition filterProperties :: "env \<Rightarrow> pstate \<Rightarrow> pstate" where
  "filterProperties E ps = simplify (state_filter (\<lambda>p. \<not> mentions_property E p) ps)"

text \<open>\<open>ContractTransmogrifier\<close>: equations on buffer sizes become lower bounds.\<close>

definition Transmogrifier_transformCmpTerm :: "env \<Rightarrow> Term \<Rightarrow> Term option" where
  "Transmogrifier_transformCmpTerm E t = (case (tclass t, subterms t) of
      (CmpTerm EQ, [lhv, rhv]) \<Rightarrow>
        (if tclass lhv = BoundTerm then getCmpTerm E UGE lhv rhv
         else if tclass rhv = BoundTerm then getCmpTerm E UGE rhv lhv
         else Some t)
    | _ \<Rightarrow> Some t)"

definition ContractTransmogrifier :: "env \<Rightarrow> unit Transformer" where
  "ContractTransmogrifier E = base_Transformer\<lparr>
     transformTermClass := (\<lambda>t s. map_option (\<lambda>r. (r, s)) (Transmogrifier_transformCmpTerm E t))\<rparr>"

text \<open>\<open>MemoryContextSplitter\<close>: every buffer size becomes a free variable, and one predicate per
  variable writes it.\<close>

record splitter =
  generated :: "predicate list"
  processedTerms :: "Term list"

definition Splitter_transformBoundTerm :: "Term \<Rightarrow> splitter \<Rightarrow> Term \<times> splitter" where
  "Splitter_transformBoundTerm t s = (case (tclass t, subterms t) of
      (BoundTerm, [rhv]) \<Rightarrow>
        (let freeTerm = getFreeVarTerm (ttype t) (''$$'' @ tname t @ ''$$'') in
         (freeTerm,
          if Set_count (processedTerms s) freeTerm then s
          else s\<lparr>processedTerms := Set_insert freeTerm (processedTerms s),
                 generated := generated s @ [getWriteBoundPredicate rhv freeTerm unknown_Locus]\<rparr>))
    | _ \<Rightarrow> (t, s))"

definition MemoryContextSplitter :: "splitter Transformer" where
  "MemoryContextSplitter = base_Transformer\<lparr>
     transformTermClass := (\<lambda>t s. Some (Splitter_transformBoundTerm t s))\<rparr>"

section \<open>Marks and conjunctions\<close>

lemma eraseMarks_filter: "eraseMarks bf ps = Some (state_filter (\<lambda>p. pclass p \<noteq> MarkPredicate) ps)"
proof -
  let ?f = "\<lambda>data loci. Basic (filter (\<lambda>p. pclass p \<noteq> MarkPredicate) data) loci"
  have "transform_with bf MarkEraser_transformBasic base_Transformer ps () = Some (map_basic ?f ps, ())"
    by (rule transform_with_basic) (simp add: MarkEraser_transformBasic_def)
  moreover have "map_basic ?f ps = state_filter (\<lambda>p. pclass p \<noteq> MarkPredicate) ps"
    by (induction ps) auto
  ultimately show ?thesis by (simp add: eraseMarks_def caching_transparent)
qed

text \<open>A valuation of terms, for the equations with \<open>true\<close>, and of the other predicates.\<close>

definition pred_true :: "(Term \<Rightarrow> bool) \<Rightarrow> (predicate \<Rightarrow> bool) \<Rightarrow> predicate \<Rightarrow> bool" where
  "pred_true val other p = (case (pclass p, ops p) of
      (EqualityPredicate, [t, r]) \<Rightarrow> (if tclass r = OpaqueBoolConstantTerm True then val t else other p)
    | _ \<Rightarrow> other p)"

definition respects_and :: "(Term \<Rightarrow> bool) \<Rightarrow> bool" where
  "respects_and val = (\<forall>ty nm a b. val (Term (BinaryTerm LAND) ty nm [a, b]) = (val a \<and> val b))"

lemma handleAnd_spec:
  "\<exists>parts. handleAnd t acc = (parts \<noteq> [], acc @ parts) \<and>
     (respects_and val \<longrightarrow> parts \<noteq> [] \<longrightarrow> list_all val parts = val t)"
proof (induction t acc rule: handleAnd.induct)
  case (1 ty nm a b acc)
  obtain pa where a: "handleAnd a acc = (pa \<noteq> [], acc @ pa)" "respects_and val \<longrightarrow> pa \<noteq> [] \<longrightarrow> list_all val pa = val a"
    using 1(1) by blast
  define qa where "qa = (if pa = [] then [a] else pa)"
  obtain pb where b: "handleAnd b (acc @ qa) = (pb \<noteq> [], (acc @ qa) @ pb)"
      "respects_and val \<longrightarrow> pb \<noteq> [] \<longrightarrow> list_all val pb = val b"
    using 1(2)[OF a(1)[symmetric] refl refl] a(1) by (auto simp: qa_def split: if_splits)
  define qb where "qb = (if pb = [] then [b] else pb)"
  have "handleAnd (Term (BinaryTerm LAND) ty nm [a, b]) acc = (qa @ qb \<noteq> [], acc @ qa @ qb)"
    using a(1) b(1) by (auto simp: qa_def qb_def)
  moreover have "respects_and val \<longrightarrow> list_all val (qa @ qb) = val (Term (BinaryTerm LAND) ty nm [a, b])"
    using a(2) b(2) by (auto simp: qa_def qb_def respects_and_def)
  ultimately show ?case by blast
qed auto

lemma normalize_pred_true:
  assumes "respects_and val"
  shows "list_all (pred_true val other) (normalize_pred p) = pred_true val other p"
proof (cases "\<exists>t r. pclass p = EqualityPredicate \<and> ops p = [t, r] \<and> tclass r = OpaqueBoolConstantTerm True")
  case True
  then obtain t r where p: "pclass p = EqualityPredicate" "ops p = [t, r]" "tclass r = OpaqueBoolConstantTerm True" by blast
  obtain parts where h: "handleAnd t [] = (parts \<noteq> [], parts)" "parts \<noteq> [] \<longrightarrow> list_all val parts = val t"
    using handleAnd_spec[of t "[]" val] assms by auto
  have "pred_true val other (getEqualityPredicate part getTrueTerm l ty) = val part" for part l ty
    by (simp add: pred_true_def getEqualityPredicate_def mk_EqualityPredicate_def get_defs mk_defs)
  then show ?thesis
    using h by (auto simp: normalize_pred_def p pred_true_def list.pred_map comp_def)
next
  case False
  then show ?thesis
    by (auto simp: normalize_pred_def split: pred_class.split list.split if_splits)
qed

lemma normalize_basic: "normalize bf ps = Some (map_basic (\<lambda>data loci.
    let ret = concat (map normalize_pred data) in if ret \<noteq> data then PSF_Basic ret else Basic data loci) ps)"
  unfolding normalize_def
  by (subst transform_with_basic[where f = "\<lambda>data loci.
    let ret = concat (map normalize_pred data) in if ret \<noteq> data then PSF_Basic ret else Basic data loci"])
    (simp_all add: Normalizer_transformBasic_def Let_def)

text \<open>Erasing marks filters every path and keeps the visited locations.  The normaliser splits the
  conjunctions of every path and keeps which paths hold, for every valuation that respects
  conjunction; a valuation of terms says which equations with \<open>true\<close> hold.\<close>

theorem marks_and_conjunctions:
  "\<exists>m n. eraseMarks bf ps = Some m \<and> paths m = filter (\<lambda>p. pclass p \<noteq> MarkPredicate) ` paths ps \<and>
     getVisited m = getVisited ps \<and>
     normalize bf ps = Some n \<and> paths n = (\<lambda>x. concat (map normalize_pred x)) ` paths ps \<and>
     (\<forall>val other x. respects_and val \<longrightarrow>
        list_all (pred_true val other) (concat (map normalize_pred x)) = list_all (pred_true val other) x)"
proof -
  have "list_all (pred_true val other) (concat (map normalize_pred x)) = list_all (pred_true val other) x"
    if "respects_and val" for val other x
    using normalize_pred_true[OF that, of other] by (induction x) simp_all
  moreover have "paths (map_basic (\<lambda>data loci.
      let ret = concat (map normalize_pred data) in if ret \<noteq> data then PSF_Basic ret else Basic data loci) ps) =
      (\<lambda>x. concat (map normalize_pred x)) ` paths ps"
    by (rule map_basic_paths) (auto simp: Let_def PSF_Basic_def)
  ultimately show ?thesis
    by (simp add: eraseMarks_filter normalize_basic getVisited_filter)
qed

theorem marks_and_conjunctions_witness:
  "let p = getEqualityPredicate (mk_BinaryTerm TBool LAND getTrueTerm getFalseTerm) getTrueTerm unknown_Locus STATE in
   respects_and (\<lambda>t. False) \<and> \<not> list_all (pred_true (\<lambda>t. False) (\<lambda>p. True)) (concat (map normalize_pred [p]))"
proof -
  let ?p = "getEqualityPredicate (mk_BinaryTerm TBool LAND getTrueTerm getFalseTerm) getTrueTerm unknown_Locus STATE"
  have r: "respects_and (\<lambda>t. False)" by (simp add: respects_and_def)
  have "list_all (pred_true (\<lambda>t. False) (\<lambda>p. True)) (concat (map normalize_pred [?p])) =
      list_all (pred_true (\<lambda>t. False) (\<lambda>p. True)) [?p]"
    using marks_and_conjunctions[of True "Basic [?p] {}"] r by blast
  then show ?thesis
    using r by (simp add: pred_true_def getEqualityPredicate_def mk_EqualityPredicate_def get_defs mk_defs)
qed

section \<open>Optimised chains\<close>

text \<open>What the factory builds: no component of a chain is empty.\<close>

fun chains_full :: "pstate \<Rightarrow> bool" where
  "chains_full (Basic data loci) = True"
| "chains_full (Chain base cur) = (\<not> isEmpty base \<and> \<not> isEmpty cur \<and> chains_full base \<and> chains_full cur)"
| "chains_full (Choice cs) = list_all chains_full cs"

lemma so_chain_other:
  assumes "so_merge base cur = None" "\<nexists>b c d l. base = Chain b c \<and> cur = Basic d l"
    "\<nexists>b c d l. base = Basic d l \<and> cur = Chain b c"
  shows "so_chain base cur = Some (Chain base cur)"
  using assms by (subst so_chain.simps) (auto split: pstate.split)

lemma so_chain_ok:
  "chains_full (Chain base cur) \<Longrightarrow>
   \<exists>r. so_chain base cur = Some r \<and> paths r = path_product (paths base) (paths cur) \<and>
       chains_full r \<and> \<not> isEmpty r \<and> getVisited r \<subseteq> getVisited base \<union> getVisited cur"
proof (induction base cur rule: so_chain.induct)
  case (1 base cur)
  show ?case
  proof (cases "so_merge base cur")
    case (Some m)
    then have "so_chain base cur = Some m" by (simp add: so_chain.simps[of base cur])
    then show ?thesis using 1(3) Some by (auto simp: so_merge_Some)
  next
    case None
    consider (left) b c d l where "base = Chain b c" "cur = Basic d l"
      | (right) d l b c where "base = Basic d l" "cur = Chain b c"
      | (other) "so_chain base cur = Some (Chain base cur)"
      using so_chain_other[OF None] by blast
    then show ?thesis
    proof cases
      case left
      show ?thesis
      proof (cases "so_merge c cur")
        case None
        then have "so_chain base cur = Some (Chain base cur)"
          using \<open>so_merge base cur = None\<close> by (subst so_chain.simps) (simp add: left)
        then show ?thesis using 1(3) by simp
      next
        case (Some m)
        then obtain d' l' where c: "c = Basic d' l'" "m = Basic (d' @ d) {}" by (auto simp: so_merge_Some left)
        have full: "chains_full (Chain b m)" using 1(3) by (auto simp: left c)
        then have ch: "PSF_Chain b m = Chain b m" by (simp add: PSF_Chain_def)
        obtain r where r: "so_chain b m = Some r" "paths r = path_product (paths b) (paths m)"
            "chains_full r" "\<not> isEmpty r" "getVisited r \<subseteq> getVisited b \<union> getVisited m"
          using 1(2)[OF None refl left Some ch full] by blast
        have "paths r = path_product (paths base) (paths cur)"
          unfolding r(2) by (fastforce simp: left c)
        moreover have "so_chain base cur = Some r"
          using None Some ch r(1) by (subst so_chain.simps) (simp add: left)
        ultimately show ?thesis using r by (auto simp: left c)
      qed
    next
      case right
      show ?thesis
      proof (cases "so_merge base b")
        case None
        then have "so_chain base cur = Some (Chain base cur)"
          using \<open>so_merge base cur = None\<close> by (subst so_chain.simps) (simp add: right)
        then show ?thesis using 1(3) by simp
      next
        case (Some m)
        then obtain d' l' where b: "b = Basic d' l'" "m = Basic (d @ d') {}" by (auto simp: so_merge_Some right)
        have full: "chains_full (Chain m c)" using 1(3) by (auto simp: right b)
        then have ch: "PSF_Chain m c = Chain m c" by (simp add: PSF_Chain_def)
        obtain r where r: "so_chain m c = Some r" "paths r = path_product (paths m) (paths c)"
            "chains_full r" "\<not> isEmpty r" "getVisited r \<subseteq> getVisited m \<union> getVisited c"
          using 1(1)[OF None refl right Some ch full] by blast
        have "paths r = path_product (paths base) (paths cur)"
          unfolding r(2) by (fastforce simp: right b)
        moreover have "so_chain base cur = Some r"
          using None Some ch r(1) by (subst so_chain.simps) (simp add: right)
        ultimately show ?thesis using r by (auto simp: right b)
      qed
    next
      case other
      then show ?thesis using 1(3) by simp
    qed
  qed
qed

lemma optimize_ok:
  "chains_full ps \<Longrightarrow>
   \<exists>r. transform_with bf StateOptimizer_transformBasic StateOptimizer ps () = Some (r, ()) \<and>
       paths r = paths ps \<and> chains_full r \<and> (isEmpty r \<longrightarrow> isEmpty ps) \<and> getVisited r \<subseteq> getVisited ps"
proof (induction ps)
  case (Basic data loci)
  then show ?case
    by (simp add: StateOptimizer_transformBasic_def StateOptimizer_def transformEsab_def base_Transformer_def)
next
  case (Chain base cur)
  obtain b c where bc: "transform_with bf StateOptimizer_transformBasic StateOptimizer base () = Some (b, ())"
      "paths b = paths base" "chains_full b" "isEmpty b \<longrightarrow> isEmpty base" "getVisited b \<subseteq> getVisited base"
      "transform_with bf StateOptimizer_transformBasic StateOptimizer cur () = Some (c, ())"
      "paths c = paths cur" "chains_full c" "isEmpty c \<longrightarrow> isEmpty cur" "getVisited c \<subseteq> getVisited cur"
    using Chain by auto
  have "chains_full (Chain b c)" using bc Chain.prems by simp
  from so_chain_ok[OF this] obtain r where r: "so_chain b c = Some r" "paths r = path_product (paths b) (paths c)"
      "chains_full r" "\<not> isEmpty r" "getVisited r \<subseteq> getVisited b \<union> getVisited c" by blast
  have "transform_with bf StateOptimizer_transformBasic StateOptimizer (Chain base cur) () = Some (r, ())"
    using bc r(1) by (cases bf) (simp_all add: transform_pair_def StateOptimizer_def transformEsab_def base_Transformer_def)
  then show ?case using r bc by auto
next
  case (Choice cs)
  have "\<exists>r. transform_with bf StateOptimizer_transformBasic StateOptimizer c () = Some (r, ()) \<and>
       paths r = paths c \<and> chains_full r \<and> (isEmpty r \<longrightarrow> isEmpty c) \<and> getVisited r \<subseteq> getVisited c" if "c \<in> set cs" for c
    using Choice that by (auto simp: list_all_iff)
  then obtain g where g: "\<And>c. c \<in> set cs \<Longrightarrow>
       transform_with bf StateOptimizer_transformBasic StateOptimizer c () = Some (g c, ()) \<and>
       paths (g c) = paths c \<and> chains_full (g c) \<and> (isEmpty (g c) \<longrightarrow> isEmpty c) \<and> getVisited (g c) \<subseteq> getVisited c"
    by metis
  have "transform_with bf StateOptimizer_transformBasic StateOptimizer (Choice cs) () = Some (Choice (map g cs), ())"
    using g by (simp add: omap_st_unit omap_map_Some[of cs _ g] StateOptimizer_def transformEsab_def base_Transformer_def)
  then show ?case using g by (fastforce simp: list_all_iff)
qed

text \<open>C26: The optimiser returns on every state whose chains have no empty component, as the factory
  builds them; the result has the same paths, chains without empty components and no new visited
  locations.\<close>

theorem optimize_keeps_paths:
  assumes "chains_full ps"
  shows "\<exists>r. optimize bf ps = Some r \<and> paths r = paths ps \<and> chains_full r \<and> getVisited r \<subseteq> getVisited ps"
  using optimize_ok[OF assms, of bf] by (auto simp: optimize_def caching_transparent)

theorem optimize_keeps_paths_witness:
  "\<exists>r. optimize False (Chain (Chain (Basic [getMarkPredicate getTrueTerm unknown_Locus] {}) (Basic [getMarkPredicate getFalseTerm unknown_Locus] {}))
        (Choice [Basic [getMarkPredicate getTrueTerm unknown_Locus] {}, Basic [] {}])) = Some r \<and> chains_full r"
proof -
  have "chains_full (Chain (Chain (Basic [getMarkPredicate getTrueTerm unknown_Locus] {}) (Basic [getMarkPredicate getFalseTerm unknown_Locus] {}))
        (Choice [Basic [getMarkPredicate getTrueTerm unknown_Locus] {}, Basic [] {}]))" by simp
  from optimize_keeps_paths[OF this, of False] show ?thesis by blast
qed

text \<open>Two states the optimiser does not keep: merging two basic states forgets the locations both
  have visited, and a chain on a choice of two empty alternatives, which erasing marks can leave, ends
  in an undefined cast.\<close>

theorem optimize_loses:
  "optimize bf (Chain (Basic [p] {l}) (Basic [q] {l'})) = Some (Basic [p, q] {}) \<and>
   \<not> hasVisited (Basic [p, q] {}) [l] \<and> hasVisited (Chain (Basic [p] {l}) (Basic [q] {l'})) [l] \<and>
   optimize bf (Chain (Chain (Choice [Basic [] {}, Basic [] {}]) (Basic [p] {})) (Basic [q] {})) = None"
  unfolding optimize_def caching_transparent
  by (cases bf) (simp_all add: StateOptimizer_transformBasic_def StateOptimizer_def
      transformEsab_def base_Transformer_def transform_pair_def so_chain.simps so_merge_def PSF_Basic_def
      PSF_Chain_def hasVisited_def Let_def)

section \<open>Cropped states\<close>

text \<open>The part of a path up to its first hit.\<close>

fun cut_at :: "('a \<Rightarrow> bool) \<Rightarrow> 'a list \<Rightarrow> 'a list option" where
  "cut_at chk [] = None"
| "cut_at chk (x # xs) = (if chk x then Some [x] else map_option (Cons x) (cut_at chk xs))"

definition cuts :: "('a \<Rightarrow> bool) \<Rightarrow> 'a list set \<Rightarrow> 'a list set" where
  "cuts chk A = {c. \<exists>p\<in>A. cut_at chk p = Some c}"

lemma cut_at_None: "cut_at chk xs = None \<longleftrightarrow> (\<forall>x\<in>set xs. \<not> chk x)"
  by (induction xs) auto

lemma cut_at_append:
  "cut_at chk (xs @ ys) = (case cut_at chk xs of Some c \<Rightarrow> Some c | None \<Rightarrow> map_option (\<lambda>c. xs @ c) (cut_at chk ys))"
  by (induction xs; cases "cut_at chk ys") (auto split: option.splits)

lemma crop_data_cut:
  "crop_data chk acc ps = (case cut_at chk ps of Some c \<Rightarrow> (acc @ c, True) | None \<Rightarrow> (acc @ ps, False))"
  by (induction ps arbitrary: acc) (auto split: option.splits)

lemma cuts_product:
  assumes "B \<noteq> {}"
  shows "cuts chk (path_product A B) = cuts chk A \<union> {p @ c | p c. p \<in> A \<and> cut_at chk p = None \<and> c \<in> cuts chk B}"
  using assms by (fastforce simp: cuts_def cut_at_append split: option.splits)

text \<open>No chain has hits in both of its components.\<close>

fun crop_once :: "(predicate \<Rightarrow> bool) \<Rightarrow> pstate \<Rightarrow> bool" where
  "crop_once chk (Basic data loci) = True"
| "crop_once chk (Chain base cur) =
     (crop_once chk base \<and> crop_once chk cur \<and> \<not> ((\<exists>p\<in>preds base. chk p) \<and> (\<exists>p\<in>preds cur. chk p)))"
| "crop_once chk (Choice cs) = list_all (crop_once chk) cs"

lemma cuts_preds: "c \<in> cuts chk (paths s) \<Longrightarrow> \<exists>p\<in>preds s. chk p"
proof -
  assume "c \<in> cuts chk (paths s)"
  then obtain p where "p \<in> paths s" "cut_at chk p \<noteq> None" by (auto simp: cuts_def)
  then show ?thesis using paths_preds[of p s] by (auto simp: cut_at_None)
qed

definition crop_spec :: "(predicate \<Rightarrow> bool) \<Rightarrow> pstate \<Rightarrow> pstate \<times> bool \<Rightarrow> bool" where
  "crop_spec chk s res =
     (if snd res
      then no_empty_choice (fst res) \<and> paths (fst res) \<subseteq> cuts chk (paths s) \<and>
           (crop_once chk s \<longrightarrow> paths (fst res) = cuts chk (paths s))
      else fst res = s \<and> cuts chk (paths s) = {})"

lemma crop_state_spec:
  "no_empty_choice s \<Longrightarrow> \<not> crop \<Longrightarrow> crop_spec chk s (crop_state chk s crop)"
  "list_all no_empty_choice cs \<Longrightarrow>
     list_all no_empty_choice (crop_choices chk cs) \<and>
     (\<Union>c\<in>set (crop_choices chk cs). paths c) \<subseteq> cuts chk (\<Union>c\<in>set cs. paths c) \<and>
     (crop_choices chk cs = [] \<longrightarrow> cuts chk (\<Union>c\<in>set cs. paths c) = {}) \<and>
     (list_all (crop_once chk) cs \<longrightarrow> (\<Union>c\<in>set (crop_choices chk cs). paths c) = cuts chk (\<Union>c\<in>set cs. paths c))"
proof (induction chk s crop and chk cs rule: crop_state_crop_choices.induct)
  case (1 chk data loci crop)
  then show ?case
    by (auto simp: crop_spec_def crop_data_cut PSF_Basic_def cuts_def split: option.splits)
next
  case (2 chk base cur crop)
  obtain rb c1 where b: "crop_state chk base False = (rb, c1)" by fastforce
  obtain rc c2 where c: "crop_state chk cur False = (rc, c2)" by fastforce
  have ok: "no_empty_choice base" "no_empty_choice cur" using 2 by auto
  have sb: "crop_spec chk base (rb, c1)" using 2 b by auto
  note ne = no_empty_choice_paths[OF ok(1)] no_empty_choice_paths[OF ok(2)]
  note prod = cuts_product[OF ne(2), of chk "paths base"]
  show ?case
  proof (cases c1)
    case True
    then have r: "no_empty_choice rb" "paths rb \<subseteq> cuts chk (paths base)"
        "crop_once chk base \<longrightarrow> paths rb = cuts chk (paths base)"
      using sb by (auto simp: crop_spec_def)
    have "cuts chk (paths cur) = {}" if "crop_once chk (Chain base cur)"
      using that r(1,2) no_empty_choice_paths[OF r(1)] cuts_preds[of _ chk base] cuts_preds[of _ chk cur] by auto
    then show ?thesis using r 2(4) b True by (auto simp: crop_spec_def prod)
  next
    case False
    have sc: "crop_spec chk cur (rc, c2)" using 2 b c False ok(2) by auto
    have none: "cuts chk (paths base) = {}" "rb = base" using sb False by (auto simp: crop_spec_def)
    have nb: "cut_at chk p = None" if "p \<in> paths base" for p
      using none(1) that by (cases "cut_at chk p") (auto simp: cuts_def)
    show ?thesis
    proof (cases c2)
      case True
      then have r: "no_empty_choice rc" "paths rc \<subseteq> cuts chk (paths cur)"
          "crop_once chk cur \<longrightarrow> paths rc = cuts chk (paths cur)"
        using sc by (auto simp: crop_spec_def)
      have "crop_state chk (Chain base cur) crop = (PSF_Chain base rc, True)"
        using 2(4) b c False True none by simp
      then show ?thesis
        using r nb none(1) by (auto simp: crop_spec_def PSF_Chain_paths[OF ok(1) r(1)] PSF_Chain_ok[OF ok(1) r(1)] prod)
    next
      case False': False
      then show ?thesis using sc 2(4) b c False none nb by (auto simp: crop_spec_def prod)
    qed
  qed
next
  case (3 chk cs crop)
  have IH: "list_all no_empty_choice (crop_choices chk cs)"
      "(\<Union>c\<in>set (crop_choices chk cs). paths c) \<subseteq> cuts chk (\<Union>c\<in>set cs. paths c)"
      "crop_choices chk cs = [] \<longrightarrow> cuts chk (\<Union>c\<in>set cs. paths c) = {}"
      "list_all (crop_once chk) cs \<longrightarrow> (\<Union>c\<in>set (crop_choices chk cs). paths c) = cuts chk (\<Union>c\<in>set cs. paths c)"
    using 3 by auto
  have "no_empty_choice (PSF_Choice (crop_choices chk cs))" if "crop_choices chk cs \<noteq> []"
    using IH(1) that by (auto simp: PSF_Choice_def split: list.splits)
  then show ?case using IH 3(3) by (simp add: crop_spec_def Let_def)
next
  case (5 chk c cs)
  obtain r f where c: "crop_state chk c False = (r, f)" by fastforce
  have sc: "crop_spec chk c (r, f)" using 5 c by auto
  have IH: "list_all no_empty_choice (crop_choices chk cs)"
      "(\<Union>c\<in>set (crop_choices chk cs). paths c) \<subseteq> cuts chk (\<Union>c\<in>set cs. paths c)"
      "crop_choices chk cs = [] \<longrightarrow> cuts chk (\<Union>c\<in>set cs. paths c) = {}"
      "list_all (crop_once chk) cs \<longrightarrow> (\<Union>c\<in>set (crop_choices chk cs). paths c) = cuts chk (\<Union>c\<in>set cs. paths c)"
    using 5(2,3)[OF c [symmetric] refl] 5(4) by (cases f; simp)+
  have un: "cuts chk (A \<union> B) = cuts chk A \<union> cuts chk B" for A B by (auto simp: cuts_def)
  show ?case
    using sc IH by (cases f) (auto simp: c crop_spec_def un)
qed (auto simp: cuts_def)

text \<open>C30: On a state without empty choices the cropper answers the state itself if no path has a predicate the checker
  accepts.  Otherwise every path of its result is a path of the state cut after its first accepted predicate, and there is
  at least one; all of the cut paths are there if no chain has accepted predicates in both of its components
  (else some may be missing, \<open>cropper_loses\<close>).\<close>

theorem cropper_cuts:
  assumes "no_empty_choice ps"
  shows "(if cuts chk (paths ps) = {} then cropStateOn chk ps = ps
     else paths (cropStateOn chk ps) \<noteq> {} \<and> paths (cropStateOn chk ps) \<subseteq> cuts chk (paths ps) \<and>
          (crop_once chk ps \<longrightarrow> paths (cropStateOn chk ps) = cuts chk (paths ps)))"
proof -
  have "crop_spec chk ps (crop_state chk ps False)" using crop_state_spec(1)[of ps False chk, OF assms] by simp
  then show ?thesis
    using no_empty_choice_paths by (auto simp: crop_spec_def cropStateOn_def split: if_splits)
qed

theorem cropper_cuts_witness:
  "paths (cropStateOn (\<lambda>p. ptype p = PATH)
     (Chain (Basic [getMarkPredicate getTrueTerm unknown_Locus] {})
       (Basic [getBooleanPredicate getTrueTerm getTrueTerm unknown_Locus, getMarkPredicate getTrueTerm unknown_Locus] {}))) =
   {[getMarkPredicate getTrueTerm unknown_Locus, getBooleanPredicate getTrueTerm getTrueTerm unknown_Locus]}"
proof -
  let ?m = "getMarkPredicate getTrueTerm unknown_Locus" and ?b = "getBooleanPredicate getTrueTerm getTrueTerm unknown_Locus"
  let ?s = "Chain (Basic [?m] {}) (Basic [?b, ?m] {})" and ?c = "\<lambda>p. ptype p = PATH"
  have t: "ptype ?m = STATE" "ptype ?b = PATH"
    by (simp_all add: pred_get_defs mk_MarkPredicate_def mk_EqualityPredicate_def)
  have "cuts ?c (paths ?s) = {[?m, ?b]}" "no_empty_choice ?s" "crop_once ?c ?s"
    by (auto simp: cuts_def t)
  then show ?thesis using cropper_cuts[of ?s ?c] by simp
qed

text \<open>With hits in both components of a chain the cropper forgets the paths that have their hit in
  the second one only, and it forgets the visited locations of the basic state it crops.\<close>

theorem cropper_loses:
  assumes "chk h" "\<not> chk n"
  shows "paths (cropStateOn chk (Chain (Choice [Basic [h] {}, Basic [n] {}]) (Basic [h] {}))) = {[h]} \<and>
    cuts chk (paths (Chain (Choice [Basic [h] {}, Basic [n] {}]) (Basic [h] {}))) = {[h], [n, h]} \<and>
    cropStateOn chk (Basic [n, h, n] {l}) = Basic [n, h] {}"
  using assms by (auto simp: cropStateOn_def PSF_Choice_def PSF_Basic_def cuts_def)

theorem cropper_loses_witness:
  "cropStateOn (\<lambda>p. ptype p = PATH)
     (Basic [getMarkPredicate getTrueTerm unknown_Locus, getBooleanPredicate getTrueTerm getTrueTerm unknown_Locus,
        getMarkPredicate getTrueTerm unknown_Locus] {unknown_Locus}) =
   Basic [getMarkPredicate getTrueTerm unknown_Locus, getBooleanPredicate getTrueTerm getTrueTerm unknown_Locus] {}"
proof -
  have "ptype (getBooleanPredicate getTrueTerm getTrueTerm unknown_Locus) = PATH"
    "\<not> ptype (getMarkPredicate getTrueTerm unknown_Locus) = PATH"
    by (simp_all add: pred_get_defs mk_MarkPredicate_def mk_EqualityPredicate_def)
  from cropper_loses[where chk = "\<lambda>p. ptype p = PATH", OF this] show ?thesis by blast
qed

end
