(* ===== verification/TermTransformers.thy ===== *)
theory TermTransformers
  imports StateTransformers "HOL-Library.Signed_Division"
begin

text \<open>
  Transformers of terms (src/State/Transformer): the constant propagator.

  The constant propagator computes with C++ values: \<open>bool\<close>, \<open>int64_t\<close> and \<open>double\<close>.  Undefined
  behaviour (overflow of signed numbers, division by zero, bad shifts) and the failed assertions are
  \<open>None\<close>.  The operations on doubles are those of the processor, the record \<open>fpu\<close>.
\<close>

section \<open>C++ values\<close>

record fpu =
  fp_of_int :: "64 word \<Rightarrow> 64 word"
  fp_add :: "64 word \<Rightarrow> 64 word \<Rightarrow> 64 word"
  fp_sub :: "64 word \<Rightarrow> 64 word \<Rightarrow> 64 word"
  fp_mul :: "64 word \<Rightarrow> 64 word \<Rightarrow> 64 word"
  fp_div :: "64 word \<Rightarrow> 64 word \<Rightarrow> 64 word"
  fp_neg :: "64 word \<Rightarrow> 64 word"
  fp_fabs :: "64 word \<Rightarrow> 64 word"
  fp_less :: "64 word \<Rightarrow> 64 word \<Rightarrow> bool"
  fp_le :: "64 word \<Rightarrow> 64 word \<Rightarrow> bool"
  fp_nonzero :: "64 word \<Rightarrow> bool"

datatype cvalue = CBool bool | CInt "64 word" | CFloat "64 word"

text \<open>The number a bool or an \<open>int64_t\<close> is promoted to, and a result of the common type: two bools give
  a bool (through \<open>int\<close>), anything else an \<open>int64_t\<close>.\<close>

fun promote :: "cvalue \<Rightarrow> int" where
  "promote (CBool b) = (if b then 1 else 0)"
| "promote (CInt v) = sint v"
| "promote (CFloat d) = 0"

definition is_float :: "cvalue \<Rightarrow> bool" where
  "is_float v = (case v of CFloat d \<Rightarrow> True | _ \<Rightarrow> False)"

definition both_bool :: "cvalue \<Rightarrow> cvalue \<Rightarrow> bool" where
  "both_bool l r = (case (l, r) of (CBool a, CBool b) \<Rightarrow> True | _ \<Rightarrow> False)"

text \<open>The width the promoted operands have: \<open>int\<close> for two bools, else 64 bits; a result outside its
  range is an overflow.\<close>

definition common_width :: "cvalue \<Rightarrow> cvalue \<Rightarrow> nat" where
  "common_width l r = (if both_bool l r then 32 else 64)"

definition in_range :: "nat \<Rightarrow> int \<Rightarrow> bool" where
  "in_range w i = (- (2 ^ (w - 1)) \<le> i \<and> i < 2 ^ (w - 1))"

definition common_result :: "cvalue \<Rightarrow> cvalue \<Rightarrow> int \<Rightarrow> cvalue" where
  "common_result l r i = (if both_bool l r then CBool (i \<noteq> 0) else CInt (word_of_int i))"

definition checked :: "cvalue \<Rightarrow> cvalue \<Rightarrow> int \<Rightarrow> cvalue option" where
  "checked l r i = (if in_range (common_width l r) i then Some (common_result l r i) else None)"

text \<open>The left operand of a shift is promoted alone: a bool shifts as an \<open>int\<close>.\<close>

definition shift_width :: "cvalue \<Rightarrow> nat" where
  "shift_width l = (case l of CBool b \<Rightarrow> 32 | _ \<Rightarrow> 64)"

definition shift_ok :: "cvalue \<Rightarrow> cvalue \<Rightarrow> bool" where
  "shift_ok l r = (0 \<le> promote r \<and> promote r < int (shift_width l))"

section \<open>ConstantPropagator\<close>

definition propagate_arith :: "ArithType \<Rightarrow> cvalue \<Rightarrow> cvalue \<Rightarrow> cvalue option" where
  "propagate_arith opcode lhv rhv =
    (let a = promote lhv; b = promote rhv in
     case opcode of
       ADD \<Rightarrow> checked lhv rhv (a + b)
     | BAND \<Rightarrow> Some (common_result lhv rhv (semiring_bit_operations_class.and a b))
     | BOR \<Rightarrow> Some (common_result lhv rhv (semiring_bit_operations_class.or a b))
     | DIV \<Rightarrow> if b = 0 then None else checked lhv rhv (a sdiv b)
     | LAND \<Rightarrow> Some (common_result lhv rhv (if a \<noteq> 0 \<and> b \<noteq> 0 then 1 else 0))
     | LOR \<Rightarrow> Some (common_result lhv rhv (if a \<noteq> 0 \<or> b \<noteq> 0 then 1 else 0))
     | SHL \<Rightarrow> if shift_ok lhv rhv \<and> 0 \<le> a \<and> a * 2 ^ nat b < 2 ^ shift_width lhv
              then Some (common_result lhv rhv (signed_take_bit (shift_width lhv - 1) (a * 2 ^ nat b))) else None
     | MUL \<Rightarrow> checked lhv rhv (a * b)
     | REM \<Rightarrow> if b = 0 \<or> \<not> in_range (common_width lhv rhv) (a sdiv b) then None
              else Some (common_result lhv rhv (a smod b))
     | ASHR \<Rightarrow> if shift_ok lhv rhv then Some (common_result lhv rhv (a div 2 ^ nat b)) else None
     | LSHR \<Rightarrow> if shift_ok lhv rhv then Some (common_result lhv rhv (a div 2 ^ nat b)) else None
     | SUB \<Rightarrow> checked lhv rhv (a - b)
     | XOR \<Rightarrow> Some (common_result lhv rhv (semiring_bit_operations_class.xor a b))
     | IMPLIES \<Rightarrow> Some (common_result lhv rhv (if a \<noteq> 0 then b else 1)))"

definition propagate_unary :: "UnaryArithType \<Rightarrow> cvalue \<Rightarrow> cvalue option" where
  "propagate_unary opcode operand =
    (let a = promote operand;
         result = (\<lambda>i. case operand of CBool b \<Rightarrow> CBool (i \<noteq> 0) | _ \<Rightarrow> CInt (word_of_int i)) in
     case opcode of
       NOT \<Rightarrow> Some (result (if a = 0 then 1 else 0))
     | BNOT \<Rightarrow> Some (result (ring_bit_operations_class.not a))
     | NEG \<Rightarrow> if in_range 64 (- a) then Some (result (- a)) else None)"

definition propagate_cond :: "ConditionType \<Rightarrow> cvalue \<Rightarrow> cvalue \<Rightarrow> bool option" where
  "propagate_cond opcode lhv rhv =
    (let a = promote lhv; b = promote rhv in
     case opcode of
       EQ \<Rightarrow> Some (a = b) | NEQ \<Rightarrow> Some (a \<noteq> b)
     | GT \<Rightarrow> Some (a > b) | UGT \<Rightarrow> Some (a > b)
     | GE \<Rightarrow> Some (a \<ge> b) | UGE \<Rightarrow> Some (a \<ge> b)
     | LT \<Rightarrow> Some (a < b) | ULT \<Rightarrow> Some (a < b)
     | LE \<Rightarrow> Some (a \<le> b) | ULE \<Rightarrow> Some (a \<le> b)
     | TRUE \<Rightarrow> Some True | FALSE \<Rightarrow> Some False
     | UNKNOWN \<Rightarrow> None)"

text \<open>With a floating operand the other one is converted.  \<open>EPSILON\<close> is four times the machine
  epsilon, \<open>2 ^ - 50\<close>.\<close>

fun to_double :: "fpu \<Rightarrow> cvalue \<Rightarrow> 64 word" where
  "to_double F (CBool b) = fp_of_int F (if b then 1 else 0)"
| "to_double F (CInt v) = fp_of_int F v"
| "to_double F (CFloat d) = d"

definition EPSILON :: "64 word" where
  "EPSILON = 0x3CD0000000000000"

definition to_bool :: "fpu \<Rightarrow> cvalue \<Rightarrow> bool" where
  "to_bool F v = (case v of CBool b \<Rightarrow> b | CInt i \<Rightarrow> i \<noteq> 0 | CFloat d \<Rightarrow> fp_nonzero F d)"

definition propagateDouble_arith :: "fpu \<Rightarrow> ArithType \<Rightarrow> cvalue \<Rightarrow> cvalue \<Rightarrow> 64 word option" where
  "propagateDouble_arith F opcode lhv rhv =
    (let a = to_double F lhv; b = to_double F rhv in
     case opcode of
       ADD \<Rightarrow> Some (fp_add F a b)
     | DIV \<Rightarrow> Some (fp_div F a b)
     | LAND \<Rightarrow> Some (fp_of_int F (if to_bool F lhv \<and> to_bool F rhv then 1 else 0))
     | LOR \<Rightarrow> Some (fp_of_int F (if to_bool F lhv \<or> to_bool F rhv then 1 else 0))
     | MUL \<Rightarrow> Some (fp_mul F a b)
     | SUB \<Rightarrow> Some (fp_sub F a b)
     | _ \<Rightarrow> None)"

definition propagateDouble_cond :: "fpu \<Rightarrow> ConditionType \<Rightarrow> cvalue \<Rightarrow> cvalue \<Rightarrow> bool option" where
  "propagateDouble_cond F opcode lhv rhv =
    (let a = to_double F lhv; b = to_double F rhv;
         near = fp_less F (fp_fabs F (fp_sub F a b)) EPSILON;
         far = fp_le F EPSILON (fp_fabs F (fp_sub F a b)) in
     case opcode of
       EQ \<Rightarrow> Some near | NEQ \<Rightarrow> Some far
     | GT \<Rightarrow> Some (fp_less F b a) | UGT \<Rightarrow> Some (fp_less F b a)
     | GE \<Rightarrow> Some (fp_less F b a \<or> near) | UGE \<Rightarrow> Some (fp_less F b a \<or> near)
     | LT \<Rightarrow> Some (fp_less F a b) | ULT \<Rightarrow> Some (fp_less F a b)
     | LE \<Rightarrow> Some (fp_less F a b \<or> near) | ULE \<Rightarrow> Some (fp_less F a b \<or> near)
     | TRUE \<Rightarrow> Some True | FALSE \<Rightarrow> Some False
     | UNKNOWN \<Rightarrow> None)"

definition propagateDouble_unary :: "fpu \<Rightarrow> UnaryArithType \<Rightarrow> 64 word \<Rightarrow> 64 word option" where
  "propagateDouble_unary F opcode operand = (case opcode of
       NOT \<Rightarrow> Some (fp_of_int F (if fp_nonzero F operand then 0 else 1))
     | NEG \<Rightarrow> Some (fp_neg F operand)
     | BNOT \<Rightarrow> None)"

text \<open>\<open>propagateTerm\<close> picks the floating version if an operand is floating, and makes a constant term
  of the result: a \<open>bool\<close>, an \<open>int64_t\<close> of unknown type, a \<open>double\<close>.\<close>

definition constant_term :: "env \<Rightarrow> cvalue \<Rightarrow> Term" where
  "constant_term E v = (case v of
      CBool b \<Rightarrow> getOpaqueConstantTerm_bool b
    | CInt i \<Rightarrow> getOpaqueConstantTerm_int i 0
    | CFloat d \<Rightarrow> getOpaqueConstantTerm_double E d)"

definition constant_value :: "Term \<Rightarrow> cvalue option" where
  "constant_value t = (case tclass t of
      OpaqueBoolConstantTerm b \<Rightarrow> Some (CBool b)
    | OpaqueIntConstantTerm i \<Rightarrow> Some (CInt i)
    | OpaqueFloatingConstantTerm d \<Rightarrow> Some (CFloat d)
    | _ \<Rightarrow> None)"

definition arith_value :: "fpu \<Rightarrow> ArithType \<Rightarrow> cvalue \<Rightarrow> cvalue \<Rightarrow> cvalue option" where
  "arith_value F op l r =
     (if is_float l \<or> is_float r then map_option CFloat (propagateDouble_arith F op l r) else propagate_arith op l r)"

definition cond_value :: "fpu \<Rightarrow> ConditionType \<Rightarrow> cvalue \<Rightarrow> cvalue \<Rightarrow> cvalue option" where
  "cond_value F op l r =
     map_option CBool (if is_float l \<or> is_float r then propagateDouble_cond F op l r else propagate_cond op l r)"

definition unary_value :: "fpu \<Rightarrow> UnaryArithType \<Rightarrow> cvalue \<Rightarrow> cvalue option" where
  "unary_value F op v = (case v of CFloat d \<Rightarrow> map_option CFloat (propagateDouble_unary F op d) | _ \<Rightarrow> propagate_unary op v)"

definition CP_transformUnaryTerm :: "env \<Rightarrow> fpu \<Rightarrow> UnaryArithType \<Rightarrow> Term \<Rightarrow> Term option" where
  "CP_transformUnaryTerm E F op t = (case subterms t of
      [rhv] \<Rightarrow> (case constant_value rhv of
         Some v \<Rightarrow> map_option (constant_term E) (unary_value F op v) | None \<Rightarrow> Some t)
    | _ \<Rightarrow> Some t)"

definition CP_transformUnified ::
  "env \<Rightarrow> (cvalue \<Rightarrow> cvalue \<Rightarrow> cvalue option) \<Rightarrow> Term \<Rightarrow> Term option" where
  "CP_transformUnified E propagateTerm t = (case subterms t of
      [lhv, rhv] \<Rightarrow> (case (constant_value lhv, constant_value rhv) of
         (Some l, Some r) \<Rightarrow> map_option (constant_term E) (propagateTerm l r) | _ \<Rightarrow> Some t)
    | _ \<Rightarrow> Some t)"

definition CP_transformTernaryTerm :: "Term \<Rightarrow> Term option" where
  "CP_transformTernaryTerm t = (case subterms t of
      [cnd, tru, fls] \<Rightarrow> (case tclass cnd of
         OpaqueBoolConstantTerm b \<Rightarrow> Some (if b then tru else fls) | _ \<Rightarrow> Some t)
    | _ \<Rightarrow> Some t)"

definition CP_class :: "env \<Rightarrow> fpu \<Rightarrow> Term \<Rightarrow> Term option" where
  "CP_class E F t = (case tclass t of
      UnaryTerm op \<Rightarrow> CP_transformUnaryTerm E F op t
    | BinaryTerm op \<Rightarrow> CP_transformUnified E (arith_value F op) t
    | CmpTerm op \<Rightarrow> CP_transformUnified E (cond_value F op) t
    | TernaryTerm \<Rightarrow> CP_transformTernaryTerm t
    | _ \<Rightarrow> Some t)"

definition ConstantPropagator :: "env \<Rightarrow> fpu \<Rightarrow> unit Transformer" where
  "ConstantPropagator E F = base_Transformer\<lparr>
     transformTermClass := (\<lambda>t s. map_option (\<lambda>r. (r, s)) (CP_class E F t))\<rparr>"

definition propagate_term :: "env \<Rightarrow> fpu \<Rightarrow> Term \<Rightarrow> Term option" where
  "propagate_term E F t = map_option fst (transform_term E (ConstantPropagator E F) t ())"

section \<open>Machine arithmetic\<close>

text \<open>The bit-vector operation of an operator at 64 bits.\<close>

definition machine_arith :: "ArithType \<Rightarrow> 64 word \<Rightarrow> 64 word \<Rightarrow> 64 word" where
  "machine_arith op a b = (case op of
      ADD \<Rightarrow> a + b | SUB \<Rightarrow> a - b | MUL \<Rightarrow> a * b | DIV \<Rightarrow> word_of_int (sint a sdiv sint b)
    | REM \<Rightarrow> word_of_int (sint a smod sint b) | BAND \<Rightarrow> semiring_bit_operations_class.and a b | BOR \<Rightarrow> semiring_bit_operations_class.or a b
    | XOR \<Rightarrow> semiring_bit_operations_class.xor a b
    | SHL \<Rightarrow> push_bit (unat b) a | ASHR \<Rightarrow> signed_drop_bit (unat b) a | LSHR \<Rightarrow> drop_bit (unat b) a
    | LAND \<Rightarrow> (if a \<noteq> 0 \<and> b \<noteq> 0 then 1 else 0) | LOR \<Rightarrow> (if a \<noteq> 0 \<or> b \<noteq> 0 then 1 else 0)
    | IMPLIES \<Rightarrow> (if a \<noteq> 0 then b else 1))"

lemma nonneg_sint: "0 \<le> sint (b :: 64 word) \<Longrightarrow> uint b = sint b"
proof -
  assume b: "0 \<le> sint b"
  have "sint b < 2 ^ 63" using sint_range_size[of b] by (simp add: word_size)
  then have "sint b mod 2 ^ 64 = sint b" using b by (intro mod_pos_pos_trivial) simp_all
  moreover have "uint (word_of_int (sint b) :: 64 word) = sint b mod 2 ^ 64"
    by (simp only: uint_word_of_int take_bit_eq_mod) simp
  ultimately show ?thesis by simp
qed

lemma word_of_sint_ops:
  fixes a b :: "64 word"
  shows "word_of_int (semiring_bit_operations_class.and (sint a) (sint b)) = semiring_bit_operations_class.and a b"
    "word_of_int (semiring_bit_operations_class.or (sint a) (sint b)) = semiring_bit_operations_class.or a b"
    "word_of_int (semiring_bit_operations_class.xor (sint a) (sint b)) = semiring_bit_operations_class.xor a b"
  by (simp_all add: of_int_and_eq of_int_or_eq of_int_xor_eq)

lemma word_of_sint_shifts:
  fixes a b :: "64 word"
  shows "word_of_int (signed_take_bit 63 (sint a * 2 ^ n)) = push_bit n a"
    "word_of_int (sint a div 2 ^ n) = signed_drop_bit n a"
    "0 \<le> sint a \<Longrightarrow> word_of_int (sint a div 2 ^ n) = drop_bit n a"
proof -
  have "(word_of_int (signed_take_bit 63 (sint a * 2 ^ n)) :: 64 word) = word_of_int (sint a * 2 ^ n)"
    by (simp only: word_of_int_eq_iff) (simp add: take_bit_signed_take_bit)
  also have "\<dots> = a * 2 ^ n" by simp
  also have "\<dots> = push_bit n a" by (simp add: push_bit_eq_mult)
  finally show "word_of_int (signed_take_bit 63 (sint a * 2 ^ n)) = push_bit n a" .
  have "sint a div 2 ^ n = sint (signed_drop_bit n a)"
    by (simp add: sint_signed_drop_bit_eq drop_bit_eq_div)
  then show "word_of_int (sint a div 2 ^ n) = signed_drop_bit n a" by simp
  show "word_of_int (sint a div 2 ^ n) = drop_bit n a" if "0 \<le> sint a"
  proof -
    have "sint a div 2 ^ n = uint (drop_bit n a)"
      unfolding unsigned_drop_bit_eq using nonneg_sint[OF that, symmetric] uint_range_size[of a]
      by (simp add: drop_bit_eq_div take_bit_int_eq_self word_size)
    then show ?thesis by simp
  qed
qed

lemma fold_machine:
  assumes "propagate_arith op (CInt a) (CInt b) = Some v" "op = LSHR \<Longrightarrow> 0 \<le> sint a"
  shows "v = CInt (machine_arith op a b)"
proof -
  have sh: "nat (sint b) = unat b" if "shift_ok (CInt a) (CInt b)"
    using that nonneg_sint[of b] by (simp add: shift_ok_def flip: nat_uint_eq)
  have ls: "drop_bit n a = signed_drop_bit n a" if "0 \<le> sint a" for n
    using word_of_sint_shifts(2,3)[of a n] that by simp
  show ?thesis
    using assms sh ls
    by (cases op) (auto simp: propagate_arith_def machine_arith_def checked_def common_result_def both_bool_def Let_def
        shift_width_def word_of_sint_ops word_of_sint_shifts signed_eq_0_iff split: if_splits)
qed

lemma fold_condition:
  assumes "propagate_cond op (CInt a) (CInt b) = Some c" "op \<in> {UGT, UGE, ULT, ULE} \<Longrightarrow> 0 \<le> sint a \<and> 0 \<le> sint b"
  shows "condition_holds op a b = Some c"
  using assms nonneg_sint[of a] nonneg_sint[of b]
  by (cases op) (auto simp: propagate_cond_def Let_def word_less_def word_le_def word_sless_alt word_sle_def dest: signed_word_eqI)

section \<open>Values of terms\<close>

text \<open>The value of a term on the 64-bit machine, independent of the propagator: booleans and numbers are
  words, and every operator is the operation of the machine on them; two booleans give a boolean.
  Undefined are divisions by zero, what the code computes otherwise than the machine (the logical shift and the
  unsigned conditions of negative numbers, see \<open>folding_wrong\<close>), and a boolean shifted by a number.\<close>

fun as_word :: "cvalue \<Rightarrow> 64 word" where
  "as_word (CBool b) = (if b then 1 else 0)"
| "as_word (CInt v) = v"
| "as_word (CFloat d) = d"

definition as_result :: "cvalue \<Rightarrow> cvalue \<Rightarrow> 64 word \<Rightarrow> cvalue" where
  "as_result l r w = (case (l, r) of (CBool a, CBool b) \<Rightarrow> CBool (w \<noteq> 0) | _ \<Rightarrow> CInt w)"

definition arith_defined :: "ArithType \<Rightarrow> cvalue \<Rightarrow> cvalue \<Rightarrow> bool" where
  "arith_defined op l r = (case op of
      DIV \<Rightarrow> as_word r \<noteq> 0 | REM \<Rightarrow> as_word r \<noteq> 0 | LSHR \<Rightarrow> 0 \<le> sint (as_word l)
    | SHL \<Rightarrow> (case (l, r) of (CBool a, CInt n) \<Rightarrow> False | _ \<Rightarrow> True)
    | _ \<Rightarrow> True)"

text \<open>Floating numbers: the operations of the processor, with numbers converted to it; as everywhere in the
  program, they are equal if they differ by less than \<open>EPSILON\<close>.\<close>

definition eval_float :: "fpu \<Rightarrow> ArithType \<Rightarrow> cvalue \<Rightarrow> cvalue \<Rightarrow> cvalue option" where
  "eval_float F op l r = (case op of
      ADD \<Rightarrow> Some (CFloat (fp_add F (to_double F l) (to_double F r)))
    | SUB \<Rightarrow> Some (CFloat (fp_sub F (to_double F l) (to_double F r)))
    | MUL \<Rightarrow> Some (CFloat (fp_mul F (to_double F l) (to_double F r)))
    | DIV \<Rightarrow> Some (CFloat (fp_div F (to_double F l) (to_double F r)))
    | LAND \<Rightarrow> Some (CFloat (to_double F (CBool (to_bool F l \<and> to_bool F r))))
    | LOR \<Rightarrow> Some (CFloat (to_double F (CBool (to_bool F l \<or> to_bool F r))))
    | _ \<Rightarrow> None)"

definition eval_arith :: "fpu \<Rightarrow> ArithType \<Rightarrow> cvalue \<Rightarrow> cvalue \<Rightarrow> cvalue option" where
  "eval_arith F op l r =
     (if is_float l \<or> is_float r then eval_float F op l r
      else if arith_defined op l r then Some (as_result l r (machine_arith op (as_word l) (as_word r))) else None)"

definition eval_float_cond :: "fpu \<Rightarrow> ConditionType \<Rightarrow> 64 word \<Rightarrow> 64 word \<Rightarrow> bool option" where
  "eval_float_cond F c a b =
     (let equal = fp_less F (fp_fabs F (fp_sub F a b)) EPSILON; different = fp_le F EPSILON (fp_fabs F (fp_sub F a b)) in
      if c = UNKNOWN then None
      else Some (c = TRUE \<or> c = EQ \<and> equal \<or> c = NEQ \<and> different \<or> c \<in> {LT, ULT, LE, ULE} \<and> fp_less F a b \<or>
        c \<in> {GT, UGT, GE, UGE} \<and> fp_less F b a \<or> c \<in> {LE, ULE, GE, UGE} \<and> equal))"

definition eval_cond :: "fpu \<Rightarrow> ConditionType \<Rightarrow> cvalue \<Rightarrow> cvalue \<Rightarrow> cvalue option" where
  "eval_cond F c l r = map_option CBool
     (if is_float l \<or> is_float r then eval_float_cond F c (to_double F l) (to_double F r)
      else if c \<in> {UGT, UGE, ULT, ULE} \<and> (sint (as_word l) < 0 \<or> sint (as_word r) < 0) then None
      else condition_holds c (as_word l) (as_word r))"

definition machine_unary :: "UnaryArithType \<Rightarrow> 64 word \<Rightarrow> 64 word" where
  "machine_unary op a = (case op of NEG \<Rightarrow> - a | NOT \<Rightarrow> (if a = 0 then 1 else 0) | BNOT \<Rightarrow> ring_bit_operations_class.not a)"

definition eval_unary :: "fpu \<Rightarrow> UnaryArithType \<Rightarrow> cvalue \<Rightarrow> cvalue option" where
  "eval_unary F op v = (case v of
      CFloat d \<Rightarrow> (case op of NEG \<Rightarrow> Some (CFloat (fp_neg F d))
        | NOT \<Rightarrow> Some (CFloat (to_double F (CBool (\<not> to_bool F v)))) | BNOT \<Rightarrow> None)
    | _ \<Rightarrow> Some (as_result v v (machine_unary op (as_word v))))"

text \<open>The other classes have an arbitrary interpretation of the class, of what the class keeps of the term, and
  of the values of the subterms, which must all be defined.\<close>

definition node_key :: "term_class \<Rightarrow> Type \<Rightarrow> string \<Rightarrow> Term list \<Rightarrow> (Type \<times> string) option" where
  "node_key c ty nm ss = (case c of
      CastTerm se \<Rightarrow> Some (ty, '''') | ReadPropertyTerm \<Rightarrow> Some (ty, '''')
    | _ \<Rightarrow> (if ss = [] then Some (ty, nm) else None))"

type_synonym interp = "term_class \<Rightarrow> (Type \<times> string) option \<Rightarrow> cvalue list \<Rightarrow> cvalue option"

definition node_value :: "fpu \<Rightarrow> interp \<Rightarrow> term_class \<Rightarrow> (Type \<times> string) option \<Rightarrow> cvalue option list \<Rightarrow> cvalue option" where
  "node_value F I c key vs = (case c of
      OpaqueBoolConstantTerm b \<Rightarrow> Some (CBool b)
    | OpaqueIntConstantTerm i \<Rightarrow> Some (CInt i)
    | OpaqueFloatingConstantTerm d \<Rightarrow> Some (CFloat d)
    | UnaryTerm op \<Rightarrow> (case vs of [Some v] \<Rightarrow> eval_unary F op v | _ \<Rightarrow> None)
    | BinaryTerm op \<Rightarrow> (case vs of [Some l, Some r] \<Rightarrow> eval_arith F op l r | _ \<Rightarrow> None)
    | CmpTerm op \<Rightarrow> (case vs of [Some l, Some r] \<Rightarrow> eval_cond F op l r | _ \<Rightarrow> None)
    | TernaryTerm \<Rightarrow> (case vs of [Some v, a, b] \<Rightarrow> (if to_bool F v then a else b) | _ \<Rightarrow> None)
    | _ \<Rightarrow> if None \<in> set vs then None else I c key (map the vs))"

fun eval_term :: "fpu \<Rightarrow> interp \<Rightarrow> Term \<Rightarrow> cvalue option" where
  "eval_term F I (Term c ty nm ss) = node_value F I c (node_key c ty nm ss) (map (eval_term F I) ss)"

text \<open>A property is read of a pointer, and the factory casts other terms to one: the interpretation
  does not see that cast.\<close>

definition reads_through_cast :: "interp \<Rightarrow> bool" where
  "reads_through_cast I = (\<forall>ty v p.
     (case I (CastTerm False) (Some (getPointer getUnknownType 0, '''')) [v] of
        Some w \<Rightarrow> I ReadPropertyTerm (Some (ty, '''')) [w, p] | None \<Rightarrow> None) =
     I ReadPropertyTerm (Some (ty, '''')) [v, p])"

section \<open>The propagator against the machine\<close>

lemma smod_1: "(1 :: int) smod 1 = 0"
  by (simp add: signed_modulo_int_def)

lemma arith_agrees:
  assumes "arith_value F op l r = Some w" "eval_arith F op l r = Some v"
  shows "w = v"
proof (cases "is_float l \<or> is_float r")
  case True
  then show ?thesis using assms
    by (cases op) (auto simp: arith_value_def eval_arith_def eval_float_def propagateDouble_arith_def Let_def)
next
  case nf: False
  then have e: "propagate_arith op l r = Some w" "arith_defined op l r" "v = as_result l r (machine_arith op (as_word l) (as_word r))"
    using assms by (auto simp: arith_value_def eval_arith_def split: if_splits)
  show ?thesis
  proof (cases "both_bool l r")
    case True
    then obtain a b where "l = CBool a" "r = CBool b" by (auto simp: both_bool_def split: cvalue.splits)
    then show ?thesis using e
      by (cases op; cases a; cases b) (auto simp: propagate_arith_def checked_def common_result_def both_bool_def as_result_def
          machine_arith_def arith_defined_def shift_ok_def shift_width_def Let_def push_bit_eq_mult smod_1 split: if_splits)
  next
    case False
    have "propagate_arith op (CInt (as_word l)) (CInt (as_word r)) = Some w"
      using e False nf by (cases l; cases r; cases op)
        (auto simp: propagate_arith_def checked_def common_result_def common_width_def both_bool_def is_float_def
          arith_defined_def shift_ok_def shift_width_def Let_def split: if_splits)
    moreover have "op = LSHR \<Longrightarrow> 0 \<le> sint (as_word l)" using e(2) by (simp add: arith_defined_def)
    ultimately have "w = CInt (machine_arith op (as_word l) (as_word r))" by (rule fold_machine)
    then show ?thesis using e(3) False nf by (auto simp: as_result_def both_bool_def split: cvalue.splits)
  qed
qed

lemma cond_agrees:
  assumes "cond_value F c l r = Some w" "eval_cond F c l r = Some v"
  shows "w = v"
proof (cases "is_float l \<or> is_float r")
  case True
  then show ?thesis using assms
    by (cases c) (auto simp: cond_value_def eval_cond_def eval_float_cond_def propagateDouble_cond_def Let_def)
next
  case False
  then obtain h where h: "propagate_cond c l r = Some h" "w = CBool h" using assms(1) by (auto simp: cond_value_def)
  have "promote l = sint (as_word l)" "promote r = sint (as_word r)" using False by (cases l; cases r; simp add: is_float_def)+
  then have "propagate_cond c (CInt (as_word l)) (CInt (as_word r)) = Some h" using h(1) by (simp add: propagate_cond_def)
  from fold_condition[OF this] show ?thesis using assms(2) False h(2) by (auto simp: eval_cond_def split: if_splits)
qed

lemma unary_agrees:
  assumes "unary_value F op v = Some w" "eval_unary F op v = Some u"
  shows "w = u"
proof (cases v)
  case (CBool b)
  then show ?thesis using assms
    by (cases op; cases b) (auto simp: unary_value_def eval_unary_def propagate_unary_def as_result_def machine_unary_def Let_def split: if_splits)
next
  case (CInt i)
  then show ?thesis using assms
    by (cases op) (auto simp: unary_value_def eval_unary_def propagate_unary_def as_result_def machine_unary_def Let_def
        of_int_not_eq signed_eq_0_iff split: if_splits)
next
  case (CFloat d)
  then show ?thesis using assms
    by (cases op) (auto simp: unary_value_def eval_unary_def propagateDouble_unary_def to_bool_def split: if_splits)
qed

section \<open>Constant propagation keeps values\<close>

lemma rebuild_shape:
  "rebuild E c ty cs = Some t \<Longrightarrow> c \<noteq> ReadPropertyTerm \<Longrightarrow>
   tclass t = c \<and> subterms t = cs \<and> cs \<noteq> [] \<and> (\<forall>se. c = CastTerm se \<longrightarrow> ttype t = ty)"
  by (cases c) (auto simp: rebuild_def get_defs mk_defs bind_Some_iff split: list.splits if_splits)

lemma rebuild_value:
  assumes "reads_through_cast I" "rebuild E c ty cs = Some t"
  shows "tclass t = c \<and> eval_term F I t = node_value F I c
     (case c of CastTerm se \<Rightarrow> Some (ty, '''') | ReadPropertyTerm \<Rightarrow> Some (ty, '''') | _ \<Rightarrow> None) (map (eval_term F I) cs)"
proof (cases "c = ReadPropertyTerm")
  case True
  then obtain r p where cs: "cs = [r, p]" and t: "getReadPropertyTerm E ty p r = Some t"
    using assms(2) by (auto simp: rebuild_def split: list.splits)
  have casted: "(case I (CastTerm False) (Some (getPointer getUnknownType 0, '''')) [v] of
        Some w \<Rightarrow> I ReadPropertyTerm (Some (ty, '''')) [w, q] | None \<Rightarrow> None) = I ReadPropertyTerm (Some (ty, '''')) [v, q]" for v q
    using assms(1) by (simp add: reads_through_cast_def)
  have "node_value F I ReadPropertyTerm k [node_value F I (CastTerm False) k' [x], y] =
      (case (x, y) of (Some v, Some q) \<Rightarrow> (case I (CastTerm False) k' [v] of Some w \<Rightarrow> I ReadPropertyTerm k [w, q] | None \<Rightarrow> None) | _ \<Rightarrow> None)"
      for k k' x y
    by (cases x; cases y; simp add: node_value_def split: option.split)
  moreover have "node_value F I ReadPropertyTerm k [x, y] =
      (case (x, y) of (Some v, Some q) \<Rightarrow> I ReadPropertyTerm k [v, q] | _ \<Rightarrow> None)" for k x y
    by (cases x; cases y; simp add: node_value_def)
  ultimately show ?thesis
    using t True casted cs
    by (auto simp: getReadPropertyTerm_def bind_Some_iff get_defs mk_defs node_key_def split: Type.splits option.splits)
next
  case False
  obtain ty' nm where t: "t = Term c ty' nm cs" "cs \<noteq> []" "\<forall>se. c = CastTerm se \<longrightarrow> ty' = ty"
    using rebuild_shape[OF assms(2) False] by (cases t) auto
  then show ?thesis using False by (auto simp: node_key_def split: term_class.split)
qed

text \<open>A value is kept where it is defined.\<close>

definition value_kept :: "cvalue option \<Rightarrow> cvalue option \<Rightarrow> bool" where
  "value_kept x y = (\<forall>v. x = Some v \<longrightarrow> y = Some v)"

lemma value_kept_simps [simp]: "value_kept x x" "value_kept None y" "value_kept (Some v) y \<longleftrightarrow> y = Some v"
  by (auto simp: value_kept_def)

lemma value_kept_trans: "value_kept x y \<Longrightarrow> value_kept y z \<Longrightarrow> value_kept x z"
  by (simp add: value_kept_def)

lemma values_kept_defined: "list_all2 value_kept vs ws \<Longrightarrow> None \<notin> set vs \<Longrightarrow> ws = vs"
  by (induction rule: list_all2_induct) (auto simp: value_kept_def, metis not_None_eq)

lemma node_value_mono:
  assumes "list_all2 value_kept vs ws"
  shows "value_kept (node_value F I c key vs) (node_value F I c key ws)"
proof (cases "None \<in> set vs")
  case False
  then show ?thesis using values_kept_defined[OF assms] by simp
next
  case True
  show ?thesis
  proof (cases "c = TernaryTerm")
    case ternary: True
    show ?thesis
    proof (cases "\<exists>v a b. vs = [Some v, a, b]")
      case True
      then show ?thesis using assms ternary by (auto simp: list_all2_Cons1 node_value_def)
    next
      case False
      then have "node_value F I c key vs = None"
        by (auto simp: ternary node_value_def split: list.splits option.splits)
      then show ?thesis by simp
    qed
  next
    case False
    then have "node_value F I c key vs = None \<or> node_value F I c key vs = node_value F I c key ws"
      using True by (auto simp: node_value_def split: term_class.splits list.splits option.splits)
    then show ?thesis by auto
  qed
qed

lemma omap_st_values:
  assumes "omap_st tr xs s = Some (ys, s1)"
    and "\<And>x u y v. x \<in> set xs \<Longrightarrow> tr x u = Some (y, v) \<Longrightarrow> value_kept (f x) (f y)"
  shows "list_all2 value_kept (map f xs) (map f ys)"
  using assms
proof (induction xs arbitrary: ys s)
  case (Cons x xs)
  then obtain y s2 ys' where "tr x s = Some (y, s2)" "omap_st tr xs s2 = Some (ys', s1)" "ys = y # ys'"
    by (auto simp: bind_Some_iff)
  then show ?case using Cons by simp
qed simp

lemma accept_st_value:
  assumes "reads_through_cast I" "accept_st E tr t s = Some (t1, s1)"
    and "\<And>x u y v. x \<in> set (subterms t) \<Longrightarrow> tr x u = Some (y, v) \<Longrightarrow> value_kept (eval_term F I x) (eval_term F I y)"
  shows "value_kept (eval_term F I t) (eval_term F I t1)"
proof -
  obtain cs where cs: "omap_st tr (subterms t) s = Some (cs, s1)"
      "(if cs = subterms t then Some t else rebuild E (tclass t) (ttype t) cs) = Some t1"
    using assms(2) by (auto simp: accept_st_def bind_Some_iff split: prod.splits)
  have vs: "list_all2 value_kept (map (eval_term F I) (subterms t)) (map (eval_term F I) cs)"
    by (rule omap_st_values[OF cs(1) assms(3)])
  show ?thesis
  proof (cases "cs = subterms t")
    case False
    then have "rebuild E (tclass t) (ttype t) cs = Some t1" using cs(2) by simp
    note r = rebuild_value[OF assms(1) this, of F]
    have "subterms t \<noteq> []" using vs False by auto
    then have "node_key (tclass t) (ttype t) (tname t) (subterms t) =
        (case tclass t of CastTerm se \<Rightarrow> Some (ttype t, '''') | ReadPropertyTerm \<Rightarrow> Some (ttype t, '''') | _ \<Rightarrow> None)"
      by (simp add: node_key_def split: term_class.split)
    then show ?thesis using r node_value_mono[OF vs] by (cases t) simp
  qed (use cs(2) in auto)
qed

lemma constant_term_value [simp]: "eval_term F I (constant_term E v) = Some v"
  by (cases v) (simp_all add: constant_term_def get_defs mk_defs node_value_def)

lemma constant_value_eval: "constant_value t = Some v \<Longrightarrow> eval_term F I t = Some v"
  by (cases t) (auto simp: constant_value_def node_value_def split: term_class.splits)

lemma bool_class_eval: "tclass t = OpaqueBoolConstantTerm b \<Longrightarrow> eval_term F I t = Some (CBool b)"
  by (cases t) (simp add: node_value_def)

lemma unified_value:
  assumes "CP_transformUnified E prop (Term c ty nm ss) = Some r"
    and "\<And>a b w v. prop a b = Some w \<Longrightarrow> node_value F I c (node_key c ty nm ss) [Some a, Some b] = Some v \<Longrightarrow> w = v"
  shows "value_kept (eval_term F I (Term c ty nm ss)) (eval_term F I r)"
  using assms by (auto simp: CP_transformUnified_def constant_value_eval value_kept_def split: list.splits option.splits)

lemma CP_class_value:
  assumes "CP_class E F t = Some r"
  shows "value_kept (eval_term F I t) (eval_term F I r)"
proof (cases t)
  case (Term c ty nm ss)
  consider (unary) op where "c = UnaryTerm op" | (binary) op where "c = BinaryTerm op" | (cmp) op where "c = CmpTerm op"
    | (ternary) "c = TernaryTerm" | "r = t"
    using assms by (auto simp: CP_class_def Term split: term_class.splits)
  then show ?thesis
  proof cases
    case unary
    then show ?thesis using assms
      by (auto simp: Term CP_class_def CP_transformUnaryTerm_def node_value_def constant_value_eval value_kept_def
          dest: unary_agrees split: list.splits option.splits)
  next
    case binary
    then show ?thesis using assms arith_agrees by (auto simp: Term CP_class_def node_value_def simp del: eval_term.simps intro!: unified_value)
  next
    case cmp
    then show ?thesis using assms cond_agrees by (auto simp: Term CP_class_def node_value_def simp del: eval_term.simps intro!: unified_value)
  next
    case ternary
    then consider "r = t" | cnd tru fls b where "ss = [cnd, tru, fls]" "tclass cnd = OpaqueBoolConstantTerm b" "r = (if b then tru else fls)"
      using assms by (fastforce simp: Term CP_class_def CP_transformTernaryTerm_def split: term_class.splits list.splits)
    then show ?thesis
      by cases (auto simp: Term ternary node_value_def bool_class_eval to_bool_def)
  qed simp
qed

lemma CP_value:
  assumes "reads_through_cast I"
  shows "transform_term E (ConstantPropagator E F) t s = Some (r, s') \<Longrightarrow> value_kept (eval_term F I t) (eval_term F I r)"
proof (induction t arbitrary: r s s' rule: measure_induct_rule[of size])
  case (less t)
  obtain t1 s1 where a: "accept_st E (transform_term E (ConstantPropagator E F)) t s = Some (t1, s1)"
      and c: "CP_class E F t1 = Some r"
    using less.prems by (subst (asm) transform_term.simps)
      (auto simp: ConstantPropagator_def base_Transformer_def bind_Some_iff)
  have "value_kept (eval_term F I x) (eval_term F I y)"
    if "x \<in> set (subterms t)" "transform_term E (ConstantPropagator E F) x u = Some (y, v)" for x u y v
  proof -
    have "size x < size t" using that(1) by (cases t) (auto simp: less_Suc_eq_le intro: size_list_estimation')
    then show ?thesis using less.IH that(2) by blast
  qed
  from accept_st_value[OF assms a this] show ?case using CP_class_value[OF c] by (rule value_kept_trans)
qed

section \<open>Properties\<close>

text \<open>C25: Constant propagation keeps the value a term has on the 64-bit machine: if the term has a value, under an
  arbitrary interpretation of the classes that are not computed, the propagated term has the same.  The values are
  those of the machine, not of the propagator; a term with a division by zero, or with a logical shift or
  an unsigned condition of a negative number, or with a boolean shifted by a number, has none where that operator
  is used.  The interpretation may not depend on the cast the factory puts under the reading of a property.\<close>

theorem propagate_term_value:
  assumes "reads_through_cast I" "propagate_term E F t = Some r" "eval_term F I t = Some v"
  shows "eval_term F I r = Some v"
  using assms(2,3) CP_value[OF assms(1)] by (auto simp: propagate_term_def value_kept_def)

text \<open>An integer unit for the witnesses.\<close>

definition no_fpu :: fpu where
  "no_fpu = \<lparr>fp_of_int = id, fp_add = (+), fp_sub = (-), fp_mul = (*), fp_div = (\<lambda>a b. a), fp_neg = uminus,
     fp_fabs = id, fp_less = (<), fp_le = (\<le>), fp_nonzero = (\<lambda>a. a \<noteq> 0)\<rparr>"

theorem propagate_term_value_witness:
  "\<exists>t r. propagate_term empty_env no_fpu t = Some r \<and> tname t = ''(3 * 4)'' \<and>
     eval_term no_fpu (\<lambda>c k vs. None) r = Some (CInt 12)"
proof -
  let ?t = "mk_BinaryTerm (TInteger 32 Signed) MUL (getIntTerm 3 32 Signed) (getIntTerm 4 32 Signed)"
  have n: "tname ?t = ''(3 * 4)''"
    by (simp add: get_defs mk_defs arithString_def int_to_string_def nat_to_string.simps digit_char_table)
  have p: "propagate_term empty_env no_fpu ?t = Some (constant_term empty_env (CInt 12))"
    by (simp add: propagate_term_def transform_term.simps accept_st_def ConstantPropagator_def base_Transformer_def
        CP_class_def CP_transformUnified_def constant_value_def arith_value_def is_float_def propagate_arith_def
        checked_def in_range_def common_width_def both_bool_def common_result_def get_defs mk_defs Let_def)
  have "reads_through_cast (\<lambda>c k vs. None)" by (simp add: reads_through_cast_def)
  moreover have "eval_term no_fpu (\<lambda>c k vs. None) ?t = Some (CInt 12)"
    by (simp add: get_defs mk_defs node_value_def eval_arith_def is_float_def arith_defined_def as_result_def machine_arith_def)
  ultimately show ?thesis using propagate_term_value[OF _ p] n p by blast
qed

text \<open>C40: What the propagator folds two integer constants to is what the 64-bit machine computes for the
  operator and for the condition, but for a logical shift and the unsigned conditions of negative numbers,
  and the result is a constant of the same value.\<close>

theorem folding_is_machine:
  "(propagate_arith op (CInt a) (CInt b) = Some v \<longrightarrow> (op = LSHR \<longrightarrow> 0 \<le> sint a) \<longrightarrow> v = CInt (machine_arith op a b)) \<and>
   (propagate_cond c (CInt a) (CInt b) = Some h \<longrightarrow> (c \<in> {UGT, UGE, ULT, ULE} \<longrightarrow> 0 \<le> sint a \<and> 0 \<le> sint b) \<longrightarrow>
     condition_holds c a b = Some h) \<and>
   constant_value (constant_term E w) = Some w"
  by (intro conjI impI, rule fold_machine) (auto intro!: fold_condition simp: constant_term_def constant_value_def get_defs mk_defs split: cvalue.split)

theorem folding_is_machine_witness:
  "machine_arith MUL (- 3) 4 = - 12 \<and> condition_holds UGT (5 :: 64 word) 3 = Some True"
proof
  have "propagate_arith MUL (CInt (- 3)) (CInt 4) = Some (CInt (- 12))"
    by (simp add: propagate_arith_def checked_def in_range_def common_width_def both_bool_def common_result_def Let_def)
  from folding_is_machine[THEN conjunct1, rule_format, OF this] show "machine_arith MUL (- 3) 4 = - 12" by simp
  have "propagate_cond UGT (CInt 5) (CInt 3) = Some True" by (simp add: propagate_cond_def Let_def)
  from folding_is_machine[THEN conjunct2, THEN conjunct1, rule_format, OF this] show "condition_holds UGT (5 :: 64 word) 3 = Some True" by simp
qed

text \<open>Folds that differ from the machine or have no value: the unsigned comparison of a negative number
  and its logical shift are computed on signed numbers, a sum of 8-bit constants is not wrapped, and a
  constant division by zero or an overflow is undefined in the analyser itself.\<close>

theorem folding_wrong:
  "propagate_cond UGT (CInt (- 1)) (CInt 1) = Some False" "condition_holds UGT (- 1 :: 64 word) 1 = Some True"
  "propagate_arith LSHR (CInt (- 8)) (CInt 1) = Some (CInt (- 4))" "machine_arith LSHR (- 8) 1 = 0x7FFFFFFFFFFFFFFC"
  "propagate_term E F (mk_BinaryTerm (TInteger 8 Signed) ADD (getIntTerm 100 8 Signed) (getIntTerm 100 8 Signed)) =
     Some (constant_term E (CInt 200))"
  "propagate_arith DIV (CInt 1) (CInt 0) = None" "propagate_arith ADD (CInt 0x7FFFFFFFFFFFFFFF) (CInt 1) = None"
proof -
  show "propagate_cond UGT (CInt (- 1)) (CInt 1) = Some False" by (simp add: propagate_cond_def Let_def)
  show "condition_holds UGT (- 1 :: 64 word) 1 = Some True"
    by code_simp
  show "propagate_arith LSHR (CInt (- 8)) (CInt 1) = Some (CInt (- 4))"
    by (simp add: propagate_arith_def shift_ok_def shift_width_def common_result_def both_bool_def Let_def)
  show "machine_arith LSHR (- 8) 1 = 0x7FFFFFFFFFFFFFFC" by (simp add: machine_arith_def drop_bit_eq_div)
  show "propagate_term E F (mk_BinaryTerm (TInteger 8 Signed) ADD (getIntTerm 100 8 Signed) (getIntTerm 100 8 Signed)) =
     Some (constant_term E (CInt 200))"
    by (simp add: propagate_term_def transform_term.simps accept_st_def ConstantPropagator_def base_Transformer_def
        CP_class_def CP_transformUnified_def constant_value_def arith_value_def is_float_def propagate_arith_def
        checked_def in_range_def common_width_def both_bool_def common_result_def get_defs mk_defs Let_def)
  show "propagate_arith DIV (CInt 1) (CInt 0) = None" by (simp add: propagate_arith_def Let_def)
  show "propagate_arith ADD (CInt 0x7FFFFFFFFFFFFFFF) (CInt 1) = None"
    by (simp add: propagate_arith_def checked_def in_range_def common_width_def both_bool_def Let_def)
qed

end
