(* ===== verification/Simplifiers.thy ===== *)
theory Simplifiers
  imports TermTransformers TermEquality
begin

text \<open>
  The transformers that change the types and the shape of terms (src/State/Transformer):
  \<open>Simplifier\<close>, with the axioms it collects, and \<open>Retyper\<close>, with its stack of expected types, which
  \<open>PredicateStateBuilder::operator()\<close> runs over every state it hands out.
\<close>

section \<open>Simplifier\<close>

definition Simplifier_transformAxiomTerm :: "Term \<Rightarrow> Term list \<Rightarrow> Term \<times> Term list" where
  "Simplifier_transformAxiomTerm t axs = (case subterms t of
      [lhv, rhv] \<Rightarrow> (lhv, axs @ [rhv]) | _ \<Rightarrow> (t, axs))"

definition Simplifier_transformUnaryTerm :: "env \<Rightarrow> UnaryArithType \<Rightarrow> Term \<Rightarrow> Term option" where
  "Simplifier_transformUnaryTerm E op t = (case subterms t of
      [rhv] \<Rightarrow>
        (if op = NOT then
           (case (tclass rhv, subterms rhv) of
              (CmpTerm c, [l, r]) \<Rightarrow> do { c' \<leftarrow> makeNot c; getCmpTerm E c' l r }
            | _ \<Rightarrow> Some (if equals rhv getTrueTerm then getFalseTerm
                     else if equals rhv getFalseTerm then getTrueTerm else t))
         else Some t)
    | _ \<Rightarrow> Some t)"

definition Simplifier_transformBinaryTerm :: "ArithType \<Rightarrow> Term \<Rightarrow> Term" where
  "Simplifier_transformBinaryTerm op t = (case subterms t of
      [lhv, rhv] \<Rightarrow>
        (if op = LAND \<and> equals lhv getTrueTerm then rhv
         else if op = LAND \<and> equals rhv getTrueTerm then lhv
         else if op = LAND \<and> equals lhv getFalseTerm then getFalseTerm
         else if op = LAND \<and> equals rhv getFalseTerm then getFalseTerm
         else if op = LOR \<and> equals lhv getFalseTerm then rhv
         else if op = LOR \<and> equals rhv getFalseTerm then lhv
         else if op = LOR \<and> equals lhv getTrueTerm then getTrueTerm
         else if op = LOR \<and> equals rhv getTrueTerm then getTrueTerm
         else t)
    | _ \<Rightarrow> t)"

text \<open>The cases of the strict conditions fall through to the one of \<open>FALSE\<close>.\<close>

definition Simplifier_transformCmpTerm :: "ConditionType \<Rightarrow> Term \<Rightarrow> Term" where
  "Simplifier_transformCmpTerm op t = (case subterms t of
      [lhv, rhv] \<Rightarrow>
        (if op \<in> {NEQ, GT, UGT, LT, ULT} then (if equals lhv rhv then getFalseTerm else getFalseTerm)
         else if op = FALSE then getFalseTerm
         else if op = TRUE then getTrueTerm
         else t)
    | _ \<Rightarrow> t)"

definition Simplifier_class :: "env \<Rightarrow> Term \<Rightarrow> Term list \<Rightarrow> (Term \<times> Term list) option" where
  "Simplifier_class E t axs = (case tclass t of
      AxiomTerm \<Rightarrow> Some (Simplifier_transformAxiomTerm t axs)
    | UnaryTerm op \<Rightarrow> map_option (\<lambda>r. (r, axs)) (Simplifier_transformUnaryTerm E op t)
    | BinaryTerm op \<Rightarrow> Some (Simplifier_transformBinaryTerm op t, axs)
    | CmpTerm op \<Rightarrow> Some (Simplifier_transformCmpTerm op t, axs)
    | _ \<Rightarrow> Some (t, axs))"

definition Simplifier :: "env \<Rightarrow> Term list Transformer" where
  "Simplifier E = base_Transformer\<lparr>transformTermClass := Simplifier_class E\<rparr>"

text \<open>\<open>transformBase\<close> at level 0: the collected axioms, of this and of every earlier term, are attached
  to the result.\<close>

fun conjoin :: "env \<Rightarrow> Term \<Rightarrow> Term list \<Rightarrow> Term option" where
  "conjoin E acc [] = Some acc"
| "conjoin E acc (next # rest) = do { a \<leftarrow> getBinaryTerm E LAND acc next; conjoin E a rest }"

definition simplify_term :: "env \<Rightarrow> Term \<Rightarrow> Term list \<Rightarrow> (Term \<times> Term list) option" where
  "simplify_term E t axs = do {
     (res, axs1) \<leftarrow> transform_term E (Simplifier E) t axs;
     case axs1 of [] \<Rightarrow> Some (res, [])
     | acc # rest \<Rightarrow> do {
         axsTerm \<leftarrow> conjoin E acc rest;
         r \<leftarrow> getAxiomTerm res axsTerm;
         Some (r, axs1) } }"

section \<open>Retyper\<close>

definition expected_types :: "Term \<Rightarrow> Type list \<Rightarrow> Type list" where
  "expected_types t types = (case subterms t of
      [lhv, rhv] \<Rightarrow>
        (if isUnknown (ttype lhv) \<and> isUnknown (ttype rhv) then getInteger 64 Unknown # types
         else if isConcrete (ttype lhv) \<and> isUnknown (ttype rhv) then ttype lhv # types
         else if isUnknown (ttype lhv) \<and> isConcrete (ttype rhv) then ttype rhv # types
         else types)
    | _ \<Rightarrow> types)"

definition Retyper_top :: "env \<Rightarrow> Term \<Rightarrow> Type list \<Rightarrow> Term option" where
  "Retyper_top E t types =
     (if types \<noteq> [] \<and> isUnknown (ttype t) then setType E (hd types) t else Some t)"

lemma setType_subterms: "setType E ty t = Some t' \<Longrightarrow> tclass t' = tclass t \<and> subterms t' = subterms t \<and> ttype t' = ty"
  by (cases t; cases "tclass t") (auto simp: setType_def bind_Some_iff split: list.splits)

lemma Retyper_top_subterms: "Retyper_top E t types = Some t' \<Longrightarrow> tclass t' = tclass t \<and> subterms t' = subterms t"
  by (auto simp: Retyper_top_def split: if_splits dest: setType_subterms)

function (sequential) retype :: "env \<Rightarrow> Term \<Rightarrow> Type list \<Rightarrow> Term option" where
  "retype E t types = (case Retyper_top E t types of
      None \<Rightarrow> None
    | Some res \<Rightarrow> accept E (\<lambda>s. retype E s (case tclass res of
          BinaryTerm op \<Rightarrow> expected_types res types | CmpTerm op \<Rightarrow> expected_types res types | _ \<Rightarrow> types)) res)"
  by pat_completeness auto
termination
proof (relation "measure (\<lambda>(E, t, types). size t)", goal_cases)
  case (2 E t types res s)
  then have "s \<in> set (subterms t)" using Retyper_top_subterms by metis
  then show ?case by (cases t) (auto simp: less_Suc_eq_le intro: order_trans[OF size_list_estimation'[OF _ order_refl]])
qed simp

declare retype.simps [simp del]

definition retype_pred :: "env \<Rightarrow> predicate \<Rightarrow> predicate option" where
  "retype_pred E p = (if pclass p = SeqDataPredicate then Some p else pred_accept E (\<lambda>t. retype E t []) p)"

definition Retyper_transformBasic :: "env \<Rightarrow> predicate list \<Rightarrow> Locus set \<Rightarrow> unit \<Rightarrow> (pstate \<times> unit) option" where
  "Retyper_transformBasic E data loci s = do { data1 \<leftarrow> omap (retype_pred E) data; Some (Basic data1 loci, s) }"

definition retype_state :: "bool \<Rightarrow> env \<Rightarrow> pstate \<Rightarrow> pstate option" where
  "retype_state bf E ps =
     map_option fst (caching_transform bf (Retyper_transformBasic E) base_Transformer ps (Map.empty, ()))"

text \<open>\<open>PredicateStateBuilder::operator()\<close>, and \<open>MemoryContextSplitter\<close>'s answer, which it builds.\<close>

definition PSB_call :: "bool \<Rightarrow> env \<Rightarrow> pstate \<Rightarrow> pstate option" where
  "PSB_call bf E State = retype_state bf E State"

definition getGeneratedPredicates :: "bool \<Rightarrow> env \<Rightarrow> splitter \<Rightarrow> pstate option" where
  "getGeneratedPredicates bf E s = PSB_call bf E (foldl PSB_add_pred PSF_Basic_empty (generated s))"

section \<open>Facts about the retyper\<close>

lemma wf_retype: "wf_term E t \<Longrightarrow> retype E t types = Some r \<Longrightarrow> wf_term E r"
proof (induction t arbitrary: types r rule: measure_induct_rule[of size])
  case (less t)
  obtain t' where t': "Retyper_top E t types = Some t'"
    using less.prems(2) by (subst (asm) retype.simps) (auto split: option.splits)
  have wf: "wf_term E t'"
    using t' less.prems(1) wf_setType by (auto simp: Retyper_top_def split: if_splits)
  have acc: "accept E (\<lambda>s. retype E s (case tclass t' of BinaryTerm op \<Rightarrow> expected_types t' types
      | CmpTerm op \<Rightarrow> expected_types t' types | _ \<Rightarrow> types)) t' = Some r"
    using less.prems(2) t' by (subst (asm) retype.simps) simp
  show ?case
  proof (rule wf_accept[OF acc wf])
    fix s s'
    assume s: "s \<in> set (subterms t')" and r: "retype E s (case tclass t' of BinaryTerm op \<Rightarrow> expected_types t' types
      | CmpTerm op \<Rightarrow> expected_types t' types | _ \<Rightarrow> types) = Some s'"
    have "s \<in> set (subterms t)" using s Retyper_top_subterms[OF t'] by simp
    then have "size s < size t" "wf_term E s"
      using less.prems(1) by (cases t, auto simp: less_Suc_eq_le intro: order_trans[OF size_list_estimation'[OF _ order_refl]])+
    then show "wf_term E s'" using less.IH r by blast
  qed
qed

fun known :: "Term \<Rightarrow> bool" where
  "known (Term c ty nm ss) = (\<not> isUnknown ty \<and> (\<forall>s\<in>set ss. known s))"

lemma omap_same: "(\<And>x. x \<in> set xs \<Longrightarrow> f x = Some x) \<Longrightarrow> omap f xs = Some xs"
  by (induction xs) auto

lemma accept_same:
  assumes "wf_term E t" "\<And>s. s \<in> set (subterms t) \<Longrightarrow> tr s = Some s"
  shows "accept E tr t = Some t"
proof -
  have "omap tr (subterms t) = Some (subterms t)" using assms(2) by (rule omap_same)
  then show ?thesis using accept_unfold[OF wf_arity[OF assms(1)]] by simp
qed

lemma retype_known: "wf_term E t \<Longrightarrow> known t \<Longrightarrow> retype E t types = Some t"
proof (induction t arbitrary: types)
  case (Term c ty nm ss)
  have "Retyper_top E (Term c ty nm ss) types = Some (Term c ty nm ss)"
    using Term.prems by (simp add: Retyper_top_def)
  then show ?case
    using Term by (subst retype.simps) (auto intro!: accept_same)
qed

lemma retype_pred_known:
  "wf_predicate E p \<Longrightarrow> \<forall>t\<in>set (ops p). wf_term E t \<and> known t \<Longrightarrow> retype_pred E p = Some p"
  using with_ops_same[of E p] omap_same[of "ops p" "\<lambda>t. retype E t []"]
  by (auto simp: retype_pred_def pred_accept_unfold retype_known)

lemma retype_state_known:
  assumes "\<forall>p\<in>preds ps. wf_predicate E p \<and> (\<forall>t\<in>set (ops p). wf_term E t \<and> known t)"
  shows "retype_state bf E ps = Some ps"
proof -
  have "transform_with bf (Retyper_transformBasic E) base_Transformer ps () = Some (ps, ())"
    using assms
  proof (induction ps)
    case (Basic data loci)
    then have "omap (retype_pred E) data = Some data" by (intro omap_same retype_pred_known) auto
    then show ?case by (simp add: Retyper_transformBasic_def)
  next
    case (Chain base cur)
    then have "transform_with bf (Retyper_transformBasic E) base_Transformer base () = Some (base, ())"
        "transform_with bf (Retyper_transformBasic E) base_Transformer cur () = Some (cur, ())"
      unfolding preds.simps by blast+
    then show ?case by (cases bf) (simp_all add: transform_pair_def)
  next
    case (Choice cs)
    then have "omap_st (transform_with bf (Retyper_transformBasic E) base_Transformer) cs () = Some (cs, ())"
      by (intro omap_st_id) auto
    then show ?case by simp
  qed
  then show ?thesis by (simp add: retype_state_def caching_transparent)
qed

text \<open>What a comparison or an operation gives its operands: the type of the typed one, and
  \<open>Integer(64)\<close> when neither has one.\<close>

lemma retype_leaf:
  assumes "subterms t = []" "tclass t \<noteq> AxiomTerm" "wf_term E t"
  shows "retype E t types = (if types \<noteq> [] \<and> ttype t = TUnknown then setType E (hd types) t else Some t)"
proof -
  have "Retyper_top E t types = Some t' \<Longrightarrow> accept E tr t' = Some t'" for t' tr
    using assms wf_setType[of E "hd types" t t'] by (intro accept_same) (auto simp: Retyper_top_def split: if_splits)
  then show ?thesis
    by (subst retype.simps) (auto simp: Retyper_top_def split: option.splits)
qed

lemma setType_leaf: "wf_term E t \<Longrightarrow> subterms t = [] \<Longrightarrow>
    setType E ty t = Some (Term (tclass t) ty (tname t) [])"
  by (cases t; cases "tclass t") (auto simp: setType_def arity_ok_def)

definition typed_as :: "Type \<Rightarrow> Term \<Rightarrow> Term" where
  "typed_as ty s = Term (tclass s) ty (tname s) []"

lemma retype_operands:
  assumes wf: "wf_term E (Term c ty nm [l, r])" and c: "c = CmpTerm op \<or> c = BinaryTerm aop"
    and leaves: "subterms l = []" "subterms r = []" and changed: "ttype l = TUnknown \<or> ttype r = TUnknown"
    and e: "\<And>ty. expected_types (Term c ty nm [l, r]) types = e # types" "e \<noteq> TUnknown"
  shows "retype E (Term c ty nm [l, r]) types =
    rebuild E c ty [if ttype l = TUnknown then typed_as e l else l, if ttype r = TUnknown then typed_as e r else r]"
proof -
  have wfs: "wf_term E l" "wf_term E r" "tclass l \<noteq> AxiomTerm" "tclass r \<noteq> AxiomTerm"
    using wf leaves by (cases l; cases r; auto simp: arity_ok_def)+
  have leaf: "retype E s (e # types) = Some (if ttype s = TUnknown then typed_as e s else s)"
    if "s \<in> {l, r}" for s
    using that wfs leaves by (auto simp: retype_leaf setType_leaf typed_as_def)
  have neq: "typed_as e s \<noteq> s" if "ttype s = TUnknown" for s
    using that e(2) by (cases s) (simp add: typed_as_def)
  have rb: "rebuild E c ty1 = rebuild E c ty2" for ty1 ty2 using c by (auto simp: rebuild_def fun_eq_iff)
  obtain ty' where top: "Retyper_top E (Term c ty nm [l, r]) types = Some (Term c ty' nm [l, r])"
    using c by (cases "types \<noteq> [] \<and> ty = TUnknown") (auto simp: Retyper_top_def setType_def)
  have ar: "arity_ok (tclass (Term c ty' nm [l, r])) (length (subterms (Term c ty' nm [l, r])))" using wf_arity[OF wf] by simp
  show ?thesis
  proof -
    have ex: "(case c of BinaryTerm op \<Rightarrow> expected_types (Term c ty' nm [l, r]) types
        | CmpTerm op \<Rightarrow> expected_types (Term c ty' nm [l, r]) types | _ \<Rightarrow> types) = e # types"
      using c e(1)[of ty'] by auto
    have "retype E (Term c ty nm [l, r]) types = accept E (\<lambda>s. retype E s (e # types)) (Term c ty' nm [l, r])"
      by (subst retype.simps) (simp add: top ex)
    then show ?thesis using changed neq by (auto simp: accept_unfold[OF ar] leaf rb[of ty' ty])
  qed
qed

lemma expected_cases:
  "isConcrete (ttype l) \<Longrightarrow> ttype r = TUnknown \<Longrightarrow> expected_types (Term c ty nm [l, r]) types = ttype l # types"
  "ttype l = TUnknown \<Longrightarrow> isConcrete (ttype r) \<Longrightarrow> expected_types (Term c ty nm [l, r]) types = ttype r # types"
  "ttype l = TUnknown \<Longrightarrow> ttype r = TUnknown \<Longrightarrow> expected_types (Term c ty nm [l, r]) types = TInteger 64 Unknown # types"
  by (auto simp: expected_types_def isConcrete_iff getInteger_def)

section \<open>Facts about the simplifier\<close>

lemma equals_bool:
  assumes "equals t (getBooleanTerm b)" "wf_term E t"
  shows "eval_term F I t = Some (CBool b)"
  using assms
  by (cases t; cases "tclass t")
    (auto simp: get_defs mk_defs class_tag_def name_ok_def node_value_def split: if_splits)

lemma equals_consts:
  assumes "wf_term E t"
  shows "equals t getTrueTerm \<Longrightarrow> eval_term F I t = Some (CBool True)"
    "equals t getFalseTerm \<Longrightarrow> eval_term F I t = Some (CBool False)"
  using equals_bool[OF _ assms] by (simp_all add: getTrueTerm_def getFalseTerm_def)

lemma eval_consts [simp]:
  "eval_term F I getTrueTerm = Some (CBool True)" "eval_term F I getFalseTerm = Some (CBool False)"
  by (simp_all add: get_defs mk_defs node_value_def)

lemma Simplifier_binary_value:
  assumes "wf_term E (Term (BinaryTerm op) ty nm [l, r])"
    and "eval_term F I l = Some (CBool a)" "eval_term F I r = Some (CBool b)"
  shows "eval_term F I (Simplifier_transformBinaryTerm op (Term (BinaryTerm op) ty nm [l, r])) =
    eval_term F I (Term (BinaryTerm op) ty nm [l, r])"
proof -
  have wf: "wf_term E l" "wf_term E r" using assms(1) by simp_all
  have e: "equals l getTrueTerm \<Longrightarrow> a" "equals l getFalseTerm \<Longrightarrow> \<not> a"
      "equals r getTrueTerm \<Longrightarrow> b" "equals r getFalseTerm \<Longrightarrow> \<not> b"
    using assms(2,3) equals_consts[OF wf(1), of F I] equals_consts[OF wf(2), of F I] by auto
  have v: "eval_term F I (Term (BinaryTerm op) ty nm [l, r]) = eval_arith F op (CBool a) (CBool b)"
    using assms(2,3) by (simp add: node_value_def)
  consider "op = LAND" | "op = LOR" | "op \<noteq> LAND" "op \<noteq> LOR" by blast
  then show ?thesis
  proof cases
    case 1
    have "eval_term F I (Term (BinaryTerm op) ty nm [l, r]) = Some (CBool (a \<and> b))"
      using v unfolding 1 by (simp add: eval_arith_def is_float_def arith_defined_def as_result_def machine_arith_def)
    then show ?thesis using e assms(2,3) by (simp add: Simplifier_transformBinaryTerm_def 1 del: eval_term.simps)
  next
    case 2
    have "eval_term F I (Term (BinaryTerm op) ty nm [l, r]) = Some (CBool (a \<or> b))"
      using v unfolding 2 by (simp add: eval_arith_def is_float_def arith_defined_def as_result_def machine_arith_def)
    then show ?thesis using e assms(2,3) by (simp add: Simplifier_transformBinaryTerm_def 2 del: eval_term.simps)
  qed (simp add: Simplifier_transformBinaryTerm_def)
qed

lemma makeNot_value:
  assumes "makeNot c = Some c'" "\<not> is_float l" "\<not> is_float r" "eval_cond F c l r = Some (CBool h)"
  shows "eval_cond F c' l r = Some (CBool (\<not> h))"
  using assms by (cases c) (auto simp: makeNot_def eval_cond_def split: if_splits)

lemma Simplifier_not_value:
  assumes "wf_term E (Term (UnaryTerm NOT) ty nm [x])"
    and "Simplifier_transformUnaryTerm E NOT (Term (UnaryTerm NOT) ty nm [x]) = Some t"
    and "eval_term F I x = Some (CBool a)"
    and "\<And>s v. s \<in> set (subterms x) \<Longrightarrow> eval_term F I s = Some v \<Longrightarrow> \<not> is_float v"
  shows "eval_term F I t = Some (CBool (\<not> a))"
proof (cases "\<exists>c l r. tclass x = CmpTerm c \<and> subterms x = [l, r]")
  case True
  then obtain c l r ty' nm' where x: "x = Term (CmpTerm c) ty' nm' [l, r]" by (cases x) auto
  then obtain c' where c': "makeNot c = Some c'" and t: "getCmpTerm E c' l r = Some t"
    using assms(2) by (auto simp: Simplifier_transformUnaryTerm_def bind_Some_iff)
  obtain u v where uv: "eval_term F I l = Some u" "eval_term F I r = Some v" "eval_cond F c u v = Some (CBool a)"
    using assms(3) by (auto simp: x node_value_def split: option.splits)
  have "\<not> is_float u" "\<not> is_float v" using assms(4)[of l] assms(4)[of r] uv by (auto simp: x)
  then have "eval_cond F c' u v = Some (CBool (\<not> a))" using uv(3) makeNot_value[OF c'] by blast
  then show ?thesis using t uv by (auto simp: getCmpTerm_def mk_CmpTerm_def bind_Some_iff node_value_def)
next
  case False
  have "wf_term E x" using assms(1) by simp
  note e = equals_consts[OF this, of F I]
  have "Simplifier_transformUnaryTerm E NOT (Term (UnaryTerm NOT) ty nm [x]) = Some
    (if equals x getTrueTerm then getFalseTerm else if equals x getFalseTerm then getTrueTerm else Term (UnaryTerm NOT) ty nm [x])"
    using False by (auto simp: Simplifier_transformUnaryTerm_def split: term_class.splits list.splits)
  then show ?thesis
    using assms(2,3) e by (auto simp: node_value_def eval_unary_def machine_unary_def as_result_def split: if_splits)
qed

section \<open>Properties\<close>

text \<open>C32: The retyper keeps terms well formed and leaves a state whose terms all have types alone.  In a comparison or
  an operation on two operands without subterms, inside any term, an untyped operand gets the type of the other one
  if that is a concrete type, on either side, and both get the type of 64-bit integers if both are untyped; the term is
  built anew over them.\<close>

theorem retyper_spec:
  "(wf_term E t \<longrightarrow> retype E t types = Some r \<longrightarrow> wf_term E r) \<and>
   ((\<forall>p\<in>preds ps. wf_predicate E p \<and> (\<forall>t\<in>set (ops p). wf_term E t \<and> known t)) \<longrightarrow> PSB_call bf E ps = Some ps) \<and>
   (wf_term E (Term c ty nm [l, x]) \<longrightarrow> c = CmpTerm op \<or> c = BinaryTerm aop \<longrightarrow> subterms l = [] \<longrightarrow> subterms x = [] \<longrightarrow>
     (isConcrete (ttype l) \<and> ttype x = TUnknown \<longrightarrow>
       retype E (Term c ty nm [l, x]) types = rebuild E c ty [l, typed_as (ttype l) x]) \<and>
     (ttype l = TUnknown \<and> isConcrete (ttype x) \<longrightarrow>
       retype E (Term c ty nm [l, x]) types = rebuild E c ty [typed_as (ttype x) l, x]) \<and>
     (ttype l = TUnknown \<and> ttype x = TUnknown \<longrightarrow>
       retype E (Term c ty nm [l, x]) types = rebuild E c ty [typed_as (TInteger 64 Unknown) l, typed_as (TInteger 64 Unknown) x]))"
proof (intro conjI impI)
  show "wf_term E t \<Longrightarrow> retype E t types = Some r \<Longrightarrow> wf_term E r" by (rule wf_retype)
  show "\<forall>p\<in>preds ps. wf_predicate E p \<and> (\<forall>t\<in>set (ops p). wf_term E t \<and> known t) \<Longrightarrow> PSB_call bf E ps = Some ps"
    by (simp add: PSB_call_def retype_state_known)
  assume a: "wf_term E (Term c ty nm [l, x])" "c = CmpTerm op \<or> c = BinaryTerm aop" "subterms l = []" "subterms x = []"
  note ops = retype_operands[OF a]
  show "isConcrete (ttype l) \<and> ttype x = TUnknown \<Longrightarrow> retype E (Term c ty nm [l, x]) types = rebuild E c ty [l, typed_as (ttype l) x]"
    using ops[OF _ expected_cases(1)] by (auto simp: isConcrete_iff)
  show "ttype l = TUnknown \<and> isConcrete (ttype x) \<Longrightarrow> retype E (Term c ty nm [l, x]) types = rebuild E c ty [typed_as (ttype x) l, x]"
    using ops[OF _ expected_cases(2)] by (auto simp: isConcrete_iff)
  show "ttype l = TUnknown \<and> ttype x = TUnknown \<Longrightarrow> retype E (Term c ty nm [l, x]) types =
      rebuild E c ty [typed_as (TInteger 64 Unknown) l, typed_as (TInteger 64 Unknown) x]"
    using ops[OF _ expected_cases(3)] by auto
qed

theorem retyper_spec_witness:
  "let i = getValueTerm (TInteger 8 Signed) ''i'' False; three = getOpaqueConstantTerm_int 3 0 in
   \<exists>t r. getCmpTerm empty_env LT three i = Some t \<and> retype empty_env t [TFloat] = Some r \<and> wf_term empty_env r \<and>
     subterms r = [getIntTerm 3 8 Signed, i] \<and> PSB_call True empty_env (Basic [] {}) = Some (Basic [] {})"
proof -
  let ?i = "getValueTerm (TInteger 8 Signed) ''i'' False" and ?x = "getOpaqueConstantTerm_int 3 0"
  obtain nm where t: "getCmpTerm empty_env LT ?x ?i = Some (Term (CmpTerm LT) TBool nm [?x, ?i])"
      and wf: "wf_term empty_env (Term (CmpTerm LT) TBool nm [?x, ?i])"
    by (simp add: get_defs mk_defs CmpTerm_getTermType_def merge_def isValid_def isInvalid_def conditionString_def getUnknownType_def getBool_def
        arity_ok_def name_ok_def)
  have "retype empty_env (Term (CmpTerm LT) TBool nm [?x, ?i]) [TFloat] =
      rebuild empty_env (CmpTerm LT) TBool [typed_as (ttype ?i) ?x, ?i]"
    using retyper_spec[THEN conjunct2, THEN conjunct2, rule_format, THEN conjunct2, THEN conjunct1, rule_format, OF wf, of _ _ "[TFloat]"]
    by (simp add: get_defs mk_defs isConcrete_def getUnknownType_def)
  also have "typed_as (ttype ?i) ?x = getIntTerm 3 8 Signed" by (simp add: get_defs mk_defs getInteger_def typed_as_def)
  finally obtain r where r: "retype empty_env (Term (CmpTerm LT) TBool nm [?x, ?i]) [TFloat] = Some r"
      "subterms r = [getIntTerm 3 8 Signed, ?i]"
    by (simp add: rebuild_def getCmpTerm_def mk_CmpTerm_def CmpTerm_getTermType_def merge_def isValid_def isInvalid_def
        conditionString_def getUnknownType_def getBool_def getInteger_def get_defs mk_defs)
  have "PSB_call True empty_env (Basic [] {}) = Some (Basic [] {})" by (rule retyper_spec[THEN conjunct2, THEN conjunct1, rule_format]) simp
  then show ?thesis using t r retyper_spec[THEN conjunct1, rule_format, OF wf r(1)] unfolding Let_def by blast
qed

text \<open>The rules of the simplifier for negation, conjunction and disjunction keep the value of a term whose
  operands are booleans (and, under a negated comparison, no floating numbers); the rule for conditions
  answers false for every strict condition.\<close>

theorem simplifier_rules:
  "(wf_term E (Term (BinaryTerm op) ty nm [l, r]) \<longrightarrow> eval_term F I l = Some (CBool a) \<longrightarrow> eval_term F I r = Some (CBool b) \<longrightarrow>
     eval_term F I (Simplifier_transformBinaryTerm op (Term (BinaryTerm op) ty nm [l, r])) =
     eval_term F I (Term (BinaryTerm op) ty nm [l, r])) \<and>
   (wf_term E (Term (UnaryTerm NOT) ty nm [x]) \<longrightarrow>
     Simplifier_transformUnaryTerm E NOT (Term (UnaryTerm NOT) ty nm [x]) = Some t \<longrightarrow> eval_term F I x = Some (CBool c) \<longrightarrow>
     (\<forall>s v. s \<in> set (subterms x) \<longrightarrow> eval_term F I s = Some v \<longrightarrow> \<not> is_float v) \<longrightarrow> eval_term F I t = Some (CBool (\<not> c))) \<and>
   (cop \<in> {NEQ, GT, UGT, LT, ULT, FALSE} \<longrightarrow>
     Simplifier_transformCmpTerm cop (Term (CmpTerm cop) ty nm [l, r]) = getFalseTerm)"
  by (intro conjI impI, rule Simplifier_binary_value, assumption+, rule Simplifier_not_value, assumption+, blast)
    (auto simp: Simplifier_transformCmpTerm_def)

theorem simplifier_rules_witness:
  "Simplifier_transformCmpTerm NEQ (Term (CmpTerm NEQ) TBool ''(1 != 2)'' [getIntTerm 1 32 Signed, getIntTerm 2 32 Signed]) =
     getFalseTerm \<and>
   (\<exists>nm t. Simplifier_transformUnaryTerm empty_env NOT (Term (UnaryTerm NOT) TBool nm [getTrueTerm]) = Some t \<and>
     eval_term no_fpu (\<lambda>c k vs. None) t = Some (CBool False)) \<and>
   (\<exists>nm. eval_term no_fpu (\<lambda>c k vs. None) (Simplifier_transformBinaryTerm LAND
       (Term (BinaryTerm LAND) TBool nm [getTrueTerm, getFalseTerm])) = Some (CBool False))"
proof (intro conjI)
  show "Simplifier_transformCmpTerm NEQ (Term (CmpTerm NEQ) TBool ''(1 != 2)'' [getIntTerm 1 32 Signed, getIntTerm 2 32 Signed]) =
     getFalseTerm" by (rule simplifier_rules[THEN conjunct2, THEN conjunct2, rule_format]) simp
  let ?n = "unaryArithString NOT @ ''('' @ tname getTrueTerm @ '')''"
  have wf: "wf_term empty_env (Term (UnaryTerm NOT) TBool ?n [getTrueTerm])" by (simp add: arity_ok_def name_ok_def)
  have t: "Simplifier_transformUnaryTerm empty_env NOT (Term (UnaryTerm NOT) TBool ?n [getTrueTerm]) = Some getFalseTerm"
    by (simp add: Simplifier_transformUnaryTerm_def get_defs mk_defs class_tag_def extra_of_def)
  have "eval_term no_fpu (\<lambda>c k vs. None) getFalseTerm = Some (CBool (\<not> True))"
    by (rule simplifier_rules[THEN conjunct2, THEN conjunct1, rule_format, OF wf t eval_consts(1)]) (simp add: get_defs mk_defs)
  then show "\<exists>nm t. Simplifier_transformUnaryTerm empty_env NOT (Term (UnaryTerm NOT) TBool nm [getTrueTerm]) = Some t \<and>
     eval_term no_fpu (\<lambda>c k vs. None) t = Some (CBool False)"
    using t by (intro exI[of _ ?n] exI[of _ getFalseTerm]) simp
  let ?m = "''('' @ tname getTrueTerm @ '' '' @ arithString LAND @ '' '' @ tname getFalseTerm @ '')''"
  have wf2: "wf_term empty_env (Term (BinaryTerm LAND) TBool ?m [getTrueTerm, getFalseTerm])"
    by (simp add: arity_ok_def name_ok_def)
  have "eval_term no_fpu (\<lambda>c k vs. None) (Term (BinaryTerm LAND) TBool ?m [getTrueTerm, getFalseTerm]) = Some (CBool False)"
    by (simp add: node_value_def eval_arith_def is_float_def arith_defined_def as_result_def machine_arith_def)
  then show "\<exists>nm. eval_term no_fpu (\<lambda>c k vs. None) (Simplifier_transformBinaryTerm LAND
       (Term (BinaryTerm LAND) TBool nm [getTrueTerm, getFalseTerm])) = Some (CBool False)"
    using simplifier_rules[THEN conjunct1, rule_format, OF wf2 eval_consts(1) eval_consts(2)] by metis
qed

text \<open>The simplifier changes truth: the true \<open>1 != 2\<close> becomes false, and an axiom met in one term is attached to
  the next one, which does not mention it.\<close>

theorem simplifier_loses:
  "\<exists>t. getCmpTerm empty_env NEQ (getIntTerm 1 32 Signed) (getIntTerm 2 32 Signed) = Some t \<and>
     eval_term no_fpu I t = Some (CBool True) \<and> simplify_term empty_env t [] = Some (getFalseTerm, [])"
  "simplify_term empty_env getTrueTerm [getFalseTerm] = map_option (\<lambda>t. (t, [getFalseTerm])) (getAxiomTerm getTrueTerm getFalseTerm)"
proof -
  let ?a = "getIntTerm 1 32 Signed" and ?b = "getIntTerm 2 32 Signed"
  obtain nm where t: "getCmpTerm empty_env NEQ ?a ?b = Some (Term (CmpTerm NEQ) TBool nm [?a, ?b])"
    by (simp add: get_defs mk_defs CmpTerm_getTermType_def merge_def isValid_def isInvalid_def conditionString_def
        getInteger_def getBool_def)
  have ab: "transform_term empty_env (Simplifier empty_env) ?a [] = Some (?a, [])"
      "transform_term empty_env (Simplifier empty_env) ?b [] = Some (?b, [])"
    by (simp_all add: transform_term.simps accept_st_def Simplifier_def base_Transformer_def Simplifier_class_def get_defs mk_defs)
  have "transform_term empty_env (Simplifier empty_env) (Term (CmpTerm NEQ) TBool nm [?a, ?b]) [] = Some (getFalseTerm, [])"
    by (subst transform_term.simps)
      (simp add: accept_st_def ab, simp add: Simplifier_def base_Transformer_def Simplifier_class_def Simplifier_transformCmpTerm_def)
  then have "simplify_term empty_env (Term (CmpTerm NEQ) TBool nm [?a, ?b]) [] = Some (getFalseTerm, [])"
    by (simp add: simplify_term_def)
  moreover have "eval_term no_fpu I (Term (CmpTerm NEQ) TBool nm [?a, ?b]) = Some (CBool True)"
    by (simp add: node_value_def eval_cond_def is_float_def get_defs mk_defs)
  ultimately show "\<exists>t. getCmpTerm empty_env NEQ ?a ?b = Some t \<and> eval_term no_fpu I t = Some (CBool True) \<and>
      simplify_term empty_env t [] = Some (getFalseTerm, [])" using t by blast
  have "transform_term empty_env (Simplifier empty_env) getTrueTerm [getFalseTerm] = Some (getTrueTerm, [getFalseTerm])"
    by (simp add: transform_term.simps accept_st_def Simplifier_def base_Transformer_def Simplifier_class_def get_defs mk_defs)
  then show "simplify_term empty_env getTrueTerm [getFalseTerm] =
      map_option (\<lambda>t. (t, [getFalseTerm])) (getAxiomTerm getTrueTerm getFalseTerm)"
    by (cases "getAxiomTerm getTrueTerm getFalseTerm") (simp_all add: simplify_term_def)
qed

end
