(* ===== verification/SmtLogic.thy ===== *)
theory SmtLogic
  imports TermTransformers
begin

text \<open>
  The logic layer of the SMT back ends (src/SMT/Engine.h, src/SMT/Z3/Z3Engine.h,
  src/SMT/Logic.stub.hpp).  An \<open>expr\<close> is the syntax tree that the calls of the solver's C interface
  build; \<open>sort_of\<close> is its sort, \<open>None\<close> when the solver refuses the operands, and \<open>eval\<close> its
  value in a model, as SMT-LIB's theories of bit vectors and arrays define it: the specification the
  encodings are compared with.  A \<open>ValueExpr\<close> is an expression with its axiom.
\<close>

section \<open>Sorts and expressions\<close>

datatype srt = SBool | SBV nat | SArr nat nat

datatype unOp = U_NEGATE | U_BNOT | U_UMINUS

datatype binOp =
    B_CONJ | B_DISJ | B_IMPLIES | B_IFF | B_XOR | B_CONCAT | B_BAND | B_BOR | B_BXOR | B_ADD | B_SUB
  | B_SMUL | B_SDIV | B_SMOD | B_SREM | B_UMUL | B_UDIV | B_UMOD | B_UREM | B_ASHL | B_ASHR | B_LSHR
  | B_LOAD | B_EQUAL | B_NEQUAL | B_SGT | B_SLT | B_SGE | B_SLE | B_UGT | B_ULT | B_UGE | B_ULE

datatype expr =
    EVar srt string | EFresh srt string nat
  | EBoolC bool | ENum nat int
  | EAnd "expr list" | EOr "expr list" | ENot expr | EXor expr expr | EImplies expr expr | EIff expr expr
  | EEq expr expr | EBV binOp expr expr | EBvNot expr | EBvNeg expr
  | EIte expr expr expr | EExtract nat nat expr | ESext nat expr | EZext nat expr
  | EArrConst nat expr | EStore expr expr expr | ESelect expr expr

definition bv_ops :: "binOp list" where
  "bv_ops = [B_BAND, B_BOR, B_BXOR, B_ADD, B_SUB, B_SMUL, B_SDIV, B_SMOD, B_SREM, B_UMUL, B_UDIV, B_UMOD, B_UREM,
     B_ASHL, B_ASHR, B_LSHR]"

definition bv_preds :: "binOp list" where
  "bv_preds = [B_SGT, B_SLT, B_SGE, B_SLE, B_UGT, B_ULT, B_UGE, B_ULE]"

fun sort_of :: "expr \<Rightarrow> srt option" where
  "sort_of (EVar s n) = Some s"
| "sort_of (EFresh s n k) = Some s"
| "sort_of (EBoolC b) = Some SBool"
| "sort_of (ENum w i) = Some (SBV w)"
| "sort_of (EAnd es) = (if list_all (\<lambda>e. sort_of e = Some SBool) es then Some SBool else None)"
| "sort_of (EOr es) = (if list_all (\<lambda>e. sort_of e = Some SBool) es then Some SBool else None)"
| "sort_of (ENot e) = (if sort_of e = Some SBool then Some SBool else None)"
| "sort_of (EXor a b) = (if sort_of a = Some SBool \<and> sort_of b = Some SBool then Some SBool else None)"
| "sort_of (EImplies a b) = (if sort_of a = Some SBool \<and> sort_of b = Some SBool then Some SBool else None)"
| "sort_of (EIff a b) = (if sort_of a = Some SBool \<and> sort_of b = Some SBool then Some SBool else None)"
| "sort_of (EEq a b) = (if sort_of a \<noteq> None \<and> sort_of a = sort_of b then Some SBool else None)"
| "sort_of (EBV op a b) = (case (sort_of a, sort_of b) of
     (Some (SBV m), Some (SBV n)) \<Rightarrow>
       (if op = B_CONCAT then Some (SBV (m + n))
        else if m \<noteq> n then None
        else if op \<in> set bv_ops then Some (SBV m)
        else if op \<in> set bv_preds then Some SBool else None)
   | _ \<Rightarrow> None)"
| "sort_of (EBvNot e) = (case sort_of e of Some (SBV m) \<Rightarrow> Some (SBV m) | _ \<Rightarrow> None)"
| "sort_of (EBvNeg e) = (case sort_of e of Some (SBV m) \<Rightarrow> Some (SBV m) | _ \<Rightarrow> None)"
| "sort_of (EIte c a b) = (if sort_of c = Some SBool \<and> sort_of a = sort_of b then sort_of a else None)"
| "sort_of (EExtract hi lo e) = (case sort_of e of
     Some (SBV m) \<Rightarrow> if lo \<le> hi \<and> hi < m then Some (SBV (Suc hi - lo)) else None | _ \<Rightarrow> None)"
| "sort_of (ESext k e) = (case sort_of e of Some (SBV m) \<Rightarrow> Some (SBV (m + k)) | _ \<Rightarrow> None)"
| "sort_of (EZext k e) = (case sort_of e of Some (SBV m) \<Rightarrow> Some (SBV (m + k)) | _ \<Rightarrow> None)"
| "sort_of (EArrConst i e) = (case sort_of e of Some (SBV m) \<Rightarrow> Some (SArr i m) | _ \<Rightarrow> None)"
| "sort_of (EStore a i e) = (case sort_of a of
     Some (SArr m n) \<Rightarrow> if sort_of i = Some (SBV m) \<and> sort_of e = Some (SBV n) then Some (SArr m n) else None
   | _ \<Rightarrow> None)"
| "sort_of (ESelect a i) = (case sort_of a of
     Some (SArr m n) \<Rightarrow> if sort_of i = Some (SBV m) then Some (SBV n) else None | _ \<Rightarrow> None)"

section \<open>Values\<close>

text \<open>A bit vector of width \<open>w\<close> is a number below \<open>2 ^ w\<close>, an array a function on numbers.\<close>

datatype sval = VBool bool | VBV nat int | VArr "int \<Rightarrow> int"

type_synonym model = "srt \<Rightarrow> string \<Rightarrow> nat option \<Rightarrow> sval"

fun has_sort :: "sval \<Rightarrow> srt \<Rightarrow> bool" where
  "has_sort (VBool b) s = (s = SBool)"
| "has_sort (VBV w v) s = (s = SBV w \<and> 0 \<le> v \<and> v < 2 ^ w)"
| "has_sort (VArr f) s = (\<exists>m n. s = SArr m n \<and> (\<forall>i. 0 \<le> f i \<and> f i < 2 ^ n))"

definition good_model :: "model \<Rightarrow> bool" where
  "good_model m = (\<forall>s n k. has_sort (m s n k) s)"

fun vb :: "sval \<Rightarrow> bool" where "vb (VBool b) = b" | "vb _ = False"
fun vw :: "sval \<Rightarrow> nat" where "vw (VBV w v) = w" | "vw _ = 0"
fun vi :: "sval \<Rightarrow> int" where "vi (VBV w v) = v" | "vi _ = 0"
fun va :: "sval \<Rightarrow> int \<Rightarrow> int" where "va (VArr f) i = f i" | "va _ i = 0"

definition bv_signed :: "nat \<Rightarrow> int \<Rightarrow> int" where
  "bv_signed w v = (if w = 0 then 0 else signed_take_bit (w - 1) v)"

definition bv_value :: "binOp \<Rightarrow> nat \<Rightarrow> int \<Rightarrow> int \<Rightarrow> int" where
  "bv_value op w a b = (case op of
      B_BAND \<Rightarrow> semiring_bit_operations_class.and a b | B_BOR \<Rightarrow> semiring_bit_operations_class.or a b
    | B_BXOR \<Rightarrow> semiring_bit_operations_class.xor a b
    | B_ADD \<Rightarrow> take_bit w (a + b) | B_SUB \<Rightarrow> take_bit w (a - b)
    | B_SMUL \<Rightarrow> take_bit w (a * b) | B_UMUL \<Rightarrow> take_bit w (a * b)
    | B_SDIV \<Rightarrow> (if b = 0 then (if bv_signed w a < 0 then take_bit w 1 else 2 ^ w - 1)
                else take_bit w (bv_signed w a sdiv bv_signed w b))
    | B_SREM \<Rightarrow> (if b = 0 then a else take_bit w (bv_signed w a smod bv_signed w b))
    | B_SMOD \<Rightarrow> (if b = 0 then a else take_bit w (bv_signed w a mod bv_signed w b))
    | B_UDIV \<Rightarrow> (if b = 0 then 2 ^ w - 1 else a div b)
    | B_UREM \<Rightarrow> (if b = 0 then a else a mod b) | B_UMOD \<Rightarrow> (if b = 0 then a else a mod b)
    | B_ASHL \<Rightarrow> (if int w \<le> b then 0 else take_bit w (a * 2 ^ nat b))
    | B_LSHR \<Rightarrow> (if int w \<le> b then 0 else a div 2 ^ nat b)
    | B_ASHR \<Rightarrow> take_bit w (bv_signed w a div 2 ^ (if int w \<le> b then w else nat b))
    | _ \<Rightarrow> 0)"

definition bv_holds :: "binOp \<Rightarrow> nat \<Rightarrow> int \<Rightarrow> int \<Rightarrow> bool" where
  "bv_holds op w a b = (case op of
      B_SGT \<Rightarrow> bv_signed w b < bv_signed w a | B_SLT \<Rightarrow> bv_signed w a < bv_signed w b
    | B_SGE \<Rightarrow> bv_signed w b \<le> bv_signed w a | B_SLE \<Rightarrow> bv_signed w a \<le> bv_signed w b
    | B_UGT \<Rightarrow> b < a | B_ULT \<Rightarrow> a < b | B_UGE \<Rightarrow> b \<le> a | B_ULE \<Rightarrow> a \<le> b
    | _ \<Rightarrow> False)"

fun eval :: "model \<Rightarrow> expr \<Rightarrow> sval" where
  "eval m (EVar s n) = m s n None"
| "eval m (EFresh s n k) = m s n (Some k)"
| "eval m (EBoolC b) = VBool b"
| "eval m (ENum w i) = VBV w (take_bit w i)"
| "eval m (EAnd es) = VBool (list_all (\<lambda>e. vb (eval m e)) es)"
| "eval m (EOr es) = VBool (list_ex (\<lambda>e. vb (eval m e)) es)"
| "eval m (ENot e) = VBool (\<not> vb (eval m e))"
| "eval m (EXor a b) = VBool (vb (eval m a) \<noteq> vb (eval m b))"
| "eval m (EImplies a b) = VBool (vb (eval m a) \<longrightarrow> vb (eval m b))"
| "eval m (EIff a b) = VBool (vb (eval m a) = vb (eval m b))"
| "eval m (EEq a b) = VBool (eval m a = eval m b)"
| "eval m (EBV op a b) =
     (let x = eval m a; y = eval m b in
      if op = B_CONCAT then VBV (vw x + vw y) (vi x * 2 ^ vw y + vi y)
      else if op \<in> set bv_ops then VBV (vw x) (bv_value op (vw x) (vi x) (vi y))
      else VBool (bv_holds op (vw x) (vi x) (vi y)))"
| "eval m (EBvNot e) = (let x = eval m e in VBV (vw x) (take_bit (vw x) (ring_bit_operations_class.not (vi x))))"
| "eval m (EBvNeg e) = (let x = eval m e in VBV (vw x) (take_bit (vw x) (- vi x)))"
| "eval m (EIte c a b) = (if vb (eval m c) then eval m a else eval m b)"
| "eval m (EExtract hi lo e) = VBV (Suc hi - lo) (take_bit (Suc hi - lo) (vi (eval m e) div 2 ^ lo))"
| "eval m (ESext k e) = (let x = eval m e in VBV (vw x + k) (take_bit (vw x + k) (bv_signed (vw x) (vi x))))"
| "eval m (EZext k e) = (let x = eval m e in VBV (vw x + k) (vi x))"
| "eval m (EArrConst i e) = VArr (\<lambda>_. vi (eval m e))"
| "eval m (EStore a i e) = VArr ((va (eval m a))(vi (eval m i) := vi (eval m e)))"
| "eval m (ESelect a i) = VBV (case sort_of a of Some (SArr k n) \<Rightarrow> n | _ \<Rightarrow> 0) (va (eval m a) (vi (eval m i)))"

section \<open>The engine (Z3Engine)\<close>

definition is_bool :: "expr \<Rightarrow> bool" where "is_bool e = (sort_of e = Some SBool)"

definition is_bv :: "expr \<Rightarrow> bool" where
  "is_bv e = (case sort_of e of Some (SBV w) \<Rightarrow> True | _ \<Rightarrow> False)"

definition bv_size :: "expr \<Rightarrow> nat" where
  "bv_size e = (case sort_of e of Some (SBV w) \<Rightarrow> w | _ \<Rightarrow> 0)"

text \<open>A numeral of an array sort is refused: here an expression without a sort.\<close>

definition mkNumericConst :: "srt \<Rightarrow> int \<Rightarrow> expr" where
  "mkNumericConst s v = (case s of SBool \<Rightarrow> EBoolC (v \<noteq> 0) | SBV w \<Rightarrow> ENum w v | SArr i e \<Rightarrow> ENot (ENum 0 v))"

definition conj_z3 :: "expr \<Rightarrow> expr \<Rightarrow> expr" where
  "conj_z3 l r = (if l = EBoolC True then r else if r = EBoolC True then l else EAnd [l, r])"

definition disj_z3 :: "expr \<Rightarrow> expr \<Rightarrow> expr" where
  "disj_z3 l r = (if l = EBoolC False then r else if r = EBoolC False then l else EOr [l, r])"

definition engine_binop :: "binOp \<Rightarrow> expr \<Rightarrow> expr \<Rightarrow> expr" where
  "engine_binop bop l r =
     (if (bop = B_XOR \<or> bop = B_NEQUAL) \<and> is_bool l \<and> is_bool r then EXor l r
      else case bop of
        B_CONJ \<Rightarrow> conj_z3 l r | B_DISJ \<Rightarrow> disj_z3 l r
      | B_IMPLIES \<Rightarrow> EImplies l r | B_IFF \<Rightarrow> EIff l r | B_XOR \<Rightarrow> EXor l r
      | B_EQUAL \<Rightarrow> EEq l r | B_NEQUAL \<Rightarrow> ENot (EEq l r)
      | B_LOAD \<Rightarrow> ESelect l r
      | _ \<Rightarrow> EBV bop l r)"

definition engine_unop :: "unOp \<Rightarrow> expr \<Rightarrow> expr" where
  "engine_unop op e = (case op of U_NEGATE \<Rightarrow> ENot e | U_BNOT \<Rightarrow> EBvNot e | U_UMINUS \<Rightarrow> EBvNeg e)"

section \<open>Expressions with axioms (Logic.stub.hpp)\<close>

record ValueExpr =
  ve_expr :: expr
  ve_axiom :: expr

definition defaultAxiom :: expr where "defaultAxiom = EBoolC True"

definition VE :: "expr \<Rightarrow> ValueExpr" where "VE e = \<lparr>ve_expr = e, ve_axiom = defaultAxiom\<rparr>"

definition conjunctionOfCollection :: "expr list \<Rightarrow> expr" where "conjunctionOfCollection es = EAnd es"

definition spliceAxiomsImpl2 :: "expr \<Rightarrow> expr \<Rightarrow> expr" where
  "spliceAxiomsImpl2 e0 e1 = (if e0 = defaultAxiom then e1 else if e1 = defaultAxiom then e0 else EAnd [e0, e1])"

definition spliceAxiomsImpl3 :: "expr \<Rightarrow> expr \<Rightarrow> expr \<Rightarrow> expr" where
  "spliceAxiomsImpl3 e0 e1 e2 =
     (if e0 = defaultAxiom then spliceAxiomsImpl2 e1 e2
      else if e1 = defaultAxiom then spliceAxiomsImpl2 e0 e2
      else if e2 = defaultAxiom then spliceAxiomsImpl2 e0 e1
      else EAnd [e0, e1, e2])"

definition spliceAxioms :: "ValueExpr \<Rightarrow> ValueExpr \<Rightarrow> expr" where
  "spliceAxioms a b = spliceAxiomsImpl2 (ve_axiom a) (ve_axiom b)"

definition asAxiom :: "ValueExpr \<Rightarrow> expr" where
  "asAxiom v = spliceAxiomsImpl2 (ve_expr v) (ve_axiom v)"

text \<open>\<open>withAxiom\<close> of \<open>ValueExpr\<close> itself puts the new axiom in the place of the old one; the
  one of the typed classes, \<open>addAxiom\<close>, adds it.\<close>

definition VE_withAxiom :: "ValueExpr \<Rightarrow> ValueExpr \<Rightarrow> ValueExpr" where
  "VE_withAxiom v ax = \<lparr>ve_expr = ve_expr v, ve_axiom = asAxiom ax\<rparr>"

definition addAxiom :: "ValueExpr \<Rightarrow> ValueExpr \<Rightarrow> ValueExpr" where
  "addAxiom e ax = \<lparr>ve_expr = ve_expr e, ve_axiom = spliceAxiomsImpl3 (ve_axiom e) (ve_expr ax) (ve_axiom ax)\<rparr>"

definition lift2 :: "binOp \<Rightarrow> ValueExpr \<Rightarrow> ValueExpr \<Rightarrow> ValueExpr" where
  "lift2 op a b = \<lparr>ve_expr = engine_binop op (ve_expr a) (ve_expr b), ve_axiom = spliceAxioms a b\<rparr>"

definition lift1 :: "unOp \<Rightarrow> ValueExpr \<Rightarrow> ValueExpr" where
  "lift1 op a = \<lparr>ve_expr = engine_unop op (ve_expr a), ve_axiom = ve_axiom a\<rparr>"

subsection \<open>Booleans\<close>

definition Bool_isValid :: "ValueExpr \<Rightarrow> bool" where "Bool_isValid v = is_bool (ve_expr v)"

definition Bool_mkConst :: "bool \<Rightarrow> ValueExpr" where "Bool_mkConst b = VE (EBoolC b)"

text \<open>\<open>convert\<close>: the unreachable case is \<open>None\<close>.\<close>

definition Bool_convert :: "expr \<Rightarrow> expr option" where
  "Bool_convert e =
     (if is_bool e then Some e
      else if is_bv e then Some (engine_binop B_NEQUAL e (mkNumericConst (SBV (bv_size e)) 0))
      else None)"

definition Bool_forceCast :: "ValueExpr \<Rightarrow> ValueExpr option" where
  "Bool_forceCast v = map_option (\<lambda>e. \<lparr>ve_expr = e, ve_axiom = ve_axiom v\<rparr>) (Bool_convert (ve_expr v))"

definition Bool_not :: "ValueExpr \<Rightarrow> ValueExpr" where "Bool_not v = lift1 U_NEGATE v"
definition Bool_implies :: "ValueExpr \<Rightarrow> ValueExpr \<Rightarrow> ValueExpr" where "Bool_implies a b = lift2 B_IMPLIES a b"
definition Bool_iff :: "ValueExpr \<Rightarrow> ValueExpr \<Rightarrow> ValueExpr" where "Bool_iff a b = lift2 B_IFF a b"
definition Bool_eq :: "ValueExpr \<Rightarrow> ValueExpr \<Rightarrow> ValueExpr" where "Bool_eq a b = lift2 B_EQUAL a b"
definition Bool_neq :: "ValueExpr \<Rightarrow> ValueExpr \<Rightarrow> ValueExpr" where "Bool_neq a b = lift2 B_NEQUAL a b"
definition Bool_and :: "ValueExpr \<Rightarrow> ValueExpr \<Rightarrow> ValueExpr" where "Bool_and a b = lift2 B_CONJ a b"
definition Bool_or :: "ValueExpr \<Rightarrow> ValueExpr \<Rightarrow> ValueExpr" where "Bool_or a b = lift2 B_DISJ a b"
definition Bool_xor :: "ValueExpr \<Rightarrow> ValueExpr \<Rightarrow> ValueExpr" where "Bool_xor a b = lift2 B_XOR a b"

subsection \<open>Bit vectors\<close>

definition BV_isValid :: "ValueExpr \<Rightarrow> bool" where "BV_isValid v = is_bv (ve_expr v)"

definition BVN_isValid :: "nat \<Rightarrow> ValueExpr \<Rightarrow> bool" where
  "BVN_isValid n v = (is_bv (ve_expr v) \<and> bv_size (ve_expr v) = n)"

definition getBitSize :: "ValueExpr \<Rightarrow> nat" where "getBitSize v = bv_size (ve_expr v)"

definition BV_mkConst :: "int \<Rightarrow> nat \<Rightarrow> ValueExpr" where "BV_mkConst v n = VE (mkNumericConst (SBV n) v)"

text \<open>\<open>BitVector<N>::forceCast\<close>: a longer vector is cut to the bits \<open>N\<close> down to 0, one too many.\<close>

definition BVN_convert :: "nat \<Rightarrow> expr \<Rightarrow> expr option" where
  "BVN_convert n e =
     (if is_bool e then Some (EIte e (mkNumericConst (SBV n) 1) (mkNumericConst (SBV n) 0))
      else if \<not> is_bv e then None
      else if n = bv_size e then Some e
      else if bv_size e < n then Some (ESext (n - bv_size e) e)
      else Some (EExtract n 0 e))"

definition BVN_forceCast :: "nat \<Rightarrow> ValueExpr \<Rightarrow> ValueExpr option" where
  "BVN_forceCast n v = map_option (\<lambda>e. \<lparr>ve_expr = e, ve_axiom = ve_axiom v\<rparr>) (BVN_convert n (ve_expr v))"

definition sgrowTo :: "nat \<Rightarrow> ValueExpr \<Rightarrow> ValueExpr" where
  "sgrowTo n v = (let m = getBitSize v in if m < n then v\<lparr>ve_expr := ESext (n - m) (ve_expr v)\<rparr> else v)"

definition zgrowTo :: "nat \<Rightarrow> ValueExpr \<Rightarrow> ValueExpr" where
  "zgrowTo n v = (let m = getBitSize v in if m < n then v\<lparr>ve_expr := EZext (n - m) (ve_expr v)\<rparr> else v)"

definition BV_extract :: "nat \<Rightarrow> nat \<Rightarrow> ValueExpr \<Rightarrow> ValueExpr option" where
  "BV_extract high low v =
     (if high < getBitSize v \<and> low \<le> high then Some (v\<lparr>ve_expr := EExtract high low (ve_expr v)\<rparr>) else None)"

definition adaptTo :: "nat \<Rightarrow> bool \<Rightarrow> ValueExpr \<Rightarrow> ValueExpr option" where
  "adaptTo n isSigned v =
     (if getBitSize v < n then Some (if isSigned then sgrowTo n v else zgrowTo n v)
      else if n < getBitSize v then BV_extract (n - 1) 0 v
      else Some v)"

definition BV_binary :: "binOp \<Rightarrow> ValueExpr \<Rightarrow> ValueExpr \<Rightarrow> ValueExpr" where
  "BV_binary op lhv rhv =
     (let sz = max (getBitSize lhv) (getBitSize rhv);
          l = sgrowTo sz lhv; r = sgrowTo sz rhv
      in \<lparr>ve_expr = engine_binop op (ve_expr l) (ve_expr r), ve_axiom = spliceAxioms l r\<rparr>)"

definition ofConstant :: "ValueExpr \<Rightarrow> int \<Rightarrow> ValueExpr" where
  "ofConstant v n = VE (mkNumericConst (SBV (getBitSize v)) n)"

text \<open>The operators: \<open>>>\<close> is the logical shift and \<open>~\<close> the boolean negation.\<close>

definition BV_shr :: "ValueExpr \<Rightarrow> ValueExpr \<Rightarrow> ValueExpr" where "BV_shr a b = BV_binary B_LSHR a b"
definition BV_lshr :: "ValueExpr \<Rightarrow> ValueExpr \<Rightarrow> ValueExpr" where "BV_lshr a b = BV_binary B_LSHR a b"
definition BV_not :: "ValueExpr \<Rightarrow> ValueExpr" where "BV_not v = lift1 U_NEGATE v"
definition BV_neg :: "ValueExpr \<Rightarrow> ValueExpr" where "BV_neg v = lift1 U_UMINUS v"

subsection \<open>Dynamic equality, conditionals, switches\<close>

definition VE_eq :: "ValueExpr \<Rightarrow> ValueExpr \<Rightarrow> ValueExpr option" where
  "VE_eq l r =
     (if Bool_isValid l \<and> Bool_isValid r then Some (Bool_eq l r)
      else if BV_isValid l \<and> BV_isValid r \<and> getBitSize l = getBitSize r then Some (BV_binary B_EQUAL l r)
      else None)"

definition VE_neq :: "ValueExpr \<Rightarrow> ValueExpr \<Rightarrow> ValueExpr option" where
  "VE_neq l r =
     (if Bool_isValid l \<and> Bool_isValid r then Some (Bool_neq l r)
      else if BV_isValid l \<and> BV_isValid r \<and> getBitSize l = getBitSize r then Some (BV_binary B_NEQUAL l r)
      else None)"

text \<open>\<open>if_(c).then_(t).else_(f)\<close> on dynamic values, whose widths \<open>mergeTo\<close> does not adapt.\<close>

definition if_then_else :: "ValueExpr \<Rightarrow> ValueExpr \<Rightarrow> ValueExpr \<Rightarrow> ValueExpr" where
  "if_then_else c t f = \<lparr>ve_expr = EIte (ve_expr c) (ve_expr t) (ve_expr f),
     ve_axiom = spliceAxiomsImpl3 (ve_axiom c) (ve_axiom t) (ve_axiom f)\<rparr>"

definition switch_bool :: "(ValueExpr \<times> ValueExpr) list \<Rightarrow> ValueExpr \<Rightarrow> ValueExpr" where
  "switch_bool cases deflt = foldl (\<lambda>b a. if_then_else (fst a) (snd a) b) deflt cases"

section \<open>Facts about values\<close>

lemma has_sort_iff:
  "has_sort v SBool \<longleftrightarrow> (\<exists>b. v = VBool b)"
  "has_sort v (SBV w) \<longleftrightarrow> (\<exists>x. v = VBV w x \<and> 0 \<le> x \<and> x < 2 ^ w)"
  "has_sort v (SArr i n) \<longleftrightarrow> (\<exists>f. v = VArr f \<and> (\<forall>k. 0 \<le> f k \<and> f k < 2 ^ n))"
  by (cases v; auto)+

lemma take_bit_bound [simp]: "0 \<le> take_bit w (x :: int)" "take_bit w (x :: int) < 2 ^ w"
  by simp_all

lemma bv_value_bound:
  assumes "0 \<le> a" "a < 2 ^ w" "0 \<le> b" "b < 2 ^ w"
  shows "0 \<le> bv_value op w a b \<and> bv_value op w a b < 2 ^ w"
proof -
  have t: "take_bit w a = a" "take_bit w b = b" using assms by (simp_all add: take_bit_int_eq_self)
  have bnd: "0 \<le> x \<and> x < 2 ^ w" if "take_bit w x = x" for x :: int using take_bit_bound[of w x] that by metis
  have logic: "0 \<le> semiring_bit_operations_class.and a b \<and> semiring_bit_operations_class.and a b < 2 ^ w"
      "0 \<le> semiring_bit_operations_class.or a b \<and> semiring_bit_operations_class.or a b < 2 ^ w"
      "0 \<le> semiring_bit_operations_class.xor a b \<and> semiring_bit_operations_class.xor a b < 2 ^ w"
    using t by (intro bnd, simp)+
  have d: "0 \<le> a div k \<and> a div k < 2 ^ w" if "0 < k" for k
    using assms(1,2) that zdiv_mono2[of a 1 k] pos_imp_zdiv_nonneg_iff[of k a] by simp
  have m: "0 \<le> a mod b \<and> a mod b < 2 ^ w" if "b \<noteq> 0"
    using assms(3,4) that pos_mod_bound[of b a] pos_mod_sign[of b a] by linarith
  have p: "(1::int) \<le> 2 ^ w" by simp
  show ?thesis
    using assms(1,2) logic d[of b] d[of "2 ^ nat b"] m p assms(3)
    by (cases op; simp add: bv_value_def)
qed

text \<open>An expression with a sort evaluates to a value of it.\<close>

lemma eval_has_sort:
  assumes "good_model m"
  shows "sort_of e = Some s \<Longrightarrow> has_sort (eval m e) s"
proof (induction e arbitrary: s)
  case (EBV op a b)
  from EBV.prems(1) obtain k n where ab: "sort_of a = Some (SBV k)" "sort_of b = Some (SBV n)"
    by (auto split: option.splits srt.splits)
  obtain x y where xy: "eval m a = VBV k x" "0 \<le> x" "x < 2 ^ k" "eval m b = VBV n y" "0 \<le> y" "y < 2 ^ n"
    using EBV.IH(1)[OF ab(1)] EBV.IH(2)[OF ab(2)] by (auto simp: has_sort_iff)
  show ?case
  proof (cases "op = B_CONCAT")
    case True
    have "x * 2 ^ n + y < 2 ^ (k + n)"
    proof -
      have "x * 2 ^ n \<le> (2 ^ k - 1) * 2 ^ n" using xy(3) by (intro mult_right_mono) simp_all
      then show ?thesis using xy(6) by (simp add: power_add algebra_simps)
    qed
    then show ?thesis using EBV.prems(1) ab xy True by (simp add: Let_def)
  next
    case False
    then have kn: "k = n" using EBV.prems(1) ab by (auto split: if_splits)
    then show ?thesis using EBV.prems(1) ab xy False bv_value_bound[of x n y op] by (auto simp: Let_def split: if_splits)
  qed
next
  case (EZext k e)
  then obtain n x where "sort_of e = Some (SBV n)" "eval m e = VBV n x" "0 \<le> x" and x: "x < 2 ^ n" and "s = SBV (n + k)"
    by (auto simp: has_sort_iff split: option.splits srt.splits)
  moreover have "x < 2 ^ (n + k)" using x by (rule less_le_trans) simp
  ultimately show ?case by simp
qed (use assms in \<open>auto simp: good_model_def has_sort_iff Let_def split: if_splits option.splits srt.splits\<close>)

lemma eval_sortE:
  assumes "good_model m" "sort_of e = Some s"
  shows "s = SBool \<Longrightarrow> \<exists>b. eval m e = VBool b" "s = SBV w \<Longrightarrow> \<exists>x. eval m e = VBV w x \<and> 0 \<le> x \<and> x < 2 ^ w"
    "s = SArr i n \<Longrightarrow> \<exists>f. eval m e = VArr f \<and> (\<forall>k. 0 \<le> f k \<and> f k < 2 ^ n)"
  using eval_has_sort[OF assms] by (auto simp: has_sort_iff)

definition holds :: "model \<Rightarrow> ValueExpr \<Rightarrow> bool" where "holds m v = vb (eval m (ve_expr v))"
definition axiom_ok :: "model \<Rightarrow> ValueExpr \<Rightarrow> bool" where "axiom_ok m v = vb (eval m (ve_axiom v))"

lemma eval_splice [simp]:
  "vb (eval m (spliceAxiomsImpl2 a b)) = (vb (eval m a) \<and> vb (eval m b))"
  "vb (eval m (spliceAxiomsImpl3 a b c)) = (vb (eval m a) \<and> vb (eval m b) \<and> vb (eval m c))"
  "vb (eval m defaultAxiom)"
  by (auto simp: spliceAxiomsImpl2_def spliceAxiomsImpl3_def defaultAxiom_def)

lemma eval_conj [simp]: "vb (eval m (conj_z3 a b)) = (vb (eval m a) \<and> vb (eval m b))"
  and eval_disj [simp]: "vb (eval m (disj_z3 a b)) = (vb (eval m a) \<or> vb (eval m b))"
  by (auto simp: conj_z3_def disj_z3_def)

lemma axiom_splice [simp]:
  "axiom_ok m (VE e)" "axiom_ok m (lift2 op a b) = (axiom_ok m a \<and> axiom_ok m b)"
  "axiom_ok m (addAxiom a b) = (axiom_ok m a \<and> holds m b \<and> axiom_ok m b)"
  "axiom_ok m (VE_withAxiom a b) = (holds m b \<and> axiom_ok m b)"
  "axiom_ok m (if_then_else a b c) = (axiom_ok m a \<and> axiom_ok m b \<and> axiom_ok m c)"
  by (simp_all add: axiom_ok_def VE_def lift2_def addAxiom_def VE_withAxiom_def asAxiom_def if_then_else_def
      spliceAxioms_def holds_def)

lemma holds_ops [simp]:
  "holds m (Bool_and a b) = (holds m a \<and> holds m b)" "holds m (Bool_or a b) = (holds m a \<or> holds m b)"
  "holds m (Bool_not a) = (\<not> holds m a)" "holds m (Bool_implies a b) = (holds m a \<longrightarrow> holds m b)"
  "holds m (Bool_mkConst c) = c" "holds m (addAxiom a b) = holds m a" "holds m (VE_withAxiom a b) = holds m a"
  by (simp_all add: holds_def Bool_and_def Bool_or_def Bool_not_def Bool_implies_def Bool_mkConst_def lift2_def lift1_def
      engine_binop_def engine_unop_def VE_def addAxiom_def VE_withAxiom_def)

lemma BV_binary_same:
  "getBitSize a = getBitSize b \<Longrightarrow> BV_binary op a b = lift2 op a b"
  by (simp add: BV_binary_def Let_def sgrowTo_def lift2_def)

lemma bv_op_sort:
  "op \<in> set bv_ops \<Longrightarrow> engine_binop op a b = EBV op a b" "op \<in> set bv_preds \<Longrightarrow> engine_binop op a b = EBV op a b"
  by (auto simp: bv_ops_def bv_preds_def engine_binop_def)

end
