(* ===== verification/SmtMemory.thy ===== *)
theory SmtMemory
  imports SmtLogic
begin

text \<open>
  The memory arrays of the SMT encoding (\<open>TheoryArray\<close>, \<open>ScatterArray\<close>, \<open>splitBytes\<close> and
  \<open>concatBytesDynamic\<close> of src/SMT/Logic.stub.hpp) at Z3's cell size, and the round trip of a store and
  a load.
\<close>

section \<open>Memory arrays (TheoryArray, ScatterArray)\<close>

text \<open>Z3's pointers and memory cells are bit vectors of 64 bits.\<close>

definition ElemSize :: nat where "ElemSize = 64"
definition PtrSize :: nat where "PtrSize = 64"

definition TA_select :: "ValueExpr \<Rightarrow> ValueExpr \<Rightarrow> ValueExpr" where
  "TA_select a i = VE (engine_binop B_LOAD (ve_expr a) (ve_expr i))"

definition TA_store :: "ValueExpr \<Rightarrow> (ValueExpr \<times> ValueExpr) list \<Rightarrow> ValueExpr" where
  "TA_store a entries = VE (foldl (\<lambda>base en. EStore base (ve_expr (fst en)) (ve_expr (snd en))) (ve_expr a) entries)"

definition TA_mkDefault :: "ValueExpr \<Rightarrow> ValueExpr" where
  "TA_mkDefault deflt = VE (EArrConst PtrSize (ve_expr deflt))"

definition TA_mkFree :: "string \<Rightarrow> nat \<Rightarrow> ValueExpr" where
  "TA_mkFree nm k = VE (EFresh (SArr PtrSize ElemSize) nm k)"

definition TA_mkVar :: "string \<Rightarrow> ValueExpr" where
  "TA_mkVar nm = VE (EVar (SArr PtrSize ElemSize) nm)"

definition TA_merge :: "ValueExpr \<Rightarrow> (ValueExpr \<times> ValueExpr) list \<Rightarrow> ValueExpr" where
  "TA_merge defaultArray arrays = switch_bool arrays defaultArray"

text \<open>A value as a list of cells, the lowest bits first; the last piece is grown to a cell.\<close>

definition splitBytes :: "ValueExpr \<Rightarrow> ValueExpr list option" where
  "splitBytes dbv =
     (let width = getBitSize dbv in
      if \<not> BV_isValid dbv then None
      else if width \<le> ElemSize then
        (let byte = sgrowTo ElemSize dbv in if BVN_isValid ElemSize byte then Some [byte] else None)
      else omap (\<lambda>ix. do {
          piece \<leftarrow> BV_extract (min (ix + ElemSize - 1) (width - 1)) ix dbv;
          BVN_forceCast ElemSize piece })
        (map (\<lambda>k. k * ElemSize) [0..<(width + ElemSize - 1) div ElemSize]))"

definition concatBytesDynamic :: "ValueExpr list \<Rightarrow> nat \<Rightarrow> ValueExpr option" where
  "concatBytesDynamic bytes bitSize = (case bytes of
      [] \<Rightarrow> None
    | b # bs \<Rightarrow> adaptTo bitSize False
        \<lparr>ve_expr = foldl (\<lambda>head x. engine_binop B_CONCAT (ve_expr x) head) (ve_expr b) bs,
         ve_axiom = foldl (\<lambda>ax x. spliceAxiomsImpl2 (ve_axiom x) ax) (ve_axiom b) bs\<rparr>)"

text \<open>The address of cell \<open>j\<close> of a value at \<open>i\<close>.\<close>

definition cell_at :: "ValueExpr \<Rightarrow> nat \<Rightarrow> ValueExpr" where
  "cell_at i j = BV_binary B_ADD i (ofConstant i (int j))"

text \<open>A width of 0 makes the unsigned \<open>(elemBitSize - 1)\<close> wrap around: \<open>None\<close>.\<close>

definition Scatter_select :: "ValueExpr \<Rightarrow> ValueExpr \<Rightarrow> nat \<Rightarrow> ValueExpr option" where
  "Scatter_select a i elemBitSize =
     (if elemBitSize = 0 then None
      else concatBytesDynamic (map (\<lambda>j. TA_select a (cell_at i j)) [0..<Suc ((elemBitSize - 1) div ElemSize)]) elemBitSize)"

definition Scatter_store :: "ValueExpr \<Rightarrow> ValueExpr \<Rightarrow> ValueExpr \<Rightarrow> ValueExpr option" where
  "Scatter_store a i e =
     (if \<not> BV_isValid e \<or> getBitSize e = 0 then None
      else do {
        bytes \<leftarrow> splitBytes e;
        Some (TA_store a (map (\<lambda>j. (cell_at i j, bytes ! j)) [0..<Suc ((getBitSize e - 1) div ElemSize)])) })"

text \<open>The store of a value whose class says that it is one cell.\<close>

definition Scatter_store_cell :: "ValueExpr \<Rightarrow> ValueExpr \<Rightarrow> ValueExpr \<Rightarrow> ValueExpr" where
  "Scatter_store_cell a i b = TA_store a [(cell_at i 0, sgrowTo ElemSize b)]"

section \<open>Facts\<close>

lemma cell_at_eval:
  assumes "good_model m" "sort_of (ve_expr i) = Some (SBV 64)" "eval m (ve_expr i) = VBV 64 p"
  shows "sort_of (ve_expr (cell_at i j)) = Some (SBV 64)"
    "eval m (ve_expr (cell_at i j)) = VBV 64 (take_bit 64 (p + int j))"
proof -
  have c: "cell_at i j = lift2 B_ADD i (ofConstant i (int j))"
    unfolding cell_at_def by (rule BV_binary_same) (simp add: getBitSize_def bv_size_def ofConstant_def VE_def mkNumericConst_def assms)
  have e: "ve_expr (cell_at i j) = EBV B_ADD (ve_expr i) (ENum 64 (int j))"
    by (simp add: c lift2_def engine_binop_def ofConstant_def VE_def mkNumericConst_def getBitSize_def bv_size_def assms)
  show "sort_of (ve_expr (cell_at i j)) = Some (SBV 64)" by (simp add: e assms bv_ops_def)
  show "eval m (ve_expr (cell_at i j)) = VBV 64 (take_bit 64 (p + int j))"
    by (simp add: e assms bv_ops_def bv_value_def Let_def take_bit_eq_mod mod_simps)
qed

subsection \<open>Splitting and joining\<close>

definition cells :: "nat \<Rightarrow> nat" where "cells w = Suc ((w - 1) div ElemSize)"

fun joined :: "int list \<Rightarrow> int" where
  "joined [] = 0"
| "joined (c # cs) = concat_bit 64 c (joined cs)"

lemma bit_joined:
  "bit (joined cs) i \<longleftrightarrow> i < 64 * length cs \<and> bit (cs ! (i div 64)) (i mod 64)"
proof (induction cs arbitrary: i)
  case (Cons c cs)
  show ?case
  proof (cases "i < 64")
    case True
    then show ?thesis by (simp add: bit_concat_bit_iff)
  next
    case False
    then obtain j where "i = 64 + j" using le_Suc_ex[of 64 i] by auto
    moreover have "(64 + j) div 64 = Suc (j div 64)" by simp
    ultimately show ?thesis by (simp add: bit_concat_bit_iff Cons.IH[of j] del: div_add_self1)
  qed
qed simp

definition cell_ok :: "model \<Rightarrow> int \<Rightarrow> ValueExpr \<Rightarrow> bool" where
  "cell_ok m c b = (sort_of (ve_expr b) = Some (SBV 64) \<and> eval m (ve_expr b) = VBV 64 c \<and> 0 \<le> c \<and> c < 2 ^ 64)"

lemma concat_eval:
  assumes "list_all2 (cell_ok m) cs bs" "sort_of e = Some (SBV w)" "eval m e = VBV w h" "0 \<le> h" "h < 2 ^ w"
  shows "sort_of (foldl (\<lambda>head x. engine_binop B_CONCAT (ve_expr x) head) e bs) = Some (SBV (w + 64 * length bs)) \<and>
    eval m (foldl (\<lambda>head x. engine_binop B_CONCAT (ve_expr x) head) e bs) = VBV (w + 64 * length bs) (concat_bit w h (joined cs))"
  using assms
proof (induction cs bs arbitrary: e w h rule: list_all2_induct)
  case Nil
  then show ?case by (simp add: concat_bit_eq take_bit_int_eq_self)
next
  case (Cons c cs b bs)
  have e: "sort_of (engine_binop B_CONCAT (ve_expr b) e) = Some (SBV (w + 64))"
    using Cons.hyps(1) Cons.prems(1) by (simp add: engine_binop_def is_bool_def cell_ok_def)
  have v: "eval m (engine_binop B_CONCAT (ve_expr b) e) = VBV (w + 64) (concat_bit w h c)"
    using Cons.hyps(1) Cons.prems by (simp add: engine_binop_def is_bool_def cell_ok_def concat_bit_eq push_bit_eq_mult take_bit_int_eq_self)
  have r: "concat_bit w h c = take_bit (w + 64) (concat_bit w h c)"
  proof -
    have "bit c k \<Longrightarrow> k < 64" for k
      using Cons.hyps(1) bit_take_bit_iff[of 64 c k] by (simp add: cell_ok_def take_bit_int_eq_self)
    then have "w \<le> n \<Longrightarrow> bit c (n - w) \<Longrightarrow> n < w + 64" for n by (metis less_diff_conv2 add.commute)
    then show ?thesis by (intro bit_eqI) (auto simp: bit_concat_bit_iff bit_take_bit_iff)
  qed
  have b: "0 \<le> concat_bit w h c" "concat_bit w h c < 2 ^ (w + 64)"
    using take_bit_bound[of "w + 64" "concat_bit w h c"] unfolding r[symmetric] by simp_all
  show ?case using Cons.IH[OF e v b] by (simp add: concat_bit_assoc ac_simps)
qed

lemma omap_over_map: "omap g (map f xs) = omap (\<lambda>x. g (f x)) xs"
  by (induction xs) simp_all

text \<open>What a cell of a split value holds: its bits of the value.\<close>

definition piece_size :: "nat \<Rightarrow> nat \<Rightarrow> nat" where "piece_size w k = min 64 (w - 64 * k)"

lemma take_signed: "0 < s \<Longrightarrow> s \<le> n \<Longrightarrow> take_bit s (take_bit n (bv_signed s x)) = take_bit s x"
  by (simp add: bv_signed_def take_bit_signed_take_bit)

lemma grown_cell:
  assumes "good_model m" "sort_of e = Some (SBV s)" "eval m e = VBV s x" "0 < s" "s \<le> 64"
  shows "\<exists>c. cell_ok m c \<lparr>ve_expr = (if s = 64 then e else ESext (64 - s) e), ve_axiom = ax\<rparr> \<and> take_bit s c = take_bit s x"
proof -
  have "0 \<le> x" "x < 2 ^ s" using eval_has_sort[OF assms(1,2)] assms(3) by auto
  then show ?thesis
    using assms take_signed[of s 64 x] take_bit_bound[of 64 "bv_signed s x"]
    by (cases "s = 64") (auto simp: cell_ok_def Let_def)
qed

lemma split_cell:
  assumes "good_model m" "sort_of (ve_expr e) = Some (SBV w)" "eval m (ve_expr e) = VBV w v" "64 * k < w" "64 < w"
  shows "\<exists>b c. do { piece \<leftarrow> BV_extract (min (64 * k + ElemSize - 1) (w - 1)) (64 * k) e; BVN_forceCast ElemSize piece } = Some b \<and>
    cell_ok m c b \<and> take_bit (piece_size w k) c = take_bit (piece_size w k) (v div 2 ^ (64 * k))"
proof -
  let ?hi = "min (64 * k + ElemSize - 1) (w - 1)" and ?s = "piece_size w k"
  let ?p = "EExtract ?hi (64 * k) (ve_expr e)"
  have hi: "?hi < w" "64 * k \<le> ?hi" "Suc ?hi - 64 * k = ?s" "0 < ?s" "?s \<le> 64"
    using assms(4,5) by (auto simp: ElemSize_def piece_size_def min_def)
  have p: "sort_of ?p = Some (SBV ?s)" "eval m ?p = VBV ?s (take_bit ?s (v div 2 ^ (64 * k)))"
    using hi assms(2,3) by simp_all
  have x: "BV_extract ?hi (64 * k) e = Some (e\<lparr>ve_expr := ?p\<rparr>)"
    using hi assms(2) by (simp add: BV_extract_def getBitSize_def bv_size_def)
  have f: "BVN_forceCast ElemSize (e\<lparr>ve_expr := ?p\<rparr>) =
      Some \<lparr>ve_expr = (if ?s = 64 then ?p else ESext (64 - ?s) ?p), ve_axiom = ve_axiom e\<rparr>"
    using p(1) hi(5) by (auto simp: BVN_forceCast_def BVN_convert_def is_bool_def is_bv_def bv_size_def ElemSize_def simp del: sort_of.simps)
  obtain c where "cell_ok m c \<lparr>ve_expr = (if ?s = 64 then ?p else ESext (64 - ?s) ?p), ve_axiom = ve_axiom e\<rparr>"
      "take_bit ?s c = take_bit ?s (take_bit ?s (v div 2 ^ (64 * k)))"
    using grown_cell[OF assms(1) p hi(4,5)] by blast
  then show ?thesis using x f by auto
qed

lemma cells_bounds: "0 < w \<Longrightarrow> k < cells w \<longleftrightarrow> 64 * k < w"
  by (auto simp: cells_def ElemSize_def)

lemma split_spec:
  assumes "good_model m" "sort_of (ve_expr e) = Some (SBV w)" "eval m (ve_expr e) = VBV w v" "0 < w"
  shows "\<exists>bs cs. splitBytes e = Some bs \<and> length bs = cells w \<and> list_all2 (cell_ok m) cs bs \<and>
    (\<forall>k < cells w. take_bit (piece_size w k) (cs ! k) = take_bit (piece_size w k) (v div 2 ^ (64 * k)))"
proof (cases "w \<le> 64")
  case True
  obtain c where c: "cell_ok m c \<lparr>ve_expr = (if w = 64 then ve_expr e else ESext (64 - w) (ve_expr e)), ve_axiom = ve_axiom e\<rparr>"
      "take_bit w c = take_bit w v"
    using grown_cell[OF assms True] by blast
  have "splitBytes e = Some [\<lparr>ve_expr = (if w = 64 then ve_expr e else ESext (64 - w) (ve_expr e)), ve_axiom = ve_axiom e\<rparr>]"
    using True assms(2,4) c(1)
    by (auto simp: splitBytes_def getBitSize_def bv_size_def BV_isValid_def is_bv_def sgrowTo_def BVN_isValid_def ElemSize_def Let_def)
  moreover have "cells w = 1" using True assms(4) by (simp add: cells_def ElemSize_def)
  moreover have "piece_size w 0 = w" using True by (simp add: piece_size_def)
  ultimately show ?thesis using c by (intro exI[of _ "[c]"] exI conjI) auto
next
  case False
  define g where "g = (\<lambda>ix. do { piece \<leftarrow> BV_extract (min (ix + ElemSize - 1) (w - 1)) ix e; BVN_forceCast ElemSize piece })"
  have "\<forall>k. \<exists>b c. 64 * k < w \<longrightarrow> g (64 * k) = Some b \<and> cell_ok m c b \<and>
      take_bit (piece_size w k) c = take_bit (piece_size w k) (v div 2 ^ (64 * k))"
    using split_cell[OF assms(1-3)] False unfolding g_def by (metis not_le_imp_less)
  then obtain B C where BC: "64 * k < w \<Longrightarrow> g (64 * k) = Some (B k) \<and> cell_ok m (C k) (B k) \<and>
      take_bit (piece_size w k) (C k) = take_bit (piece_size w k) (v div 2 ^ (64 * k))" for k
    by metis
  have n: "(w + ElemSize - 1) div ElemSize = cells w" using False by (simp add: cells_def ElemSize_def div_add_self2)
  have "omap g (map (\<lambda>k. k * ElemSize) [0..<cells w]) = Some (map B [0..<cells w])"
  proof -
    have "omap g (map (\<lambda>k. k * ElemSize) [0..<cells w]) = omap (\<lambda>k. g (k * ElemSize)) [0..<cells w]"
      by (rule omap_over_map)
    also have "\<dots> = Some (map B [0..<cells w])"
      using BC assms(4) by (intro omap_map_Some) (simp add: ElemSize_def cells_bounds mult.commute)
    finally show ?thesis .
  qed
  then have "splitBytes e = Some (map B [0..<cells w])"
    using False assms(2) n by (simp add: splitBytes_def getBitSize_def bv_size_def BV_isValid_def is_bv_def ElemSize_def g_def Let_def)
  then show ?thesis
    using BC assms(4) by (intro exI[of _ "map B [0..<cells w]"] exI[of _ "map C [0..<cells w]"])
      (auto simp: list_all2_conv_all_nth cells_bounds)
qed

lemma take_bit_joined:
  assumes "length cs = cells w" "0 < w" "0 \<le> v" "v < 2 ^ w"
    and "\<forall>k < cells w. take_bit (piece_size w k) (cs ! k) = take_bit (piece_size w k) (v div 2 ^ (64 * k))"
  shows "take_bit w (joined cs) = v"
proof (rule bit_eqI)
  fix n
  have v: "bit v n \<longleftrightarrow> n < w \<and> bit v n"
    using assms(3,4) bit_take_bit_iff[of w v n] by (simp add: take_bit_int_eq_self)
  show "bit (take_bit w (joined cs)) n = bit v n"
  proof (cases "n < w")
    case True
    let ?k = "n div 64"
    have n: "n = 64 * ?k + n mod 64" by simp
    have k: "?k < cells w" using True assms(2) by (simp add: cells_bounds)
    have s: "n mod 64 < piece_size w ?k" using True by (simp add: piece_size_def less_diff_conv)
    have "bit (cs ! ?k) (n mod 64) = bit (v div 2 ^ (64 * ?k)) (n mod 64)"
      using assms(5) k s by (metis bit_take_bit_iff)
    also have "\<dots> = bit v n" by (simp add: bit_drop_bit_eq flip: drop_bit_eq_div)
    finally show ?thesis using True k assms(1) n
      by (simp add: bit_take_bit_iff bit_joined) (metis less_mult_imp_div_less mult.commute div_less_iff_less_mult zero_less_numeral)
  next
    case False
    then have "\<not> bit v n" using v by blast
    then show ?thesis using False by (simp add: bit_take_bit_iff)
  qed
qed

subsection \<open>Stores and loads\<close>

lemma TA_store_eval:
  assumes "list_all2 (\<lambda>(ix, b) (p, c). sort_of (ve_expr ix) = Some (SBV 64) \<and> eval m (ve_expr ix) = VBV 64 p \<and> cell_ok m c b) es pcs"
    and "sort_of e = Some (SArr 64 64)" "eval m e = VArr f"
  shows "sort_of (foldl (\<lambda>base en. EStore base (ve_expr (fst en)) (ve_expr (snd en))) e es) = Some (SArr 64 64) \<and>
    eval m (foldl (\<lambda>base en. EStore base (ve_expr (fst en)) (ve_expr (snd en))) e es) = VArr (foldl (\<lambda>f (p, c). f(p := c)) f pcs)"
  using assms
proof (induction es pcs arbitrary: e f rule: list_all2_induct)
  case (Cons en es pc pcs)
  obtain ix b p c where en: "en = (ix, b)" "pc = (p, c)" by (cases en; cases pc)
  have "sort_of (EStore e (ve_expr ix) (ve_expr b)) = Some (SArr 64 64)"
    "eval m (EStore e (ve_expr ix) (ve_expr b)) = VArr (f(p := c))"
    using Cons.hyps(1) Cons.prems by (auto simp: en cell_ok_def fun_eq_iff)
  from Cons.IH[OF this] show ?case by (simp add: en)
qed simp

lemma foldl_upd:
  "q \<notin> fst ` set pcs \<Longrightarrow> foldl (\<lambda>f (p, c). f(p := c)) f pcs q = f q"
  "distinct (map fst pcs) \<Longrightarrow> k < length pcs \<Longrightarrow> foldl (\<lambda>f (p, c). f(p := c)) f pcs (fst (pcs ! k)) = snd (pcs ! k)"
proof -
  show a: "q \<notin> fst ` set pcs \<Longrightarrow> foldl (\<lambda>f (p, c). f(p := c)) f pcs q = f q" for q f pcs
    by (induction pcs arbitrary: f) auto
  show "distinct (map fst pcs) \<Longrightarrow> k < length pcs \<Longrightarrow> foldl (\<lambda>f (p, c). f(p := c)) f pcs (fst (pcs ! k)) = snd (pcs ! k)"
  proof (induction pcs arbitrary: f k)
    case (Cons x pcs)
    obtain p c where x: "x = (p, c)" by (cases x)
    show ?case
    proof (cases k)
      case 0
      then show ?thesis using Cons.prems a[of p pcs "f(p := c)"] by (simp add: x del: fun_upd_apply) simp
    qed (use Cons in \<open>simp add: x\<close>)
  qed simp
qed

lemma select_spec:
  assumes "good_model m" "sort_of (ve_expr a) = Some (SArr 64 64)" "eval m (ve_expr a) = VArr f"
    and "sort_of (ve_expr i) = Some (SBV 64)" "eval m (ve_expr i) = VBV 64 p" "0 < w"
  shows "\<exists>r. Scatter_select a i w = Some r \<and> sort_of (ve_expr r) = Some (SBV w) \<and> axiom_ok m r \<and>
    eval m (ve_expr r) = VBV w (take_bit w (joined (map (\<lambda>j. f (take_bit 64 (p + int j))) [0..<cells w])))"
proof -
  define cs where "cs = map (\<lambda>j. f (take_bit 64 (p + int j))) [0..<cells w]"
  define bs where "bs = map (\<lambda>j. TA_select a (cell_at i j)) [0..<cells w]"
  have f: "\<forall>k. 0 \<le> f k \<and> f k < 2 ^ 64" using eval_has_sort[OF assms(1,2)] assms(3) by (simp add: has_sort_iff)
  have ok: "list_all2 (cell_ok m) cs bs"
    using assms(2,3) cell_at_eval[OF assms(1,4,5)] f
    by (auto simp: cs_def bs_def list_all2_conv_all_nth cell_ok_def TA_select_def VE_def engine_binop_def is_bool_def)
  have ax: "\<forall>b\<in>set bs. axiom_ok m b" by (auto simp: bs_def TA_select_def)
  obtain b bs' c cs' where bs: "bs = b # bs'" and cs: "cs = c # cs'"
    using ok by (cases bs; cases cs) (auto simp: bs_def cells_def)
  define h where "h = foldl (\<lambda>head x. engine_binop B_CONCAT (ve_expr x) head) (ve_expr b) bs'"
  define x where "x = foldl (\<lambda>ax x. spliceAxiomsImpl2 (ve_axiom x) ax) (ve_axiom b) bs'"
  have len: "64 + 64 * length bs' = 64 * cells w"
    using arg_cong[OF bs, of length] by (simp add: bs_def)
  have h: "sort_of h = Some (SBV (64 * cells w))" "eval m h = VBV (64 * cells w) (joined cs)"
    using concat_eval[of m cs' bs' "ve_expr b" 64 c] ok by (auto simp: h_def bs cs cell_ok_def len[symmetric])
  have vx: "vb (eval m x)"
  proof -
    have "vb (eval m (foldl (\<lambda>ax x. spliceAxiomsImpl2 (ve_axiom x) ax) e ys))"
      if "vb (eval m e)" "\<forall>y\<in>set ys. axiom_ok m y" for e ys
      using that by (induction ys arbitrary: e) (simp_all add: axiom_ok_def)
    then show ?thesis using ax by (simp add: x_def bs axiom_ok_def)
  qed
  have w: "w \<le> 64 * cells w" using assms(6) by (simp add: cells_def ElemSize_def)
  have "Scatter_select a i w = adaptTo w False \<lparr>ve_expr = h, ve_axiom = x\<rparr>"
    using assms(6) bs by (simp add: Scatter_select_def concatBytesDynamic_def bs_def cells_def h_def x_def del: upt_Suc)
  also have "\<dots> = Some \<lparr>ve_expr = (if w = 64 * cells w then h else EExtract (w - 1) 0 h), ve_axiom = x\<rparr>"
    using h(1) w assms(6) by (auto simp: adaptTo_def BV_extract_def getBitSize_def bv_size_def)
  finally have r: "Scatter_select a i w = \<dots>" .
  have "take_bit w (joined cs) = joined cs" if "w = 64 * cells w"
    using eval_has_sort[OF assms(1) h(1)] h(2) that[symmetric] by (simp add: take_bit_int_eq_self)
  then show ?thesis
    using r h assms(6) w vx
    by (intro exI[of _ "\<lparr>ve_expr = (if w = 64 * cells w then h else EExtract (w - 1) 0 h), ve_axiom = x\<rparr>"])
      (auto simp: axiom_ok_def cs_def[symmetric])
qed

lemma wrap_inj:
  assumes "take_bit 64 (p + int j) = take_bit 64 (p + int k)" "int j < 2 ^ 64" "int k < 2 ^ 64"
  shows "j = k"
proof -
  have "(p + int j) mod 2 ^ 64 = (p + int k) mod 2 ^ 64" using assms(1) by (simp only: take_bit_eq_mod)
  then have "(2 ^ 64 :: int) dvd (int j - int k)" by (simp add: mod_eq_dvd_iff)
  then show ?thesis using assms(2,3) zdvd_imp_le[of "2 ^ 64" "int j - int k"] zdvd_imp_le[of "2 ^ 64" "int k - int j"]
    by (cases j k rule: linorder_cases) (auto simp: dvd_diff_commute)
qed

lemma store_spec:
  assumes "good_model m" "sort_of (ve_expr a) = Some (SArr 64 64)" "eval m (ve_expr a) = VArr f"
    and "sort_of (ve_expr i) = Some (SBV 64)" "eval m (ve_expr i) = VBV 64 p"
    and "sort_of (ve_expr e) = Some (SBV w)" "eval m (ve_expr e) = VBV w v" "0 < w" "int w < 2 ^ 64"
  shows "\<exists>a' f'. Scatter_store a i e = Some a' \<and> sort_of (ve_expr a') = Some (SArr 64 64) \<and> eval m (ve_expr a') = VArr f' \<and>
    take_bit w (joined (map (\<lambda>j. f' (take_bit 64 (p + int j))) [0..<cells w])) = v \<and>
    (\<forall>q. (\<forall>j < cells w. q \<noteq> take_bit 64 (p + int j)) \<longrightarrow> f' q = f q)"
proof -
  obtain bs cs where s: "splitBytes e = Some bs" "length bs = cells w" "list_all2 (cell_ok m) cs bs"
      "\<forall>k < cells w. take_bit (piece_size w k) (cs ! k) = take_bit (piece_size w k) (v div 2 ^ (64 * k))"
    using split_spec[OF assms(1,6,7,8)] by blast
  have lc: "length cs = cells w" using s(2,3) by (simp add: list_all2_lengthD)
  define es where "es = map (\<lambda>j. (cell_at i j, bs ! j)) [0..<cells w]"
  define pcs where "pcs = map (\<lambda>j. (take_bit 64 (p + int j), cs ! j)) [0..<cells w]"
  define f' where "f' = foldl (\<lambda>f (p, c). f(p := c)) f pcs"
  have small: "int j < 2 ^ 64" if "j < cells w" for j
    using that assms(8,9) by (auto simp: cells_bounds)
  have "list_all2 (\<lambda>(ix, b) (p, c). sort_of (ve_expr ix) = Some (SBV 64) \<and> eval m (ve_expr ix) = VBV 64 p \<and> cell_ok m c b) es pcs"
    using cell_at_eval[OF assms(1,4,5)] s(2,3) by (auto simp: es_def pcs_def list_all2_conv_all_nth)
  from TA_store_eval[OF this assms(2,3)]
  have st: "sort_of (ve_expr (TA_store a es)) = Some (SArr 64 64)" "eval m (ve_expr (TA_store a es)) = VArr f'"
    by (simp_all add: TA_store_def VE_def f'_def)
  have "Scatter_store a i e = Some (TA_store a es)"
    using s(1) assms(6,8) by (simp add: Scatter_store_def BV_isValid_def is_bv_def getBitSize_def bv_size_def es_def cells_def ElemSize_def del: upt_Suc)
  moreover have "map (\<lambda>j. f' (take_bit 64 (p + int j))) [0..<cells w] = cs"
  proof (rule nth_equalityI)
    have d: "distinct (map fst pcs)" using wrap_inj small by (auto simp: pcs_def distinct_map inj_on_def comp_def)
    show "map (\<lambda>j. f' (take_bit 64 (p + int j))) [0..<cells w] ! k = cs ! k"
      if "k < length (map (\<lambda>j. f' (take_bit 64 (p + int j))) [0..<cells w])" for k
      using foldl_upd(2)[OF d, of k f] that by (simp add: f'_def pcs_def)
  qed (simp add: lc)
  moreover have "0 \<le> v" "v < 2 ^ w" using eval_has_sort[OF assms(1,6)] assms(7) by auto
  moreover have "f' q = f q" if "\<forall>j < cells w. q \<noteq> take_bit 64 (p + int j)" for q
    unfolding f'_def using that by (intro foldl_upd(1)) (auto simp: pcs_def)
  ultimately show ?thesis using st take_bit_joined[OF lc assms(8) _ _ s(4)] by auto
qed

section \<open>Properties\<close>

text \<open>C9: What a store puts into a memory array the load of the same width at the same address reads back, in
  every model; a load whose cells are none of the stored ones reads what it read before.\<close>

theorem store_load_roundtrip:
  assumes "good_model m" "sort_of (ve_expr a) = Some (SArr 64 64)"
    and "sort_of (ve_expr i) = Some (SBV 64)" "sort_of (ve_expr e) = Some (SBV w)" "0 < w" "int w < 2 ^ 64"
  shows "(\<exists>a' r. Scatter_store a i e = Some a' \<and> Scatter_select a' i w = Some r \<and> eval m (ve_expr r) = eval m (ve_expr e)) \<and>
    (sort_of (ve_expr k) = Some (SBV 64) \<longrightarrow> 0 < u \<longrightarrow>
      (\<forall>x < cells u. \<forall>y < cells w. eval m (ve_expr (cell_at k x)) \<noteq> eval m (ve_expr (cell_at i y))) \<longrightarrow>
      (\<exists>a' r r0. Scatter_store a i e = Some a' \<and> Scatter_select a' k u = Some r \<and> Scatter_select a k u = Some r0 \<and>
        eval m (ve_expr r) = eval m (ve_expr r0)))"
proof (intro conjI impI)
  obtain f p v where v: "eval m (ve_expr a) = VArr f" "eval m (ve_expr i) = VBV 64 p" "eval m (ve_expr e) = VBV w v"
    using eval_sortE[OF assms(1)] assms(2-4) by metis
  obtain a' f' where st: "Scatter_store a i e = Some a'" "sort_of (ve_expr a') = Some (SArr 64 64)" "eval m (ve_expr a') = VArr f'"
      "take_bit w (joined (map (\<lambda>j. f' (take_bit 64 (p + int j))) [0..<cells w])) = v"
      "\<And>q. \<forall>j < cells w. q \<noteq> take_bit 64 (p + int j) \<Longrightarrow> f' q = f q"
    using store_spec[OF assms(1,2) v(1) assms(3) v(2) assms(4) v(3) assms(5,6)] by blast
  show "\<exists>a' r. Scatter_store a i e = Some a' \<and> Scatter_select a' i w = Some r \<and> eval m (ve_expr r) = eval m (ve_expr e)"
    using select_spec[OF assms(1) st(2,3) assms(3) v(2) assms(5)] st(1,4) v(3) by auto
  assume k: "sort_of (ve_expr k) = Some (SBV 64)" "0 < u"
    "\<forall>x < cells u. \<forall>y < cells w. eval m (ve_expr (cell_at k x)) \<noteq> eval m (ve_expr (cell_at i y))"
  obtain q where q: "eval m (ve_expr k) = VBV 64 q" using eval_sortE[OF assms(1) k(1)] by metis
  have eq: "map (\<lambda>j. f' (take_bit 64 (q + int j))) [0..<cells u] = map (\<lambda>j. f (take_bit 64 (q + int j))) [0..<cells u]"
    using k(3) cell_at_eval(2)[OF assms(1) k(1) q] cell_at_eval(2)[OF assms(1,3) v(2)] by (intro map_cong refl st(5)) auto
  obtain r where r: "Scatter_select a' k u = Some r"
      "eval m (ve_expr r) = VBV u (take_bit u (joined (map (\<lambda>j. f' (take_bit 64 (q + int j))) [0..<cells u])))"
    using select_spec[OF assms(1) st(2,3) k(1) q k(2)] by blast
  obtain r0 where r0: "Scatter_select a k u = Some r0"
      "eval m (ve_expr r0) = VBV u (take_bit u (joined (map (\<lambda>j. f (take_bit 64 (q + int j))) [0..<cells u])))"
    using select_spec[OF assms(1,2) v(1) k(1) q k(2)] by blast
  show "\<exists>a' r r0. Scatter_store a i e = Some a' \<and> Scatter_select a' k u = Some r \<and> Scatter_select a k u = Some r0 \<and>
        eval m (ve_expr r) = eval m (ve_expr r0)"
    using st(1) r r0 eq by (intro exI[of _ a'] exI[of _ r] exI[of _ r0]) (simp only: simp_thms)
qed

definition zero_model :: model where
  "zero_model s n k = (case s of SBool \<Rightarrow> VBool False | SBV w \<Rightarrow> VBV w 0 | SArr i e \<Rightarrow> VArr (\<lambda>_. 0))"

lemma zero_model_good [simp]: "good_model zero_model"
  by (simp add: good_model_def zero_model_def split: srt.split)

theorem store_load_roundtrip_witness:
  "let a = TA_mkVar ''mem''; i = BV_mkConst 5 64; e = BV_mkConst (2 ^ 70 + 3) 100; k = BV_mkConst 9 64 in
   (\<exists>a' r. Scatter_store a i e = Some a' \<and> Scatter_select a' i 100 = Some r \<and> eval zero_model (ve_expr r) = VBV 100 (2 ^ 70 + 3)) \<and>
   (\<exists>a' r r0. Scatter_store a i e = Some a' \<and> Scatter_select a' k 8 = Some r \<and> Scatter_select a k 8 = Some r0 \<and>
      eval zero_model (ve_expr r) = eval zero_model (ve_expr r0))"
proof -
  let ?a = "TA_mkVar ''mem''" and ?i = "BV_mkConst 5 64" and ?e = "BV_mkConst (2 ^ 70 + 3) 100" and ?k = "BV_mkConst 9 64"
  have s: "sort_of (ve_expr ?a) = Some (SArr 64 64)" "sort_of (ve_expr ?i) = Some (SBV 64)"
      "sort_of (ve_expr ?e) = Some (SBV 100)" "sort_of (ve_expr ?k) = Some (SBV 64)"
    by (simp_all add: TA_mkVar_def BV_mkConst_def VE_def mkNumericConst_def PtrSize_def ElemSize_def)
  have v: "eval zero_model (ve_expr ?i) = VBV 64 5" "eval zero_model (ve_expr ?k) = VBV 64 9"
      "eval zero_model (ve_expr ?e) = VBV 100 (2 ^ 70 + 3)"
    by (simp_all add: BV_mkConst_def VE_def mkNumericConst_def take_bit_eq_mod)
  have c: "\<forall>x < cells 8. \<forall>y < cells 100. eval zero_model (ve_expr (cell_at ?k x)) \<noteq> eval zero_model (ve_expr (cell_at ?i y))"
    by (simp add: cell_at_eval(2)[OF zero_model_good s(4) v(2)] cell_at_eval(2)[OF zero_model_good s(2) v(1)]
        cells_def ElemSize_def less_Suc_eq take_bit_eq_mod)
  have "\<exists>a' r. Scatter_store ?a ?i ?e = Some a' \<and> Scatter_select a' ?i 100 = Some r \<and>
      eval zero_model (ve_expr r) = eval zero_model (ve_expr ?e)"
    by (rule store_load_roundtrip[OF zero_model_good s(1-3), THEN conjunct1]) simp_all
  moreover have "\<exists>a' r r0. Scatter_store ?a ?i ?e = Some a' \<and> Scatter_select a' ?k 8 = Some r \<and> Scatter_select ?a ?k 8 = Some r0 \<and>
      eval zero_model (ve_expr r) = eval zero_model (ve_expr r0)"
    by (rule store_load_roundtrip[OF zero_model_good s(1-3), THEN conjunct2, rule_format]) (simp_all add: s(4) c)
  ultimately show ?thesis unfolding Let_def v(3) by (rule conjI)
qed

end
