(* ===== verification/SmtContext.thy ===== *)
theory SmtContext
  imports SmtMemory States
begin

text \<open>
  The execution context of the SMT encoding (src/SMT/ExecutionContext.stub.h,
  src/SMT/ExecutionContext.stub.cpp.inc, src/SMT/ExprFactory.stub.cpp.inc): the memory arrays by name,
  each with a version that grows with every store, the two allocation pointers and the axioms gathered so
  far.  The encoding threads the context and the number of fresh names of the solver, which no copy of a
  context resets.  The options of the analysis that are off by default (\<open>craig-colton-bounds\<close>,
  \<open>memory-defaults-to-unknown\<close>, \<open>use-range-stores\<close>, \<open>freevar-choices\<close>) are off.
\<close>

section \<open>The expression factory (ExprFactory)\<close>

definition getPtrVar :: "string \<Rightarrow> ValueExpr" where "getPtrVar nm = VE (EVar (SBV PtrSize) nm)"

text \<open>The argument is an \<open>int\<close>.\<close>

definition getPtrConst :: "32 word \<Rightarrow> ValueExpr" where "getPtrConst p = BV_mkConst (sint p) PtrSize"

definition getNullPtr :: ValueExpr where "getNullPtr = BV_mkConst 0 PtrSize"
definition getInvalidPtr :: ValueExpr where "getInvalidPtr = getPtrConst (ring_bit_operations_class.not 0)"

definition getIntVar :: "string \<Rightarrow> nat \<Rightarrow> ValueExpr" where "getIntVar nm sz = VE (EVar (SBV sz) nm)"
definition getIntConst :: "32 word \<Rightarrow> nat \<Rightarrow> ValueExpr" where "getIntConst v sz = BV_mkConst (sint v) sz"
definition getTrue :: ValueExpr where "getTrue = Bool_mkConst True"
definition getFalse :: ValueExpr where "getFalse = Bool_mkConst False"

definition getDefaultMemoryArray :: "int \<Rightarrow> ValueExpr" where
  "getDefaultMemoryArray def = TA_mkDefault (BV_mkConst def ElemSize)"

definition getNoMemoryArray :: ValueExpr where "getNoMemoryArray = getDefaultMemoryArray 255"

text \<open>The solver refuses an ill-sorted expression when it is built.\<close>

definition z3_checked :: "ValueExpr \<Rightarrow> ValueExpr option" where
  "z3_checked v = (if sort_of (ve_expr v) \<noteq> None \<and> sort_of (ve_axiom v) \<noteq> None then Some v else None)"

section \<open>The state\<close>

record MemArrayWithVersion =
  mem :: ValueExpr
  version :: nat

record ExecutionContext =
  memArrays :: "string \<rightharpoonup> MemArrayWithVersion"
  initialMemArrays :: "string \<rightharpoonup> MemArrayWithVersion"
  globalPtr :: "64 word"
  localPtr :: "64 word"
  localMemoryStart :: "64 word"
  localMemoryEnd :: "64 word"
  contextAxioms :: "expr list"

type_synonym enc_state = "ExecutionContext \<times> nat"

definition MEMORY_ID :: string where "MEMORY_ID = ''$$__memory__$$''"
definition GEP_BOUNDS_ID :: string where "GEP_BOUNDS_ID = ''$$__gep_bound__$$''"

definition memory_id :: "size_t \<Rightarrow> string" where "memory_id ms = MEMORY_ID @ nat_to_string (unat ms)"
definition gep_id :: "size_t \<Rightarrow> string" where "gep_id ms = GEP_BOUNDS_ID @ nat_to_string (unat ms)"

definition versioned :: "ValueExpr \<Rightarrow> MemArrayWithVersion" where "versioned a = \<lparr>mem = a, version = 0\<rparr>"

section \<open>Versioned arrays\<close>

definition MA_select :: "MemArrayWithVersion \<Rightarrow> ValueExpr \<Rightarrow> nat \<Rightarrow> ValueExpr option" where
  "MA_select a key bs = do { r \<leftarrow> Scatter_select (mem a) key bs; z3_checked r }"

definition MA_store :: "MemArrayWithVersion \<Rightarrow> ValueExpr \<Rightarrow> ValueExpr \<Rightarrow> MemArrayWithVersion option" where
  "MA_store a ix e = do { nmem0 \<leftarrow> Scatter_store (mem a) ix e; nmem \<leftarrow> z3_checked nmem0; Some \<lparr>mem = nmem, version = Suc (version a)\<rparr> }"

definition MA_store_cell :: "MemArrayWithVersion \<Rightarrow> ValueExpr \<Rightarrow> ValueExpr \<Rightarrow> MemArrayWithVersion option" where
  "MA_store_cell a ix b = do {
     nmem \<leftarrow> z3_checked (Scatter_store_cell (mem a) ix b); Some \<lparr>mem = nmem, version = Suc (version a)\<rparr> }"

definition MA_merge :: "MemArrayWithVersion \<Rightarrow> (ValueExpr \<times> MemArrayWithVersion) list \<Rightarrow> MemArrayWithVersion" where
  "MA_merge deflt alts =
     (let ver = version deflt;
          maxVersion = foldl (\<lambda>m alt. max m (version (snd alt))) ver alts
      in if ver = maxVersion then deflt
         else \<lparr>mem = TA_merge (mem deflt) (map (\<lambda>alt. (fst alt, mem (snd alt))) alts), version = Suc maxVersion\<rparr>)"

section \<open>Arrays by name\<close>

text \<open>A missing array is added to both maps.\<close>

definition ctx_touch :: "string \<Rightarrow> ExecutionContext \<Rightarrow> ExecutionContext" where
  "ctx_touch i c = (if memArrays c i \<noteq> None then c
     else c\<lparr>memArrays := (memArrays c)(i \<mapsto> versioned getNoMemoryArray),
            initialMemArrays := (case initialMemArrays c i of
               None \<Rightarrow> (initialMemArrays c)(i \<mapsto> versioned getNoMemoryArray) | Some a \<Rightarrow> initialMemArrays c)\<rparr>)"

definition ctx_lookup :: "ExecutionContext \<Rightarrow> string \<Rightarrow> MemArrayWithVersion" where
  "ctx_lookup c i = (case memArrays c i of Some a \<Rightarrow> a | None \<Rightarrow> versioned getNoMemoryArray)"

definition ctx_get :: "string \<Rightarrow> ExecutionContext \<Rightarrow> MemArrayWithVersion \<times> ExecutionContext" where
  "ctx_get i c = (ctx_lookup c i, ctx_touch i c)"

definition ctx_set :: "string \<Rightarrow> MemArrayWithVersion \<Rightarrow> ExecutionContext \<Rightarrow> ExecutionContext" where
  "ctx_set i a c = c\<lparr>memArrays := (memArrays c)(i \<mapsto> a)\<rparr>"

text \<open>A new bounds array knows the bound of the null pointer, -1.\<close>

definition initGepBounds :: "size_t \<Rightarrow> enc_state \<Rightarrow> enc_state option" where
  "initGepBounds ms = (\<lambda>(c, k). do {
     let a = (case memArrays c (gep_id ms) of Some a \<Rightarrow> a | None \<Rightarrow> versioned (TA_mkFree (gep_id ms) k));
     a' \<leftarrow> MA_store a getNullPtr (getIntConst (- 1) 64);
     Some (ctx_set (gep_id ms) a' c, Suc k) })"

definition gepBounds :: "size_t \<Rightarrow> enc_state \<Rightarrow> (MemArrayWithVersion \<times> enc_state) option" where
  "gepBounds ms s = do {
     s' \<leftarrow> (if memArrays (fst s) (gep_id ms) = None then initGepBounds ms s else Some s);
     let (a, c) = ctx_get (gep_id ms) (fst s');
     Some (a, c, snd s') }"

definition init_context :: "64 word \<Rightarrow> 64 word \<Rightarrow> nat \<Rightarrow> enc_state option" where
  "init_context memStart memEnd k =
     initGepBounds 0 (\<lparr>memArrays = Map.empty, initialMemArrays = [MEMORY_ID \<mapsto> versioned getNoMemoryArray],
       globalPtr = 1, localPtr = memStart, localMemoryStart = memStart, localMemoryEnd = memEnd, contextAxioms = []\<rparr>, k)"

section \<open>Bounds and allocation\<close>

definition getBound :: "ValueExpr \<Rightarrow> nat \<Rightarrow> size_t \<Rightarrow> enc_state \<Rightarrow> (ValueExpr \<times> enc_state) option" where
  "getBound p bs ms s = do { (a, s') \<leftarrow> gepBounds ms s; r \<leftarrow> MA_select a p bs; Some (r, s') }"

definition add_axiom :: "expr \<Rightarrow> enc_state \<Rightarrow> enc_state" where
  "add_axiom ax s = ((fst s)\<lparr>contextAxioms := contextAxioms (fst s) @ [ax]\<rparr>, snd s)"

definition writeBound :: "ValueExpr \<Rightarrow> ValueExpr \<Rightarrow> size_t \<Rightarrow> enc_state \<Rightarrow> enc_state option" where
  "writeBound p bound ms s = do {
     (b, s') \<leftarrow> getBound p (getBitSize bound) ms s;
     eq \<leftarrow> z3_checked (BV_binary B_EQUAL b bound);
     Some (add_axiom (asAxiom eq) s') }"

text \<open>\<open>getPtrConst\<close> takes the \<open>int\<close> that a pointer is cut to.\<close>

definition getGlobalPtr :: "size_t \<Rightarrow> size_t \<Rightarrow> ValueExpr \<Rightarrow> enc_state \<Rightarrow> (ValueExpr \<times> enc_state) option" where
  "getGlobalPtr ms offsetSize origSize s = do {
     let ret = getPtrConst (ucast (globalPtr (fst s)));
     s' \<leftarrow> writeBound ret origSize ms ((fst s)\<lparr>globalPtr := globalPtr (fst s) + 2 * offsetSize\<rparr>, snd s);
     Some (ret, s') }"

definition getGlobalPtr_default :: "size_t \<Rightarrow> size_t \<Rightarrow> enc_state \<Rightarrow> (ValueExpr \<times> enc_state) option" where
  "getGlobalPtr_default ms offsetSize s = getGlobalPtr ms offsetSize (getIntConst (ucast offsetSize) 64) s"

definition getLocalPtr :: "size_t \<Rightarrow> size_t \<Rightarrow> ValueExpr \<Rightarrow> enc_state \<Rightarrow> (ValueExpr \<times> enc_state) option" where
  "getLocalPtr ms offsetSize origSize s = do {
     let ret = getPtrConst (ucast (localPtr (fst s)));
     s' \<leftarrow> writeBound ret origSize ms ((fst s)\<lparr>localPtr := localPtr (fst s) + 2 * offsetSize\<rparr>, snd s);
     Some (ret, s') }"

section \<open>Memory and properties\<close>

definition readExpr :: "string \<Rightarrow> ValueExpr \<Rightarrow> nat \<Rightarrow> enc_state \<Rightarrow> (ValueExpr \<times> enc_state) option" where
  "readExpr i ix bs s = (let (a, c) = ctx_get i (fst s) in do { r \<leftarrow> MA_select a ix bs; Some (r, c, snd s) })"

definition writeExpr :: "string \<Rightarrow> ValueExpr \<Rightarrow> ValueExpr \<Rightarrow> enc_state \<Rightarrow> enc_state option" where
  "writeExpr i ix v s = (let (a, c) = ctx_get i (fst s) in do { a' \<leftarrow> MA_store a ix v; Some (ctx_set i a' c, snd s) })"

definition writeCell :: "string \<Rightarrow> ValueExpr \<Rightarrow> ValueExpr \<Rightarrow> enc_state \<Rightarrow> enc_state option" where
  "writeCell i ix b s = (let (a, c) = ctx_get i (fst s) in do { a' \<leftarrow> MA_store_cell a ix b; Some (ctx_set i a' c, snd s) })"

definition readExprFromMemory :: "ValueExpr \<Rightarrow> nat \<Rightarrow> size_t \<Rightarrow> enc_state \<Rightarrow> (ValueExpr \<times> enc_state) option" where
  "readExprFromMemory ix bs ms s = readExpr (memory_id ms) ix bs s"

definition readProperty :: "string \<Rightarrow> ValueExpr \<Rightarrow> nat \<Rightarrow> enc_state \<Rightarrow> (ValueExpr \<times> enc_state) option" where
  "readProperty i ix bs s = readExpr i ix bs s"

text \<open>A vector is cast to one memory cell before it is stored.\<close>

definition writeExprToMemory :: "ValueExpr \<Rightarrow> ValueExpr \<Rightarrow> size_t \<Rightarrow> enc_state \<Rightarrow> enc_state option" where
  "writeExprToMemory ix v ms s = do { b \<leftarrow> BVN_forceCast ElemSize v; writeCell (memory_id ms) ix b s }"

definition writeProperty :: "string \<Rightarrow> ValueExpr \<Rightarrow> ValueExpr \<Rightarrow> enc_state \<Rightarrow> enc_state option" where
  "writeProperty i ix v s = do { b \<leftarrow> BVN_forceCast ElemSize v; writeCell i ix b s }"

section \<open>Merging the contexts of a choice\<close>

text \<open>The merged context starts as a new one, and takes the axioms of all the alternatives.\<close>

definition mergeMemory :: "ExecutionContext \<Rightarrow> (ValueExpr \<times> ExecutionContext) list \<Rightarrow> nat \<Rightarrow> enc_state option" where
  "mergeMemory deflt contexts k = do {
     (res, k') \<leftarrow> init_context 0 0 k;
     Some (res\<lparr>
       memArrays := (\<lambda>i. if memArrays deflt i \<noteq> None \<or> list_ex (\<lambda>ch. memArrays (snd ch) i \<noteq> None) contexts
           then Some (MA_merge (ctx_lookup deflt i) (map (\<lambda>ch. (fst ch, ctx_lookup (snd ch) i)) contexts))
           else memArrays res i),
       globalPtr := foldl (\<lambda>m ch. max m (globalPtr (snd ch))) (globalPtr res) contexts,
       localPtr := foldl (\<lambda>m ch. max m (localPtr (snd ch))) (localPtr res) contexts,
       contextAxioms := concat (map (\<lambda>ch. contextAxioms (snd ch)) contexts)\<rparr>, k') }"

definition switchOn :: "(ValueExpr \<times> ExecutionContext) list \<Rightarrow> enc_state \<Rightarrow> enc_state option" where
  "switchOn contexts s = do {
     (merged, k') \<leftarrow> mergeMemory (fst s) contexts (snd s);
     Some ((fst s)\<lparr>memArrays := memArrays merged, globalPtr := globalPtr merged, localPtr := localPtr merged,
       contextAxioms := contextAxioms merged\<rparr>, k') }"

end
