(* ===== verification/SmtEncode.thy ===== *)
theory SmtEncode
  imports SmtContext
begin

text \<open>
  The encoding of terms (\<open>SMTImpl::doit\<close> of src/Term, dispatched by src/SMT/SMT.hpp).
  \<open>None\<close> is a failed assertion, a \<open>BYE_BYE\<close> or an exception of the solver about ill-sorted operands.
  The arguments of an overloaded operator are encoded from left to right.
\<close>

text \<open>The parameters: the solver's simplifier, the conversion of a double to \<open>long long\<close>, and the
  options \<open>nullable-mallocs\<close> (by default on) and \<open>skip-static-init\<close> (by default on).\<close>

record enc_config =
  solver_simplify :: "expr \<Rightarrow> expr"
  double_to_int :: "64 word \<Rightarrow> 64 word"
  nullable_mallocs :: bool
  skip_static_init :: bool

section \<open>Sizes and variables\<close>

fun size_for_type :: "env \<Rightarrow> nat \<Rightarrow> Type \<Rightarrow> nat option" where
  "size_for_type E 0 ty = None"
| "size_for_type E (Suc k) ty = (case ty of
      TInteger b s \<Rightarrow> Some (unat b)
    | TPointer p ms \<Rightarrow> Some PtrSize | TArray e sz \<Rightarrow> Some PtrSize | TFloat \<Rightarrow> Some 64 | TBool \<Rightarrow> Some 1
    | TRecord nm \<Rightarrow> do {
        body \<leftarrow> RecordBodyRef_get E nm;
        ss \<leftarrow> omap (\<lambda>f. size_for_type E k (field_type f)) body;
        let sum = sum_list ss in Some (if sum \<noteq> 0 then sum else 1) }
    | _ \<Rightarrow> None)"

definition sizeForType :: "env \<Rightarrow> Type \<Rightarrow> nat option" where
  "sizeForType E ty = size_for_type E (env_stack E) ty"

definition var_sort :: "env \<Rightarrow> Type \<Rightarrow> srt option" where
  "var_sort E ty = (case ty of
      TInteger b s \<Rightarrow> Some (SBV (unat b)) | TFloat \<Rightarrow> Some (SBV 64) | TBool \<Rightarrow> Some SBool
    | TPointer p ms \<Rightarrow> Some (SBV PtrSize) | TUnknown \<Rightarrow> None | TTypeError msg \<Rightarrow> None
    | _ \<Rightarrow> map_option SBV (sizeForType E ty))"

definition getVarByTypeAndName :: "env \<Rightarrow> Type \<Rightarrow> string \<Rightarrow> ValueExpr option" where
  "getVarByTypeAndName E ty nm = map_option (\<lambda>s. VE (EVar s nm)) (var_sort E ty)"

definition getFreshVar :: "env \<Rightarrow> Type \<Rightarrow> string \<Rightarrow> enc_state \<Rightarrow> (ValueExpr \<times> enc_state) option" where
  "getFreshVar E ty nm s = do { so \<leftarrow> var_sort E ty; Some (VE (EFresh so nm (snd s)), fst s, Suc (snd s)) }"

text \<open>A numeral given as a string.\<close>

definition digit_val :: "char \<Rightarrow> nat option" where
  "digit_val c = (let n = of_char c in if 48 \<le> n \<and> n < 58 then Some (n - 48) else None)"

fun digits_val :: "nat \<Rightarrow> string \<Rightarrow> nat option" where
  "digits_val acc [] = Some acc"
| "digits_val acc (c # cs) = do { d \<leftarrow> digit_val c; digits_val (10 * acc + d) cs }"

definition numeral_val :: "string \<Rightarrow> int option" where
  "numeral_val s = (case s of
      [] \<Rightarrow> None
    | c # cs \<Rightarrow> if c = CHR ''-'' then (if cs = [] then None else map_option (\<lambda>n. - int n) (digits_val 0 cs))
               else map_option int (digits_val 0 s))"

definition getIntConst_string :: "string \<Rightarrow> nat \<Rightarrow> ValueExpr option" where
  "getIntConst_string v sz = map_option (\<lambda>i. BV_mkConst i sz) (numeral_val v)"

definition ptr_memspace :: "Type \<Rightarrow> size_t" where
  "ptr_memspace ty = (case ty of TPointer p ms \<Rightarrow> ms | _ \<Rightarrow> 0)"

section \<open>Terms, class by class\<close>

definition ArgumentTerm_doit :: "env \<Rightarrow> Type \<Rightarrow> string \<Rightarrow> ExecutionContext \<Rightarrow> ValueExpr option" where
  "ArgumentTerm_doit E ty nm c = do {
     res \<leftarrow> getVarByTypeAndName E ty nm;
     (case ty of
        TPointer p ms \<Rightarrow> Some (VE_withAxiom res
          (Bool_or (BV_binary B_ULT res (getIntConst (ucast (localMemoryStart c)) 64))
                   (BV_binary B_UGT res (getIntConst (ucast (localMemoryEnd c)) 64))))
      | _ \<Rightarrow> Some res) }"

definition BinaryTerm_doit :: "ArithType \<Rightarrow> ValueExpr \<Rightarrow> ValueExpr \<Rightarrow> ValueExpr option" where
  "BinaryTerm_doit op lhv rhv =
     (if Bool_isValid lhv \<and> Bool_isValid rhv then (case op of
        BAND \<Rightarrow> Some (Bool_and lhv rhv) | LAND \<Rightarrow> Some (Bool_and lhv rhv)
      | BOR \<Rightarrow> Some (Bool_or lhv rhv) | LOR \<Rightarrow> Some (Bool_or lhv rhv)
      | XOR \<Rightarrow> Some (Bool_xor lhv rhv) | IMPLIES \<Rightarrow> Some (Bool_implies lhv rhv)
      | _ \<Rightarrow> None)
      else if BV_isValid lhv \<and> BV_isValid rhv then (case op of
        ADD \<Rightarrow> Some (BV_binary B_ADD lhv rhv) | BAND \<Rightarrow> Some (BV_binary B_BAND lhv rhv)
      | BOR \<Rightarrow> Some (BV_binary B_BOR lhv rhv) | DIV \<Rightarrow> Some (BV_binary B_SDIV lhv rhv)
      | SHL \<Rightarrow> Some (BV_binary B_ASHL lhv rhv) | MUL \<Rightarrow> Some (BV_binary B_SMUL lhv rhv)
      | REM \<Rightarrow> Some (BV_binary B_SREM lhv rhv) | ASHR \<Rightarrow> Some (BV_shr lhv rhv)
      | SUB \<Rightarrow> Some (BV_binary B_SUB lhv rhv) | XOR \<Rightarrow> Some (BV_binary B_BXOR lhv rhv)
      | LSHR \<Rightarrow> Some (BV_lshr lhv rhv)
      | _ \<Rightarrow> None)
      else None)"

definition CmpTerm_doit :: "ConditionType \<Rightarrow> ValueExpr \<Rightarrow> ValueExpr \<Rightarrow> ValueExpr option" where
  "CmpTerm_doit op lhv rhv =
     (if op = TRUE then Some getTrue else if op = FALSE then Some getFalse
      else if Bool_isValid lhv \<and> Bool_isValid rhv \<and> op = EQ then Some (Bool_eq lhv rhv)
      else if Bool_isValid lhv \<and> Bool_isValid rhv \<and> op = NEQ then Some (Bool_neq lhv rhv)
      else if BV_isValid lhv \<and> BV_isValid rhv then (case op of
        EQ \<Rightarrow> Some (BV_binary B_EQUAL lhv rhv) | NEQ \<Rightarrow> Some (BV_binary B_NEQUAL lhv rhv)
      | GT \<Rightarrow> Some (BV_binary B_SGT lhv rhv) | GE \<Rightarrow> Some (BV_binary B_SGE lhv rhv)
      | LT \<Rightarrow> Some (BV_binary B_SLT lhv rhv) | LE \<Rightarrow> Some (BV_binary B_SLE lhv rhv)
      | UGT \<Rightarrow> Some (BV_binary B_UGT lhv rhv) | UGE \<Rightarrow> Some (BV_binary B_UGE lhv rhv)
      | ULT \<Rightarrow> Some (BV_binary B_ULT lhv rhv) | ULE \<Rightarrow> Some (BV_binary B_ULE lhv rhv)
      | _ \<Rightarrow> None)
      else None)"

definition UnaryTerm_doit :: "UnaryArithType \<Rightarrow> ValueExpr \<Rightarrow> ValueExpr option" where
  "UnaryTerm_doit op rhv = (case op of
      BNOT \<Rightarrow> if BV_isValid rhv then Some (BV_not rhv) else None
    | NEG \<Rightarrow> if BV_isValid rhv then Some (BV_neg rhv) else None
    | NOT \<Rightarrow> if Bool_isValid rhv then Some (Bool_not rhv) else None)"

definition CastTerm_doit :: "bool \<Rightarrow> Type \<Rightarrow> Type \<Rightarrow> ValueExpr \<Rightarrow> ValueExpr option" where
  "CastTerm_doit signExtend lt rt rhv =
     (if \<not> BV_isValid rhv then None else (case (lt, rt) of
        (TInteger b s, TInteger b' s') \<Rightarrow> adaptTo (unat b) signExtend rhv
      | (TFloat, TFloat) \<Rightarrow> Some rhv
      | (TFloat, TInteger b s) \<Rightarrow> BVN_forceCast 64 rhv
      | (TInteger b s, TFloat) \<Rightarrow> adaptTo (unat b) False rhv
      | (TPointer p ms, TInteger b s) \<Rightarrow> BVN_forceCast PtrSize rhv
      | (TInteger b s, TPointer p ms) \<Rightarrow> adaptTo (unat b) False rhv
      | (TPointer p ms, TPointer p' ms') \<Rightarrow> Some rhv
      | _ \<Rightarrow> None))"

definition SignTerm_doit :: "ValueExpr \<Rightarrow> ValueExpr option" where
  "SignTerm_doit rhv =
     (if BV_isValid rhv \<and> 0 < getBitSize rhv then BV_extract (getBitSize rhv - 1) (getBitSize rhv - 1) rhv else None)"

definition TernaryTerm_doit :: "ValueExpr \<Rightarrow> ValueExpr \<Rightarrow> ValueExpr \<Rightarrow> ValueExpr option" where
  "TernaryTerm_doit cnd tru fls = (if Bool_isValid cnd then Some (if_then_else cnd tru fls) else None)"

definition OpaqueIntConstantTerm_doit :: "env \<Rightarrow> Type \<Rightarrow> 64 word \<Rightarrow> ValueExpr option" where
  "OpaqueIntConstantTerm_doit E ty v = do {
     sz \<leftarrow> sizeForType E ty;
     (if 32 < sz then getIntConst_string (int_to_string (sint v)) sz else Some (getIntConst (ucast v) sz)) }"

text \<open>A term without subterms.\<close>

definition leaf_doit :: "enc_config \<Rightarrow> env \<Rightarrow> term_class \<Rightarrow> Type \<Rightarrow> string \<Rightarrow> enc_state \<Rightarrow> (ValueExpr \<times> enc_state) option" where
  "leaf_doit C E cls ty nm s = (let pure = map_option (\<lambda>v. (v, s)) in case cls of
      ArgumentTerm i k \<Rightarrow> pure (ArgumentTerm_doit E ty nm (fst s))
    | ArgumentCountTerm \<Rightarrow> Some (getIntVar ''$$bor.argcount$$'' 64, s)
    | ConstTerm \<Rightarrow> pure (getVarByTypeAndName E ty nm)
    | FreeVarTerm f \<Rightarrow> pure (getVarByTypeAndName E ty nm)
    | OpaqueBigIntConstantTerm \<Rightarrow> pure (do { sz \<leftarrow> sizeForType E ty; getIntConst_string nm sz })
    | OpaqueBoolConstantTerm b \<Rightarrow> Some (Bool_mkConst b, s)
    | OpaqueFloatingConstantTerm d \<Rightarrow> Some (BV_mkConst (sint (double_to_int C d)) 64, s)
    | OpaqueIntConstantTerm v \<Rightarrow> pure (OpaqueIntConstantTerm_doit E ty v)
    | OpaqueInvalidPtrTerm \<Rightarrow> Some (getInvalidPtr, s)
    | OpaqueNullPtrTerm \<Rightarrow> Some (getNullPtr, s)
    | OpaqueUndefTerm \<Rightarrow> getFreshVar E ty nm s
    | ReturnPtrTerm f \<Rightarrow> pure (getVarByTypeAndName E ty nm)
    | ReturnValueTerm f \<Rightarrow> pure (getVarByTypeAndName E ty nm)
    | ValueTerm g gl \<Rightarrow> pure (getVarByTypeAndName E ty nm)
    | VarArgumentTerm i \<Rightarrow> Some (getPtrVar (''$$bor.vararg.'' @ nat_to_string (unat i) @ ''$$''), s)
    | _ \<Rightarrow> None)"

text \<open>A class that encodes one or two subterms and then reads the context.\<close>

definition BoundTerm_doit :: "env \<Rightarrow> Type \<Rightarrow> Type \<Rightarrow> ValueExpr \<Rightarrow> enc_state \<Rightarrow> (ValueExpr \<times> enc_state) option" where
  "BoundTerm_doit E ty rt rp s =
     (if BVN_isValid PtrSize rp then do { sz \<leftarrow> sizeForType E ty; getBound rp sz (ptr_memspace rt) s } else None)"

definition LoadTerm_doit :: "env \<Rightarrow> Type \<Rightarrow> Type \<Rightarrow> ValueExpr \<Rightarrow> enc_state \<Rightarrow> (ValueExpr \<times> enc_state) option" where
  "LoadTerm_doit E ty rt rp s =
     (if BVN_isValid PtrSize rp then do {
        sz \<leftarrow> sizeForType E ty;
        (ret, s') \<leftarrow> readExprFromMemory rp sz (ptr_memspace rt) s;
        (if ty = TBool then map_option (\<lambda>v. (v, s')) (Bool_forceCast ret) else Some (ret, s')) }
      else None)"

definition ReadPropertyTerm_doit ::
  "env \<Rightarrow> Type \<Rightarrow> Term \<Rightarrow> ValueExpr \<Rightarrow> enc_state \<Rightarrow> (ValueExpr \<times> enc_state) option" where
  "ReadPropertyTerm_doit E ty propName rp s = (case tclass propName of
      OpaqueStringConstantTerm str \<Rightarrow>
        (if BV_isValid rp then do {
           p \<leftarrow> BVN_forceCast PtrSize rp;
           sz \<leftarrow> sizeForType E ty;
           readProperty str p sz s }
         else None)
    | _ \<Rightarrow> None)"

section \<open>Addresses (GepTerm)\<close>

definition is_zero_constant :: "Term \<Rightarrow> bool" where
  "is_zero_constant t = (case tclass t of OpaqueIntConstantTerm v \<Rightarrow> v = 0 | _ \<Rightarrow> False)"

text \<open>\<open>shift + by * size\<close>: the product has the width of the index.\<close>

definition add_scaled :: "ValueExpr \<Rightarrow> ValueExpr \<Rightarrow> 64 word \<Rightarrow> ValueExpr" where
  "add_scaled shift by sz = BV_binary B_ADD shift (BV_binary B_SMUL by (ofConstant by (uint sz)))"

definition gep_result :: "size_t \<Rightarrow> bool \<Rightarrow> ValueExpr \<Rightarrow> ValueExpr \<Rightarrow> enc_state \<Rightarrow> (ValueExpr \<times> enc_state) option" where
  "gep_result ms inBounds base shift s = do {
     (b, s1) \<leftarrow> getBound base 64 ms s;
     let diff = BV_binary B_SUB b shift;
     let zero = getIntConst 0 64;
     let shifted = addAxiom (BV_binary B_ADD base shift) (BV_binary B_SGT base zero);
     s2 \<leftarrow> writeBound shifted diff ms s1;
     Some (if inBounds then shifted else addAxiom shifted (BV_binary B_SGT shifted zero), s2) }"

section \<open>Terms\<close>

fun encode :: "enc_config \<Rightarrow> env \<Rightarrow> Term \<Rightarrow> enc_state \<Rightarrow> (ValueExpr \<times> enc_state) option"
  and encode_shifts :: "enc_config \<Rightarrow> env \<Rightarrow> Term list \<Rightarrow> Type \<Rightarrow> ValueExpr \<Rightarrow> enc_state \<Rightarrow> (ValueExpr \<times> enc_state) option" where
  "encode C E (Term cls ty nm subs) s = do {
     (v, s') \<leftarrow> (case subs of
       [] \<Rightarrow> leaf_doit C E cls ty nm s
     | t1 # rest \<Rightarrow> do {
        (v1, s1) \<leftarrow> encode C E t1 s;
        (case cls of
           GepTerm inBounds \<Rightarrow>
             (if \<not> BVN_isValid PtrSize v1 then None
              else if list_all is_zero_constant rest then Some (v1, s1)
              else (case (ttype t1, rest) of
                (TPointer tp ms, h # shifts) \<Rightarrow> do {
                  sz \<leftarrow> getTypeSizeInElems E tp;
                  (by, s2) \<leftarrow> encode C E h s1;
                  (if BV_isValid by then do {
                     (shift, s3) \<leftarrow> encode_shifts C E shifts tp (add_scaled (getIntConst 0 64) by sz) s2;
                     gep_result ms inBounds v1 shift s3 }
                   else None) }
              | _ \<Rightarrow> None))
         | UnaryTerm op \<Rightarrow> do { v \<leftarrow> UnaryTerm_doit op v1; Some (v, s1) }
         | CastTerm sg \<Rightarrow> do { v \<leftarrow> CastTerm_doit sg ty (ttype t1) v1; Some (v, s1) }
         | SignTerm \<Rightarrow> do { v \<leftarrow> SignTerm_doit v1; Some (v, s1) }
         | BoundTerm \<Rightarrow> BoundTerm_doit E ty (ttype t1) v1 s1
         | LoadTerm \<Rightarrow> LoadTerm_doit E ty (ttype t1) v1 s1
         | _ \<Rightarrow> (case rest of
             [] \<Rightarrow> None
           | t2 # rest' \<Rightarrow>
              (if cls = ReadPropertyTerm then ReadPropertyTerm_doit E ty t2 v1 s1 else do {
                (v2, s2) \<leftarrow> encode C E t2 s1;
                (case cls of
                   BinaryTerm op \<Rightarrow> do { v \<leftarrow> BinaryTerm_doit op v1 v2; Some (v, s2) }
                 | CmpTerm op \<Rightarrow> do { v \<leftarrow> CmpTerm_doit op v1 v2; Some (v, s2) }
                 | AxiomTerm \<Rightarrow> Some (VE_withAxiom v1 v2, s2)
                 | TernaryTerm \<Rightarrow> (case rest' of
                     [] \<Rightarrow> None
                   | t3 # rest'' \<Rightarrow> do {
                       (v3, s3) \<leftarrow> encode C E t3 s2;
                       v \<leftarrow> TernaryTerm_doit v1 v2 v3;
                       Some (v, s3) })
                 | _ \<Rightarrow> None) }))) });
     v' \<leftarrow> z3_checked v;
     Some (v', s') }"
| "encode_shifts C E [] tp shift s = Some (shift, s)"
| "encode_shifts C E (i # is) tp shift s = (case tp of
      TRecord nm \<Rightarrow> (case tclass i of
        OpaqueIntConstantTerm k \<Rightarrow> do {
          off \<leftarrow> getStructOffsetInElems E tp (ucast k);
          tp' \<leftarrow> getAggregateElement E tp i;
          encode_shifts C E is tp' (BV_binary B_ADD shift (ofConstant shift (uint off))) s }
      | _ \<Rightarrow> None)
    | TArray e n \<Rightarrow> do {
        tp' \<leftarrow> getAggregateElement E tp i;
        sz \<leftarrow> getTypeSizeInElems E tp';
        (by, s1) \<leftarrow> encode C E i s;
        (if BV_isValid by then encode_shifts C E is tp' (add_scaled shift by sz) s1 else None) }
    | _ \<Rightarrow> None)"

declare encode.simps [simp del] encode_shifts.simps(2) [simp del]

end
