(* ===== verification/SmtStates.thy ===== *)
theory SmtStates
  imports SmtEncode
begin

text \<open>
  The encoding of predicates and predicate states (\<open>SMTImpl::doit\<close> of src/Predicate and src/State) and
  the queries of the solver (src/SMT/Z3/Solver.cpp): is a property violated, is a path impossible.
\<close>

section \<open>Predicates\<close>

text \<open>An allocation: the pointer is the next one of the context, or null when a \<open>malloc\<close> may fail.\<close>

definition Alloc_doit :: "enc_config \<Rightarrow> env \<Rightarrow> bool \<Rightarrow> Term \<Rightarrow> Term \<Rightarrow> Term \<Rightarrow> enc_state \<Rightarrow> (ValueExpr \<times> enc_state) option" where
  "Alloc_doit C E nullable lhv numElems origNumElems s = do {
     (lhvp, s1) \<leftarrow> encode C E lhv s;
     (if \<not> BVN_isValid PtrSize lhvp then None else (case tclass numElems of
        OpaqueIntConstantTerm elems \<Rightarrow> do {
          (orig, s2) \<leftarrow> encode C E origNumElems s1;
          (if \<not> BV_isValid orig then None else do {
             (p, s3) \<leftarrow> getLocalPtr (ptr_memspace (ttype lhv)) elems orig s2;
             let eq = BV_binary B_EQUAL lhvp p;
             Some (if nullable then Bool_or (BV_binary B_EQUAL lhvp getNullPtr) eq else eq, s3) }) }
      | _ \<Rightarrow> None)) }"

fun DefaultSwitch_loop :: "enc_config \<Rightarrow> env \<Rightarrow> ValueExpr \<Rightarrow> Term list \<Rightarrow> ValueExpr \<Rightarrow> enc_state \<Rightarrow> (ValueExpr \<times> enc_state) option" where
  "DefaultSwitch_loop C E le [] res s = Some (res, s)"
| "DefaultSwitch_loop C E le (c # cs) res s = do {
     (re, s1) \<leftarrow> encode C E c s;
     (if BV_isValid re then DefaultSwitch_loop C E le cs (Bool_and res (BV_binary B_NEQUAL le re)) s1 else None) }"

fun Globals_loop :: "enc_config \<Rightarrow> env \<Rightarrow> Term list \<Rightarrow> ValueExpr \<Rightarrow> enc_state \<Rightarrow> (ValueExpr \<times> enc_state) option" where
  "Globals_loop C E [] res s = Some (res, s)"
| "Globals_loop C E (g # gs) res s = do {
     (gp, s1) \<leftarrow> encode C E g s;
     (if BVN_isValid PtrSize gp then do {
        (p, s2) \<leftarrow> getGlobalPtr_default (ptr_memspace (ttype g)) 1 s1;
        Globals_loop C E gs (Bool_and res (BV_binary B_EQUAL gp p)) s2 }
      else None) }"

text \<open>The initial data are stored as they are, each in the cell of its index.\<close>

fun SeqData_loop :: "enc_config \<Rightarrow> env \<Rightarrow> size_t \<Rightarrow> Term list \<Rightarrow> ValueExpr \<Rightarrow> enc_state \<Rightarrow> enc_state option" where
  "SeqData_loop C E ms [] base s = Some s"
| "SeqData_loop C E ms (d # ds) base s = do {
     (v, s1) \<leftarrow> encode C E d s;
     s2 \<leftarrow> writeExpr (memory_id ms) base v s1;
     SeqData_loop C E ms ds (BV_binary B_ADD base (ofConstant base 1)) s2 }"

definition SeqDataPredicate_doit :: "enc_config \<Rightarrow> env \<Rightarrow> Term \<Rightarrow> Term list \<Rightarrow> enc_state \<Rightarrow> (ValueExpr \<times> enc_state) option" where
  "SeqDataPredicate_doit C E base data s = do {
     (lp, s1) \<leftarrow> encode C E base s;
     (if \<not> BVN_isValid PtrSize lp then None else do {
        (p, s2) \<leftarrow> getGlobalPtr_default (ptr_memspace (ttype base)) (of_nat (length data)) s1;
        s3 \<leftarrow> (if skip_static_init C then Some s2 else SeqData_loop C E (ptr_memspace (ttype base)) data p s2);
        Some (BV_binary B_EQUAL lp p, s3) }) }"

fun SeqDataZero_loop :: "size_t \<Rightarrow> ValueExpr \<Rightarrow> nat \<Rightarrow> nat \<Rightarrow> enc_state \<Rightarrow> enc_state option" where
  "SeqDataZero_loop ms base i 0 s = Some s"
| "SeqDataZero_loop ms base i (Suc n) s = do {
     s1 \<leftarrow> writeExprToMemory (BV_binary B_ADD base (ofConstant base (int i))) (getIntConst 0 64) ms s;
     SeqDataZero_loop ms base (Suc i) n s1 }"

text \<open>The index of the loop is an \<open>unsigned int\<close>: it never ends for a size above \<open>2 ^ 32\<close>.\<close>

definition SeqDataZeroPredicate_doit :: "enc_config \<Rightarrow> env \<Rightarrow> Term \<Rightarrow> size_t \<Rightarrow> enc_state \<Rightarrow> (ValueExpr \<times> enc_state) option" where
  "SeqDataZeroPredicate_doit C E base sz s = do {
     (lp, s1) \<leftarrow> encode C E base s;
     (if \<not> BVN_isValid PtrSize lp then None else do {
        (p, s2) \<leftarrow> getGlobalPtr_default (ptr_memspace (ttype base)) sz s1;
        s3 \<leftarrow> (if skip_static_init C then Some s2
               else if 2 ^ 32 < unat sz then None
               else SeqDataZero_loop (ptr_memspace (ttype base)) p 0 (unat sz) s2);
        Some (BV_binary B_EQUAL lp p, s3) }) }"

definition StorePredicate_doit :: "enc_config \<Rightarrow> env \<Rightarrow> Term \<Rightarrow> Term \<Rightarrow> enc_state \<Rightarrow> (ValueExpr \<times> enc_state) option" where
  "StorePredicate_doit C E lhv rhv s = do {
     (lp, s1) \<leftarrow> encode C E lhv s;
     (if \<not> BVN_isValid PtrSize lp then None
      else (case ttype rhv of
        TRecord nm \<Rightarrow> Some (getTrue, s1)
      | _ \<Rightarrow> do {
          (rbv, s2) \<leftarrow> encode C E rhv s1;
          (if BV_isValid rbv then do {
             s3 \<leftarrow> writeExprToMemory lp rbv (ptr_memspace (ttype lhv)) s2;
             Some (getTrue, s3) }
           else None) })) }"

definition WriteBoundPredicate_doit :: "enc_config \<Rightarrow> env \<Rightarrow> Term \<Rightarrow> Term \<Rightarrow> enc_state \<Rightarrow> (ValueExpr \<times> enc_state) option" where
  "WriteBoundPredicate_doit C E lhv rhv s = do {
     (lp, s1) \<leftarrow> encode C E lhv s;
     (if \<not> BVN_isValid PtrSize lp then None else do {
        (ri, s2) \<leftarrow> encode C E rhv s1;
        (if BV_isValid ri then do { s3 \<leftarrow> writeBound lp ri (ptr_memspace (ttype lhv)) s2; Some (getTrue, s3) } else None) }) }"

definition WritePropertyPredicate_doit ::
  "enc_config \<Rightarrow> env \<Rightarrow> Term \<Rightarrow> Term \<Rightarrow> Term \<Rightarrow> enc_state \<Rightarrow> (ValueExpr \<times> enc_state) option" where
  "WritePropertyPredicate_doit C E lhv rhv propName s = (case tclass propName of
      OpaqueStringConstantTerm str \<Rightarrow> do {
        (l, s1) \<leftarrow> encode C E lhv s;
        (if \<not> BV_isValid l then None else do {
           lp \<leftarrow> BVN_forceCast PtrSize l;
           (rbv, s2) \<leftarrow> encode C E rhv s1;
           (if BV_isValid rbv then do { s3 \<leftarrow> writeProperty str lp rbv s2; Some (getTrue, s3) } else None) }) }
    | _ \<Rightarrow> None)"

definition EqualityPredicate_doit ::
  "enc_config \<Rightarrow> env \<Rightarrow> bool \<Rightarrow> Term \<Rightarrow> Term \<Rightarrow> enc_state \<Rightarrow> (ValueExpr \<times> enc_state) option" where
  "EqualityPredicate_doit C E equal lhv rhv s = do {
     (l, s1) \<leftarrow> encode C E lhv s;
     (r, s2) \<leftarrow> encode C E rhv s1;
     v \<leftarrow> (if equal then VE_eq l r else VE_neq l r);
     Some (v, s2) }"

definition encode_pred :: "enc_config \<Rightarrow> env \<Rightarrow> predicate \<Rightarrow> enc_state \<Rightarrow> (ValueExpr \<times> enc_state) option" where
  "encode_pred C E p s = do {
     (v, s') \<leftarrow> (case (pclass p, ops p) of
        (AllocaPredicate, [lhv, n, orig]) \<Rightarrow> Alloc_doit C E False lhv n orig s
      | (CallPredicate hasLhv, ts) \<Rightarrow> Some (getTrue, s)
      | (DefaultSwitchCasePredicate, cond # cases) \<Rightarrow> do {
          (le, s1) \<leftarrow> encode C E cond s;
          (if BV_isValid le then DefaultSwitch_loop C E le cases getTrue s1 else None) }
      | (EqualityPredicate, [lhv, rhv]) \<Rightarrow> EqualityPredicate_doit C E True lhv rhv s
      | (GlobalsPredicate, globals) \<Rightarrow> Globals_loop C E globals getTrue s
      | (InequalityPredicate, [lhv, rhv]) \<Rightarrow> EqualityPredicate_doit C E False lhv rhv s
      | (MallocPredicate, [lhv, n, orig]) \<Rightarrow> Alloc_doit C E (nullable_mallocs C) lhv n orig s
      | (MarkPredicate, ts) \<Rightarrow> Some (getTrue, s)
      | (SeqDataPredicate, base # data) \<Rightarrow> SeqDataPredicate_doit C E base data s
      | (SeqDataZeroPredicate sz, [base]) \<Rightarrow> SeqDataZeroPredicate_doit C E base sz s
      | (StorePredicate, [lhv, rhv]) \<Rightarrow> StorePredicate_doit C E lhv rhv s
      | (WriteBoundPredicate, [lhv, rhv]) \<Rightarrow> WriteBoundPredicate_doit C E lhv rhv s
      | (WritePropertyPredicate, [lhv, rhv, propName]) \<Rightarrow> WritePropertyPredicate_doit C E lhv rhv propName s
      | _ \<Rightarrow> None);
     v' \<leftarrow> z3_checked v;
     Some (v', s') }"

section \<open>States\<close>

fun encode_preds :: "enc_config \<Rightarrow> env \<Rightarrow> predicate list \<Rightarrow> ValueExpr \<Rightarrow> enc_state \<Rightarrow> (ValueExpr \<times> enc_state) option" where
  "encode_preds C E [] res s = Some (res, s)"
| "encode_preds C E (p # ps) res s = do {
     (v, s1) \<leftarrow> encode_pred C E p s;
     res' \<leftarrow> z3_checked (if ptype p = INVARIANT then addAxiom res v else Bool_and res v);
     encode_preds C E ps res' s1 }"

text \<open>The simplifier of the solver works on the expression and on its axiom.\<close>

definition VE_simplify :: "enc_config \<Rightarrow> ValueExpr \<Rightarrow> ValueExpr" where
  "VE_simplify C v = \<lparr>ve_expr = solver_simplify C (ve_expr v), ve_axiom = solver_simplify C (ve_axiom v)\<rparr>"

text \<open>Each choice works on a copy of the context; the copies are merged under the conditions of their
  paths, except in path mode, which encodes such a condition.\<close>

function encode_state :: "enc_config \<Rightarrow> env \<Rightarrow> bool \<Rightarrow> pstate \<Rightarrow> enc_state \<Rightarrow> (ValueExpr \<times> enc_state) option"
  and encode_choices :: "enc_config \<Rightarrow> env \<Rightarrow> bool \<Rightarrow> pstate list \<Rightarrow> ExecutionContext \<Rightarrow> ValueExpr \<Rightarrow>
    (ValueExpr \<times> ExecutionContext) list \<Rightarrow> nat \<Rightarrow> (ValueExpr \<times> (ValueExpr \<times> ExecutionContext) list \<times> nat) option" where
  "encode_state C E pathMode (Basic data loci) s = do {
     (res, s') \<leftarrow> encode_preds C E data getTrue s;
     Some (Bool_and res getTrue, s') }"
| "encode_state C E pathMode (Chain base cur) s = do {
     (b, s1) \<leftarrow> encode_state C E pathMode base s;
     (c, s2) \<leftarrow> encode_state C E pathMode cur s1;
     v \<leftarrow> z3_checked (Bool_and (Bool_and getTrue b) c);
     Some (v, s2) }"
| "encode_state C E pathMode (Choice cs) s = do {
     (res, memories, k) \<leftarrow> encode_choices C E pathMode cs (fst s) getFalse [] (snd s);
     s' \<leftarrow> (if pathMode then Some (fst s, k) else switchOn memories (fst s, k));
     Some (res, s') }"
| "encode_choices C E pathMode [] ctx res memories k = Some (res, memories, k)"
| "encode_choices C E pathMode (c # cs) ctx res memories k = do {
     (z3state, ctx1, k1) \<leftarrow> encode_state C E pathMode c (ctx, k);
     res' \<leftarrow> z3_checked (Bool_or res z3state);
     (if pathMode then encode_choices C E pathMode cs ctx res' memories k1
      else do {
        let path = simplify (filterByTypes [PATH] c);
        (z3path, ctx2, k2) \<leftarrow> (if state_equals path c then Some (z3state, ctx1, k1)
           else encode_state C E True path (ctx1, k1));
        encode_choices C E pathMode cs ctx res' (memories @ [(VE_simplify C z3path, ctx2)]) k2 }) }"
  by pat_completeness auto
termination
  by (relation "measures [\<lambda>x. case x of Inl (C, E, pm, s, st) \<Rightarrow> if pm then 0 else 1
        | Inr (C, E, pm, cs, ctx, res, ms, k) \<Rightarrow> if pm then 0 else 1,
      \<lambda>x. case x of Inl (C, E, pm, s, st) \<Rightarrow> size s | Inr (C, E, pm, cs, ctx, res, ms, k) \<Rightarrow> size_list size cs]")
    auto

section \<open>Queries (Solver.cpp)\<close>

datatype check_result = SAT | UNSAT | UNKNOWN_RESULT

datatype smt_result = SatResult | UnsatResult | UnknownResult

text \<open>The solver: the answer to a list of assertions and a list of assumptions.\<close>

type_synonym solver = "expr list \<Rightarrow> expr list \<Rightarrow> check_result"

definition uniqueAxioms :: "ExecutionContext \<Rightarrow> expr list" where
  "uniqueAxioms c = remdups (contextAxioms c)"

definition Solver_check :: "solver \<Rightarrow> ValueExpr \<Rightarrow> ValueExpr \<Rightarrow> ExecutionContext \<Rightarrow> check_result option" where
  "Solver_check z3 z3query z3state ctx =
     (let pred = VE (EVar SBool ''$CHECK$'');
          asserted = asAxiom z3state # uniqueAxioms ctx @ [ve_axiom z3query, ve_expr (Bool_implies pred z3query)]
      in if list_all is_bool asserted then Some (z3 asserted [ve_expr pred]) else None)"

definition encode_query :: "enc_config \<Rightarrow> env \<Rightarrow> 64 word \<Rightarrow> 64 word \<Rightarrow> pstate \<Rightarrow> pstate \<Rightarrow> nat \<Rightarrow>
    (ValueExpr \<times> ValueExpr \<times> ExecutionContext) option" where
  "encode_query C E memStart memEnd query state k = do {
     s \<leftarrow> init_context memStart memEnd k;
     (z3state, s1) \<leftarrow> encode_state C E False state s;
     (z3query, s2) \<leftarrow> encode_state C E False query s1;
     Some (z3query, z3state, fst s2) }"

definition isViolated :: "solver \<Rightarrow> enc_config \<Rightarrow> env \<Rightarrow> 64 word \<Rightarrow> 64 word \<Rightarrow> pstate \<Rightarrow> pstate \<Rightarrow> nat \<Rightarrow> smt_result option" where
  "isViolated z3 C E memStart memEnd query state k = do {
     (z3query, z3state, ctx) \<leftarrow> encode_query C E memStart memEnd query state k;
     res \<leftarrow> Solver_check z3 (Bool_not z3query) z3state ctx;
     Some (case res of SAT \<Rightarrow> SatResult | UNKNOWN_RESULT \<Rightarrow> UnknownResult | UNSAT \<Rightarrow> UnsatResult) }"

definition isPathImpossible :: "solver \<Rightarrow> enc_config \<Rightarrow> env \<Rightarrow> 64 word \<Rightarrow> 64 word \<Rightarrow> pstate \<Rightarrow> pstate \<Rightarrow> nat \<Rightarrow> smt_result option" where
  "isPathImpossible z3 C E memStart memEnd path state k = do {
     (z3path, z3state, ctx) \<leftarrow> encode_query C E memStart memEnd path state k;
     res \<leftarrow> Solver_check z3 z3path z3state ctx;
     Some (if res = SAT then SatResult else UnsatResult) }"

end
