(* ===== verification/SmtInvariant.thy ===== *)
theory SmtInvariant
  imports SmtStates
begin

text \<open>
  The invariant of the execution context and what every encoding keeps of it: the arrays keep their sort,
  a changed array has a larger version, no axiom and no array is lost, the stack bounds stay.  With it the
  merge of a choice selects the memory of the alternative that was taken.
\<close>

section \<open>The invariant\<close>

definition array_ok :: "ValueExpr \<Rightarrow> bool" where "array_ok a = (sort_of (ve_expr a) = Some (SArr 64 64))"

definition ctx_ok :: "ExecutionContext \<Rightarrow> bool" where
  "ctx_ok c = ((\<forall>i a. memArrays c i = Some a \<longrightarrow> array_ok (mem a)) \<and> memArrays c (gep_id 0) \<noteq> None)"

text \<open>A later context: versions do not decrease, and an array of the same version is the same array.\<close>

definition later :: "MemArrayWithVersion \<Rightarrow> MemArrayWithVersion \<Rightarrow> bool" where
  "later a b = (version a < version b \<or> a = b)"

definition extends :: "ExecutionContext \<Rightarrow> ExecutionContext \<Rightarrow> bool" where
  "extends c d = ((\<forall>i. later (ctx_lookup c i) (ctx_lookup d i)) \<and> set (contextAxioms c) \<subseteq> set (contextAxioms d) \<and>
     dom (memArrays c) \<subseteq> dom (memArrays d) \<and>
     localMemoryStart d = localMemoryStart c \<and> localMemoryEnd d = localMemoryEnd c)"

text \<open>The same without a claim on the axioms, unless \<open>q\<close>: an empty choice forgets the axioms.\<close>

definition keeps :: "bool \<Rightarrow> ExecutionContext \<Rightarrow> ExecutionContext \<Rightarrow> bool" where
  "keeps q c d = ((\<forall>i. later (ctx_lookup c i) (ctx_lookup d i)) \<and> dom (memArrays c) \<subseteq> dom (memArrays d) \<and>
     localMemoryStart d = localMemoryStart c \<and> localMemoryEnd d = localMemoryEnd c \<and>
     (q \<longrightarrow> set (contextAxioms c) \<subseteq> set (contextAxioms d)))"

definition grows :: "enc_state \<Rightarrow> enc_state \<Rightarrow> bool" where
  "grows s t = ((ctx_ok (fst s) \<longrightarrow> ctx_ok (fst t)) \<and> extends (fst s) (fst t) \<and> snd s \<le> snd t)"

lemma later_refl [simp]: "later a a" and later_trans: "later a b \<Longrightarrow> later b c \<Longrightarrow> later a c"
  by (auto simp: later_def)

lemma extends_refl [simp]: "extends c c"
  by (simp add: extends_def)

lemma extends_trans: "extends a b \<Longrightarrow> extends b c \<Longrightarrow> extends a c"
  unfolding extends_def by (metis later_trans order_trans)

lemma grows_refl [simp]: "grows s s"
  by (simp add: grows_def)

lemma grows_trans [trans]: "grows s t \<Longrightarrow> grows t u \<Longrightarrow> grows s u"
  unfolding grows_def by (auto intro: extends_trans)

definition stays :: "bool \<Rightarrow> enc_state \<Rightarrow> enc_state \<Rightarrow> bool" where
  "stays q s t = ((ctx_ok (fst s) \<longrightarrow> ctx_ok (fst t)) \<and> keeps q (fst s) (fst t) \<and> snd s \<le> snd t)"

lemma extends_keeps: "extends c d \<Longrightarrow> keeps q c d" and keeps_extends: "keeps True = extends"
  by (auto simp: extends_def keeps_def fun_eq_iff)

lemma keeps_refl [simp]: "keeps q c c"
  by (simp add: keeps_def)

lemma keeps_trans: "keeps q a b \<Longrightarrow> keeps q b c \<Longrightarrow> keeps q a c"
  unfolding keeps_def by (metis later_trans order_trans)

lemma stays_refl [simp]: "stays q s s"
  by (simp add: stays_def)

lemma stays_trans: "stays q s t \<Longrightarrow> stays q t u \<Longrightarrow> stays q s u"
  unfolding stays_def by (auto intro: keeps_trans)

lemma grows_stays: "grows s t \<Longrightarrow> stays q s t" and stays_grows: "stays True = grows"
  by (auto simp: grows_def stays_def extends_keeps keeps_extends fun_eq_iff)

section \<open>Operations of the context\<close>

lemma array_ok_default [simp]: "array_ok getNoMemoryArray" "array_ok (TA_mkFree nm k)"
  by (simp_all add: array_ok_def getNoMemoryArray_def getDefaultMemoryArray_def TA_mkDefault_def TA_mkFree_def BV_mkConst_def
      VE_def mkNumericConst_def PtrSize_def ElemSize_def)

lemma ctx_lookup_ok: "ctx_ok c \<Longrightarrow> array_ok (mem (ctx_lookup c i))"
  by (simp add: ctx_ok_def ctx_lookup_def versioned_def split: option.split)

lemma ctx_lookup_touch [simp]: "ctx_lookup (ctx_touch i c) j = ctx_lookup c j"
  by (auto simp: ctx_lookup_def ctx_touch_def)

lemma grows_touch: "grows (c, k) (ctx_touch i c, k)"
proof -
  have "extends c (ctx_touch i c)" unfolding extends_def
    by (simp only: ctx_lookup_touch later_refl) (auto simp: ctx_touch_def)
  moreover have "ctx_ok c \<Longrightarrow> ctx_ok (ctx_touch i c)" by (auto simp: ctx_ok_def ctx_touch_def versioned_def)
  ultimately show ?thesis by (simp add: grows_def)
qed

lemma foldl_store_sort:
  "sort_of (foldl (\<lambda>base en. EStore base (ve_expr (fst en)) (ve_expr (snd en))) e es) \<noteq> None \<Longrightarrow> sort_of e = Some (SArr 64 64) \<Longrightarrow>
   sort_of (foldl (\<lambda>base en. EStore base (ve_expr (fst en)) (ve_expr (snd en))) e es) = Some (SArr 64 64)"
proof (induction es arbitrary: e)
  case (Cons en es)
  have none: "sort_of a = None \<Longrightarrow> sort_of (foldl (\<lambda>base en. EStore base (ve_expr (fst en)) (ve_expr (snd en))) a xs) = None" for a xs
    by (induction xs arbitrary: a) auto
  have "sort_of (EStore e (ve_expr (fst en)) (ve_expr (snd en))) \<noteq> None"
    using Cons.prems(1) none[of "EStore e (ve_expr (fst en)) (ve_expr (snd en))" es] by (intro notI) (simp del: sort_of.simps)
  then have "sort_of (EStore e (ve_expr (fst en)) (ve_expr (snd en))) = Some (SArr 64 64)"
    using Cons.prems(2) by (auto split: if_splits)
  then show ?case using Cons.IH Cons.prems(1) by simp
qed simp

lemma z3_checked_Some:
  "z3_checked v = Some u \<longleftrightarrow> u = v \<and> sort_of (ve_expr v) \<noteq> None \<and> sort_of (ve_axiom v) \<noteq> None"
  by (auto simp: z3_checked_def)

lemma MA_store_ok:
  assumes "MA_store a i e = Some b"
  shows "(array_ok (mem a) \<longrightarrow> array_ok (mem b)) \<and> version b = Suc (version a)"
proof -
  obtain n where n: "Scatter_store (mem a) i e = Some n" "z3_checked n = Some (mem b)" "version b = Suc (version a)"
    using assms by (auto simp: MA_store_def bind_Some_iff)
  obtain es where "n = TA_store (mem a) es"
    using n(1) by (auto simp: Scatter_store_def bind_Some_iff simp del: upt_Suc split: if_splits)
  moreover have "mem b = n" "sort_of (ve_expr (mem b)) \<noteq> None" using n(2) unfolding z3_checked_Some by simp_all
  ultimately show ?thesis using foldl_store_sort[of "ve_expr (mem a)" es] n(3) unfolding array_ok_def
    by (simp add: TA_store_def VE_def del: sort_of.simps)
qed

lemma MA_store_cell_ok:
  assumes "MA_store_cell a i e = Some b"
  shows "(array_ok (mem a) \<longrightarrow> array_ok (mem b)) \<and> version b = Suc (version a)"
proof -
  let ?es = "[(cell_at i 0, sgrowTo ElemSize e)]"
  have n: "z3_checked (TA_store (mem a) ?es) = Some (mem b)" "version b = Suc (version a)"
    using assms by (auto simp: MA_store_cell_def Scatter_store_cell_def bind_Some_iff)
  then have "mem b = TA_store (mem a) ?es" "sort_of (ve_expr (mem b)) \<noteq> None" unfolding z3_checked_Some by simp_all
  then show ?thesis using foldl_store_sort[of "ve_expr (mem a)" ?es] n(2) unfolding array_ok_def
    by (simp add: TA_store_def VE_def del: sort_of.simps)
qed

lemma grows_set:
  assumes "later (ctx_lookup c i) a" "ctx_ok c \<longrightarrow> array_ok (mem a)"
  shows "grows (c, k) (ctx_set i a c, k)"
proof -
  have "extends c (ctx_set i a c)" using assms(1) unfolding extends_def by (auto simp: ctx_set_def ctx_lookup_def)
  then show ?thesis using assms(2) by (auto simp: grows_def ctx_ok_def ctx_set_def)
qed

lemma grows_store:
  assumes "MA_store (ctx_lookup c i) ix e = Some a \<or> MA_store_cell (ctx_lookup c i) ix e = Some a"
  shows "grows (c, k) (ctx_set i a c, k)"
  using assms MA_store_ok[of "ctx_lookup c i" ix e a] MA_store_cell_ok[of "ctx_lookup c i" ix e a] ctx_lookup_ok[of c i]
  by (intro grows_set) (auto simp: later_def)

lemma grows_fresh: "k \<le> k' \<Longrightarrow> grows (c, k) (c, k')"
  by (simp add: grows_def)

lemma grows_axiom: "grows s (add_axiom ax s)"
  by (auto simp: grows_def add_axiom_def extends_def ctx_lookup_def ctx_ok_def)

lemma grows_pointer:
  "grows s ((fst s)\<lparr>globalPtr := p\<rparr>, snd s)" "grows s ((fst s)\<lparr>localPtr := p\<rparr>, snd s)"
  by (auto simp: grows_def extends_def ctx_lookup_def ctx_ok_def)

lemma initGepBounds_grows:
  assumes "initGepBounds ms s = Some s'" "memArrays (fst s) (gep_id ms) = None"
  shows "grows s s'"
proof -
  obtain a' where a': "MA_store (versioned (TA_mkFree (gep_id ms) (snd s))) getNullPtr (getIntConst (- 1) 64) = Some a'"
      "s' = (ctx_set (gep_id ms) a' (fst s), Suc (snd s))"
    using assms by (auto simp: initGepBounds_def bind_Some_iff split: prod.splits)
  have "grows (fst s, snd s) (ctx_set (gep_id ms) a' (fst s), snd s)"
    using MA_store_ok[OF a'(1)] assms(2) by (intro grows_set) (auto simp: later_def ctx_lookup_def versioned_def)
  from grows_trans[OF this grows_fresh[of "snd s" "Suc (snd s)"]] show ?thesis by (simp add: a'(2))
qed

lemma gepBounds_grows:
  assumes "gepBounds ms s = Some (a, s')"
  shows "grows s s'"
proof -
  obtain t where t: "(if memArrays (fst s) (gep_id ms) = None then initGepBounds ms s else Some s) = Some t"
      "s' = (ctx_touch (gep_id ms) (fst t), snd t)"
    using assms by (auto simp: gepBounds_def bind_Some_iff ctx_get_def)
  have "grows s t" using t(1) initGepBounds_grows by (cases "memArrays (fst s) (gep_id ms) = None") auto
  from grows_trans[OF this, of "(ctx_touch (gep_id ms) (fst t), snd t)"] show ?thesis
    using grows_touch[of "fst t" "snd t" "gep_id ms"] by (simp add: t(2))
qed

lemma getBound_grows: "getBound p bs ms s = Some (r, s') \<Longrightarrow> grows s s'"
  by (auto simp: getBound_def bind_Some_iff dest: gepBounds_grows)

lemma writeBound_grows: "writeBound p b ms s = Some s' \<Longrightarrow> grows s s'"
  by (auto simp: writeBound_def bind_Some_iff dest!: getBound_grows intro: grows_trans[OF _ grows_axiom])

lemma alloc_grows:
  "getGlobalPtr ms sz orig s = Some (p, s') \<Longrightarrow> grows s s'" "getLocalPtr ms sz orig s = Some (p, s') \<Longrightarrow> grows s s'"
  "getGlobalPtr_default ms sz s = Some (p, s') \<Longrightarrow> grows s s'"
  by (auto simp: getGlobalPtr_default_def getGlobalPtr_def getLocalPtr_def bind_Some_iff Let_def
      dest!: writeBound_grows intro: grows_trans[OF grows_pointer(1)] grows_trans[OF grows_pointer(2)])

lemma readExpr_grows: "readExpr i ix bs s = Some (r, s') \<Longrightarrow> grows s s'"
  using grows_touch[of "fst s" "snd s" i] by (auto simp: readExpr_def ctx_get_def bind_Some_iff)

lemma writeExpr_grows: "writeExpr i ix v s = Some s' \<Longrightarrow> grows s s'"
proof -
  assume "writeExpr i ix v s = Some s'"
  then obtain a where "MA_store (ctx_lookup (ctx_touch i (fst s)) i) ix v = Some a" "s' = (ctx_set i a (ctx_touch i (fst s)), snd s)"
    by (auto simp: writeExpr_def ctx_get_def bind_Some_iff)
  then show "grows s s'"
    using grows_trans[OF grows_touch[of "fst s" "snd s" i] grows_store[of "ctx_touch i (fst s)" i ix v a "snd s"]] by simp
qed

lemma writeCell_grows: "writeCell i ix v s = Some s' \<Longrightarrow> grows s s'"
proof -
  assume "writeCell i ix v s = Some s'"
  then obtain a where "MA_store_cell (ctx_lookup (ctx_touch i (fst s)) i) ix v = Some a" "s' = (ctx_set i a (ctx_touch i (fst s)), snd s)"
    by (auto simp: writeCell_def ctx_get_def bind_Some_iff)
  then show "grows s s'"
    using grows_trans[OF grows_touch[of "fst s" "snd s" i] grows_store[of "ctx_touch i (fst s)" i ix v a "snd s"]] by simp
qed

lemmas op_grows = getBound_grows writeBound_grows alloc_grows readExpr_grows writeExpr_grows writeCell_grows

lemma mem_grows:
  "readExprFromMemory ix bs ms s = Some (r, s') \<Longrightarrow> grows s s'" "readProperty pn ix bs s = Some (r, s') \<Longrightarrow> grows s s'"
  "writeExprToMemory ix v ms s = Some s' \<Longrightarrow> grows s s'" "writeProperty pn ix v s = Some s' \<Longrightarrow> grows s s'"
  by (auto simp: readExprFromMemory_def readProperty_def writeExprToMemory_def writeProperty_def bind_Some_iff dest: op_grows)

section \<open>Terms\<close>

lemma leaf_grows: "leaf_doit C E cls ty nm s = Some (v, s') \<Longrightarrow> grows s s'"
  by (cases cls) (auto simp: leaf_doit_def Let_def getFreshVar_def bind_Some_iff grows_def)

lemma reader_grows:
  "BoundTerm_doit E ty rt rp s = Some (v, s') \<Longrightarrow> grows s s'" "LoadTerm_doit E ty rt rp s = Some (v, s') \<Longrightarrow> grows s s'"
  "ReadPropertyTerm_doit E ty pn rp s = Some (v, s') \<Longrightarrow> grows s s'"
  by (auto simp: BoundTerm_doit_def LoadTerm_doit_def ReadPropertyTerm_doit_def bind_Some_iff
      dest!: getBound_grows mem_grows split: if_splits term_class.splits)

lemma gep_result_grows: "gep_result ms ib base shift s = Some (v, s') \<Longrightarrow> grows s s'"
  by (auto simp: gep_result_def bind_Some_iff Let_def dest!: getBound_grows writeBound_grows intro: grows_trans)

lemma encode_shifts_grows:
  assumes "\<And>i s v s'. i \<in> set is \<Longrightarrow> encode C E i s = Some (v, s') \<Longrightarrow> grows s s'"
  shows "encode_shifts C E is tp shift s = Some (v, s') \<Longrightarrow> grows s s'"
  using assms
proof (induction "is" arbitrary: tp shift s)
  case (Cons i "is")
  have IH: "encode_shifts C E is tp shift s = Some (v, s') \<Longrightarrow> grows s s'" for tp shift s
    using Cons.IH Cons.prems(2) by (meson list.set_intros(2))
  have i: "encode C E i s = Some (v, s') \<Longrightarrow> grows s s'" for s v s'
    using Cons.prems(2)[of i] by simp
  from Cons.prems(1) show ?case
    by (auto simp: encode_shifts.simps(2)[of C E i] bind_Some_iff split: Type.splits term_class.splits if_splits
        intro: grows_trans dest!: IH i)
qed simp

text \<open>A term with subterms encodes the first one, and then the rest according to its class.\<close>

lemma encode_first:
  "encode C E (Term cls ty nm (t1 # rest)) s = Some (v, s') \<Longrightarrow> \<exists>v1 s1. encode C E t1 s = Some (v1, s1)"
  by (auto simp: encode.simps[of C E cls] bind_Some_iff)

lemma encode_grows: "encode C E t s = Some (v, s') \<Longrightarrow> grows s s'"
proof (induction t arbitrary: s v s')
  case (Term cls ty nm subs)
  show ?case
  proof (cases subs)
    case Nil
    then show ?thesis using Term.prems by (auto simp: encode.simps[of C E cls] bind_Some_iff z3_checked_Some dest: leaf_grows)
  next
    case (Cons t1 rest)
    have sub: "encode C E t' s = Some (v, s') \<Longrightarrow> t' \<in> set subs \<Longrightarrow> grows s s'" for t' s v s'
      using Term.IH by blast
    have sh: "encode_shifts C E is tp x s = Some (v, s') \<Longrightarrow> set is \<subseteq> set subs \<Longrightarrow> grows s s'" for "is" tp x s v s'
      using encode_shifts_grows[of "is" C E] sub by (metis subsetD)
    obtain v1 s1 where v1: "encode C E t1 s = Some (v1, s1)"
      using encode_first Term.prems Cons by blast
    have g1: "grows s s1" using sub[OF v1] Cons by simp
    note body = Term.prems[unfolded encode.simps[of C E cls ty nm subs], unfolded Cons list.case v1]
    have "grows s1 s'"
    proof (cases "\<exists>ib. cls = GepTerm ib")
      case True
      then show ?thesis
        using body
        by (cases rest; auto simp: Cons bind_Some_iff z3_checked_Some split: if_splits Type.splits
            dest!: gep_result_grows sh sub; meson grows_trans)
    next
      case False
      then show ?thesis
        using body
        by (cases cls; cases rest; cases "tl rest"; auto simp: Cons bind_Some_iff z3_checked_Some split: if_splits
            dest!: reader_grows sub; (meson grows_trans)?)
    qed
    then show ?thesis using g1 grows_trans by blast
  qed
qed

section \<open>Predicates\<close>

lemma DefaultSwitch_grows: "DefaultSwitch_loop C E le cs res s = Some (v, s') \<Longrightarrow> grows s s'"
  by (induction C E le cs res s rule: DefaultSwitch_loop.induct)
    (auto simp: bind_Some_iff split: if_splits dest!: encode_grows intro: grows_trans)

lemma Globals_grows: "Globals_loop C E gs res s = Some (v, s') \<Longrightarrow> grows s s'"
proof (induction gs arbitrary: res s)
  case (Cons g gs)
  from Cons.prems show ?case
    by (auto simp: bind_Some_iff split: if_splits dest!: encode_grows alloc_grows Cons.IH) (meson grows_trans)
qed simp

lemma SeqData_grows: "SeqData_loop C E ms ds base s = Some s' \<Longrightarrow> grows s s'"
proof (induction ds arbitrary: base s)
  case (Cons d ds)
  from Cons.prems show ?case by (auto simp: bind_Some_iff dest!: encode_grows writeExpr_grows Cons.IH) (meson grows_trans)
qed simp

lemma SeqDataZero_grows: "SeqDataZero_loop ms base i n s = Some s' \<Longrightarrow> grows s s'"
  by (induction n arbitrary: i s) (auto simp: bind_Some_iff dest!: mem_grows intro: grows_trans)

lemma pred_doit_grows:
  "Alloc_doit C E nb lhv n orig s = Some (v, s') \<Longrightarrow> grows s s'"
  "SeqDataPredicate_doit C E base ds s = Some (v, s') \<Longrightarrow> grows s s'"
  "SeqDataZeroPredicate_doit C E base sz s = Some (v, s') \<Longrightarrow> grows s s'"
  "StorePredicate_doit C E lhv rhv s = Some (v, s') \<Longrightarrow> grows s s'"
  "WriteBoundPredicate_doit C E lhv rhv s = Some (v, s') \<Longrightarrow> grows s s'"
  "WritePropertyPredicate_doit C E lhv rhv pn s = Some (v, s') \<Longrightarrow> grows s s'"
  "EqualityPredicate_doit C E eq lhv rhv s = Some (v, s') \<Longrightarrow> grows s s'"
proof -
  show "Alloc_doit C E nb lhv n orig s = Some (v, s') \<Longrightarrow> grows s s'"
    by (auto simp: Alloc_doit_def bind_Some_iff Let_def split: if_splits term_class.splits dest!: encode_grows alloc_grows)
      (meson grows_trans)+
  show "SeqDataPredicate_doit C E base ds s = Some (v, s') \<Longrightarrow> grows s s'"
    by (auto simp: SeqDataPredicate_doit_def bind_Some_iff split: if_splits dest!: encode_grows alloc_grows SeqData_grows)
      (meson grows_trans)+
  show "SeqDataZeroPredicate_doit C E base sz s = Some (v, s') \<Longrightarrow> grows s s'"
    by (auto simp: SeqDataZeroPredicate_doit_def bind_Some_iff split: if_splits dest!: encode_grows alloc_grows SeqDataZero_grows)
      (meson grows_trans)+
  show "StorePredicate_doit C E lhv rhv s = Some (v, s') \<Longrightarrow> grows s s'"
    by (auto simp: StorePredicate_doit_def bind_Some_iff split: if_splits Type.splits dest!: encode_grows mem_grows)
      (meson grows_trans)+
  show "WriteBoundPredicate_doit C E lhv rhv s = Some (v, s') \<Longrightarrow> grows s s'"
    by (auto simp: WriteBoundPredicate_doit_def bind_Some_iff split: if_splits dest!: encode_grows writeBound_grows)
      (meson grows_trans)+
  show "WritePropertyPredicate_doit C E lhv rhv pn s = Some (v, s') \<Longrightarrow> grows s s'"
    by (auto simp: WritePropertyPredicate_doit_def bind_Some_iff split: if_splits term_class.splits dest!: encode_grows mem_grows)
      (meson grows_trans)+
  show "EqualityPredicate_doit C E eq lhv rhv s = Some (v, s') \<Longrightarrow> grows s s'"
    by (auto simp: EqualityPredicate_doit_def bind_Some_iff dest!: encode_grows intro: grows_trans)
qed

lemma encode_pred_grows: "encode_pred C E p s = Some (v, s') \<Longrightarrow> grows s s'"
  by (cases "pclass p"; cases "ops p"; cases "tl (ops p)"; cases "tl (tl (ops p))")
    (auto simp: encode_pred_def bind_Some_iff simp del: Globals_loop.simps DefaultSwitch_loop.simps split: list.splits if_splits dest!: pred_doit_grows Globals_grows DefaultSwitch_grows encode_grows
      intro: grows_trans)

section \<open>The results are Boolean\<close>

definition boolish :: "ValueExpr \<Rightarrow> bool" where
  "boolish v = (sort_of (ve_expr v) = None \<or> sort_of (ve_expr v) = Some SBool)"

lemma boolish_and [intro]: "boolish a \<Longrightarrow> boolish b \<Longrightarrow> boolish (Bool_and a b)"
  and boolish_or [intro]: "boolish a \<Longrightarrow> boolish b \<Longrightarrow> boolish (Bool_or a b)"
  by (auto simp: boolish_def is_bool_def Bool_and_def Bool_or_def lift2_def engine_binop_def conj_z3_def disj_z3_def)

lemma boolish_not [intro]: "boolish (Bool_not a)"
  and boolish_eq [intro]: "boolish (Bool_eq a b)" and boolish_neq [intro]: "boolish (Bool_neq a b)"
  by (simp_all add: boolish_def is_bool_def Bool_not_def Bool_eq_def Bool_neq_def lift1_def lift2_def engine_binop_def engine_unop_def)

lemma boolish_bv_eq [intro]: "boolish (BV_binary B_EQUAL a b)" "boolish (BV_binary B_NEQUAL a b)"
  by (simp_all add: boolish_def is_bool_def BV_binary_def Let_def engine_binop_def)

lemma boolish_consts [intro]: "boolish getTrue" "boolish getFalse"
  by (simp_all add: boolish_def is_bool_def getTrue_def getFalse_def Bool_mkConst_def VE_def)

lemma boolish_axiom [intro]: "boolish a \<Longrightarrow> boolish (addAxiom a b)"
  by (simp add: boolish_def addAxiom_def)

lemma boolish_loops:
  "DefaultSwitch_loop C E le cs res s = Some (v, s') \<Longrightarrow> boolish res \<Longrightarrow> boolish v"
  "Globals_loop C E gs res s = Some (v, s') \<Longrightarrow> boolish res \<Longrightarrow> boolish v"
proof -
  show "DefaultSwitch_loop C E le cs res s = Some (v, s') \<Longrightarrow> boolish res \<Longrightarrow> boolish v"
  proof (induction cs arbitrary: res s)
    case (Cons c cs)
    from Cons.prems show ?case by (auto simp: bind_Some_iff split: if_splits intro: Cons.IH)
  qed simp
  show "Globals_loop C E gs res s = Some (v, s') \<Longrightarrow> boolish res \<Longrightarrow> boolish v"
  proof (induction gs arbitrary: res s)
    case (Cons c cs)
    from Cons.prems show ?case by (auto simp: bind_Some_iff split: if_splits intro: Cons.IH)
  qed simp
qed

lemma boolish_doit:
  "Alloc_doit C E nb lhv n orig s = Some (v, s') \<Longrightarrow> boolish v"
  "SeqDataPredicate_doit C E base ds s = Some (v, s') \<Longrightarrow> boolish v"
  "SeqDataZeroPredicate_doit C E base sz s = Some (v, s') \<Longrightarrow> boolish v"
  "StorePredicate_doit C E lhv rhv s = Some (v, s') \<Longrightarrow> boolish v"
  "WriteBoundPredicate_doit C E lhv rhv s = Some (v, s') \<Longrightarrow> boolish v"
  "WritePropertyPredicate_doit C E lhv rhv pn s = Some (v, s') \<Longrightarrow> boolish v"
  "EqualityPredicate_doit C E eq lhv rhv s = Some (v, s') \<Longrightarrow> boolish v"
  by (auto simp: Alloc_doit_def SeqDataPredicate_doit_def SeqDataZeroPredicate_doit_def StorePredicate_doit_def
      WriteBoundPredicate_doit_def WritePropertyPredicate_doit_def EqualityPredicate_doit_def VE_eq_def VE_neq_def
      bind_Some_iff Let_def split: if_splits term_class.splits Type.splits)

lemma z3_checked_bool: "z3_checked v = Some u \<Longrightarrow> boolish v \<Longrightarrow> is_bool (ve_expr u)"
  by (auto simp: z3_checked_Some boolish_def is_bool_def)

lemma encode_pred_bool:
  assumes "encode_pred C E p s = Some (v, s')"
  shows "is_bool (ve_expr v)"
proof -
  obtain u where u: "z3_checked u = Some v" "boolish u"
    using assms
    by (cases "pclass p"; cases "ops p"; cases "tl (ops p)"; cases "tl (tl (ops p))")
      (auto simp: encode_pred_def bind_Some_iff simp del: Globals_loop.simps DefaultSwitch_loop.simps split: list.splits if_splits
        dest: boolish_doit boolish_loops intro: boolish_loops)
  then show ?thesis by (rule z3_checked_bool)
qed

lemma is_bool_boolish: "is_bool (ve_expr v) \<Longrightarrow> boolish v"
  by (simp add: boolish_def is_bool_def)

lemma encode_preds_bool: "encode_preds C E ps res s = Some (v, s') \<Longrightarrow> is_bool (ve_expr res) \<Longrightarrow> is_bool (ve_expr v)"
proof (induction ps arbitrary: res s)
  case (Cons p ps)
  from Cons.prems obtain u s1 r where u: "encode_pred C E p s = Some (u, s1)"
      "z3_checked (if ptype p = INVARIANT then addAxiom res u else Bool_and res u) = Some r" "encode_preds C E ps r s1 = Some (v, s')"
    by (auto simp: bind_Some_iff)
  have "boolish (if ptype p = INVARIANT then addAxiom res u else Bool_and res u)"
    using encode_pred_bool[OF u(1)] Cons.prems(2) by (auto intro: is_bool_boolish)
  then show ?case using Cons.IH[OF u(3)] z3_checked_bool[OF u(2)] by simp
qed simp

lemma encode_preds_grows: "encode_preds C E ps res s = Some (v, s') \<Longrightarrow> grows s s'"
proof (induction ps arbitrary: res s)
  case (Cons p ps)
  from Cons.prems show ?case by (auto simp: bind_Some_iff dest!: encode_pred_grows Cons.IH) (meson grows_trans)+
qed simp

section \<open>Merging\<close>

text \<open>What the alternatives mean in a model: the last one whose condition holds, or the default.\<close>

fun selected :: "model \<Rightarrow> (ValueExpr \<times> 'a) list \<Rightarrow> 'a \<Rightarrow> 'a" where
  "selected m [] d = d"
| "selected m (x # xs) d = selected m xs (if holds m (fst x) then snd x else d)"

lemma selected_map: "selected m (map (\<lambda>x. (fst x, f (snd x))) xs) (f d) = f (selected m xs d)"
  by (induction xs arbitrary: d) (simp_all flip: if_distrib[of f])

lemma selected_same: "(\<And>x. x \<in> set xs \<Longrightarrow> snd x = d) \<Longrightarrow> selected m xs d = d"
  by (induction xs) auto

lemma selected_cases: "selected m xs d = d \<or> (\<exists>x\<in>set xs. holds m (fst x) \<and> selected m xs d = snd x)"
proof (induction xs arbitrary: d)
  case (Cons x xs)
  then show ?case using Cons.IH[of "if holds m (fst x) then snd x else d"] by (auto split: if_splits)
qed simp

lemma switch_bool_eval: "eval m (ve_expr (switch_bool cases d)) = eval m (ve_expr (selected m cases d))"
proof (induction cases arbitrary: d)
  case (Cons x cases)
  have "eval m (ve_expr (switch_bool cases d)) = eval m (ve_expr (switch_bool cases d'))"
    if "eval m (ve_expr d) = eval m (ve_expr d')" for d d' using that
  proof (induction cases arbitrary: d d')
    case (Cons y cases)
    have "eval m (ve_expr (if_then_else (fst y) (snd y) d)) = eval m (ve_expr (if_then_else (fst y) (snd y) d'))"
      using Cons.prems by (simp add: if_then_else_def)
    from Cons.IH[OF this] show ?case by (simp add: switch_bool_def)
  qed (simp add: switch_bool_def)
  from this[of "if_then_else (fst x) (snd x) d" "if holds m (fst x) then snd x else d"] Cons.IH
  show ?case by (simp add: switch_bool_def if_then_else_def holds_def)
qed (simp add: switch_bool_def)

lemma switch_bool_sort:
  "(\<And>x. x \<in> set cases \<Longrightarrow> is_bool (ve_expr (fst x)) \<and> array_ok (snd x)) \<Longrightarrow> array_ok d \<Longrightarrow> array_ok (switch_bool cases d)"
proof (induction cases arbitrary: d)
  case (Cons x cases)
  have "array_ok (if_then_else (fst x) (snd x) d)"
    using Cons.prems(1)[of x] Cons.prems(2) by (simp add: if_then_else_def array_ok_def is_bool_def)
  with Cons show ?case by (simp add: switch_bool_def)
qed (simp add: switch_bool_def)

lemma foldl_max_ge:
  "v \<le> foldl (\<lambda>m x. max m (f x)) v xs \<and> (\<forall>x\<in>set xs. f x \<le> foldl (\<lambda>m x. max m (f x)) v xs)" for f :: "'a \<Rightarrow> nat"
proof (induction xs arbitrary: v)
  case (Cons y xs)
  show ?case using Cons.IH[of "max v (f y)"] by simp
qed simp

lemma MA_merge_later: "later d (MA_merge d alts)"
  and MA_merge_sort: "(\<And>x. x \<in> set alts \<Longrightarrow> is_bool (ve_expr (fst x)) \<and> array_ok (mem (snd x))) \<Longrightarrow> array_ok (mem d) \<Longrightarrow>
    array_ok (mem (MA_merge d alts))"
proof -
  show "later d (MA_merge d alts)"
    using foldl_max_ge[of "version d" "\<lambda>x. version (snd x)" alts] by (auto simp: later_def MA_merge_def Let_def)
  show "(\<And>x. x \<in> set alts \<Longrightarrow> is_bool (ve_expr (fst x)) \<and> array_ok (mem (snd x))) \<Longrightarrow> array_ok (mem d) \<Longrightarrow>
      array_ok (mem (MA_merge d alts))"
    by (auto simp: MA_merge_def Let_def TA_merge_def intro!: switch_bool_sort)
qed

lemma MA_merge_selects:
  assumes "\<And>x. x \<in> set alts \<Longrightarrow> later d (snd x)"
  shows "eval m (ve_expr (mem (MA_merge d alts))) = eval m (ve_expr (mem (selected m alts d)))"
proof -
  define mx where "mx = foldl (\<lambda>m alt. max m (version (snd alt))) (version d) alts"
  have le: "\<forall>x\<in>set alts. version (snd x) \<le> mx"
    using foldl_max_ge[of "version d" "\<lambda>x. version (snd x)" alts] by (simp add: mx_def)
  show ?thesis
  proof (cases "version d = mx")
    case True
    then have "snd x = d" if "x \<in> set alts" for x
      using assms[OF that] le that True unfolding later_def by fastforce
    then show ?thesis using True by (simp add: MA_merge_def mx_def selected_same)
  next
    case False
    then show ?thesis
      by (simp add: MA_merge_def mx_def TA_merge_def switch_bool_eval selected_map)
  qed
qed
text \<open>The contexts a choice is merged from: later than the context of the choice, with Boolean conditions.\<close>

definition alternatives_ok :: "ExecutionContext \<Rightarrow> (ValueExpr \<times> ExecutionContext) list \<Rightarrow> bool" where
  "alternatives_ok c contexts =
     (\<forall>x\<in>set contexts. is_bool (ve_expr (fst x)) \<and> extends c (snd x) \<and> (ctx_ok c \<longrightarrow> ctx_ok (snd x)))"

definition alternatives_keep :: "bool \<Rightarrow> ExecutionContext \<Rightarrow> (ValueExpr \<times> ExecutionContext) list \<Rightarrow> bool" where
  "alternatives_keep q c contexts =
     (\<forall>x\<in>set contexts. is_bool (ve_expr (fst x)) \<and> keeps q c (snd x) \<and> (ctx_ok c \<longrightarrow> ctx_ok (snd x)))"

lemma alternatives_keep_True: "alternatives_keep True = alternatives_ok"
  by (simp add: alternatives_keep_def alternatives_ok_def keeps_extends fun_eq_iff)

lemma switchOn_context:
  assumes "switchOn contexts (c, k) = Some (c', k')"
  obtains res where
    "memArrays c' = (\<lambda>i. if memArrays c i \<noteq> None \<or> list_ex (\<lambda>ch. memArrays (snd ch) i \<noteq> None) contexts
        then Some (MA_merge (ctx_lookup c i) (map (\<lambda>ch. (fst ch, ctx_lookup (snd ch) i)) contexts)) else memArrays res i)"
    "contextAxioms c' = concat (map (\<lambda>ch. contextAxioms (snd ch)) contexts)"
    "localMemoryStart c' = localMemoryStart c" "localMemoryEnd c' = localMemoryEnd c"
    "init_context 0 0 k = Some (res, k')"
  using assms by (auto simp: switchOn_def mergeMemory_def bind_Some_iff)

lemma init_context_spec:
  assumes "init_context a b k = Some (c, k')"
  shows "ctx_ok c \<and> k \<le> k' \<and> (\<forall>i. i \<noteq> gep_id 0 \<longrightarrow> memArrays c i = None) \<and> contextAxioms c = [] \<and>
    localMemoryStart c = a \<and> localMemoryEnd c = b"
proof -
  obtain a' where a': "MA_store (versioned (TA_mkFree (gep_id 0) k)) getNullPtr (getIntConst (- 1) 64) = Some a'"
    using assms by (auto simp: init_context_def initGepBounds_def bind_Some_iff Let_def)
  have "array_ok (mem a')" using MA_store_ok[OF a'] by (simp add: versioned_def)
  then show ?thesis using assms a' by (auto simp: init_context_def initGepBounds_def ctx_set_def ctx_ok_def split: if_splits)
qed

lemma switchOn_lookup:
  assumes "switchOn contexts (c, k) = Some (c', k')" "ctx_ok c"
  shows "ctx_lookup c' i = MA_merge (ctx_lookup c i) (map (\<lambda>ch. (fst ch, ctx_lookup (snd ch) i)) contexts)"
proof -
  obtain res where r: "memArrays c' = (\<lambda>i. if memArrays c i \<noteq> None \<or> list_ex (\<lambda>ch. memArrays (snd ch) i \<noteq> None) contexts
        then Some (MA_merge (ctx_lookup c i) (map (\<lambda>ch. (fst ch, ctx_lookup (snd ch) i)) contexts)) else memArrays res i)"
      "contextAxioms c' = concat (map (\<lambda>ch. contextAxioms (snd ch)) contexts)"
      "localMemoryStart c' = localMemoryStart c" "localMemoryEnd c' = localMemoryEnd c"
      "init_context 0 0 k = Some (res, k')"
    by (rule switchOn_context[OF assms(1)])
  show ?thesis
  proof (cases "memArrays c i \<noteq> None \<or> list_ex (\<lambda>ch. memArrays (snd ch) i \<noteq> None) contexts")
    case True
    then show ?thesis unfolding ctx_lookup_def[of c'] r(1) by simp
  next
    case False
    then have "i \<noteq> gep_id 0" using assms(2) by (auto simp: ctx_ok_def)
    then have n: "memArrays c' i = None" using False init_context_spec[OF r(5)] by (simp add: r(1))
    have d: "ctx_lookup (snd ch) i = versioned getNoMemoryArray" if "ch \<in> set contexts" for ch
      using False that by (auto simp: ctx_lookup_def list_ex_iff)
    have "MA_merge a (map (\<lambda>ch. (fst ch, a)) xs) = a" for a and xs :: "(ValueExpr \<times> ExecutionContext) list"
    proof -
      have "foldl (\<lambda>m alt. max m (version (snd alt))) (version a) (map (\<lambda>ch. (fst ch, a)) xs) = version a"
        by (induction xs) simp_all
      then show ?thesis by (simp add: MA_merge_def)
    qed
    moreover have "map (\<lambda>ch. (fst ch, ctx_lookup (snd ch) i)) contexts = map (\<lambda>ch. (fst ch, versioned getNoMemoryArray)) contexts"
      using d by simp
    moreover have "ctx_lookup c i = versioned getNoMemoryArray" "ctx_lookup c' i = versioned getNoMemoryArray"
      using n False by (simp_all add: ctx_lookup_def)
    ultimately show ?thesis by (simp only:)
  qed
qed

lemma switchOn_stays:
  assumes "switchOn contexts (c, k) = Some s'" "alternatives_keep q c contexts" "q \<Longrightarrow> contexts \<noteq> []" "ctx_ok c"
  shows "stays q (c, k) s'"
proof -
  obtain c' k' where s': "s' = (c', k')" by (cases s')
  note sw = assms(1)[unfolded s']
  obtain res where r: "memArrays c' = (\<lambda>i. if memArrays c i \<noteq> None \<or> list_ex (\<lambda>ch. memArrays (snd ch) i \<noteq> None) contexts
        then Some (MA_merge (ctx_lookup c i) (map (\<lambda>ch. (fst ch, ctx_lookup (snd ch) i)) contexts)) else memArrays res i)"
    "contextAxioms c' = concat (map (\<lambda>ch. contextAxioms (snd ch)) contexts)"
    "localMemoryStart c' = localMemoryStart c" "localMemoryEnd c' = localMemoryEnd c"
    "init_context 0 0 k = Some (res, k')"
    by (rule switchOn_context[OF sw])
  have alt: "x \<in> set contexts \<Longrightarrow> is_bool (ve_expr (fst x)) \<and> keeps q c (snd x) \<and> ctx_ok (snd x)" for x
    using assms(2,4) by (auto simp: alternatives_keep_def)
  have "ctx_ok c'"
  proof -
    have "array_ok (mem (MA_merge (ctx_lookup c i) (map (\<lambda>ch. (fst ch, ctx_lookup (snd ch) i)) contexts)))" for i
      using alt ctx_lookup_ok[OF assms(4)] ctx_lookup_ok by (intro MA_merge_sort) auto
    then have "memArrays c' i = Some a \<Longrightarrow> array_ok (mem a)" for i a
      using init_context_spec[OF r(5)] by (auto simp: r(1) ctx_ok_def split: if_splits)
    moreover have "memArrays c' (gep_id 0) \<noteq> None" using assms(4) by (simp add: r(1) ctx_ok_def)
    ultimately show ?thesis by (simp add: ctx_ok_def)
  qed
  moreover have "keeps q c c'"
    unfolding keeps_def
  proof (intro conjI allI impI)
    show "later (ctx_lookup c i) (ctx_lookup c' i)" for i
      unfolding switchOn_lookup[OF sw assms(4)] by (rule MA_merge_later)
    show "set (contextAxioms c) \<subseteq> set (contextAxioms c')" if q
    proof -
      have "hd contexts \<in> set contexts" using assms(3) that by simp
      then show ?thesis using alt[of "hd contexts"] r(2) that by (auto simp: keeps_def)
    qed
    show "dom (memArrays c) \<subseteq> dom (memArrays c')" by (auto simp: r(1))
  qed (use r in simp_all)
  moreover have "k \<le> k'" using init_context_spec[OF r(5)] by simp
  ultimately show ?thesis by (simp add: s' stays_def)
qed

section \<open>States\<close>

text \<open>The simplifier of the solver keeps the sort and the value of an expression.\<close>

definition simplifier_ok :: "enc_config \<Rightarrow> bool" where
  "simplifier_ok C = (\<forall>e. sort_of (solver_simplify C e) = sort_of e \<and> (\<forall>m. eval m (solver_simplify C e) = eval m e))"

lemma VE_simplify_facts [simp]:
  "simplifier_ok C \<Longrightarrow> is_bool (ve_expr (VE_simplify C v)) = is_bool (ve_expr v)"
  "simplifier_ok C \<Longrightarrow> holds m (VE_simplify C v) = holds m v"
  by (simp_all add: simplifier_ok_def VE_simplify_def is_bool_def holds_def)

lemma encode_state_stays:
  assumes "simplifier_ok C"
  shows "encode_state C E pm st s = Some (v, s') \<Longrightarrow> ctx_ok (fst s) \<Longrightarrow> (q \<Longrightarrow> pm \<or> no_empty_choice st) \<Longrightarrow>
      stays q s s' \<and> is_bool (ve_expr v)"
    and "encode_choices C E pm cs ctx res ms k = Some (v, ms', k') \<Longrightarrow> ctx_ok ctx \<Longrightarrow> (q \<Longrightarrow> pm \<or> list_all no_empty_choice cs) \<Longrightarrow>
      is_bool (ve_expr res) \<Longrightarrow> alternatives_keep q ctx ms \<Longrightarrow>
      k \<le> k' \<and> is_bool (ve_expr v) \<and> alternatives_keep q ctx ms' \<and> (\<not> pm \<longrightarrow> length ms' = length ms + length cs)"
  using assms
proof (induction C E pm st s and C E pm cs ctx res ms k arbitrary: v s' and v ms' k' rule: encode_state_encode_choices.induct)
  case (1 C E pathMode data loci s)
  from "1.prems"(1) obtain r where r: "encode_preds C E data getTrue s = Some (r, s')" "v = Bool_and r getTrue"
    by (auto simp: bind_Some_iff)
  have t: "is_bool (ve_expr getTrue)" by (simp add: is_bool_def getTrue_def Bool_mkConst_def VE_def)
  have "is_bool (ve_expr v)"
    using encode_preds_bool[OF r(1) t] t
    by (simp add: r(2) is_bool_def Bool_and_def lift2_def engine_binop_def conj_z3_def)
  then show ?case using grows_stays[OF encode_preds_grows[OF r(1)]] by simp
next
  case (2 C E pathMode base cur s)
  from "2.prems"(1) obtain b s1 c s2 where b: "encode_state C E pathMode base s = Some (b, s1)"
      "encode_state C E pathMode cur s1 = Some (c, s2)" "z3_checked (Bool_and (Bool_and getTrue b) c) = Some v" "s' = s2"
    by (auto simp: bind_Some_iff)
  have 1: "stays q s s1" "is_bool (ve_expr b)" using "2.IH"(1)[OF b(1)] "2.prems" by auto
  have 2: "stays q s1 s2" "is_bool (ve_expr c)"
    using "2.IH"(2)[OF b(1) _ b(2)] "2.prems" 1 by (cases s1; auto simp: stays_def)+
  have "is_bool (ve_expr v)" using z3_checked_bool[OF b(3)] 1 2 by (auto intro: is_bool_boolish)
  then show ?case using 1 2 b(4) stays_trans by blast
next
  case (3 C E pathMode cs s)
  from "3.prems"(1) obtain ms k where m: "encode_choices C E pathMode cs (fst s) getFalse [] (snd s) = Some (v, ms, k)"
      "(if pathMode then Some (fst s, k) else switchOn ms (fst s, k)) = Some s'"
    by (auto simp: bind_Some_iff)
  have t: "is_bool (ve_expr getFalse)" by (simp add: is_bool_def getFalse_def Bool_mkConst_def VE_def)
  have c: "snd s \<le> k" "is_bool (ve_expr v)" "alternatives_keep q (fst s) ms" "\<not> pathMode \<longrightarrow> length ms = length cs"
    using "3.IH"[OF m(1)] "3.prems" t by (auto simp: alternatives_keep_def)
  have "stays q s s'"
  proof (cases pathMode)
    case True
    then show ?thesis using m(2) c(1) by (auto simp: stays_def)
  next
    case False
    then have "q \<Longrightarrow> ms \<noteq> []" using c(4) "3.prems"(3) by auto
    moreover have "switchOn ms (fst s, k) = Some s'" using m(2) False by simp
    ultimately have "stays q (fst s, k) s'" using c(3) "3.prems"(2) by (intro switchOn_stays)
    then show ?thesis using c(1) by (auto simp: stays_def)
  qed
  then show ?case using c(2) by simp
next
  case (4 C E pathMode ctx res ms k)
  then show ?case by auto
next
  case (5 C E pathMode c cs ctx res ms k)
  from "5.prems"(1) obtain z ctx1 k1 r where z: "encode_state C E pathMode c (ctx, k) = Some (z, ctx1, k1)"
      "z3_checked (Bool_or res z) = Some r"
    by (auto simp: bind_Some_iff)
  have g: "stays q (ctx, k) (ctx1, k1)" "is_bool (ve_expr z)"
    using "5.IH"(1)[OF z(1)] "5.prems" by auto
  have r: "is_bool (ve_expr r)" using z3_checked_bool[OF z(2)] g(2) "5.prems"(4) by (auto intro: is_bool_boolish)
  show ?case
  proof (cases pathMode)
    case True
    then have "encode_choices C E pathMode cs ctx r ms k1 = Some (v, ms', k')"
      using "5.prems"(1) z by (simp add: bind_Some_iff)
    from "5.IH"(2)[OF z(1) refl refl z(2) True this] show ?thesis
      using True "5.prems" r g by (auto simp: stays_def)
  next
    case False
    let ?path = "simplify (filterByTypes [PATH] c)"
    obtain p ctx2 k2 where p: "(if state_equals ?path c then Some (z, ctx1, k1) else encode_state C E True ?path (ctx1, k1)) = Some (p, ctx2, k2)"
        "encode_choices C E pathMode cs ctx r (ms @ [(VE_simplify C p, ctx2)]) k2 = Some (v, ms', k')"
      using "5.prems"(1) z False by (auto simp: bind_Some_iff Let_def)
    have g2: "stays q (ctx1, k1) (ctx2, k2) \<and> is_bool (ve_expr p)"
    proof (cases "state_equals ?path c")
      case True
      then show ?thesis using p(1) g(2) by simp
    next
      case neq: False
      then show ?thesis
        using "5.IH"(3)[OF z(1) refl refl z(2) False refl neq] p(1) g "5.prems" by (simp add: stays_def)
    qed
    have g3: "stays q (ctx, k) (ctx2, k2)" using g(1) g2 stays_trans by blast
    have alt: "alternatives_keep q ctx (ms @ [(VE_simplify C p, ctx2)])"
      using "5.prems"(5,6) g2 g3 by (auto simp: alternatives_keep_def stays_def)
    from "5.IH"(4)[OF z(1) refl refl z(2) False refl p(1) refl refl p(2)] show ?thesis
      using False "5.prems" r g3 alt by (auto simp: stays_def)
  qed
qed

lemma encode_state_grows:
  assumes "simplifier_ok C"
  shows "encode_state C E pm st s = Some (v, s') \<Longrightarrow> ctx_ok (fst s) \<Longrightarrow> pm \<or> no_empty_choice st \<Longrightarrow>
      grows s s' \<and> is_bool (ve_expr v)"
    and "encode_choices C E pm cs ctx res ms k = Some (v, ms', k') \<Longrightarrow> ctx_ok ctx \<Longrightarrow> pm \<or> list_all no_empty_choice cs \<Longrightarrow>
      is_bool (ve_expr res) \<Longrightarrow> alternatives_ok ctx ms \<Longrightarrow>
      k \<le> k' \<and> is_bool (ve_expr v) \<and> alternatives_ok ctx ms' \<and> (\<not> pm \<longrightarrow> length ms' = length ms + length cs)"
  using encode_state_stays[where q = True, OF assms] unfolding stays_grows alternatives_keep_True by blast+

section \<open>Properties\<close>

definition default_config :: enc_config where
  "default_config = \<lparr>solver_simplify = (\<lambda>e. e), double_to_int = (\<lambda>d. d), nullable_mallocs = True, skip_static_init = True\<rparr>"

lemma default_config_ok [simp]: "simplifier_ok default_config"
  by (simp add: default_config_def simplifier_ok_def)

text \<open>C4: The encoding of any predicate state keeps the invariant of the execution context: every array stays an
  array of 64-bit cells, no array is lost, an array keeps its value as long as its version, the bounds of the
  local memory stay, versions only grow, and the result is a Boolean expression. If no choice of the state is
  empty, the axioms of the context are kept as well; a choice without alternatives forgets them
  (\<open>empty_choice_forgets\<close>). The simplifier of the solver is assumed to keep sorts and values.\<close>

theorem encoding_keeps_context:
  assumes "simplifier_ok C" "ctx_ok c" "encode_state C E False st (c, k) = Some (v, c', k')"
  shows "ctx_ok c' \<and> is_bool (ve_expr v) \<and> k \<le> k' \<and> keeps (no_empty_choice st) c c'"
  using encode_state_stays(1)[where q = "no_empty_choice st", OF assms(1,3)] assms(2) by (simp add: stays_def)

definition sample_store :: predicate where
  "sample_store = mk_StorePredicate (mk_ValueTerm (TPointer (TInteger 32 Signed) 0) ''p'' False)
     (mk_OpaqueIntConstantTerm (TInteger 32 Signed) 7) unknown_Locus STATE"

definition sample_choice :: pstate where
  "sample_choice = Choice [Basic [mk_EqualityPredicate (mk_ValueTerm TBool ''b'' False) (mk_OpaqueBoolConstantTerm TBool True)
       unknown_Locus PATH, sample_store] {},
     Basic [mk_EqualityPredicate (mk_ValueTerm TBool ''b'' False) (mk_OpaqueBoolConstantTerm TBool False) unknown_Locus PATH] {}]"

definition sample_context :: "enc_state option" where "sample_context = init_context 1024 4096 0"

lemma sample_encodes:
  "\<not> Option.is_none sample_context"
  "\<not> Option.is_none (encode_state default_config (bodies_env Map.empty) False sample_choice (the sample_context))"
  by code_simp+

lemma sample_encoded:
  obtains c k v c' k' where "init_context 1024 4096 0 = Some (c, k)" "ctx_ok c"
    "encode_state default_config (bodies_env Map.empty) False sample_choice (c, k) = Some (v, c', k')"
proof -
  obtain c k where ck: "init_context 1024 4096 0 = Some (c, k)"
    using sample_encodes(1) by (auto simp: sample_context_def Option.is_none_def)
  moreover obtain v c' k' where "encode_state default_config (bodies_env Map.empty) False sample_choice (c, k) = Some (v, c', k')"
    using sample_encodes(2) by (auto simp: sample_context_def ck Option.is_none_def)
  moreover have "ctx_ok c" using init_context_spec[OF ck] by simp
  ultimately show ?thesis using that by blast
qed

theorem encoding_keeps_context_witness:
  "\<exists>c k v c' k'. init_context 1024 4096 0 = Some (c, k) \<and>
     encode_state default_config (bodies_env Map.empty) False sample_choice (c, k) = Some (v, c', k') \<and>
     ctx_ok c' \<and> is_bool (ve_expr v) \<and> keeps True c c'"
proof -
  obtain c k v c' k' where s: "init_context 1024 4096 0 = Some (c, k)" "ctx_ok c"
    "encode_state default_config (bodies_env Map.empty) False sample_choice (c, k) = Some (v, c', k')"
    by (rule sample_encoded)
  have n: "no_empty_choice sample_choice" by (simp add: sample_choice_def)
  from encoding_keeps_context[OF default_config_ok s(2,3)] show ?thesis using s n by auto
qed

text \<open>C3: After the merge of a choice, every array has, in every model, the value it has in the context of the
  last alternative whose path condition holds, or in the context before the choice when none does; the
  axioms of all the alternatives are kept.\<close>

theorem merged_memory_selects:
  assumes "ctx_ok c" "alternatives_ok c contexts" "switchOn contexts (c, k) = Some (c', k')"
  shows "(\<forall>i. eval m (ve_expr (mem (ctx_lookup c' i))) = eval m (ve_expr (mem (ctx_lookup (selected m contexts c) i)))) \<and>
    set (contextAxioms c') = (\<Union>x\<in>set contexts. set (contextAxioms (snd x)))"
proof (rule conjI)
  have merge: "eval m (ve_expr (mem (MA_merge (ctx_lookup c i) (map (\<lambda>ch. (fst ch, ctx_lookup (snd ch) i)) contexts)))) =
      eval m (ve_expr (mem (selected m (map (\<lambda>ch. (fst ch, ctx_lookup (snd ch) i)) contexts) (ctx_lookup c i))))" for i
    using assms(2) by (intro MA_merge_selects) (auto simp: alternatives_ok_def extends_def)
  show "\<forall>i. eval m (ve_expr (mem (ctx_lookup c' i))) = eval m (ve_expr (mem (ctx_lookup (selected m contexts c) i)))"
    unfolding switchOn_lookup[OF assms(3,1)] merge selected_map[where f = "\<lambda>d. ctx_lookup d _"] by simp
  show "set (contextAxioms c') = (\<Union>x\<in>set contexts. set (contextAxioms (snd x)))"
    by (rule switchOn_context[OF assms(3)]) auto
qed

theorem merged_memory_selects_witness:
  "\<exists>c k c1 k1 c' k'. init_context 1024 4096 0 = Some (c, k) \<and>
     writeExprToMemory getNullPtr (BV_mkConst 7 64) 0 (c, k) = Some (c1, k1) \<and>
     switchOn [(getTrue, c1), (getFalse, c)] (c, k1) = Some (c', k') \<and>
     eval zero_model (ve_expr (mem (ctx_lookup c' (memory_id 0)))) = eval zero_model (ve_expr (mem (ctx_lookup c1 (memory_id 0))))"
proof -
  have "\<not> Option.is_none (do { (c, k) \<leftarrow> init_context 1024 4096 0;
      (c1, k1) \<leftarrow> writeExprToMemory getNullPtr (BV_mkConst 7 64) 0 (c, k);
      switchOn [(getTrue, c1), (getFalse, c)] (c, k1) })"
    by code_simp
  then obtain c k c1 k1 c' k' where s: "init_context 1024 4096 0 = Some (c, k)"
      "writeExprToMemory getNullPtr (BV_mkConst 7 64) 0 (c, k) = Some (c1, k1)"
      "switchOn [(getTrue, c1), (getFalse, c)] (c, k1) = Some (c', k')"
    by (auto simp: Option.is_none_def bind_Some_iff split: bind_splits)
  have ok: "ctx_ok c" using init_context_spec[OF s(1)] by simp
  have "alternatives_ok c [(getTrue, c1), (getFalse, c)]"
    using mem_grows(3)[OF s(2)] by (simp add: alternatives_ok_def grows_def is_bool_def getTrue_def getFalse_def Bool_mkConst_def VE_def)
  from merged_memory_selects[OF ok this s(3), of zero_model] show ?thesis
    using s by (auto simp: holds_def getTrue_def getFalse_def Bool_mkConst_def VE_def)
qed

text \<open>A choice without alternatives forgets the axioms and the allocations of its context.\<close>

lemma empty_choice_forgets:
  "encode_state C E False (Choice []) (c, k) = Some (v, c', k') \<Longrightarrow> contextAxioms c' = [] \<and> globalPtr c' = 1 \<and> localPtr c' = 0"
  by (auto simp: bind_Some_iff switchOn_def mergeMemory_def init_context_def initGepBounds_def ctx_set_def)

end
