(* ===== verification/SmtSound.thy ===== *)
theory SmtSound
  imports SmtInvariant
begin

text \<open>
  What a query of the solver proves.  A pure predicate reads no memory: a state of pure predicates is true
  in a model exactly when one of its paths is, whatever the merging of contexts, and the answer
  \<open>unsat\<close> of \<open>isViolated\<close> means that every such path satisfies the query.
\<close>

section \<open>Pure terms and predicates\<close>

fun pure_class :: "term_class \<Rightarrow> bool" where
  "pure_class (GepTerm b) = False"
| "pure_class BoundTerm = False"
| "pure_class LoadTerm = False"
| "pure_class ReadPropertyTerm = False"
| "pure_class OpaqueUndefTerm = False"
| "pure_class _ = True"

fun pure_term :: "Term \<Rightarrow> bool" where
  "pure_term (Term cls ty nm subs) = (pure_class cls \<and> list_all pure_term subs)"

definition pure_pred :: "predicate \<Rightarrow> bool" where
  "pure_pred p = (case pclass p of
      CallPredicate b \<Rightarrow> True | MarkPredicate \<Rightarrow> True
    | EqualityPredicate \<Rightarrow> list_all pure_term (ops p) | InequalityPredicate \<Rightarrow> list_all pure_term (ops p)
    | DefaultSwitchCasePredicate \<Rightarrow> list_all pure_term (ops p)
    | _ \<Rightarrow> False)"

definition same_bounds :: "enc_state \<Rightarrow> enc_state \<Rightarrow> bool" where
  "same_bounds s t = (localMemoryStart (fst t) = localMemoryStart (fst s) \<and> localMemoryEnd (fst t) = localMemoryEnd (fst s))"

text \<open>An encoding that leaves the state alone and reads only its stack bounds.\<close>

definition stateless :: "(enc_state \<Rightarrow> ('a \<times> enc_state) option) \<Rightarrow> bool" where
  "stateless f = (\<forall>s v s'. f s = Some (v, s') \<longrightarrow> s' = s \<and> (\<forall>t. same_bounds s t \<longrightarrow> f t = Some (v, t)))"

lemma statelessD: "stateless f \<Longrightarrow> f s = Some (v, s') \<Longrightarrow> s' = s" "stateless f \<Longrightarrow> f s = Some (v, s') \<Longrightarrow> same_bounds s t \<Longrightarrow> f t = Some (v, t)"
  unfolding stateless_def by blast+

lemma stateless_cong: "(\<And>s. f s = g s) \<Longrightarrow> stateless g \<Longrightarrow> stateless f"
  by (simp add: stateless_def)

lemma stateless_bind [intro]:
  assumes "stateless f" "\<And>v. stateless (g v)"
  shows "stateless (\<lambda>s. do { (v, s1) \<leftarrow> f s; g v s1 })"
  unfolding stateless_def
proof (intro allI impI)
  fix s v s'
  assume "(do { (v, s1) \<leftarrow> f s; g v s1 }) = Some (v, s')"
  then obtain u s1 where u: "f s = Some (u, s1)" "g u s1 = Some (v, s')" by (auto simp: bind_Some_iff)
  with statelessD[OF assms(1) u(1)] statelessD[OF assms(2), of u s1 v s']
  show "s' = s \<and> (\<forall>t. same_bounds s t \<longrightarrow> (do { (v, s1) \<leftarrow> f t; g v s1 }) = Some (v, t))" by auto
qed

lemma stateless_basic [intro]:
  "stateless (\<lambda>s. Some (v, s))" "stateless (\<lambda>s. None)" "stateless (\<lambda>s. do { x \<leftarrow> o1; Some (x, s) })"
  "stateless (\<lambda>s. map_option (\<lambda>v. (v, s)) o1)"
  "(\<And>x. stateless (h x)) \<Longrightarrow> stateless (\<lambda>s. do { x \<leftarrow> o1; h x s })"
  by (auto simp: stateless_def bind_Some_iff)

lemma leaf_stateless:
  assumes "pure_class cls"
  shows "stateless (leaf_doit C E cls ty nm)"
proof -
  have "ArgumentTerm_doit E ty nm (fst t) = ArgumentTerm_doit E ty nm (fst s)" if "same_bounds s t" for s t
    using that by (auto simp: ArgumentTerm_doit_def same_bounds_def cong: Type.case_cong)
  then show ?thesis using assms by (cases cls) (auto simp: stateless_def leaf_doit_def Let_def)
qed

lemma encode_stateless: "pure_term t \<Longrightarrow> stateless (encode C E t)"
proof (induction t)
  case (Term cls ty nm subs)
  have sub: "t \<in> set subs \<Longrightarrow> stateless (encode C E t)" for t
    using Term by (auto simp: list_all_iff)
  show ?case
  proof (cases subs)
    case Nil
    show ?thesis
      using Term.prems leaf_stateless by (intro stateless_cong[OF encode.simps]) (auto simp: Nil)
  next
    case (Cons t1 rest)
    show ?thesis
      using Term.prems sub[of t1] sub[of "hd rest"] sub[of "hd (tl rest)"]
      by (intro stateless_cong[OF encode.simps]) (cases cls; cases rest; cases "tl rest"; simp add: Cons del: bind_assoc; (intro stateless_bind stateless_basic)?; simp?)
  qed
qed

lemma DefaultSwitch_stateless: "list_all pure_term cs \<Longrightarrow> stateless (DefaultSwitch_loop C E le cs res)"
proof (induction cs arbitrary: res)
  case Nil
  show ?case by (rule stateless_cong[OF DefaultSwitch_loop.simps(1)]) (rule stateless_basic)
next
  case (Cons c cs)
  have "stateless (\<lambda>s. if BV_isValid re then DefaultSwitch_loop C E le cs (Bool_and res (BV_binary B_NEQUAL le re)) s else None)" for re
    using Cons by (cases "BV_isValid re") (auto intro: stateless_basic)
  then show ?case
    using Cons.prems encode_stateless[of c] by (intro stateless_cong[OF DefaultSwitch_loop.simps(2)] stateless_bind) auto
qed

lemma Equality_stateless: "pure_term l \<Longrightarrow> pure_term r \<Longrightarrow> stateless (EqualityPredicate_doit C E eq l r)"
  by (rule stateless_cong[OF EqualityPredicate_doit_def]) (intro stateless_bind stateless_basic encode_stateless)

lemma encode_pred_stateless:
  assumes "pure_pred p"
  shows "stateless (encode_pred C E p)"
proof -
  have cond: "stateless (\<lambda>s. do { (le, s1) \<leftarrow> encode C E c s;
      (if BV_isValid le then DefaultSwitch_loop C E le cases getTrue s1 else None) })"
    if "pure_term c" "list_all pure_term cases" for c cases
  proof (intro stateless_bind encode_stateless that(1))
    show "stateless (\<lambda>s. if BV_isValid v then DefaultSwitch_loop C E v cases getTrue s else None)" for v
      using DefaultSwitch_stateless[OF that(2)] by (cases "BV_isValid v") (auto intro: stateless_basic)
  qed
  show ?thesis
    using assms
    by (intro stateless_cong[OF encode_pred_def] stateless_bind)
      (cases "pclass p"; cases "ops p"; cases "tl (ops p)"; cases "tl (tl (ops p))";
       auto simp: pure_pred_def simp del: bind_assoc intro!: stateless_basic cond Equality_stateless)+
qed

text \<open>What a pure predicate says, in any state with the same stack bounds.\<close>

definition pred_value :: "enc_config \<Rightarrow> env \<Rightarrow> enc_state \<Rightarrow> predicate \<Rightarrow> ValueExpr" where
  "pred_value C E s p = fst (the (encode_pred C E p s))"

lemma pure_pred_value:
  assumes "pure_pred p" "encode_pred C E p s = Some (v, s')" "same_bounds s0 s"
  shows "s' = s" "pred_value C E s0 p = v"
proof -
  show "s' = s" using statelessD(1)[OF encode_pred_stateless assms(2)] assms(1) by blast
  have "same_bounds s s0" using assms(3) by (simp add: same_bounds_def)
  from statelessD(2)[OF encode_pred_stateless[OF assms(1)] assms(2) this] show "pred_value C E s0 p = v"
    by (simp add: pred_value_def)
qed

section \<open>Pure states\<close>

text \<open>A predicate of the type \<open>INVARIANT\<close> is an axiom; the others are conditions of the path.\<close>

definition pred_holds :: "model \<Rightarrow> enc_config \<Rightarrow> env \<Rightarrow> enc_state \<Rightarrow> predicate \<Rightarrow> bool" where
  "pred_holds m C E s p = (ptype p \<noteq> INVARIANT \<longrightarrow> holds m (pred_value C E s p))"

definition pred_axiom :: "model \<Rightarrow> enc_config \<Rightarrow> env \<Rightarrow> enc_state \<Rightarrow> predicate \<Rightarrow> bool" where
  "pred_axiom m C E s p = (axiom_ok m (pred_value C E s p) \<and> (ptype p = INVARIANT \<longrightarrow> holds m (pred_value C E s p)))"

lemma Bool_ops_axioms [simp]:
  "axiom_ok m (Bool_and a b) = (axiom_ok m a \<and> axiom_ok m b)" "axiom_ok m (Bool_or a b) = (axiom_ok m a \<and> axiom_ok m b)"
  "axiom_ok m getTrue" "axiom_ok m getFalse" "holds m getTrue" "\<not> holds m getFalse"
  by (simp_all add: Bool_and_def Bool_or_def getTrue_def getFalse_def Bool_mkConst_def)
   (simp_all add: holds_def VE_def)

lemma pure_preds:
  assumes "encode_preds C E ps res s = Some (v, s')" "\<forall>p\<in>set ps. pure_pred p" "same_bounds s0 s"
  shows "s' = s \<and> (holds m v \<longleftrightarrow> holds m res \<and> (\<forall>p\<in>set ps. pred_holds m C E s0 p)) \<and>
    (axiom_ok m v \<longleftrightarrow> axiom_ok m res \<and> (\<forall>p\<in>set ps. pred_axiom m C E s0 p))"
  using assms
proof (induction ps arbitrary: res s)
  case (Cons p ps)
  from Cons.prems(1) obtain u s1 r where u: "encode_pred C E p s = Some (u, s1)"
      "z3_checked (if ptype p = INVARIANT then addAxiom res u else Bool_and res u) = Some r" "encode_preds C E ps r s1 = Some (v, s')"
    by (auto simp: bind_Some_iff)
  have p: "s1 = s" "pred_value C E s0 p = u" using pure_pred_value[OF _ u(1) Cons.prems(3)] Cons.prems(2) by auto
  have r: "r = (if ptype p = INVARIANT then addAxiom res u else Bool_and res u)" using u(2) by (simp add: z3_checked_Some)
  show ?case
    using Cons.IH[OF u(3)] Cons.prems(2,3) p r by (auto simp: pred_holds_def pred_axiom_def)
qed simp

text \<open>The context after a pure state: the same arrays, bounds and axioms.\<close>

definition same_ctx :: "ExecutionContext \<Rightarrow> ExecutionContext \<Rightarrow> bool" where
  "same_ctx c d = (memArrays d = memArrays c \<and> localMemoryStart d = localMemoryStart c \<and> localMemoryEnd d = localMemoryEnd c \<and>
     set (contextAxioms d) = set (contextAxioms c))"

lemma same_ctx_refl [simp]: "same_ctx c c" and same_ctx_trans: "same_ctx a b \<Longrightarrow> same_ctx b c \<Longrightarrow> same_ctx a c"
  by (simp_all add: same_ctx_def)

lemma same_ctx_bounds: "same_ctx (fst s) (fst t) \<Longrightarrow> same_bounds s0 s \<Longrightarrow> same_bounds s0 t"
  by (simp add: same_ctx_def same_bounds_def)

lemma preds_filter: "preds (filterByTypes ts s) \<subseteq> preds s"
proof (induction s)
  case (Choice cs)
  then show ?case by fastforce
qed auto

lemma preds_simplify: "preds (simplify s) \<subseteq> preds s"
proof (induction s)
  case (Choice cs)
  let ?l = "filter (\<lambda>c. \<not> isEmpty c) (map simplify cs)"
  have "preds (simplify (Choice cs)) \<subseteq> \<Union> (preds ` set ?l)"
    by (cases ?l; cases "tl ?l") (auto simp: Let_def)
  also have "\<dots> \<subseteq> preds (Choice cs)" using Choice.IH by fastforce
  finally show ?case .
qed (auto simp: Let_def)

lemma MA_merge_same: "(\<And>x. x \<in> set alts \<Longrightarrow> snd x = d) \<Longrightarrow> MA_merge d alts = d"
proof -
  assume a: "\<And>x. x \<in> set alts \<Longrightarrow> snd x = d"
  have "foldl (\<lambda>m alt. max m (version (snd alt))) (version d) alts = version d"
    using a by (induction alts) simp_all
  then show ?thesis by (simp add: MA_merge_def)
qed

lemma switchOn_same:
  assumes "switchOn contexts (c, k) = Some (c', k')" "\<And>x. x \<in> set contexts \<Longrightarrow> same_ctx c (snd x)" "contexts \<noteq> []"
    and "memArrays c (gep_id 0) \<noteq> None"
  shows "same_ctx c c'"
proof -
  obtain res where r: "memArrays c' = (\<lambda>i. if memArrays c i \<noteq> None \<or> list_ex (\<lambda>ch. memArrays (snd ch) i \<noteq> None) contexts
        then Some (MA_merge (ctx_lookup c i) (map (\<lambda>ch. (fst ch, ctx_lookup (snd ch) i)) contexts)) else memArrays res i)"
    "contextAxioms c' = concat (map (\<lambda>ch. contextAxioms (snd ch)) contexts)"
    "localMemoryStart c' = localMemoryStart c" "localMemoryEnd c' = localMemoryEnd c"
    "init_context 0 0 k = Some (res, k')"
    by (rule switchOn_context[OF assms(1)])
  have m: "MA_merge (ctx_lookup c i) (map (\<lambda>ch. (fst ch, ctx_lookup (snd ch) i)) contexts) = ctx_lookup c i" for i
    using assms(2) by (intro MA_merge_same) (auto simp: same_ctx_def ctx_lookup_def)
  have n: "memArrays res i = None" if "memArrays c i = None" for i
    using that assms(4) init_context_spec[OF r(5)] by metis
  have "memArrays c' i = memArrays c i" for i
  proof (cases "memArrays c i")
    case None
    then have "\<not> list_ex (\<lambda>ch. memArrays (snd ch) i \<noteq> None) contexts"
      using assms(2) by (auto simp: list_ex_iff same_ctx_def)
    then show ?thesis using None n[of i] by (simp add: r(1))
  next
    case (Some a)
    then have "ctx_lookup c i = a" by (simp add: ctx_lookup_def)
    then show ?thesis using Some m[of i] by (simp add: r(1))
  qed
  moreover have "set (contextAxioms c') = set (contextAxioms c)"
    using assms(2,3) by (cases contexts) (auto simp: r(2) same_ctx_def)
  ultimately show ?thesis using r(3,4) by (simp add: same_ctx_def fun_eq_iff)
qed

text \<open>The paths of a state that hold in a model, and its axioms.\<close>

definition some_path :: "model \<Rightarrow> enc_config \<Rightarrow> env \<Rightarrow> enc_state \<Rightarrow> pstate \<Rightarrow> bool" where
  "some_path m C E s st = (\<exists>x\<in>paths st. \<forall>p\<in>set x. pred_holds m C E s p)"

definition all_axioms :: "model \<Rightarrow> enc_config \<Rightarrow> env \<Rightarrow> enc_state \<Rightarrow> pstate \<Rightarrow> bool" where
  "all_axioms m C E s st = (\<forall>p\<in>preds st. pred_axiom m C E s p)"

lemma some_path_simps [simp]:
  "some_path m C E s (Basic data loci) = (\<forall>p\<in>set data. pred_holds m C E s p)"
  "some_path m C E s (Chain b c) = (some_path m C E s b \<and> some_path m C E s c)"
  "some_path m C E s (Choice cs) = (\<exists>c\<in>set cs. some_path m C E s c)"
proof -
  show "some_path m C E s (Chain b c) = (some_path m C E s b \<and> some_path m C E s c)"
  proof
    assume "some_path m C E s (Chain b c)"
    then obtain p q where "p \<in> paths b" "q \<in> paths c" "\<forall>r\<in>set (p @ q). pred_holds m C E s r"
      by (auto simp: some_path_def)
    then show "some_path m C E s b \<and> some_path m C E s c" by (auto simp: some_path_def)
  next
    assume "some_path m C E s b \<and> some_path m C E s c"
    then obtain p q where "p \<in> paths b" "q \<in> paths c" "\<forall>r\<in>set (p @ q). pred_holds m C E s r"
      by (auto simp: some_path_def)
    then show "some_path m C E s (Chain b c)" unfolding some_path_def by (intro bexI[of _ "p @ q"]) auto
  qed
qed (auto simp: some_path_def)

lemma all_axioms_simps [simp]:
  "all_axioms m C E s (Basic data loci) = (\<forall>p\<in>set data. pred_axiom m C E s p)"
  "all_axioms m C E s (Chain b c) = (all_axioms m C E s b \<and> all_axioms m C E s c)"
  "all_axioms m C E s (Choice cs) = (\<forall>c\<in>set cs. all_axioms m C E s c)"
  by (auto simp: all_axioms_def)

lemma pure_states:
  "encode_state C E pm st s = Some (v, s') \<Longrightarrow> \<forall>p\<in>preds st. pure_pred p \<Longrightarrow> pm \<or> no_empty_choice st \<Longrightarrow>
      memArrays (fst s) (gep_id 0) \<noteq> None \<Longrightarrow> same_bounds s0 s \<Longrightarrow>
      same_ctx (fst s) (fst s') \<and> (holds m v \<longleftrightarrow> some_path m C E s0 st) \<and> (axiom_ok m v \<longleftrightarrow> all_axioms m C E s0 st)"
    and "encode_choices C E pm cs ctx res ms k = Some (v, ms', k') \<Longrightarrow> \<forall>c\<in>set cs. \<forall>p\<in>preds c. pure_pred p \<Longrightarrow>
      pm \<or> list_all no_empty_choice cs \<Longrightarrow> memArrays ctx (gep_id 0) \<noteq> None \<Longrightarrow> same_bounds s0 (ctx, k) \<Longrightarrow>
      \<forall>x\<in>set ms. same_ctx ctx (snd x) \<Longrightarrow>
      (\<forall>x\<in>set ms'. same_ctx ctx (snd x)) \<and> (\<not> pm \<longrightarrow> length ms' = length ms + length cs) \<and>
      (holds m v \<longleftrightarrow> holds m res \<or> (\<exists>c\<in>set cs. some_path m C E s0 c)) \<and>
      (axiom_ok m v \<longleftrightarrow> axiom_ok m res \<and> (\<forall>c\<in>set cs. all_axioms m C E s0 c))"
proof (induction C E pm st s and C E pm cs ctx res ms k arbitrary: v s' and v ms' k' rule: encode_state_encode_choices.induct)
  case (1 C E pathMode data loci s)
  then obtain r where r: "encode_preds C E data getTrue s = Some (r, s')" "v = Bool_and r getTrue"
    by (auto simp: bind_Some_iff)
  then show ?case using pure_preds[OF r(1), of s0 m] "1.prems" by simp
next
  case (2 C E pathMode base cur s)
  from "2.prems"(1) obtain b s1 c s2 where b: "encode_state C E pathMode base s = Some (b, s1)"
      "encode_state C E pathMode cur s1 = Some (c, s2)" "z3_checked (Bool_and (Bool_and getTrue b) c) = Some v" "s' = s2"
    by (auto simp: bind_Some_iff)
  have 1: "same_ctx (fst s) (fst s1)" "holds m b \<longleftrightarrow> some_path m C E s0 base" "axiom_ok m b \<longleftrightarrow> all_axioms m C E s0 base"
    using "2.IH"(1)[OF b(1)] "2.prems" by auto
  have "memArrays (fst s1) (gep_id 0) \<noteq> None" "same_bounds s0 s1"
    using 1(1) "2.prems"(4,5) same_ctx_bounds by (auto simp: same_ctx_def)
  then have 2: "same_ctx (fst s1) (fst s2)" "holds m c \<longleftrightarrow> some_path m C E s0 cur" "axiom_ok m c \<longleftrightarrow> all_axioms m C E s0 cur"
    using "2.IH"(2)[OF b(1) _ b(2)] "2.prems"(2,3) by (cases s1; auto)+
  show ?case using 1 2 b(3,4) same_ctx_trans by (auto simp: z3_checked_Some)
next
  case (3 C E pathMode cs s)
  from "3.prems"(1) obtain ms k where m: "encode_choices C E pathMode cs (fst s) getFalse [] (snd s) = Some (v, ms, k)"
      "(if pathMode then Some (fst s, k) else switchOn ms (fst s, k)) = Some s'"
    by (auto simp: bind_Some_iff)
  have c: "\<forall>x\<in>set ms. same_ctx (fst s) (snd x)" "\<not> pathMode \<longrightarrow> length ms = length cs"
      "holds m v \<longleftrightarrow> (\<exists>c\<in>set cs. some_path m C E s0 c)" "axiom_ok m v \<longleftrightarrow> (\<forall>c\<in>set cs. all_axioms m C E s0 c)"
    using "3.IH"[OF m(1)] "3.prems" by auto
  have "same_ctx (fst s) (fst s')"
  proof (cases pathMode)
    case False
    then have "ms \<noteq> []" using c(2) "3.prems"(3) by auto
    then show ?thesis using switchOn_same[of ms "fst s" k "fst s'" "snd s'"] m(2) False c(1) "3.prems"(4) by simp
  qed (use m(2) in auto)
  then show ?case using c(3,4) by simp
next
  case (4 C E pathMode ctx res ms k)
  then show ?case by auto
next
  case (5 C E pathMode c cs ctx res ms k)
  from "5.prems"(1) obtain z ctx1 k1 r where z: "encode_state C E pathMode c (ctx, k) = Some (z, ctx1, k1)"
      "z3_checked (Bool_or res z) = Some r"
    by (auto simp: bind_Some_iff)
  have g: "same_ctx ctx ctx1" "holds m z \<longleftrightarrow> some_path m C E s0 c" "axiom_ok m z \<longleftrightarrow> all_axioms m C E s0 c"
    using "5.IH"(1)[OF z(1)] "5.prems" by auto
  have r: "holds m r \<longleftrightarrow> holds m res \<or> some_path m C E s0 c" "axiom_ok m r \<longleftrightarrow> axiom_ok m res \<and> all_axioms m C E s0 c"
    using z(2) g by (auto simp: z3_checked_Some)
  show ?case
  proof (cases pathMode)
    case True
    then have "encode_choices C E pathMode cs ctx r ms k1 = Some (v, ms', k')"
      using "5.prems"(1) z by (simp add: bind_Some_iff)
    from "5.IH"(2)[OF z(1) refl refl z(2) True this] show ?thesis
      using True "5.prems" r by (auto simp: same_bounds_def)
  next
    case False
    let ?path = "simplify (filterByTypes [PATH] c)"
    obtain p ctx2 k2 where p: "(if state_equals ?path c then Some (z, ctx1, k1) else encode_state C E True ?path (ctx1, k1)) = Some (p, ctx2, k2)"
        "encode_choices C E pathMode cs ctx r (ms @ [(VE_simplify C p, ctx2)]) k2 = Some (v, ms', k')"
      using "5.prems"(1) z False by (auto simp: bind_Some_iff Let_def)
    have g2: "same_ctx ctx1 ctx2"
    proof (cases "state_equals ?path c")
      case True
      then show ?thesis using p(1) by simp
    next
      case neq: False
      have "\<forall>p\<in>preds ?path. pure_pred p" using preds_simplify preds_filter "5.prems"(2) by (meson list.set_intros(1) subsetD)
      moreover have "memArrays ctx1 (gep_id 0) \<noteq> None" "same_bounds s0 (ctx1, k1)"
        using g(1) "5.prems"(4,5) by (auto simp: same_ctx_def same_bounds_def)
      ultimately show ?thesis
        using "5.IH"(3)[OF z(1) refl refl z(2) False refl neq] p(1) neq by simp
    qed
    have "same_ctx ctx ctx2" using g(1) g2 same_ctx_trans by blast
    from "5.IH"(4)[OF z(1) refl refl z(2) False refl p(1) refl refl p(2)] this show ?thesis
      using False "5.prems" r by (auto simp: same_bounds_def)
  qed
qed

section \<open>What the solver's answers mean\<close>

text \<open>The solver is sound if a list of assertions and assumptions with a model is never unsatisfiable.\<close>

definition sound_solver :: "solver \<Rightarrow> bool" where
  "sound_solver z3 = (\<forall>as bs m. good_model m \<longrightarrow> (\<forall>e\<in>set as \<union> set bs. vb (eval m e)) \<longrightarrow> z3 as bs \<noteq> UNSAT)"

text \<open>The models of a query: its assumption holds, and so do the axioms of the two states.\<close>

definition query_model :: "model \<Rightarrow> enc_config \<Rightarrow> env \<Rightarrow> enc_state \<Rightarrow> pstate \<Rightarrow> pstate \<Rightarrow> bool" where
  "query_model m C E s query state =
     (good_model m \<and> vb (m SBool ''$CHECK$'' None) \<and> all_axioms m C E s state \<and> all_axioms m C E s query)"

definition pure_state :: "pstate \<Rightarrow> bool" where
  "pure_state st = (no_empty_choice st \<and> (\<forall>p\<in>preds st. pure_pred p))"

lemma encode_query_pure:
  assumes "encode_query C E ms me query state k = Some (z3query, z3state, ctx)" "pure_state state" "pure_state query"
    "init_context ms me k = Some s"
  shows "holds m z3query \<longleftrightarrow> some_path m C E s query" "axiom_ok m z3query \<longleftrightarrow> all_axioms m C E s query"
    "holds m z3state \<longleftrightarrow> some_path m C E s state" "axiom_ok m z3state \<longleftrightarrow> all_axioms m C E s state" "contextAxioms ctx = []"
proof -
  obtain s1 s2 where q: "encode_state C E False state s = Some (z3state, s1)"
      "encode_state C E False query s1 = Some (z3query, s2)" "ctx = fst s2"
    using assms(1,4) by (auto simp: encode_query_def bind_Some_iff)
  have i: "memArrays (fst s) (gep_id 0) \<noteq> None" "contextAxioms (fst s) = []"
    using init_context_spec[of ms me k "fst s" "snd s"] assms(4) by (auto simp: ctx_ok_def)
  have 1: "same_ctx (fst s) (fst s1) \<and> (holds m z3state \<longleftrightarrow> some_path m C E s state) \<and> (axiom_ok m z3state \<longleftrightarrow> all_axioms m C E s state)"
    using pure_states(1)[OF q(1), of s m] assms(2) i(1) by (simp add: pure_state_def same_bounds_def)
  have 2: "same_ctx (fst s1) (fst s2) \<and> (holds m z3query \<longleftrightarrow> some_path m C E s query) \<and> (axiom_ok m z3query \<longleftrightarrow> all_axioms m C E s query)"
    using pure_states(1)[OF q(2), of s m] assms(3) i(1) 1 by (simp add: pure_state_def same_bounds_def same_ctx_def)
  show "contextAxioms ctx = []" using 1 2 i(2) q(3) by (simp add: same_ctx_def)
  show "holds m z3query \<longleftrightarrow> some_path m C E s query" "axiom_ok m z3query \<longleftrightarrow> all_axioms m C E s query"
    "holds m z3state \<longleftrightarrow> some_path m C E s state" "axiom_ok m z3state \<longleftrightarrow> all_axioms m C E s state"
    using 1 2 by blast+
qed

lemma unsat_excludes:
  assumes "sound_solver z3" "Solver_check z3 q st ctx = Some UNSAT" "contextAxioms ctx = []"
    and "good_model m" "vb (m SBool ''$CHECK$'' None)" "axiom_ok m q" "axiom_ok m st"
  shows "\<not> (holds m q \<and> holds m st)"
proof
  assume h: "holds m q \<and> holds m st"
  define as where "as = [asAxiom st, ve_axiom q, EImplies (EVar SBool ''$CHECK$'') (ve_expr q)]"
  have "z3 as [EVar SBool ''$CHECK$''] = UNSAT"
    using assms(2,3)
    by (auto simp: Solver_check_def uniqueAxioms_def Let_def as_def Bool_implies_def lift2_def engine_binop_def VE_def split: if_splits)
  moreover have "\<forall>e\<in>set as \<union> set [EVar SBool ''$CHECK$'']. vb (eval m e)"
    using h assms(5-7) by (simp add: as_def holds_def axiom_ok_def asAxiom_def)
  ultimately show False using assms(1,4) unfolding sound_solver_def by blast
qed

text \<open>C2: When the solver answers that a query is not violated in a state, both without memory accesses, every
  model in which some path of the state holds satisfies some path of the query.\<close>

theorem isViolated_sound:
  assumes "sound_solver z3" "pure_state state" "pure_state query" "init_context ms me k = Some s"
    and "isViolated z3 C E ms me query state k = Some UnsatResult"
    and "query_model m C E s query state" "some_path m C E s state"
  shows "some_path m C E s query"
proof -
  obtain z3query z3state ctx where q: "encode_query C E ms me query state k = Some (z3query, z3state, ctx)"
      "Solver_check z3 (Bool_not z3query) z3state ctx = Some UNSAT"
    using assms(5) by (auto simp: isViolated_def bind_Some_iff split: check_result.splits) (metis check_result.exhaust)
  note e = encode_query_pure(1-4)[OF q(1) assms(2,3,4), where m = m] encode_query_pure(5)[OF q(1) assms(2,3,4)]
  have n: "axiom_ok m (Bool_not z3query) = axiom_ok m z3query" by (simp add: axiom_ok_def Bool_not_def lift1_def)
  have "\<not> (holds m (Bool_not z3query) \<and> holds m z3state)"
    using assms(6) e by (intro unsat_excludes[OF assms(1) q(2)]) (auto simp: query_model_def n)
  then show ?thesis using e assms(7) by simp
qed

text \<open>A solver that finds an assumption \<open>p\<close> with the assertions \<open>e\<close> and \<open>p\<close> implies not \<open>e\<close>.\<close>

definition syntactic_solver :: solver where
  "syntactic_solver as bs =
     (if list_ex (\<lambda>e. list_ex (\<lambda>p. EImplies p (ENot e) \<in> set as) bs) as then UNSAT else UNKNOWN_RESULT)"

lemma syntactic_solver_sound [simp]: "sound_solver syntactic_solver"
  unfolding sound_solver_def
proof (intro allI impI notI)
  fix as bs m
  assume a: "\<forall>e\<in>set as \<union> set bs. vb (eval m e)" "syntactic_solver as bs = UNSAT"
  then obtain e p where "e \<in> set as" "p \<in> set bs" "EImplies p (ENot e) \<in> set as"
    by (auto simp: syntactic_solver_def list_ex_iff split: if_splits)
  with a(1) have "vb (eval m e)" "vb (eval m p)" "vb (eval m (EImplies p (ENot e)))" by blast+
  then show False by simp
qed

definition sample_condition :: pstate where
  "sample_condition = Basic [mk_EqualityPredicate (mk_ValueTerm TBool ''b'' False) (mk_OpaqueBoolConstantTerm TBool True)
     unknown_Locus PATH] {}"

definition true_model :: model where
  "true_model s n k = (case s of SBool \<Rightarrow> VBool True | SBV w \<Rightarrow> VBV w 0 | SArr i e \<Rightarrow> VArr (\<lambda>_. 0))"

lemma true_model_facts [simp]: "good_model true_model" "true_model SBool n k = VBool True"
  by (simp_all add: good_model_def true_model_def split: srt.split)

lemma sample_condition_facts:
  assumes "init_context ms me k = Some s"
  shows "some_path true_model default_config E s sample_condition" "all_axioms true_model default_config E s sample_condition"
    "pure_state sample_condition"
  by (auto simp: sample_condition_def pred_holds_def pred_axiom_def pred_value_def encode_pred_def mk_EqualityPredicate_def
      EqualityPredicate_doit_def mk_ValueTerm_def mk_OpaqueBoolConstantTerm_def encode.simps leaf_doit_def getVarByTypeAndName_def
      var_sort_def VE_def z3_checked_def VE_eq_def Bool_isValid_def is_bool_def Bool_mkConst_def Bool_eq_def lift2_def
      engine_binop_def holds_def axiom_ok_def spliceAxioms_def spliceAxiomsImpl2_def defaultAxiom_def pure_state_def pure_pred_def)

theorem isViolated_sound_witness:
  "isViolated syntactic_solver default_config (bodies_env Map.empty) 1024 4096 sample_condition sample_condition 0 = Some UnsatResult \<and>
   (\<exists>s. init_context 1024 4096 0 = Some s \<and> some_path true_model default_config (bodies_env Map.empty) s sample_condition)"
proof -
  obtain s where s: "init_context 1024 4096 0 = Some s" using sample_encodes(1) by (auto simp: sample_context_def Option.is_none_def)
  have v: "isViolated syntactic_solver default_config (bodies_env Map.empty) 1024 4096 sample_condition sample_condition 0 = Some UnsatResult"
    by code_simp
  note f = sample_condition_facts[OF s]
  have "query_model true_model default_config (bodies_env Map.empty) s sample_condition sample_condition"
    using f by (simp add: query_model_def)
  from isViolated_sound[OF syntactic_solver_sound f(3) f(3) s v this f(1)] show ?thesis using v s by blast
qed

section \<open>Impossible paths\<close>

text \<open>\<open>PredicateState::isUnreachableIn\<close>: the path conditions of the state against the rest of it.\<close>

definition isUnreachableIn :: "solver \<Rightarrow> enc_config \<Rightarrow> env \<Rightarrow> 64 word \<Rightarrow> 64 word \<Rightarrow> pstate \<Rightarrow> nat \<Rightarrow> bool option" where
  "isUnreachableIn z3 C E ms me st k = do {
     let split = splitByTypes [PATH] st;
     r \<leftarrow> isPathImpossible z3 C E ms me (fst split) (snd split) k;
     Some (r = UnsatResult) }"

text \<open>C21: For a state and a path query without memory accesses and without empty choices, an answer unsat of
  \<open>isPathImpossible\<close> means that in no model of the axioms of the encoding a path of the state and a path of the query
  both hold, if the solver is sound and never answers unknown: the code takes unknown for unsat.\<close>

theorem isPathImpossible_sound:
  assumes "sound_solver z3" "\<And>as bs. z3 as bs \<noteq> UNKNOWN_RESULT" "pure_state state" "pure_state path" "init_context ms me k = Some s"
    and "isPathImpossible z3 C E ms me path state k = Some UnsatResult" "query_model m C E s path state"
  shows "\<not> (some_path m C E s state \<and> some_path m C E s path)"
proof -
  obtain z3path z3state ctx r where q: "encode_query C E ms me path state k = Some (z3path, z3state, ctx)"
      "Solver_check z3 z3path z3state ctx = Some r" "r \<noteq> SAT"
    using assms(6) by (auto simp: isPathImpossible_def bind_Some_iff split: if_splits)
  have r: "r = UNSAT"
    using q(2,3) assms(2) by (cases r) (auto simp: Solver_check_def Let_def split: if_splits)
  note e = encode_query_pure(1-4)[OF q(1) assms(3,4,5), where m = m] encode_query_pure(5)[OF q(1) assms(3,4,5)]
  have "\<not> (holds m z3path \<and> holds m z3state)"
    using assms(7) e by (intro unsat_excludes[OF assms(1) q(2)[unfolded r]]) (auto simp: query_model_def)
  then show ?thesis using e by blast
qed

text \<open>A solver that decides: unsatisfiable if an asserted formula is the constant false.\<close>

definition constant_solver :: solver where
  "constant_solver as bs = (if EImplies (EVar SBool ''$CHECK$'') (EEq (EBoolC False) (EBoolC True)) \<in> set as \<and> EVar SBool ''$CHECK$'' \<in> set bs then UNSAT else SAT)"

lemma constant_solver_sound [simp]: "sound_solver constant_solver"
  unfolding sound_solver_def
proof (intro allI impI notI)
  fix as bs m
  assume a: "\<forall>e\<in>set as \<union> set bs. vb (eval m e)" "constant_solver as bs = UNSAT"
  then have "EImplies (EVar SBool ''$CHECK$'') (EEq (EBoolC False) (EBoolC True)) \<in> set as" "EVar SBool ''$CHECK$'' \<in> set bs"
    by (auto simp: constant_solver_def split: if_splits)
  with a(1) have "vb (eval m (EImplies (EVar SBool ''$CHECK$'') (EEq (EBoolC False) (EBoolC True))))" "vb (eval m (EVar SBool ''$CHECK$''))" by blast+
  then show False by simp
qed

definition false_condition :: pstate where
  "false_condition = Basic [mk_EqualityPredicate (mk_OpaqueBoolConstantTerm TBool False) (mk_OpaqueBoolConstantTerm TBool True)
     unknown_Locus PATH] {}"

lemma false_condition_facts:
  assumes "init_context ms me k = Some s"
  shows "all_axioms true_model default_config E s false_condition" "pure_state false_condition"
  by (auto simp: false_condition_def pred_holds_def pred_axiom_def pred_value_def encode_pred_def mk_EqualityPredicate_def
      EqualityPredicate_doit_def mk_OpaqueBoolConstantTerm_def encode.simps leaf_doit_def VE_def z3_checked_def VE_eq_def
      Bool_isValid_def is_bool_def Bool_mkConst_def Bool_eq_def lift2_def engine_binop_def axiom_ok_def spliceAxioms_def
      spliceAxiomsImpl2_def defaultAxiom_def pure_state_def pure_pred_def)

theorem isPathImpossible_sound_witness:
  "isPathImpossible constant_solver default_config (bodies_env Map.empty) 1024 4096 false_condition sample_condition 0 = Some UnsatResult \<and>
   (\<exists>s. init_context 1024 4096 0 = Some s \<and>
     \<not> (some_path true_model default_config (bodies_env Map.empty) s sample_condition \<and>
        some_path true_model default_config (bodies_env Map.empty) s false_condition))"
proof -
  obtain s where s: "init_context 1024 4096 0 = Some s" using sample_encodes(1) by (auto simp: sample_context_def Option.is_none_def)
  have v: "isPathImpossible constant_solver default_config (bodies_env Map.empty) 1024 4096 false_condition sample_condition 0 = Some UnsatResult"
    by code_simp
  have d: "constant_solver as bs \<noteq> UNKNOWN_RESULT" for as bs by (simp add: constant_solver_def)
  note f = sample_condition_facts[OF s] false_condition_facts[OF s]
  have "query_model true_model default_config (bodies_env Map.empty) s false_condition sample_condition"
    using f by (simp add: query_model_def)
  from isPathImpossible_sound[OF constant_solver_sound d f(3,5) s v this] show ?thesis using v s by blast
qed

text \<open>A solver that gives up leaves the violation of a property open, but makes every path impossible:
  \<open>isPathImpossible\<close> answers \<open>unsat\<close> and \<open>isUnreachableIn\<close> drops a state that a model satisfies.\<close>

theorem unknown_is_unreachable:
  "isViolated (\<lambda>as bs. UNKNOWN_RESULT) default_config empty_env 1024 4096 sample_condition sample_condition 0 = Some UnknownResult \<and>
   isPathImpossible (\<lambda>as bs. UNKNOWN_RESULT) default_config empty_env 1024 4096 sample_condition sample_condition 0 = Some UnsatResult \<and>
   isUnreachableIn (\<lambda>as bs. UNKNOWN_RESULT) default_config empty_env 1024 4096 sample_condition 0 = Some True \<and>
   some_path true_model default_config empty_env (the sample_context) sample_condition"
proof (intro conjI)
  obtain s where s: "sample_context = Some s" using sample_encodes(1) by (auto simp: Option.is_none_def)
  show "some_path true_model default_config empty_env (the sample_context) sample_condition"
    using sample_condition_facts(1)[of 1024 4096 0 s] s by (simp add: sample_context_def)
qed code_simp+

section \<open>The memory after a choice without path conditions\<close>

lemma encode_choices_append:
  "encode_choices C E False (xs @ [c]) ctx res ms k = Some (v, ms', k') \<Longrightarrow>
   \<exists>res1 ms1 k1. encode_choices C E False [c] ctx res1 ms1 k1 = Some (v, ms', k')"
proof (induction xs arbitrary: res ms k)
  case (Cons x xs)
  from Cons.prems obtain r ms1 k1 where "encode_choices C E False (xs @ [c]) ctx r ms1 k1 = Some (v, ms', k')"
    by (auto simp: bind_Some_iff Let_def split: if_splits)
  then show ?case by (rule Cons.IH)
qed auto

lemma selected_last: "holds m b \<Longrightarrow> selected m (xs @ [(b, x)]) d = x"
  by (induction xs arbitrary: d) auto

text \<open>The last alternative of a choice without path conditions of its own decides the memory after the
  choice, whatever the other alternatives wrote: this is the state that \<open>isUnreachableIn\<close> encodes once it
  has split the path conditions off.\<close>

theorem split_choice_memory:
  assumes "simplifier_ok C" "ctx_ok c" "list_all no_empty_choice cs" "\<forall>p\<in>set data. ptype p \<noteq> PATH"
    and "encode_state C E False (Choice (cs @ [Basic data loci])) (c, k) = Some (v, c', k')"
  shows "\<exists>k0 v1 c1 k1. encode_state C E False (Basic data loci) (c, k0) = Some (v1, c1, k1) \<and>
    (\<forall>m i. eval m (ve_expr (mem (ctx_lookup c' i))) = eval m (ve_expr (mem (ctx_lookup c1 i))))"
proof -
  obtain ms k2 where m: "encode_choices C E False (cs @ [Basic data loci]) c getFalse [] k = Some (v, ms, k2)"
      "switchOn ms (c, k2) = Some (c', k')"
    using assms(5) by (auto simp: bind_Some_iff)
  have t: "is_bool (ve_expr getFalse)" by (simp add: is_bool_def getFalse_def Bool_mkConst_def VE_def)
  have alt: "alternatives_ok c ms"
    using encode_state_grows(2)[OF assms(1) m(1) assms(2) _ t] assms(3) by (simp add: alternatives_ok_def)
  obtain res1 ms1 k0 where l: "encode_choices C E False [Basic data loci] c res1 ms1 k0 = Some (v, ms, k2)"
    using encode_choices_append[OF m(1)] by blast
  have f: "filter (\<lambda>p. ptype p = PATH) data = []" using assms(4) by (simp add: filter_empty_conv)
  obtain z c1 k1 p where z: "encode_state C E False (Basic data loci) (c, k0) = Some (z, c1, k1)"
      "(if data = [] then Some (z, c1, k1) else Some (Bool_and getTrue getTrue, c1, k1)) = Some (p, c1, k1)"
      "ms = ms1 @ [(VE_simplify C p, c1)]"
    using l by (cases "data = []") (auto simp: bind_Some_iff Let_def f)
  have "holds m p" for m
  proof (cases "data = []")
    case True
    then show ?thesis using z(1,2) by auto
  qed (use z(2) in auto)
  then have "selected m ms c = c1" for m using assms(1) z(3) by (simp add: selected_last)
  then show ?thesis using z(1) merged_memory_selects(1)[OF assms(2) alt m(2)] by metis
qed

theorem split_choice_memory_witness:
  "\<exists>c k v c' k' k0 v1 c1 k1. init_context 1024 4096 0 = Some (c, k) \<and>
     encode_state default_config empty_env False (Choice ([Basic [] {}] @ [Basic [sample_store] {}])) (c, k) = Some (v, c', k') \<and>
     encode_state default_config empty_env False (Basic [sample_store] {}) (c, k0) = Some (v1, c1, k1) \<and>
     eval zero_model (ve_expr (mem (ctx_lookup c' (memory_id 0)))) = eval zero_model (ve_expr (mem (ctx_lookup c1 (memory_id 0))))"
proof -
  have "\<not> Option.is_none (do { s \<leftarrow> init_context 1024 4096 0;
      encode_state default_config empty_env False (Choice ([Basic [] {}] @ [Basic [sample_store] {}])) s })"
    by code_simp
  then obtain c k v c' k' where s: "init_context 1024 4096 0 = Some (c, k)"
      "encode_state default_config empty_env False (Choice ([Basic [] {}] @ [Basic [sample_store] {}])) (c, k) = Some (v, c', k')"
    by (auto simp: Option.is_none_def bind_Some_iff split: bind_splits)
  have "ctx_ok c" using init_context_spec[OF s(1)] by simp
  moreover have "\<forall>p\<in>set [sample_store]. ptype p \<noteq> PATH" by (simp add: sample_store_def mk_StorePredicate_def)
  ultimately show ?thesis using split_choice_memory[OF default_config_ok _ _ _ s(2)] s by fastforce
qed

section \<open>Stores and loads of the context\<close>

lemma select_axiom: "0 < w \<Longrightarrow> w \<le> 64 \<Longrightarrow> Scatter_select a i w = Some r \<Longrightarrow> ve_axiom r = defaultAxiom"
  by (auto simp: Scatter_select_def concatBytesDynamic_def adaptTo_def BV_extract_def zgrowTo_def TA_select_def VE_def ElemSize_def Let_def
      split: if_splits)

lemma written_reads_back:
  assumes "good_model m" "ctx_ok c" "sort_of (ve_expr p) = Some (SBV 64)" "sort_of (ve_expr e) = Some (SBV w)" "0 < w" and w: "w \<le> 64"
  shows "\<exists>s1 r s2. writeExprToMemory p e ms (c, k) = Some s1 \<and> readExprFromMemory p w ms s1 = Some (r, s2) \<and>
      eval m (ve_expr r) = eval m (ve_expr e)"
proof -
  obtain f q x where v: "eval m (ve_expr (mem (ctx_lookup c (memory_id ms)))) = VArr f" "eval m (ve_expr p) = VBV 64 q"
      "eval m (ve_expr e) = VBV w x" "0 \<le> x" "x < 2 ^ w"
    using eval_sortE[OF assms(1)] ctx_lookup_ok[OF assms(2), of "memory_id ms"] assms(3,4) unfolding array_ok_def by metis
  have a: "sort_of (ve_expr (mem (ctx_lookup c (memory_id ms)))) = Some (SArr 64 64)"
    using ctx_lookup_ok[OF assms(2)] by (simp add: array_ok_def)
  have c1: "cells 64 = 1" by (simp add: cells_def ElemSize_def)
  define b where "b = \<lparr>ve_expr = (if w = 64 then ve_expr e else ESext (64 - w) (ve_expr e)), ve_axiom = ve_axiom e\<rparr>"
  have cw: "cells w = 1" using w by (simp add: cells_def ElemSize_def)
  have b: "BVN_forceCast ElemSize e = Some b"
    using w assms(4) by (auto simp: b_def BVN_forceCast_def BVN_convert_def is_bool_def is_bv_def bv_size_def ElemSize_def)
  obtain y where y: "cell_ok m y b" "take_bit w y = take_bit w x"
    using grown_cell[OF assms(1,4) v(3) assms(5) w] unfolding b_def by blast
  have yb: "sort_of (ve_expr b) = Some (SBV 64)" "eval m (ve_expr b) = VBV 64 y" using y(1) by (simp_all add: cell_ok_def)
  let ?a = "Scatter_store_cell (mem (ctx_lookup c (memory_id ms))) p b"
  have eq: "Scatter_store (mem (ctx_lookup c (memory_id ms))) p b = Some ?a"
  proof -
    have "BV_isValid b" "getBitSize b = 64" using yb(1) by (simp_all add: BV_isValid_def is_bv_def getBitSize_def bv_size_def)
    moreover from this have "splitBytes b = Some [sgrowTo ElemSize b]"
      using yb(1) by (simp add: splitBytes_def ElemSize_def sgrowTo_def BVN_isValid_def is_bv_def bv_size_def)
    ultimately show ?thesis by (simp add: Scatter_store_def Scatter_store_cell_def ElemSize_def)
  qed
  obtain f' where st: "sort_of (ve_expr ?a) = Some (SArr 64 64)" "eval m (ve_expr ?a) = VArr f'"
      "take_bit 64 (joined (map (\<lambda>j. f' (take_bit 64 (q + int j))) [0..<1])) = y"
    using store_spec[OF assms(1) a v(1) assms(3) v(2) yb] unfolding c1 eq by auto
  obtain r where r: "Scatter_select ?a p w = Some r" "sort_of (ve_expr r) = Some (SBV w)"
      "eval m (ve_expr r) = VBV w (take_bit w (joined (map (\<lambda>j. f' (take_bit 64 (q + int j))) [0..<1])))"
    using select_spec[OF assms(1) st(1,2) assms(3) v(2) assms(5)] unfolding cw by blast
  have "take_bit w (joined (map (\<lambda>j. f' (take_bit 64 (q + int j))) [0..<1])) = take_bit w y"
    using w by (simp flip: st(3))
  then have rx: "eval m (ve_expr r) = VBV w x" using r(3) y(2) v(4,5) by (simp add: take_bit_int_eq_self)
  have "ve_axiom ?a = defaultAxiom" "ve_axiom r = defaultAxiom"
    using select_axiom[OF assms(5) w r(1)] by (simp_all add: Scatter_store_cell_def TA_store_def VE_def)
  then have "z3_checked ?a = Some ?a" "z3_checked r = Some r"
    using st(1) r(2) by (simp_all add: z3_checked_def defaultAxiom_def)
  then have "\<exists>s1 s2. writeExprToMemory p e ms (c, k) = Some s1 \<and> readExprFromMemory p w ms s1 = Some (r, s2)"
    using b r(1)
    by (simp add: writeExprToMemory_def writeCell_def readExprFromMemory_def readExpr_def ctx_get_def MA_store_cell_def MA_select_def
        ctx_set_def ctx_lookup_def[of "_\<lparr>memArrays := _\<rparr>"])
  then show ?thesis using rx v(3) by auto
qed

lemma wide_write_refused:
  assumes "ctx_ok c" "sort_of (ve_expr p) = Some (SBV 64)" "sort_of (ve_expr e) = Some (SBV w)" and w: "64 < w"
  shows "writeExprToMemory p e ms (c, k) = None"
proof -
  have a: "sort_of (ve_expr (mem (ctx_lookup c (memory_id ms)))) = Some (SArr 64 64)"
    using ctx_lookup_ok[OF assms(1)] by (simp add: array_ok_def)
  define b where "b = \<lparr>ve_expr = EExtract 64 0 (ve_expr e), ve_axiom = ve_axiom e\<rparr>"
  have b: "BVN_forceCast ElemSize e = Some b" "sort_of (ve_expr b) = Some (SBV 65)"
    using w assms(3) by (auto simp: b_def BVN_forceCast_def BVN_convert_def is_bool_def is_bv_def bv_size_def ElemSize_def)
  have "getBitSize b = 65" using b(2) by (simp add: getBitSize_def bv_size_def)
  then have "sort_of (ve_expr (Scatter_store_cell (mem (ctx_lookup c (memory_id ms))) p b)) = None"
    using a b(2) by (simp add: Scatter_store_cell_def TA_store_def VE_def sgrowTo_def ElemSize_def)
  then show ?thesis
    using b(1) by (simp add: writeExprToMemory_def writeCell_def ctx_get_def MA_store_cell_def z3_checked_def)
qed

text \<open>C18: A value of at most 64 bits that is written to memory is read back at the same address, in every model; a
  wider value is refused, because the cast to a cell cuts it to 65 bits.\<close>

theorem context_store_load:
  assumes "good_model m" "ctx_ok c" "sort_of (ve_expr p) = Some (SBV 64)" "sort_of (ve_expr e) = Some (SBV w)" "0 < w"
  shows "(w \<le> 64 \<longrightarrow> (\<exists>s1 r s2. writeExprToMemory p e ms (c, k) = Some s1 \<and> readExprFromMemory p w ms s1 = Some (r, s2) \<and>
      eval m (ve_expr r) = eval m (ve_expr e))) \<and> (64 < w \<longrightarrow> writeExprToMemory p e ms (c, k) = None)"
  using written_reads_back[OF assms] wide_write_refused[OF assms(2-4)] by blast

theorem context_store_load_witness:
  "\<exists>c k s1 r s2. init_context 1024 4096 0 = Some (c, k) \<and> writeExprToMemory (BV_mkConst 9 64) (BV_mkConst 77 32) 0 (c, k) = Some s1 \<and>
     readExprFromMemory (BV_mkConst 9 64) 32 0 s1 = Some (r, s2) \<and> eval zero_model (ve_expr r) = VBV 32 77 \<and>
     writeExprToMemory (BV_mkConst 9 64) (BV_mkConst 77 128) 0 (c, k) = None"
proof -
  obtain c k where ck: "init_context 1024 4096 0 = Some (c, k)"
    using sample_encodes(1) by (auto simp: sample_context_def Option.is_none_def)
  have ok: "ctx_ok c" using init_context_spec[OF ck] by simp
  have s: "sort_of (ve_expr (BV_mkConst 9 64)) = Some (SBV 64)" "sort_of (ve_expr (BV_mkConst 77 32)) = Some (SBV 32)"
      "sort_of (ve_expr (BV_mkConst 77 128)) = Some (SBV 128)" "eval zero_model (ve_expr (BV_mkConst 77 32)) = VBV 32 77"
    by (simp_all add: BV_mkConst_def VE_def mkNumericConst_def take_bit_eq_mod)
  show ?thesis
    using context_store_load[OF zero_model_good ok s(1,2), of 0 k] context_store_load[OF zero_model_good ok s(1,3), of 0 k] ck s(4)
    by auto
qed

end
