(* ===== verification/SmtArith.thy ===== *)
theory SmtArith
  imports SmtEncode
begin

text \<open>
  The encoding of comparisons and arithmetic against the machine: on operands of equal width the
  encoded condition is \<open>condition_holds\<close> and the encoded operation is \<open>machine_arith\<close>, but for the
  arithmetic shift, which is encoded as the logical one, and the divisions by zero, which SMT-LIB defines.
\<close>

text \<open>An expression that has the value of a machine word.\<close>

definition means :: "model \<Rightarrow> ValueExpr \<Rightarrow> 'a::len word \<Rightarrow> bool" where
  "means m v a = (sort_of (ve_expr v) = Some (SBV (LENGTH('a))) \<and> eval m (ve_expr v) = VBV (LENGTH('a)) (uint a))"

lemma means_valid: "means m v (a :: 'a::len word) \<Longrightarrow> BV_isValid v \<and> \<not> Bool_isValid v \<and> getBitSize v = LENGTH('a)"
  by (simp add: means_def BV_isValid_def is_bv_def Bool_isValid_def is_bool_def getBitSize_def bv_size_def)

lemma bv_signed_uint: "bv_signed (LENGTH('a)) (uint (a :: 'a::len word)) = sint a"
  by (simp add: bv_signed_def sint_uint)

lemma means_binary:
  assumes "means m l (a :: 'a::len word)" "means m r (b :: 'a word)"
  shows "ve_expr (BV_binary op l r) = engine_binop op (ve_expr l) (ve_expr r)"
  using BV_binary_same[of l r op] means_valid[OF assms(1)] means_valid[OF assms(2)] by (simp add: lift2_def)

lemma means_pred:
  assumes "means m l (a :: 'a::len word)" "means m r (b :: 'a word)" "op \<in> set bv_preds"
  shows "holds m (BV_binary op l r) = bv_holds op (LENGTH('a)) (uint a) (uint b)"
proof -
  have "op \<noteq> B_CONCAT" "op \<notin> set bv_ops" using assms(3) by (auto simp: bv_preds_def bv_ops_def)
  then show ?thesis using assms bv_op_sort(2)[OF assms(3)]
    by (simp add: holds_def means_binary[OF assms(1,2)] means_def)
qed

lemma means_op:
  assumes "means m l (a :: 'a::len word)" "means m r (b :: 'a word)" "op \<in> set bv_ops"
  shows "eval m (ve_expr (BV_binary op l r)) = VBV (LENGTH('a)) (bv_value op (LENGTH('a)) (uint a) (uint b))"
proof -
  have "op \<noteq> B_CONCAT" using assms(3) by (auto simp: bv_ops_def)
  then show ?thesis using assms bv_op_sort(1)[OF assms(3)]
    by (simp add: means_binary[OF assms(1,2)] means_def)
qed

lemma means_eq:
  assumes "means m l (a :: 'a::len word)" "means m r (b :: 'a word)"
  shows "holds m (BV_binary B_EQUAL l r) = (a = b)" "holds m (BV_binary B_NEQUAL l r) = (a \<noteq> b)"
  using assms by (simp_all add: holds_def means_binary[OF assms] engine_binop_def means_def is_bool_def word_uint_eq_iff)

text \<open>C19: An encoded comparison of two words of the same width holds in a model exactly when the condition
  holds of the words, signed and unsigned.\<close>

theorem encoded_comparison:
  assumes "means m l (a :: 'a::len word)" "means m r (b :: 'a word)" "op \<noteq> UNKNOWN"
  shows "\<exists>v. CmpTerm_doit op l r = Some v \<and> condition_holds op a b = Some (holds m v)"
proof -
  have p: "o' \<in> set bv_preds \<Longrightarrow> holds m (BV_binary o' l r) = bv_holds o' (LENGTH('a)) (uint a) (uint b)" for o'
    by (rule means_pred[OF assms(1,2)])
  have c: "holds m getTrue" "\<not> holds m getFalse"
    by (simp_all add: getTrue_def getFalse_def Bool_mkConst_def holds_def VE_def)
  show ?thesis
    using assms(3) means_valid[OF assms(1)] means_valid[OF assms(2)]
    by (cases op) (simp_all add: CmpTerm_doit_def means_eq[OF assms(1,2)] p c bv_preds_def bv_holds_def bv_signed_uint
        word_less_def word_le_def)
qed

theorem encoded_comparison_witness:
  "\<exists>v. CmpTerm_doit LT (BV_mkConst 255 8) (BV_mkConst 1 8) = Some v \<and> holds (\<lambda>s n k. VBV 0 0) v"
proof -
  have "means (\<lambda>s n k. VBV 0 0) (BV_mkConst 255 8) (255 :: 8 word)" "means (\<lambda>s n k. VBV 0 0) (BV_mkConst 1 8) (1 :: 8 word)"
    by (simp_all add: means_def BV_mkConst_def VE_def mkNumericConst_def take_bit_eq_mod)
  from encoded_comparison[OF this, of LT] show ?thesis by auto
qed

text \<open>C20: An encoded operation on two 64-bit words has the value of the machine's operation, but for the
  arithmetic shift, which has the value of the logical one, and for a division by zero.\<close>

theorem encoded_arithmetic:
  assumes "means m l (a :: 64 word)" "means m r (b :: 64 word)" "op \<notin> {LAND, LOR, IMPLIES}"
    and "op \<in> {DIV, REM} \<Longrightarrow> b \<noteq> 0"
  shows "\<exists>v. BinaryTerm_doit op l r = Some v \<and>
    eval m (ve_expr v) = VBV 64 (uint (machine_arith (if op = ASHR then LSHR else op) a b))"
proof -
  have ops: "eval m (ve_expr (BV_binary o' l r)) = VBV 64 (bv_value o' 64 (uint a) (uint b))" if "o' \<in> set bv_ops" for o'
    using means_op[OF assms(1,2) that] by simp
  have sg: "bv_signed 64 (uint a) = sint a" "bv_signed 64 (uint b) = sint b"
    using bv_signed_uint[of a] bv_signed_uint[of b] by simp_all
  have val: "bv_value B_ADD 64 (uint a) (uint b) = uint (a + b)" "bv_value B_SUB 64 (uint a) (uint b) = uint (a - b)"
    "bv_value B_SMUL 64 (uint a) (uint b) = uint (a * b)"
    "bv_value B_BAND 64 (uint a) (uint b) = uint (semiring_bit_operations_class.and a b)"
    "bv_value B_BOR 64 (uint a) (uint b) = uint (semiring_bit_operations_class.or a b)"
    "bv_value B_BXOR 64 (uint a) (uint b) = uint (semiring_bit_operations_class.xor a b)"
    by (simp_all add: bv_value_def uint_word_arith_bintrs unsigned_and_eq unsigned_or_eq unsigned_xor_eq)
  have dv: "b \<noteq> 0 \<Longrightarrow> bv_value B_SDIV 64 (uint a) (uint b) = uint (word_of_int (sint a sdiv sint b) :: 64 word)"
    "b \<noteq> 0 \<Longrightarrow> bv_value B_SREM 64 (uint a) (uint b) = uint (word_of_int (sint a smod sint b) :: 64 word)"
    by (simp_all add: bv_value_def sg uint_word_of_int take_bit_eq_mod unsigned_eq_0_iff)
  have n: "nat (uint b) = unat b" "(64 :: int) \<le> uint b \<longleftrightarrow> 64 \<le> unat b" by (simp_all add: le_nat_iff flip: nat_uint_eq)
  have "uint (push_bit (unat b) a) = take_bit 64 (push_bit (unat b) (uint a))"
    by (simp add: unsigned_push_bit_eq)
  moreover have "take_bit 64 (push_bit (unat b) (uint a)) = 0" if "64 \<le> unat b"
    using that by (simp add: take_bit_push_bit)
  ultimately have shl: "bv_value B_ASHL 64 (uint a) (uint b) = uint (push_bit (unat b) a)"
    by (auto simp: bv_value_def n push_bit_eq_mult simp del: push_bit_of_nat)
  have r: "uint (drop_bit (unat b) a) = drop_bit (unat b) (take_bit 64 (uint a))" by (simp add: unsigned_drop_bit_eq)
  have "drop_bit (unat b) (take_bit 64 (uint a)) = 0" if "64 \<le> unat b" using that by (simp add: drop_bit_take_bit)
  moreover have "take_bit 64 (uint a) = uint a"
    using uint_range_size[of a] by (intro take_bit_int_eq_self) (simp_all add: word_size)
  ultimately have shr: "bv_value B_LSHR 64 (uint a) (uint b) = uint (drop_bit (unat b) a)"
    unfolding r by (auto simp: bv_value_def n drop_bit_eq_div)
  show ?thesis
    using assms(3,4) means_valid[OF assms(1)] means_valid[OF assms(2)] ops val dv shl shr
    by (cases op) (auto simp: BinaryTerm_doit_def bv_ops_def machine_arith_def BV_shr_def BV_lshr_def)
qed

theorem encoded_arithmetic_witness:
  "\<exists>v. BinaryTerm_doit ASHR (BV_mkConst (2 ^ 63) 64) (BV_mkConst 4 64) = Some v \<and> eval zero_model (ve_expr v) = VBV 64 (2 ^ 59)"
proof -
  have "means zero_model (BV_mkConst (2 ^ 63) 64) (0x8000000000000000 :: 64 word)" "means zero_model (BV_mkConst 4 64) (4 :: 64 word)"
    by (simp_all add: means_def BV_mkConst_def VE_def mkNumericConst_def take_bit_eq_mod)
  from encoded_arithmetic[OF this, of ASHR] show ?thesis by (simp add: machine_arith_def drop_bit_eq_div)
qed

text \<open>Operands of different widths are extended by their sign even for an unsigned comparison: the 8-bit
  255 is not below the 16-bit 256, and the bitwise negation of a vector is refused by the solver.\<close>

theorem mixed_widths:
  "map_option (holds zero_model) (CmpTerm_doit ULT (BV_mkConst 255 8) (BV_mkConst 256 16)) = Some False"
  "condition_holds ULT (ucast (255 :: 8 word)) (256 :: 16 word) = Some True"
  "map_option z3_checked (UnaryTerm_doit BNOT (BV_mkConst 1 8)) = Some None"
proof -
  show "condition_holds ULT (ucast (255 :: 8 word)) (256 :: 16 word) = Some True"
    "map_option z3_checked (UnaryTerm_doit BNOT (BV_mkConst 1 8)) = Some None"
    by code_simp+
  show "map_option (holds zero_model) (CmpTerm_doit ULT (BV_mkConst 255 8) (BV_mkConst 256 16)) = Some False"
    by (simp add: CmpTerm_doit_def BV_mkConst_def VE_def mkNumericConst_def Bool_isValid_def BV_isValid_def is_bool_def is_bv_def
        BV_binary_def getBitSize_def bv_size_def sgrowTo_def Let_def engine_binop_def holds_def bv_ops_def bv_holds_def bv_signed_def
        take_bit_eq_mod signed_take_bit_eq_if_negative)
qed


end
