(* ===== verification/Hamt.thy ===== *)
theory Hamt
  imports Predicates
begin

text \<open>
  The persistent hash sets of src/Util/hamt.hpp: a trie over the 32-bit mixed hash of the elements, five bits
  a level, whose leaves are buckets of elements with one hash.  \<open>ControlFlowDepsTracker\<close> keeps the conditions
  that dominate a predicate in them.  A node is a value; where the code compares two pointers to see that
  nothing has changed, the model asks an oracle \<open>same\<close> about two nodes with the same contents, and what is
  proved holds for every oracle.  A null pointer is \<open>None\<close>; reading a digit the hash does not have, a shift
  by 32 bits or more, is undefined in C++ and an outer \<open>None\<close> here.
\<close>

section \<open>Sparse arrays\<close>

text \<open>\<open>compacting_array\<close>: a bitset of the positions in use and the elements at these positions.\<close>

type_synonym 'a compacting_array = "32 word \<times> 'a list"

definition realIx :: "32 word \<Rightarrow> nat \<Rightarrow> nat" where
  "realIx bitmask ix = length (filter (bit bitmask) [0..<ix])"

definition ca_size :: "32 word \<Rightarrow> nat" where
  "ca_size bitmask = length (filter (bit bitmask) [0..<32])"

definition ca_count :: "'a compacting_array \<Rightarrow> nat \<Rightarrow> bool" where
  "ca_count a ix = bit (fst a) ix"

definition ca_at :: "'a compacting_array \<Rightarrow> nat \<Rightarrow> 'a option" where
  "ca_at a ix = vector_at (snd a) (realIx (fst a) ix)"

definition imm_set :: "'a compacting_array \<Rightarrow> nat \<Rightarrow> 'a \<Rightarrow> 'a compacting_array" where
  "imm_set a ix v = (let real = realIx (fst a) ix in
     if bit (fst a) ix then (fst a, (snd a)[real := v])
     else (Bit_Operations.set_bit ix (fst a), take real (snd a) @ [v] @ drop real (snd a)))"

definition imm_remove :: "'a compacting_array \<Rightarrow> nat \<Rightarrow> 'a compacting_array" where
  "imm_remove a ix = (let real = realIx (fst a) ix in
     if bit (fst a) ix then (Bit_Operations.unset_bit ix (fst a), take real (snd a) @ drop (Suc real) (snd a)) else a)"

definition ca_ok :: "'a compacting_array \<Rightarrow> bool" where
  "ca_ok a \<longleftrightarrow> length (snd a) = ca_size (fst a)"

lemma realIx_card: "realIx m i = card {k. k < i \<and> bit m k}"
proof -
  have "length (filter (bit m) [0..<i]) = card (set (filter (bit m) [0..<i]))" by (rule distinct_card[symmetric]) simp
  also have "set (filter (bit m) [0..<i]) = {k. k < i \<and> bit m k}" by auto
  finally show ?thesis by (simp add: realIx_def)
qed

lemma ca_size_realIx: "ca_size m = realIx m 32"
  by (simp add: ca_size_def realIx_def)

lemma realIx_less: "bit m i \<Longrightarrow> i < j \<Longrightarrow> realIx m i < realIx m j"
  unfolding realIx_card by (intro psubset_card_mono psubsetI) auto

lemma realIx_size: "bit m i \<Longrightarrow> realIx m i < ca_size m"
  using bit_imp_le_length[of m i] by (auto simp: ca_size_realIx intro: realIx_less)

lemma realIx_inj: "bit m i \<Longrightarrow> bit m j \<Longrightarrow> realIx m i = realIx m j \<longleftrightarrow> i = j"
  using realIx_less[of m i j] realIx_less[of m j i] by (cases i j rule: linorder_cases) auto

lemma realIx_set:
  fixes m :: "32 word"
  assumes "\<not> bit m i" "i < 32"
  shows "realIx (Bit_Operations.set_bit i m) j = (if j \<le> i then realIx m j else Suc (realIx m j))"
proof -
  have "{k. k < j \<and> bit (Bit_Operations.set_bit i m) k} =
      (if j \<le> i then {k. k < j \<and> bit m k} else insert i {k. k < j \<and> bit m k})"
    using assms by (auto simp: bit_simps)
  then show ?thesis using assms(1) by (simp add: realIx_card)
qed

lemma realIx_unset:
  fixes m :: "32 word"
  assumes "bit m i"
  shows "realIx m j = (if j \<le> i then realIx (Bit_Operations.unset_bit i m) j else Suc (realIx (Bit_Operations.unset_bit i m) j))"
proof -
  have "{k. k < j \<and> bit m k} =
      (if j \<le> i then {k. k < j \<and> bit (Bit_Operations.unset_bit i m) k} else insert i {k. k < j \<and> bit (Bit_Operations.unset_bit i m) k})"
    using assms by (auto simp: bit_simps)
  then show ?thesis by (simp add: realIx_card bit_simps)
qed

lemma ca_at_some: "ca_ok a \<Longrightarrow> ca_count a i \<Longrightarrow> ca_at a i = Some (snd a ! realIx (fst a) i)"
  by (simp add: ca_ok_def ca_count_def ca_at_def realIx_size)

lemma imm_set_facts:
  assumes "ca_ok a" "i < 32"
  shows "ca_ok (imm_set a i v)" "ca_count (imm_set a i v) j \<longleftrightarrow> j = i \<or> ca_count a j"
    and "ca_count (imm_set a i v) j \<Longrightarrow> ca_at (imm_set a i v) j = (if j = i then Some v else ca_at a j)"
proof -
  obtain m d where a: "a = (m, d)" by force
  have d: "length d = realIx m 32" using assms(1) by (simp add: a ca_ok_def ca_size_realIx)
  have all: "ca_ok (imm_set a i v) \<and> (ca_count (imm_set a i v) j \<longleftrightarrow> j = i \<or> ca_count a j) \<and>
    (ca_count (imm_set a i v) j \<longrightarrow> ca_at (imm_set a i v) j = (if j = i then Some v else ca_at a j))"
  proof (cases "bit m i")
    case True
    then show ?thesis using realIx_size[of m i] realIx_size[of m j] realIx_inj[of m i j] assms
      by (auto simp: imm_set_def Let_def ca_ok_def ca_count_def ca_at_def a)
  next
    case False
    let ?m = "Bit_Operations.set_bit i m"
    have r: "realIx m i \<le> length d" using assms(2) unfolding d realIx_card by (intro card_mono) auto
    have b: "bit ?m j \<longleftrightarrow> j = i \<or> bit m j" using assms(2) by (auto simp: bit_simps)
    have "j < i \<Longrightarrow> bit m j \<Longrightarrow> realIx m j < realIx m i" "i < j \<Longrightarrow> realIx m i \<le> realIx m j" "bit m j \<Longrightarrow> realIx m j < length d"
      using realIx_less[of m j i] realIx_size[of m j] by (auto simp: d ca_size_realIx realIx_card intro: card_mono)
    then have "bit ?m j \<Longrightarrow> vector_at (take (realIx m i) d @ [v] @ drop (realIx m i) d) (realIx ?m j) =
        (if j = i then Some v else vector_at d (realIx m j))"
      using r unfolding b realIx_set[OF False assms(2)] by (cases i j rule: linorder_cases) (auto simp: vector_at_def nth_append)
    moreover have "length (take (realIx m i) d @ [v] @ drop (realIx m i) d) = ca_size ?m"
      using r assms(2) by (simp add: ca_size_realIx realIx_set[OF False assms(2)] d)
    ultimately show ?thesis using False b by (simp add: imm_set_def Let_def ca_ok_def ca_count_def ca_at_def a)
  qed
  then show "ca_ok (imm_set a i v)" "ca_count (imm_set a i v) j \<longleftrightarrow> j = i \<or> ca_count a j" by blast+
  show "ca_count (imm_set a i v) j \<Longrightarrow> ca_at (imm_set a i v) j = (if j = i then Some v else ca_at a j)" using all by blast
qed

lemma imm_remove_facts:
  assumes "ca_ok a" "ca_count a i"
  shows "ca_ok (imm_remove a i)" "ca_count (imm_remove a i) j \<longleftrightarrow> j \<noteq> i \<and> ca_count a j"
    and "ca_count (imm_remove a i) j \<Longrightarrow> ca_at (imm_remove a i) j = ca_at a j"
proof -
  obtain m d where a: "a = (m, d)" by force
  have i: "bit m i" using assms(2) by (simp add: a ca_count_def)
  have d: "length d = realIx m 32" using assms(1) by (simp add: a ca_ok_def ca_size_realIx)
  let ?m = "Bit_Operations.unset_bit i m"
  have lt: "i < 32" using bit_imp_le_length[OF i] by simp
  have r: "realIx m i < length d" using realIx_size[OF i] by (simp add: d ca_size_realIx)
  have b: "bit ?m j \<longleftrightarrow> j \<noteq> i \<and> bit m j" by (auto simp: bit_simps)
  have f: "realIx ?m i = realIx m i" "realIx ?m j = (if j \<le> i then realIx m j else realIx m j - 1)"
    using realIx_unset[OF i, of i] realIx_unset[OF i, of j] by auto
  have "j < i \<Longrightarrow> bit m j \<Longrightarrow> realIx m j < realIx m i" "i < j \<Longrightarrow> realIx m i < realIx m j" "bit m j \<Longrightarrow> realIx m j < length d"
    using realIx_less[of m j i] realIx_less[OF i, of j] realIx_size[of m j] by (auto simp: d ca_size_realIx)
  then have "bit ?m j \<Longrightarrow> vector_at (take (realIx m i) d @ drop (Suc (realIx m i)) d) (realIx ?m j) = vector_at d (realIx m j)"
    using r unfolding b f(2) by (cases i j rule: linorder_cases) (auto simp: vector_at_def nth_append)
  moreover have "length (take (realIx m i) d @ drop (Suc (realIx m i)) d) = ca_size ?m"
    using r lt realIx_unset[OF i, of 32] by (simp add: ca_size_realIx d)
  ultimately have "ca_ok (imm_remove a i) \<and> (ca_count (imm_remove a i) j \<longleftrightarrow> j \<noteq> i \<and> ca_count a j) \<and>
    (ca_count (imm_remove a i) j \<longrightarrow> ca_at (imm_remove a i) j = ca_at a j)"
    using i b by (simp add: imm_remove_def Let_def ca_ok_def ca_count_def ca_at_def a)
  then show "ca_ok (imm_remove a i)" "ca_count (imm_remove a i) j \<longleftrightarrow> j \<noteq> i \<and> ca_count a j"
      "ca_count (imm_remove a i) j \<Longrightarrow> ca_at (imm_remove a i) j = ca_at a j" by blast+
qed

section \<open>Nodes and hashes\<close>

text \<open>A leaf is its bucket, the chain of its \<open>next\<close> pointers, which is never empty; the empty chain is the
  null pointer.\<close>

datatype 'a hamt_node = Leaf "'a list" | Branch "32 word" "'a hamt_node list"

abbreviation branch_of :: "'a hamt_node compacting_array \<Rightarrow> 'a hamt_node" where
  "branch_of a \<equiv> Branch (fst a) (snd a)"

type_synonym 'a hash_fns = "('a \<Rightarrow> size_t) \<times> ('a \<Rightarrow> 'a \<Rightarrow> bool) \<times> ('a hamt_node \<Rightarrow> 'a hamt_node \<Rightarrow> bool)"

text \<open>\<open>Hash\<close>, \<open>Equal\<close> and the oracle for pointers.  The last branch of \<open>hash\<close>, for \<open>size_t\<close> of 64 bits.\<close>

definition Hash :: "'a hash_fns \<Rightarrow> 'a \<Rightarrow> size_t" where "Hash F = fst F"
definition Equal :: "'a hash_fns \<Rightarrow> 'a \<Rightarrow> 'a \<Rightarrow> bool" where "Equal F = fst (snd F)"

definition same_ptr :: "'a hash_fns \<Rightarrow> 'a hamt_node \<Rightarrow> 'a hamt_node \<Rightarrow> bool" where
  "same_ptr F a b \<longleftrightarrow> a = b \<and> snd (snd F) a b"

definition same_ptr_opt :: "'a hash_fns \<Rightarrow> 'a hamt_node option \<Rightarrow> 'a hamt_node option \<Rightarrow> bool" where
  "same_ptr_opt F a b = (case (a, b) of (None, None) \<Rightarrow> True | (Some x, Some y) \<Rightarrow> same_ptr F x y | _ \<Rightarrow> False)"

definition mix_shl :: "nat \<Rightarrow> size_t \<Rightarrow> size_t" where
  "mix_shl k h = h + ring_bit_operations_class.not (push_bit k h)"

definition mix_shr :: "nat \<Rightarrow> size_t \<Rightarrow> size_t" where
  "mix_shr k h = semiring_bit_operations_class.xor h (drop_bit k h)"

definition hamt_hash :: "'a hash_fns \<Rightarrow> 'a \<Rightarrow> uint" where
  "hamt_hash F v = (
     let h1 = mix_shl 32 (Hash F v);
         h2 = mix_shr 22 h1;
         h3 = mix_shl 13 h2;
         h4 = mix_shr 8 h3;
         h5 = h4 + push_bit 3 h4;
         h6 = mix_shr 15 h5;
         h7 = mix_shl 27 h6;
         h8 = mix_shr 31 h7
     in ucast h8)"

text \<open>\<open>digit\<close>: the shift is defined for less than 32 bits.\<close>

definition digit :: "nat \<Rightarrow> uint \<Rightarrow> nat option" where
  "digit level h = (if level * 5 < 32 then Some (unat (semiring_bit_operations_class.and (drop_bit (level * 5) h) 0x1f)) else None)"

section \<open>Lookup\<close>

lemma ca_at_size [termination_simp]: "ca_at (m, d) ix = Some c \<Longrightarrow> size c < Suc (size_list size d)"
  by (auto simp: ca_at_def vector_at_eq_Some less_Suc_eq_le intro: size_list_estimation'[OF nth_mem order_refl])

function (sequential) seek_bucket :: "'a hamt_node \<Rightarrow> nat \<Rightarrow> uint \<Rightarrow> 'a list option option" where
  "seek_bucket (Leaf xs) level h = Some (Some xs)"
| "seek_bucket (Branch m d) level h = do {
     ix \<leftarrow> digit level h;
     if \<not> ca_count (m, d) ix then Some None
     else do { child \<leftarrow> ca_at (m, d) ix; seek_bucket child (Suc level) h } }"
  by pat_completeness auto
termination by (relation "measure (\<lambda>(n, _, _). size n)") (auto simp: termination_simp)

definition find_node :: "'a hash_fns \<Rightarrow> 'a hamt_node option \<Rightarrow> 'a \<Rightarrow> 'a option option" where
  "find_node F root v = (case root of None \<Rightarrow> Some None
    | Some n \<Rightarrow> do {
        bucket \<leftarrow> seek_bucket n 0 (hamt_hash F v);
        Some (case bucket of None \<Rightarrow> None | Some xs \<Rightarrow> find (\<lambda>x. Equal F x v) xs) })"

definition hamt_count :: "'a hash_fns \<Rightarrow> 'a hamt_node option \<Rightarrow> 'a \<Rightarrow> bool option" where
  "hamt_count F root v = map_option (\<lambda>r. r \<noteq> None) (find_node F root v)"

section \<open>Insertion\<close>

text \<open>The search for a common tail: the inner loop runs \<open>rit\<close> to the end of its chain while it looks for the
  first \<open>lit\<close>, and it starts over for none of the later ones.\<close>

fun scan_right :: "'a hash_fns \<Rightarrow> 'a list \<Rightarrow> 'a list \<Rightarrow> bool \<times> 'a list" where
  "scan_right F lit [] = (False, [])"
| "scan_right F lit (x # rit) = (if same_ptr F (Leaf lit) (Leaf rit) then (True, rit) else scan_right F lit rit)"

fun common_tail :: "'a hash_fns \<Rightarrow> 'a list \<Rightarrow> 'a list \<Rightarrow> 'a list" where
  "common_tail F [] rit = []"
| "common_tail F (y # lit) rit =
     (let (found, rit') = scan_right F (y # lit) rit
      in if found then y # lit else common_tail F lit rit')"

definition merge_buckets :: "'a hash_fns \<Rightarrow> 'a list \<Rightarrow> 'a list \<Rightarrow> 'a list" where
  "merge_buckets F lb rb =
     (let common = common_tail F lb rb in
      if lb = common then rb else if rb = common then lb
      else foldl (\<lambda>lit y. if list_all (\<lambda>v. \<not> Equal F v y) (take (length lb - length common) lb) then y # lit else lit)
             lb (take (length rb - length common) rb))"

function divert :: "nat \<Rightarrow> uint \<Rightarrow> uint \<Rightarrow> nat option" where
  "divert level h old = do {
     a \<leftarrow> digit level h; b \<leftarrow> digit level old;
     if a = b then divert (Suc level) h old else Some level }"
  by pat_completeness auto
termination by (relation "measure (\<lambda>(l, _, _). 7 - l)") (auto simp: digit_def split: if_splits)

declare divert.simps [simp del]

text \<open>The branches with one child above the branch where two hashes part.\<close>

fun wrap_branches :: "nat \<Rightarrow> nat \<Rightarrow> uint \<Rightarrow> 'a hamt_node \<Rightarrow> 'a hamt_node option" where
  "wrap_branches level 0 h b = Some b"
| "wrap_branches level (Suc k) h b = do {
     ix \<leftarrow> digit (level + k) h;
     wrap_branches level k h (branch_of (imm_set (0, []) ix b)) }"

definition fork :: "nat \<Rightarrow> uint \<Rightarrow> uint \<Rightarrow> 'a list \<Rightarrow> 'a list \<Rightarrow> 'a hamt_node option" where
  "fork level h old ins leaff = do {
     divert_level \<leftarrow> divert level h old;
     digit0 \<leftarrow> digit divert_level h;
     digit1 \<leftarrow> digit divert_level old;
     wrap_branches level (divert_level - level) h
       (branch_of (imm_set (imm_set (0, []) digit0 (Leaf ins)) digit1 (Leaf leaff))) }"

function (sequential) insert_leaf :: "'a hash_fns \<Rightarrow> 'a hamt_node \<Rightarrow> nat \<Rightarrow> uint \<Rightarrow> 'a list \<Rightarrow> 'a hamt_node option" where
  "insert_leaf F (Leaf xs) level h ins =
     (if same_ptr F (Leaf xs) (Leaf ins) then Some (Leaf ins)
      else case xs of [] \<Rightarrow> None
      | x # _ \<Rightarrow> (let oldHash = hamt_hash F x in
          if h = oldHash then Some (Leaf (merge_buckets F xs ins)) else fork level h oldHash ins xs))"
| "insert_leaf F (Branch m d) level h ins = do {
     ix \<leftarrow> digit level h;
     if \<not> ca_count (m, d) ix then Some (branch_of (imm_set (m, d) ix (Leaf ins)))
     else do {
       existing \<leftarrow> ca_at (m, d) ix;
       replaced \<leftarrow> insert_leaf F existing (Suc level) h ins;
       Some (if same_ptr F existing replaced then Branch m d else branch_of (imm_set (m, d) ix replaced)) } }"
  by pat_completeness auto
termination by (relation "measure (\<lambda>(_, n, _). size n)") (auto simp: termination_simp)

definition insert_leaf_opt :: "'a hash_fns \<Rightarrow> 'a hamt_node option \<Rightarrow> nat \<Rightarrow> uint \<Rightarrow> 'a list \<Rightarrow> 'a hamt_node option" where
  "insert_leaf_opt F nnode level h ins = (case nnode of None \<Rightarrow> Some (Leaf ins) | Some n \<Rightarrow> insert_leaf F n level h ins)"

text \<open>A leaf of another hash first becomes a branch with that leaf.\<close>

function (sequential) hamt_insert :: "'a hash_fns \<Rightarrow> 'a hamt_node \<Rightarrow> nat \<Rightarrow> uint \<Rightarrow> 'a \<Rightarrow> 'a hamt_node option" where
  "hamt_insert F (Leaf xs) level h v = (case xs of [] \<Rightarrow> None
     | x # _ \<Rightarrow> (let oldHash = hamt_hash F x in
         if h = oldHash then (if list_ex (\<lambda>e. Equal F e v) xs then Some (Leaf xs) else Some (Leaf (v # xs)))
         else do {
           b \<leftarrow> insert_leaf F (Branch 0 []) level oldHash xs;
           hamt_insert F b level h v }))"
| "hamt_insert F (Branch m d) level h v = do {
     ix \<leftarrow> digit level h;
     if \<not> ca_count (m, d) ix then Some (branch_of (imm_set (m, d) ix (Leaf [v])))
     else do {
       existing \<leftarrow> ca_at (m, d) ix;
       replaced \<leftarrow> hamt_insert F existing (Suc level) h v;
       Some (if same_ptr F existing replaced then Branch m d else branch_of (imm_set (m, d) ix replaced)) } }"
  by pat_completeness auto
termination
  by (relation "measure (\<lambda>(_, n, level, _). 2 * (7 - level) + (case n of Leaf _ \<Rightarrow> 1 | Branch _ _ \<Rightarrow> 0))")
    (auto simp: digit_def bind_Some_iff ca_count_def split: if_splits hamt_node.splits)

definition hamt_insert_opt :: "'a hash_fns \<Rightarrow> 'a hamt_node option \<Rightarrow> 'a \<Rightarrow> 'a hamt_node option" where
  "hamt_insert_opt F root v = (case root of None \<Rightarrow> Some (Leaf [v]) | Some n \<Rightarrow> hamt_insert F n 0 (hamt_hash F v) v)"

section \<open>Removal\<close>

text \<open>On a leaf the recursion runs down the bucket.  \<open>None\<close> is an undefined read or a wrong cast, \<open>Some None\<close>
  the null pointer.\<close>

definition leaf_ptr :: "'a list \<Rightarrow> 'a hamt_node option" where
  "leaf_ptr xs = (case xs of [] \<Rightarrow> None | _ \<Rightarrow> Some (Leaf xs))"

definition cast_leaf :: "'a hamt_node \<Rightarrow> 'a list option" where
  "cast_leaf n = (case n of Leaf xs \<Rightarrow> Some xs | Branch _ _ \<Rightarrow> None)"

function (sequential) hamt_erase :: "'a hash_fns \<Rightarrow> 'a hamt_node option \<Rightarrow> nat \<Rightarrow> uint \<Rightarrow> 'a \<Rightarrow> 'a hamt_node option option" where
  "hamt_erase F None level h v = Some None"
| "hamt_erase F (Some (Leaf [])) level h v = None"
| "hamt_erase F (Some (Leaf (x # xs))) level h v =
     (if h = hamt_hash F x then
        if Equal F x v then Some (leaf_ptr xs)
        else do {
          newNext \<leftarrow> hamt_erase F (leaf_ptr xs) level h v;
          if same_ptr_opt F (leaf_ptr xs) newNext then Some (Some (Leaf (x # xs)))
          else case newNext of
            None \<Rightarrow> Some (Some (Leaf [x]))
          | Some n \<Rightarrow> do { rest \<leftarrow> cast_leaf n; Some (Some (Leaf (x # rest))) } }
      else Some (Some (Leaf (x # xs))))"
| "hamt_erase F (Some (Branch m d)) level h v = do {
     ix \<leftarrow> digit level h;
     if \<not> ca_count (m, d) ix then Some (Some (Branch m d))
     else do {
       existing \<leftarrow> ca_at (m, d) ix;
       erased \<leftarrow> hamt_erase F (Some existing) (Suc level) h v;
       case erased of
         None \<Rightarrow> (let newData = imm_remove (m, d) ix in
           case snd newData of
             [] \<Rightarrow> Some None
           | [Leaf xs] \<Rightarrow> Some (Some (Leaf xs))
           | _ \<Rightarrow> Some (Some (branch_of newData)))
       | Some n \<Rightarrow>
           if same_ptr F existing n then Some (Some (Branch m d))
           else Some (Some (branch_of (imm_set (m, d) ix n))) } }"
  by pat_completeness auto
termination
  by (relation "measure (\<lambda>(_, n, _). size_option size n)") (auto simp: leaf_ptr_def termination_simp split: list.splits)

definition hamt_erase_opt :: "'a hash_fns \<Rightarrow> 'a hamt_node option \<Rightarrow> 'a \<Rightarrow> 'a hamt_node option option" where
  "hamt_erase_opt F root v = hamt_erase F root 0 (hamt_hash F v) v"

section \<open>Union\<close>

text \<open>Two branches are merged position by position into an array with the positions of both.\<close>

definition ca_lookup :: "'a compacting_array \<Rightarrow> nat \<Rightarrow> 'a option option" where
  "ca_lookup a i = (if ca_count a i then map_option Some (ca_at a i) else Some None)"

lemma ca_lookup_size: "ca_lookup (m, d) i = Some (Some c) \<Longrightarrow> size c < Suc (size_list size d)"
  by (auto simp: ca_lookup_def termination_simp split: if_splits)

function (sequential) hamt_merge :: "'a hash_fns \<Rightarrow> 'a hamt_node option \<Rightarrow> 'a hamt_node option \<Rightarrow> nat \<Rightarrow> 'a hamt_node option option" where
  "hamt_merge F None r level = Some r"
| "hamt_merge F l None level = Some l"
| "hamt_merge F (Some (Branch lm ld)) (Some (Branch rm rd)) level =
     (if same_ptr F (Branch lm ld) (Branch rm rd) then Some (Some (Branch lm ld))
      else let mask = semiring_bit_operations_class.or lm rm in do {
        children \<leftarrow> omap (\<lambda>i. do {
            left \<leftarrow> ca_lookup (lm, ld) i;
            right \<leftarrow> ca_lookup (rm, rd) i;
            merged \<leftarrow> hamt_merge F left right (Suc level);
            merged }) (filter (bit mask) [0..<32]);
        Some (Some (Branch mask children)) })"
| "hamt_merge F (Some (Leaf xs)) (Some r) level =
     (if same_ptr F (Leaf xs) r then Some (Some (Leaf xs))
      else case xs of [] \<Rightarrow> None | x # _ \<Rightarrow> map_option Some (insert_leaf F r level (hamt_hash F x) xs))"
| "hamt_merge F (Some l) (Some (Leaf xs)) level =
     (case xs of [] \<Rightarrow> None | x # _ \<Rightarrow> map_option Some (insert_leaf F l level (hamt_hash F x) xs))"
  by pat_completeness auto
termination
proof (relation "measure (\<lambda>(_, l, r, _). size_option size l + size_option size r)", goal_cases)
  case (2 F lm ld rm rd level mask i left right)
  have "size_option size x \<le> Suc (size_list size d)" if "ca_lookup (m, d) i = Some x" for m d and x :: "'a hamt_node option"
    using that ca_lookup_size[of m d i] by (cases x) (auto simp: less_Suc_eq_le)
  from this[OF 2(4)] this[OF 2(5)] show ?case by auto
qed simp

definition unite :: "'a hash_fns \<Rightarrow> 'a hamt_node option \<Rightarrow> 'a hamt_node option \<Rightarrow> 'a hamt_node option option" where
  "unite F l r = hamt_merge F l r 0"

text \<open>The elements in the order of \<open>foreach\<close>, depth first.\<close>

fun hamt_foreach :: "('a \<Rightarrow> 's \<Rightarrow> 's) \<Rightarrow> 'a hamt_node \<Rightarrow> 's \<Rightarrow> 's" where
  "hamt_foreach f (Leaf xs) s = fold f xs s"
| "hamt_foreach f (Branch m d) s = fold (hamt_foreach f) d s"

fun elems :: "'a hamt_node \<Rightarrow> 'a list" where
  "elems (Leaf xs) = xs"
| "elems (Branch m d) = concat (map elems d)"

lemma hamt_foreach_fold: "hamt_foreach f n s = fold f (elems n) s"
proof (induction n arbitrary: s)
  case (Branch m d)
  have "(\<And>x s. x \<in> set d \<Longrightarrow> hamt_foreach f x s = fold f (elems x) s) \<Longrightarrow>
      fold (hamt_foreach f) d s = fold f (concat (map elems d)) s"
    by (induction d arbitrary: s) simp_all
  then show ?case using Branch by simp
qed simp

section \<open>Arrays as maps\<close>

definition kids :: "'a compacting_array \<Rightarrow> nat \<Rightarrow> 'a option" where
  "kids a i = (if ca_count a i then ca_at a i else None)"

lemma kids_set: "ca_ok a \<Longrightarrow> i < 32 \<Longrightarrow> kids (imm_set a i v) = (kids a)(i \<mapsto> v)"
  using imm_set_facts[of a i v] by (auto simp: kids_def)

lemma kids_remove: "ca_ok a \<Longrightarrow> ca_count a i \<Longrightarrow> kids (imm_remove a i) = (kids a)(i := None)"
  using imm_remove_facts[of a i] by (auto simp: kids_def)

lemma kids_empty [simp]: "kids (0, []) = Map.empty" "ca_ok (0, [])" "\<not> ca_count (0, []) i"
  by (auto simp: kids_def ca_count_def ca_ok_def ca_size_def)

lemma ca_lookup_kids: "ca_ok a \<Longrightarrow> ca_lookup a i = Some (kids a i)"
  by (auto simp: ca_lookup_def kids_def ca_at_some)

lemma ca_count_kids: "ca_ok a \<Longrightarrow> ca_count a i \<longleftrightarrow> kids a i \<noteq> None"
  by (auto simp: kids_def ca_at_some)

lemma ca_at_kids: "ca_ok a \<Longrightarrow> kids a i = Some c \<Longrightarrow> ca_at a i = Some c"
  by (auto simp: kids_def split: if_splits)

lemma kids_index: "kids a i \<noteq> None \<Longrightarrow> i < 32"
  using bit_imp_le_length[of "fst a" i] by (auto simp: kids_def ca_count_def split: if_splits)

lemma realIx_nth: "bit m i \<Longrightarrow> filter (bit m) [0..<32] ! realIx m i = i"
proof -
  assume b: "bit m i"
  have i: "i < 32" using bit_imp_le_length[OF b] by simp
  have "[0..<32] = [0..<i] @ [i..<32]" using upt_add_eq_append[of 0 i "32 - i"] i by simp
  then have "filter (bit m) [0..<32] = filter (bit m) [0..<i] @ i # filter (bit m) [Suc i..<32]"
    using b i by (simp add: upt_conv_Cons)
  then show ?thesis by (simp add: realIx_def)
qed

lemma realIx_surj: "j < ca_size m \<Longrightarrow> \<exists>i. bit m i \<and> realIx m i = j"
proof -
  assume j: "j < ca_size m"
  let ?i = "filter (bit m) [0..<32] ! j"
  have "?i \<in> set (filter (bit m) [0..<32])" using j unfolding ca_size_def by (rule nth_mem)
  then have b: "bit m ?i" by simp
  have "realIx m ?i = j"
    using realIx_nth[OF b] realIx_size[OF b] j nth_eq_iff_index_eq[of "filter (bit m) [0..<32]" "realIx m ?i" j]
    by (simp add: ca_size_def)
  then show ?thesis using b by blast
qed

lemma ran_kids: "ca_ok a \<Longrightarrow> ran (kids a) = set (snd a)"
  using realIx_surj[of _ "fst a"] realIx_size[of "fst a"]
  by (force simp: ran_def kids_def ca_count_def ca_at_def ca_ok_def vector_at_def in_set_conv_nth split: if_splits)

lemma elems_branch: "ca_ok (m, d) \<Longrightarrow> set (elems (Branch m d)) = (\<Union>c\<in>ran (kids (m, d)). set (elems c))"
  by (simp add: ran_kids)

lemma kids_omap:
  assumes "omap f (filter (bit m) [0..<32]) = Some cs"
  shows "ca_ok (m, cs)" "kids (m, cs) i = (if bit m i then f i else None)"
proof -
  have l: "length cs = ca_size m" using omap_Some_length[OF assms] by (simp add: ca_size_def)
  then show "ca_ok (m, cs)" by (simp add: ca_ok_def)
  have "f i = Some (cs ! realIx m i)" if "bit m i"
    using assms realIx_nth[OF that] realIx_size[OF that] unfolding omap_Some_list_all2 list_all2_conv_all_nth ca_size_def by force
  then show "kids (m, cs) i = (if bit m i then f i else None)"
    using l realIx_size[of m i] by (simp add: kids_def ca_count_def ca_at_def)
qed

section \<open>Digits\<close>

lemma digit_take_bit: "digit k h = (if k * 5 < 32 then Some (unat (take_bit 5 (drop_bit (k * 5) h))) else None)"
proof -
  have "(0x1f :: 32 word) = mask 5" by (simp add: mask_eq_exp_minus_1)
  then show ?thesis by (simp only: digit_def take_bit_eq_mask)
qed

lemma digit_less: "digit k h = Some i \<Longrightarrow> i < 32"
  using take_bit_nat_less_exp[of 5] by (auto simp: digit_take_bit unsigned_take_bit_eq split: if_splits)

lemma digits_inj: "(\<And>k. k < 7 \<Longrightarrow> digit k a = digit k b) \<Longrightarrow> a = b"
proof (rule bit_word_eqI)
  fix n
  assume d: "\<And>k. k < 7 \<Longrightarrow> digit k a = digit k b" and n: "n < LENGTH(32)"
  then have "digit (n div 5) a = digit (n div 5) b" "n div 5 * 5 < 32" using d[of "n div 5"] by simp_all
  then have "take_bit 5 (drop_bit (n div 5 * 5) a) = take_bit 5 (drop_bit (n div 5 * 5) b)"
    by (simp add: digit_take_bit word_unat_eq_iff)
  then have "bit (take_bit 5 (drop_bit (n div 5 * 5) a)) (n mod 5) = bit (take_bit 5 (drop_bit (n div 5 * 5) b)) (n mod 5)" by simp
  then show "bit a n = bit b n" by (simp add: bit_take_bit_iff bit_drop_bit_eq)
qed

section \<open>Well-formed nodes\<close>

text \<open>The hashes below a node at level \<open>l\<close> have the first \<open>l\<close> digits \<open>p\<close>, a bucket has elements of one hash
  that are pairwise different, and no branch is empty.  \<open>C\<close> is the set of values the hash functions are
  meant for.\<close>

definition on_path :: "nat \<Rightarrow> (nat \<Rightarrow> nat) \<Rightarrow> uint \<Rightarrow> bool" where
  "on_path l p h \<longleftrightarrow> (\<forall>k<l. digit k h = Some (p k))"

definition bucket_ok :: "'a hash_fns \<Rightarrow> 'a set \<Rightarrow> uint \<Rightarrow> 'a list \<Rightarrow> bool" where
  "bucket_ok F C h xs \<longleftrightarrow> set xs \<subseteq> C \<and> (\<forall>x\<in>set xs. hamt_hash F x = h) \<and> sorted_wrt (\<lambda>x y. \<not> Equal F x y) xs"

inductive node_ok :: "'a hash_fns \<Rightarrow> 'a set \<Rightarrow> nat \<Rightarrow> (nat \<Rightarrow> nat) \<Rightarrow> 'a hamt_node \<Rightarrow> bool" for F C where
  leaf: "bucket_ok F C h xs \<Longrightarrow> xs \<noteq> [] \<Longrightarrow> on_path l p h \<Longrightarrow> node_ok F C l p (Leaf xs)"
| branch: "ca_ok (m, d) \<Longrightarrow> d \<noteq> [] \<Longrightarrow> l \<le> 6 \<Longrightarrow> (\<And>i c. kids (m, d) i = Some c \<Longrightarrow> node_ok F C (Suc l) (p(l := i)) c) \<Longrightarrow>
    node_ok F C l p (Branch m d)"

inductive_cases node_ok_leafE: "node_ok F C l p (Leaf xs)"
inductive_cases node_ok_branchE: "node_ok F C l p (Branch m d)"

definition hamt_ok :: "'a hash_fns \<Rightarrow> 'a set \<Rightarrow> 'a hamt_node option \<Rightarrow> bool" where
  "hamt_ok F C root = (case root of None \<Rightarrow> True | Some n \<Rightarrow> node_ok F C 0 (\<lambda>_. 0) n)"

definition elems_opt :: "'a hamt_node option \<Rightarrow> 'a list" where
  "elems_opt root = (case root of None \<Rightarrow> [] | Some n \<Rightarrow> elems n)"

lemma elems_opt_simps [simp]: "elems_opt None = []" "elems_opt (Some n) = elems n"
  by (simp_all add: elems_opt_def)

lemma on_path_cong: "(\<And>k. k < l \<Longrightarrow> p k = q k) \<Longrightarrow> on_path l p h = on_path l q h"
  by (auto simp: on_path_def)

lemma node_ok_cong: "node_ok F C l p n \<Longrightarrow> (\<And>k. k < l \<Longrightarrow> p k = q k) \<Longrightarrow> node_ok F C l q n"
proof (induction arbitrary: q rule: node_ok.induct)
  case (leaf h xs l p)
  then show ?case using on_path_cong[of l p q h] by (auto intro: node_ok.leaf)
next
  case (branch m d l p)
  show ?case
    using branch.hyps(1-3) by (intro node_ok.branch branch.IH) (auto simp: branch.prems)
qed

lemma on_path_Suc: "on_path l p h \<Longrightarrow> digit l h = Some i \<Longrightarrow> on_path (Suc l) (p(l := i)) h"
  by (auto simp: on_path_def less_Suc_eq)

lemma on_path_differ: "on_path l p a \<Longrightarrow> on_path l p b \<Longrightarrow> a \<noteq> b \<Longrightarrow> l \<le> 6"
  using digits_inj[of a b] by (force simp: on_path_def)

lemma digit_some: "l \<le> 6 \<Longrightarrow> \<exists>i. digit l h = Some i"
  by (simp add: digit_def)

lemma elems_ne: "node_ok F C l p n \<Longrightarrow> elems n \<noteq> []"
proof (induction rule: node_ok.induct)
  case (branch m d l p)
  obtain c where c: "c \<in> set d" using branch.hyps(2) by (cases d) auto
  then have "c \<in> ran (kids (m, d))" using ran_kids[OF branch.hyps(1)] by simp
  then have "elems c \<noteq> []" using branch.IH by (auto simp: ran_def)
  then show ?case using c by auto
qed simp

text \<open>Replacing a child of a branch.\<close>

lemma branch_set:
  assumes "ca_ok (m, d)" "l \<le> 6" "i < 32" "node_ok F C (Suc l) (p(l := i)) n"
    and "\<And>j c. j \<noteq> i \<Longrightarrow> kids (m, d) j = Some c \<Longrightarrow> node_ok F C (Suc l) (p(l := j)) c"
  shows "node_ok F C l p (branch_of (imm_set (m, d) i n))"
    and "set (elems (branch_of (imm_set (m, d) i n))) =
      set (elems n) \<union> (\<Union>c\<in>ran ((kids (m, d))(i := None)). set (elems c))"
proof -
  let ?a = "imm_set (m, d) i n"
  note f = imm_set_facts(1)[OF assms(1,3), of n] kids_set[OF assms(1,3), of n]
  have "n \<in> set (snd ?a)" using ran_kids[OF f(1)] f(2) by (metis fun_upd_same ranI)
  then have "snd ?a \<noteq> []" by auto
  then show "node_ok F C l p (branch_of ?a)"
    using assms f by (intro node_ok.branch) (auto split: if_splits)
  have "ran ((kids (m, d))(i \<mapsto> n)) = insert n (ran ((kids (m, d))(i := None)))" by (auto simp: ran_def)
  then show "set (elems (branch_of ?a)) = set (elems n) \<union> (\<Union>c\<in>ran ((kids (m, d))(i := None)). set (elems c))"
    using elems_branch[of "fst ?a" "snd ?a"] f by simp
qed

lemma ran_split: "m i = Some c \<Longrightarrow> ran m = insert c (ran (m(i := None)))" "m i = None \<Longrightarrow> ran (m(i := None)) = ran m"
  by (auto simp: ran_def) (metis option.inject, metis option.distinct(1))

text \<open>Membership up to equality.\<close>

definition member_eq :: "'a hash_fns \<Rightarrow> 'a \<Rightarrow> 'a set \<Rightarrow> bool" where
  "member_eq F v A \<longleftrightarrow> (\<exists>x\<in>A. Equal F x v)"

lemma member_eq_simps [simp]:
  "\<not> member_eq F v {}" "member_eq F v (A \<union> B) \<longleftrightarrow> member_eq F v A \<or> member_eq F v B"
  "member_eq F v (insert x A) \<longleftrightarrow> Equal F x v \<or> member_eq F v A"
  by (auto simp: member_eq_def)

lemma member_eq_UN: "member_eq F v (\<Union>c\<in>K. f c) \<longleftrightarrow> (\<exists>c\<in>K. member_eq F v (f c))"
  by (auto simp: member_eq_def)

section \<open>The operations on hashes that respect equality\<close>

locale hash_equality =
  fixes F :: "'a hash_fns" and C :: "'a set"
  assumes eq_refl: "x \<in> C \<Longrightarrow> Equal F x x"
    and eq_sym: "x \<in> C \<Longrightarrow> y \<in> C \<Longrightarrow> Equal F x y \<Longrightarrow> Equal F y x"
    and eq_trans: "x \<in> C \<Longrightarrow> y \<in> C \<Longrightarrow> z \<in> C \<Longrightarrow> Equal F x y \<Longrightarrow> Equal F y z \<Longrightarrow> Equal F x z"
    and eq_hash: "x \<in> C \<Longrightarrow> y \<in> C \<Longrightarrow> Equal F x y \<Longrightarrow> Hash F x = Hash F y"
begin

lemma eq_hamt_hash: "x \<in> C \<Longrightarrow> y \<in> C \<Longrightarrow> Equal F x y \<Longrightarrow> hamt_hash F x = hamt_hash F y"
  using eq_hash[of x y] by (simp add: hamt_hash_def)

lemma mem_trans: "A \<subseteq> C \<Longrightarrow> y \<in> C \<Longrightarrow> v \<in> C \<Longrightarrow> member_eq F y A \<Longrightarrow> Equal F y v \<Longrightarrow> member_eq F v A"
  using eq_trans by (meson member_eq_def subsetD)

lemma node_elems: "node_ok F C l p n \<Longrightarrow> x \<in> set (elems n) \<Longrightarrow> x \<in> C \<and> on_path l p (hamt_hash F x)"
proof (induction rule: node_ok.induct)
  case (branch m d l p)
  then obtain i c where c: "kids (m, d) i = Some c" "x \<in> set (elems c)"
    unfolding elems_branch[OF branch.hyps(1)] by (auto simp: ran_def)
  from branch.IH[OF this] show ?case by (auto simp: on_path_def split: if_splits)
qed (auto simp: bucket_ok_def)

lemma mem_path: "node_ok F C l p n \<Longrightarrow> v \<in> C \<Longrightarrow> member_eq F v (set (elems n)) \<Longrightarrow> on_path l p (hamt_hash F v)"
  using node_elems eq_hamt_hash by (metis member_eq_def)

text \<open>A value below a branch can only be below the child of its digit.\<close>

lemma mem_child:
  assumes "node_ok F C l p (Branch m d)" "v \<in> C" "digit l (hamt_hash F v) = Some i"
  shows "member_eq F v (set (elems (Branch m d))) \<longleftrightarrow> (\<exists>c. kids (m, d) i = Some c \<and> member_eq F v (set (elems c)))"
proof -
  have ok: "ca_ok (m, d)" "\<And>j c. kids (m, d) j = Some c \<Longrightarrow> node_ok F C (Suc l) (p(l := j)) c"
    using assms(1) by (auto elim: node_ok_branchE)
  have "j = i" if "kids (m, d) j = Some c" "member_eq F v (set (elems c))" for j c
    using mem_path[OF ok(2)[OF that(1)] assms(2) that(2)] assms(3) by (auto simp: on_path_def)
  then show ?thesis using elems_branch[OF ok(1)] by (auto simp: member_eq_UN ran_def)
qed

lemma others:
  assumes "node_ok F C l p (Branch m d)" "v \<in> C" "digit l (hamt_hash F v) = Some i" "c \<in> ran ((kids (m, d))(i := None))"
  shows "\<not> member_eq F v (set (elems c))"
proof
  assume c: "member_eq F v (set (elems c))"
  obtain j where j: "kids (m, d) j = Some c" "j \<noteq> i" using assms(4) by (auto simp: ran_def split: if_splits)
  have "node_ok F C (Suc l) (p(l := j)) c" using assms(1) j(1) by (auto elim: node_ok_branchE)
  from mem_path[OF this assms(2) c] show False using assms(3) j(2) by (auto simp: on_path_def)
qed

lemma seek_spec:
  "node_ok F C l p n \<Longrightarrow> v \<in> C \<Longrightarrow> on_path l p (hamt_hash F v) \<Longrightarrow>
   \<exists>b. seek_bucket n l (hamt_hash F v) = Some b \<and> (member_eq F v (set (elems n)) \<longleftrightarrow> (\<exists>xs. b = Some xs \<and> member_eq F v (set xs)))"
proof (induction rule: node_ok.induct)
  case (branch m d l p)
  obtain i where i: "digit l (hamt_hash F v) = Some i" using digit_some branch.hyps(3) by blast
  have ok: "node_ok F C l p (Branch m d)" using branch.hyps by (intro node_ok.branch) auto
  show ?case
  proof (cases "kids (m, d) i")
    case None
    then show ?thesis using mem_child[OF ok branch.prems(1) i] i ca_count_kids[OF branch.hyps(1), of i] by simp
  next
    case (Some c)
    then show ?thesis
      using branch.IH[OF Some branch.prems(1) on_path_Suc[OF branch.prems(2) i]] mem_child[OF ok branch.prems(1) i] i
        ca_count_kids[OF branch.hyps(1), of i] ca_at_kids[OF branch.hyps(1) Some] by simp
  qed
qed simp

lemma find_node_spec:
  assumes "hamt_ok F C root" "v \<in> C"
  shows "hamt_count F root v = Some (member_eq F v (set (elems_opt root)))"
proof (cases root)
  case (Some n)
  then obtain b where "seek_bucket n 0 (hamt_hash F v) = Some b"
      "member_eq F v (set (elems n)) \<longleftrightarrow> (\<exists>xs. b = Some xs \<and> member_eq F v (set xs))"
    using seek_spec[of 0 "\<lambda>_. 0" n v] assms by (auto simp: hamt_ok_def on_path_def)
  moreover have "(find (\<lambda>x. Equal F x v) xs \<noteq> None) = member_eq F v (set xs)" for xs
    unfolding find_None_iff member_eq_def by auto
  ultimately show ?thesis by (cases b) (simp_all add: hamt_count_def find_node_def Some)
qed (simp add: hamt_count_def find_node_def)

end

section \<open>What insertion computes\<close>

lemma scan_right_found:
  "scan_right F lit rit = (found, rit') \<Longrightarrow> if found then rit' = lit \<and> (\<exists>ys. rit = ys @ lit) else rit' = []"
proof (induction rit)
  case (Cons x rit)
  then show ?case by (auto simp: same_ptr_def split: if_splits)
qed simp

lemma common_tail_Nil: "common_tail F lit [] = []"
  by (induction lit) simp_all

text \<open>Only the whole left bucket can be found as a common tail.\<close>

lemma common_tail_cases: "common_tail F lb rb = [] \<or> common_tail F lb rb = lb \<and> (\<exists>ys. rb = ys @ lb)"
proof (cases lb)
  case (Cons y lit)
  obtain found rit' where s: "scan_right F (y # lit) rb = (found, rit')" by force
  from scan_right_found[OF this] show ?thesis using s by (auto simp: Cons common_tail_Nil split: if_splits)
qed simp

lemma merge_buckets_fold:
  "foldl (\<lambda>lit y. if P y then y # lit else lit) acc rb = rev (filter P rb) @ acc"
  by (induction rb arbitrary: acc) simp_all

context hash_equality
begin

lemma bucket_sym: "bucket_ok F C h xs \<Longrightarrow> sorted_wrt (\<lambda>x y. \<not> Equal F y x) xs"
  unfolding bucket_ok_def by (metis (no_types, lifting) eq_sym sorted_wrt_mono_rel subsetD)

lemma merge_buckets_spec:
  assumes "bucket_ok F C h lb" "bucket_ok F C h rb" "lb \<noteq> []" "rb \<noteq> []"
  shows "bucket_ok F C h (merge_buckets F lb rb)" "merge_buckets F lb rb \<noteq> []"
    and "set (merge_buckets F lb rb) \<subseteq> set lb \<union> set rb"
    and "v \<in> C \<Longrightarrow> member_eq F v (set (merge_buckets F lb rb)) \<longleftrightarrow> member_eq F v (set lb) \<or> member_eq F v (set rb)"
proof -
  let ?new = "\<lambda>y. list_all (\<lambda>v. \<not> Equal F v y) lb"
  consider (tail) ys where "merge_buckets F lb rb = rb" "rb = ys @ lb"
    | (fold) "merge_buckets F lb rb = rev (filter ?new rb) @ lb"
  proof (cases "common_tail F lb rb = []")
    case True
    then show ?thesis using fold assms(3,4) by (simp add: merge_buckets_def merge_buckets_fold)
  next
    case False
    then obtain ys where "common_tail F lb rb = lb" "rb = ys @ lb" using common_tail_cases[of F lb rb] by auto
    then show ?thesis using tail[of ys] by (simp add: merge_buckets_def)
  qed
  then have all: "bucket_ok F C h (merge_buckets F lb rb) \<and> merge_buckets F lb rb \<noteq> [] \<and>
    set (merge_buckets F lb rb) \<subseteq> set lb \<union> set rb \<and>
    (v \<in> C \<longrightarrow> (member_eq F v (set (merge_buckets F lb rb)) \<longleftrightarrow> member_eq F v (set lb) \<or> member_eq F v (set rb)))"
  proof cases
    case tail
    then show ?thesis using assms by (auto simp: member_eq_def)
  next
    case fold
    have C: "set lb \<subseteq> C" "set rb \<subseteq> C" using assms(1,2) by (simp_all add: bucket_ok_def)
    have cross: "\<not> Equal F x y" if "x \<in> set (filter ?new rb)" "y \<in> set lb" for x y
      using that C eq_sym[of x y] by (auto simp: list_all_iff)
    have "sorted_wrt (\<lambda>x y. \<not> Equal F x y) (rev (filter ?new rb) @ lb)"
      unfolding sorted_wrt_append sorted_wrt_rev set_rev
      using assms(1) sorted_wrt_filter[OF bucket_sym[OF assms(2)], of ?new] cross unfolding bucket_ok_def by blast
    then have "bucket_ok F C h (merge_buckets F lb rb)" using assms(1,2) fold by (auto simp: bucket_ok_def)
    moreover have "member_eq F v (set (rev (filter ?new rb) @ lb))" if v: "member_eq F v (set rb)" "v \<in> C"
    proof -
      obtain y where y: "y \<in> set rb" "Equal F y v" using v(1) by (auto simp: member_eq_def)
      show ?thesis
      proof (cases "?new y")
        case False
        then obtain x where "x \<in> set lb" "Equal F x y" by (auto simp: list_all_iff)
        then have "Equal F x v" using eq_trans[of x y v] y v(2) C by blast
        then show ?thesis using \<open>x \<in> set lb\<close> by (auto simp: member_eq_def)
      qed (use y in \<open>auto simp: member_eq_def\<close>)
    qed
    ultimately show ?thesis using fold assms(3) by (auto simp: member_eq_def)
  qed
  then show "bucket_ok F C h (merge_buckets F lb rb)" "merge_buckets F lb rb \<noteq> []"
      "set (merge_buckets F lb rb) \<subseteq> set lb \<union> set rb" by blast+
  show "v \<in> C \<Longrightarrow> member_eq F v (set (merge_buckets F lb rb)) \<longleftrightarrow> member_eq F v (set lb) \<or> member_eq F v (set rb)"
    using all by blast
qed

lemma divert_spec:
  assumes "on_path l p a" "on_path l p b" "a \<noteq> b"
  shows "\<exists>k i j. divert l a b = Some k \<and> l \<le> k \<and> k \<le> 6 \<and> digit k a = Some i \<and> digit k b = Some j \<and> i \<noteq> j \<and>
    (\<exists>q. on_path k q a \<and> on_path k q b \<and> (\<forall>x<l. q x = p x))"
  using assms
proof (induction "7 - l" arbitrary: l p)
  case 0
  then show ?case using on_path_differ[of l p a b] by simp
next
  case (Suc n)
  have l: "l \<le> 6" using Suc(2) by simp
  then obtain i j where ij: "digit l a = Some i" "digit l b = Some j" using digit_some by blast
  show ?case
  proof (cases "i = j")
    case True
    have n: "n = 7 - Suc l" using Suc(2) by simp
    obtain k i' j' q where "divert (Suc l) a b = Some k" "Suc l \<le> k" "k \<le> 6" "digit k a = Some i'" "digit k b = Some j'" "i' \<noteq> j'"
        "on_path k q a" "on_path k q b" "\<forall>x<Suc l. q x = (p(l := i)) x"
      using Suc(1)[OF n on_path_Suc[OF Suc.prems(1) ij(1)] on_path_Suc[OF Suc.prems(2) ij(2)[folded True]] Suc.prems(3)] by blast
    then show ?thesis using ij True by (subst divert.simps) (auto intro!: exI[of _ q])
  next
    case False
    then show ?thesis using ij l Suc.prems by (subst divert.simps) auto
  qed
qed

lemma wrap_spec:
  "node_ok F C (l + k) p b \<Longrightarrow> on_path (l + k) p h \<Longrightarrow> l + k \<le> 7 \<Longrightarrow>
   \<exists>r. wrap_branches l k h b = Some r \<and> node_ok F C l p r \<and> set (elems r) = set (elems b)"
proof (induction k arbitrary: b)
  case (Suc k)
  have d: "digit (l + k) h = Some (p (l + k))" using Suc.prems(2) by (simp add: on_path_def)
  let ?b = "branch_of (imm_set (0, []) (p (l + k)) b)"
  have "node_ok F C (Suc (l + k)) (p(l + k := p (l + k))) b" using Suc.prems(1) by simp
  from branch_set[OF kids_empty(2) _ digit_less[OF d] this]
  have "node_ok F C (l + k) p ?b" "set (elems ?b) = set (elems b)" using Suc.prems(3) by simp_all
  moreover have "on_path (l + k) p h" using Suc.prems(2) by (simp add: on_path_def)
  ultimately show ?case using Suc.IH[of ?b] Suc.prems(3) d by simp
qed simp

lemma fork_spec:
  assumes "bucket_ok F C h ins" "ins \<noteq> []" "bucket_ok F C old xs" "xs \<noteq> []" "h \<noteq> old" "on_path l p h" "on_path l p old"
  shows "\<exists>r. fork l h old ins xs = Some r \<and> node_ok F C l p r \<and> set (elems r) = set ins \<union> set xs"
proof -
  obtain k i j q where k: "divert l h old = Some k" "l \<le> k" "k \<le> 6" "digit k h = Some i" "digit k old = Some j" "i \<noteq> j"
      "on_path k q h" "on_path k q old" "\<forall>x<l. q x = p x"
    using divert_spec[OF assms(6,7,5)] by blast
  let ?a = "imm_set (0, []) i (Leaf ins)"
  have l1: "node_ok F C (Suc k) (q(k := i)) (Leaf ins)" using assms(1,2) on_path_Suc[OF k(7,4)] by (rule node_ok.leaf)
  have l2: "node_ok F C (Suc k) (q(k := j)) (Leaf xs)" using assms(3,4) on_path_Suc[OF k(8,5)] by (rule node_ok.leaf)
  have a: "ca_ok ?a" "kids ?a = [i \<mapsto> Leaf ins]"
    using imm_set_facts(1)[of "(0, [])" i] kids_set[of "(0, [])" i] digit_less[OF k(4)] by simp_all
  have others: "\<And>j' c. j' \<noteq> j \<Longrightarrow> kids ?a j' = Some c \<Longrightarrow> node_ok F C (Suc k) (q(k := j')) c"
    using l1 by (auto simp: a(2) split: if_splits)
  have el: "(\<Union>c\<in>ran ((kids ?a)(j := None)). set (elems c)) = set ins" using k(6) by (simp add: a(2) fun_upd_twist)
  have b: "node_ok F C k q (branch_of (imm_set ?a j (Leaf xs)))" "set (elems (branch_of (imm_set ?a j (Leaf xs)))) = set ins \<union> set xs"
    using branch_set[of "fst ?a" "snd ?a" k j F C q "Leaf xs"] others a(1) k(3) l2 digit_less[OF k(5)] el by (simp_all add: Un_commute)
  have "l + (k - l) = k" using k(2) by simp
  then obtain r where "wrap_branches l (k - l) h (branch_of (imm_set ?a j (Leaf xs))) = Some r" "node_ok F C l q r"
      "set (elems r) = set ins \<union> set xs"
    using wrap_spec[of l "k - l" q "branch_of (imm_set ?a j (Leaf xs))" h] b k(3,7) by (auto simp del: elems.simps)
  then show ?thesis using k node_ok_cong[of F C l q r p] by (auto simp: fork_def)
qed

end

context hash_equality
begin

text \<open>What a change of the child at a digit means for the branch: the other children stay.\<close>

lemma update_child:
  assumes "node_ok F C l p (Branch m d)" "i < 32" "node_ok F C (Suc l) (p(l := i)) n"
  shows "node_ok F C l p (branch_of (imm_set (m, d) i n))"
    and "kids (m, d) i = Some c \<Longrightarrow> set (elems (Branch m d)) = set (elems c) \<union> (\<Union>c\<in>ran ((kids (m, d))(i := None)). set (elems c))"
    and "kids (m, d) i = None \<Longrightarrow> set (elems (Branch m d)) = (\<Union>c\<in>ran ((kids (m, d))(i := None)). set (elems c))"
    and "set (elems (branch_of (imm_set (m, d) i n))) = set (elems n) \<union> (\<Union>c\<in>ran ((kids (m, d))(i := None)). set (elems c))"
proof -
  have ok: "ca_ok (m, d)" "l \<le> 6" "\<And>j c. kids (m, d) j = Some c \<Longrightarrow> node_ok F C (Suc l) (p(l := j)) c"
    using assms(1) by (auto elim: node_ok_branchE)
  note s = branch_set[OF ok(1,2) assms(2,3) ok(3)]
  show "node_ok F C l p (branch_of (imm_set (m, d) i n))" by (rule s(1))
  show "set (elems (branch_of (imm_set (m, d) i n))) = set (elems n) \<union> (\<Union>c\<in>ran ((kids (m, d))(i := None)). set (elems c))"
    by (rule s(2))
  show "set (elems (Branch m d)) = set (elems c) \<union> (\<Union>c\<in>ran ((kids (m, d))(i := None)). set (elems c))"
    if "kids (m, d) i = Some c" unfolding elems_branch[OF ok(1)] ran_split(1)[of "kids (m, d)", OF that] by simp
  show "set (elems (Branch m d)) = (\<Union>c\<in>ran ((kids (m, d))(i := None)). set (elems c))"
    if "kids (m, d) i = None" unfolding elems_branch[OF ok(1)] ran_split(2)[of "kids (m, d)", OF that] by simp
qed

lemma insert_leaf_spec:
  "node_ok F C l p n \<Longrightarrow> bucket_ok F C h ins \<Longrightarrow> ins \<noteq> [] \<Longrightarrow> on_path l p h \<Longrightarrow>
   \<exists>r. insert_leaf F n l h ins = Some r \<and> node_ok F C l p r \<and> set (elems r) \<subseteq> set (elems n) \<union> set ins \<and>
     (\<forall>v\<in>C. member_eq F v (set (elems r)) \<longleftrightarrow> member_eq F v (set (elems n)) \<or> member_eq F v (set ins))"
proof (induction rule: node_ok.induct)
  case (leaf old xs l p)
  obtain x ys where xs: "xs = x # ys" using leaf.hyps(2) by (cases xs) auto
  have old: "hamt_hash F x = old" using leaf.hyps(1) by (simp add: bucket_ok_def xs)
  show ?case
  proof (cases "same_ptr F (Leaf xs) (Leaf ins) \<or> h = old")
    case True
    then show ?thesis
      using leaf old merge_buckets_spec[OF _ leaf.prems(1) leaf.hyps(2) leaf.prems(2)]
      by (auto simp: xs same_ptr_def intro!: node_ok.leaf)
  next
    case False
    then show ?thesis using fork_spec[OF leaf.prems(1,2) leaf.hyps(1,2) _ leaf.prems(3) leaf.hyps(3)] old
      by (auto simp: xs)
  qed
next
  case (branch m d l p)
  have ok: "node_ok F C l p (Branch m d)" using branch.hyps by (intro node_ok.branch) auto
  obtain i where i: "digit l h = Some i" using digit_some branch.hyps(3) by blast
  note path = on_path_Suc[OF branch.prems(3) i]
  show ?case
  proof (cases "kids (m, d) i")
    case None
    have leaf: "node_ok F C (Suc l) (p(l := i)) (Leaf ins)" using branch.prems path by (intro node_ok.leaf)
    note u = update_child[OF ok digit_less[OF i] leaf]
    show ?thesis
      using u(1) u(3)[OF None] u(4) ca_count_kids[OF branch.hyps(1), of i] i None by (auto simp del: elems.simps(2))
  next
    case (Some c)
    from branch.IH[OF this branch.prems(1,2) path] obtain r where r: "insert_leaf F c (Suc l) h ins = Some r"
        "node_ok F C (Suc l) (p(l := i)) r" "set (elems r) \<subseteq> set (elems c) \<union> set ins"
        "\<forall>v\<in>C. member_eq F v (set (elems r)) \<longleftrightarrow> member_eq F v (set (elems c)) \<or> member_eq F v (set ins)" by blast
    note u = update_child[OF ok digit_less[OF i] r(2)]
    have res: "insert_leaf F (Branch m d) l h ins =
        Some (if same_ptr F c r then Branch m d else branch_of (imm_set (m, d) i r))"
      using i r(1) Some ca_count_kids[OF branch.hyps(1), of i] ca_at_kids[OF branch.hyps(1) Some] by simp
    show ?thesis
    proof (cases "same_ptr F c r")
      case True
      then have "r = c" by (simp add: same_ptr_def)
      then show ?thesis using ok r(4) u(2)[OF Some] True unfolding res
        by (intro exI[of _ "Branch m d"]) (auto simp del: elems.simps(2))
    next
      case False
      then show ?thesis using u(1) u(2)[OF Some] u(4) r(3,4) unfolding res
        by (intro exI[of _ "branch_of (imm_set (m, d) i r)"]) (auto simp del: elems.simps(2))
    qed
  qed
qed

definition inserted :: "nat \<Rightarrow> (nat \<Rightarrow> nat) \<Rightarrow> 'a hamt_node \<Rightarrow> 'a \<Rightarrow> bool" where
  "inserted l p n v \<longleftrightarrow> (\<exists>r. hamt_insert F n l (hamt_hash F v) v = Some r \<and> node_ok F C l p r \<and>
     set (elems r) = (if member_eq F v (set (elems n)) then set (elems n) else insert v (set (elems n))))"

lemma insert_step:
  assumes "node_ok F C l p (Branch m d)" "v \<in> C" "on_path l p (hamt_hash F v)" "digit l (hamt_hash F v) = Some i"
    and "\<And>c. kids (m, d) i = Some c \<Longrightarrow> inserted (Suc l) (p(l := i)) c v"
  shows "inserted l p (Branch m d) v"
proof -
  have ok: "ca_ok (m, d)" using assms(1) by (auto elim: node_ok_branchE)
  note path = on_path_Suc[OF assms(3,4)] and child = mem_child[OF assms(1,2,4)]
  show ?thesis
  proof (cases "kids (m, d) i")
    case None
    have leaf: "node_ok F C (Suc l) (p(l := i)) (Leaf [v])"
      using path assms(2) by (intro node_ok.leaf) (auto simp: bucket_ok_def)
    note u = update_child[OF assms(1) digit_less[OF assms(4)] leaf]
    show ?thesis
      using u(1) u(3)[OF None] u(4) child ca_count_kids[OF ok, of i] assms(4) None by (simp add: inserted_def del: elems.simps(2))
  next
    case (Some c)
    obtain r where r: "hamt_insert F c (Suc l) (hamt_hash F v) v = Some r" "node_ok F C (Suc l) (p(l := i)) r"
        "set (elems r) = (if member_eq F v (set (elems c)) then set (elems c) else insert v (set (elems c)))"
      using assms(5)[OF Some] by (auto simp: inserted_def)
    note u = update_child[OF assms(1) digit_less[OF assms(4)] r(2)]
    have res: "hamt_insert F (Branch m d) l (hamt_hash F v) v =
        Some (if same_ptr F c r then Branch m d else branch_of (imm_set (m, d) i r))"
      using assms(4) r(1) Some ca_count_kids[OF ok, of i] ca_at_kids[OF ok Some] by simp
    have mem: "member_eq F v (set (elems (Branch m d))) = member_eq F v (set (elems c))" using child Some by simp
    show ?thesis
    proof (cases "same_ptr F c r")
      case True
      then have "r = c" by (simp add: same_ptr_def)
      then show ?thesis using assms(1) r(3) u(2)[OF Some] True mem unfolding res inserted_def
        by (intro exI[of _ "Branch m d"]) (auto simp del: elems.simps(2) split: if_splits)
    next
      case False
      then show ?thesis using u(1) u(2)[OF Some] u(4) r(3) mem unfolding res inserted_def
        by (intro exI[of _ "branch_of (imm_set (m, d) i r)"]) (simp del: elems.simps(2))
    qed
  qed
qed

lemma insert_into_leaf:
  "bucket_ok F C old xs \<Longrightarrow> xs \<noteq> [] \<Longrightarrow> on_path l p old \<Longrightarrow> v \<in> C \<Longrightarrow> on_path l p (hamt_hash F v) \<Longrightarrow> inserted l p (Leaf xs) v"
proof (induction "7 - l" arbitrary: l p rule: less_induct)
  case less
  obtain x ys where xs: "xs = x # ys" using less.prems(2) by (cases xs) auto
  have old: "hamt_hash F x = old" using less.prems(1) by (simp add: bucket_ok_def xs)
  show ?case
  proof (cases "hamt_hash F v = old")
    case True
    have ex: "list_ex (\<lambda>e. Equal F e v) xs \<longleftrightarrow> member_eq F v (set xs)" by (simp add: list_ex_iff member_eq_def)
    have "bucket_ok F C old (v # xs)" if "\<not> member_eq F v (set xs)"
      using that less.prems(1,4) True eq_sym[of v] by (auto simp: bucket_ok_def member_eq_def)
    then show ?thesis using less.prems True old ex by (auto simp: inserted_def xs intro!: node_ok.leaf)
  next
    case False
    have l: "l \<le> 6" using on_path_differ[OF less.prems(5,3) False] .
    obtain i j where d: "digit l old = Some i" "digit l (hamt_hash F v) = Some j" using digit_some[OF l] by metis
    let ?b = "imm_set (0, []) i (Leaf xs)"
    have leaf: "node_ok F C (Suc l) (p(l := i)) (Leaf xs)" using less.prems(1,2) on_path_Suc[OF less.prems(3) d(1)] by (rule node_ok.leaf)
    have k: "kids ?b = [i \<mapsto> Leaf xs]" using kids_set[of "(0, [])" i] digit_less[OF d(1)] by simp
    have b: "node_ok F C l p (branch_of ?b)" "set (elems (branch_of ?b)) = set xs"
      using branch_set[OF kids_empty(2) l digit_less[OF d(1)] leaf] by simp_all
    have "inserted l p (branch_of ?b) v"
    proof (rule insert_step[OF b(1) less.prems(4,5) d(2)])
      fix c assume "kids (fst ?b, snd ?b) j = Some c"
      then have c: "c = Leaf xs" "j = i" by (simp_all add: k split: if_splits)
      show "inserted (Suc l) (p(l := j)) c v"
        unfolding c using less.hyps[of "Suc l" "p(l := i)"] l less.prems on_path_Suc[OF less.prems(3) d(1)]
          on_path_Suc[OF less.prems(5) d(2)] c(2) by simp
    qed
    moreover have "hamt_insert F (Leaf xs) l (hamt_hash F v) v = hamt_insert F (branch_of ?b) l (hamt_hash F v) v"
      using False old d(1) by (simp add: xs)
    ultimately show ?thesis unfolding inserted_def b(2) elems.simps(1) by (simp only:)
  qed
qed

lemma hamt_insert_spec: "node_ok F C l p n \<Longrightarrow> v \<in> C \<Longrightarrow> on_path l p (hamt_hash F v) \<Longrightarrow> inserted l p n v"
proof (induction rule: node_ok.induct)
  case (branch m d l p)
  have ok: "node_ok F C l p (Branch m d)" using branch.hyps by (intro node_ok.branch) auto
  obtain i where i: "digit l (hamt_hash F v) = Some i" using digit_some branch.hyps(3) by blast
  show ?case
    by (rule insert_step[OF ok branch.prems i]) (rule branch.IH[OF _ branch.prems(1) on_path_Suc[OF branch.prems(2) i]])
qed (rule insert_into_leaf)

end

context hash_equality
begin

text \<open>Removal takes out exactly the elements equal to the value.\<close>

definition erased :: "nat \<Rightarrow> (nat \<Rightarrow> nat) \<Rightarrow> 'a hamt_node option \<Rightarrow> 'a \<Rightarrow> bool" where
  "erased l p n v \<longleftrightarrow> (\<exists>r. hamt_erase F n l (hamt_hash F v) v = Some r \<and> (\<forall>n'. r = Some n' \<longrightarrow> node_ok F C l p n') \<and>
     set (elems_opt r) = {x \<in> set (elems_opt n). \<not> Equal F x v})"

lemma erase_from_leaf:
  "bucket_ok F C h xs \<Longrightarrow> on_path l p h \<Longrightarrow> v \<in> C \<Longrightarrow>
   erased l p (leaf_ptr xs) v \<and> (\<forall>r. hamt_erase F (leaf_ptr xs) l (hamt_hash F v) v = Some (Some r) \<longrightarrow> (\<exists>ys. r = Leaf ys))"
proof (induction xs)
  case (Cons x xs)
  have b: "bucket_ok F C h xs" "x \<in> C" "hamt_hash F x = h" "\<And>y. y \<in> set xs \<Longrightarrow> y \<in> C \<and> \<not> Equal F x y \<and> hamt_hash F y = h"
    using Cons.prems(1) by (auto simp: bucket_ok_def)
  have leaf: "node_ok F C l p (Leaf ys)" if "bucket_ok F C h ys" "ys \<noteq> []" for ys using that Cons.prems(2) by (rule node_ok.leaf)
  have lp: "leaf_ptr (x # xs) = Some (Leaf (x # xs))" by (simp add: leaf_ptr_def)
  have e: "elems_opt (leaf_ptr ys) = ys" for ys :: "'a list" by (cases ys) (simp_all add: leaf_ptr_def)
  show ?case
  proof (cases "hamt_hash F v = h")
    case False
    then have "\<not> Equal F y v" if "y \<in> set (x # xs)" for y
      using that b Cons.prems(3) eq_hamt_hash[of y v] by auto
    then show ?thesis using False b leaf[OF Cons.prems(1)] by (auto simp: erased_def lp)
  next
    case True
    show ?thesis
    proof (cases "Equal F x v")
      case eq: True
      have "\<not> Equal F y v" if "y \<in> set xs" for y
        using b(2) b(4)[OF that] eq eq_sym[of y v] eq_trans[of x v y] Cons.prems(3) by blast
      then have "{y \<in> set (x # xs). \<not> Equal F y v} = set xs" using eq by auto
      moreover have "\<forall>n'. leaf_ptr xs = Some n' \<longrightarrow> node_ok F C l p n' \<and> (\<exists>ys. n' = Leaf ys)"
        using leaf[OF b(1)] by (cases xs) (simp_all add: leaf_ptr_def)
      ultimately show ?thesis using True b(3) eq by (auto simp: erased_def lp e)
    next
      case ne: False
      obtain r where r: "hamt_erase F (leaf_ptr xs) l (hamt_hash F v) v = Some r" "\<forall>n'. r = Some n' \<longrightarrow> node_ok F C l p n' \<and> (\<exists>ys. n' = Leaf ys)"
          "set (elems_opt r) = {y \<in> set xs. \<not> Equal F y v}"
        using Cons.IH[OF b(1) Cons.prems(2,3)] by (auto simp: erased_def e)
      show ?thesis
      proof (cases "same_ptr_opt F (leaf_ptr xs) r")
        case True
        then have "r = leaf_ptr xs" by (auto simp: same_ptr_opt_def same_ptr_def split: option.splits)
        then show ?thesis using r ne \<open>hamt_hash F v = h\<close> b(3) leaf[OF Cons.prems(1)] True
          by (auto simp: erased_def lp e)
      next
        case False
        have "\<exists>ys. elems_opt r = ys \<and> (r = None \<longrightarrow> ys = []) \<and> (\<forall>n'. r = Some n' \<longrightarrow> n' = Leaf ys) \<and> bucket_ok F C h ys"
        proof (cases r)
          case (Some n')
          then obtain ys where ys: "n' = Leaf ys" "node_ok F C l p (Leaf ys)" using r(2) by auto
          then obtain h' where h': "bucket_ok F C h' ys" "ys \<noteq> []" by (auto elim: node_ok_leafE)
          moreover have "hd ys \<in> set xs" using r(3) Some ys(1) hd_in_set[OF h'(2)] by auto
          then have "h' = h" using b(4)[of "hd ys"] h'(1) hd_in_set[OF h'(2)] by (simp add: bucket_ok_def)
          ultimately show ?thesis using Some ys by auto
        qed (simp add: bucket_ok_def)
        then obtain ys where ys: "elems_opt r = ys" "r = None \<Longrightarrow> ys = []" "\<And>n'. r = Some n' \<Longrightarrow> n' = Leaf ys" "bucket_ok F C h ys"
          by blast
        have "bucket_ok F C h (x # ys)" using ys(1,4) r(3) b Cons.prems(1) by (auto simp: bucket_ok_def)
        then show ?thesis
          using False r ne \<open>hamt_hash F v = h\<close> b(3) leaf[of "x # ys"] ys
          by (cases r) (auto simp: erased_def lp cast_leaf_def)
      qed
    qed
  qed
qed (simp add: erased_def leaf_ptr_def)

lemma hamt_erase_spec: "node_ok F C l p n \<Longrightarrow> v \<in> C \<Longrightarrow> on_path l p (hamt_hash F v) \<Longrightarrow> erased l p (Some n) v"
proof (induction rule: node_ok.induct)
  case (leaf h xs l p)
  then show ?case using erase_from_leaf[of h xs l p v] by (cases xs) (simp_all add: leaf_ptr_def)
next
  case (branch m d l p)
  have ok: "node_ok F C l p (Branch m d)" using branch.hyps by (intro node_ok.branch) auto
  obtain i where i: "digit l (hamt_hash F v) = Some i" using digit_some branch.hyps(3) by blast
  have rest: "\<not> Equal F x v" if "c \<in> ran ((kids (m, d))(i := None))" "x \<in> set (elems c)" for c x
    using others[OF ok branch.prems(1) i that(1)] that(2) by (auto simp: member_eq_def)
  show ?case
  proof (cases "kids (m, d) i")
    case None
    have "\<not> member_eq F v (set (elems (Branch m d)))" using mem_child[OF ok branch.prems(1) i] None by simp
    then have "{x \<in> set (elems (Branch m d)). \<not> Equal F x v} = set (elems (Branch m d))" by (auto simp: member_eq_def)
    then show ?thesis using ok i None ca_count_kids[OF branch.hyps(1), of i] by (simp add: erased_def del: elems.simps(2))
  next
    case (Some c)
    from branch.IH[OF this branch.prems(1) on_path_Suc[OF branch.prems(2) i]]
    obtain r where r: "hamt_erase F (Some c) (Suc l) (hamt_hash F v) v = Some r"
        "\<forall>n'. r = Some n' \<longrightarrow> node_ok F C (Suc l) (p(l := i)) n'" "set (elems_opt r) = {x \<in> set (elems c). \<not> Equal F x v}"
      unfolding erased_def elems_opt_simps by blast
    have cnt: "ca_count (m, d) i" "ca_at (m, d) i = Some c"
      using Some ca_count_kids[OF branch.hyps(1), of i] ca_at_kids[OF branch.hyps(1) Some] by simp_all
    have c: "node_ok F C (Suc l) (p(l := i)) c" using branch.hyps(4)[OF Some] .
    note uc = update_child(2)[OF ok digit_less[OF i] c Some]
    show ?thesis
    proof (cases r)
      case None
      let ?a = "imm_remove (m, d) i"
      note a = imm_remove_facts(1)[OF branch.hyps(1) cnt(1)] kids_remove[OF branch.hyps(1) cnt(1)]
      have kid: "kids ?a j = Some c' \<Longrightarrow> node_ok F C (Suc l) (p(l := j)) c'" for j c'
        using branch.hyps(4) a(2) by (simp split: if_splits)
      have "elems c = [] \<or> (\<forall>x\<in>set (elems c). Equal F x v)" using r(3) None by auto
      then have el: "(\<Union>c\<in>set (snd ?a). set (elems c)) = {x \<in> set (elems (Branch m d)). \<not> Equal F x v}"
        unfolding uc ran_kids[OF a(1), symmetric] a(2) using rest by auto
      have nonempty: "node_ok F C l p (branch_of ?a)" if "snd ?a \<noteq> []"
        using a(1) that branch.hyps(3) kid by (intro node_ok.branch) auto
      have single: "node_ok F C l p (Leaf xs)" if "snd ?a = [Leaf xs]" for xs
      proof -
        have "Leaf xs \<in> ran (kids ?a)" unfolding ran_kids[OF a(1)] that by simp
        then obtain j where "kids ?a j = Some (Leaf xs)" by (auto simp: ran_def)
        from kid[OF this] show ?thesis by (auto elim!: node_ok_leafE intro!: node_ok.leaf simp: on_path_def less_Suc_eq)
      qed
      have res: "hamt_erase F (Some (Branch m d)) l (hamt_hash F v) v = Some (case snd ?a of
          [] \<Rightarrow> None | [Leaf xs] \<Rightarrow> Some (Leaf xs) | _ \<Rightarrow> Some (branch_of ?a))"
        using i cnt r(1) None by (simp add: Let_def split: list.split hamt_node.split)
      have el2: "set (elems (branch_of ?a)) = {x \<in> set (elems (Branch m d)). \<not> Equal F x v}" using el by (simp only: elems.simps set_concat set_map UN_simps image_image)
      consider "snd ?a = []" | xs where "snd ?a = [Leaf xs]"
        | "(case snd ?a of [] \<Rightarrow> None | [Leaf xs] \<Rightarrow> Some (Leaf xs) | _ \<Rightarrow> Some (branch_of ?a)) = Some (branch_of ?a)" "snd ?a \<noteq> []"
        by (cases "snd ?a"; cases "hd (snd ?a)"; cases "tl (snd ?a)") auto
      then show ?thesis
      proof cases
        case 1
        then show ?thesis using el by (simp add: erased_def res del: elems.simps(2) hamt_erase.simps)
      next
        case (2 xs)
        then show ?thesis using el single by (simp add: erased_def res del: elems.simps(2) hamt_erase.simps)
      next
        case 3
        then show ?thesis using el2 nonempty by (simp only: erased_def res) (simp del: elems.simps(2))
      qed
    next
      case (Some n)
      have n: "node_ok F C (Suc l) (p(l := i)) n" using r(2) Some by simp
      note u = update_child[OF ok digit_less[OF i] n]
      show ?thesis
      proof (cases "same_ptr F c n")
        case True
        then show ?thesis using i cnt r Some ok rest uc by (auto simp: erased_def same_ptr_def simp del: elems.simps(2))
      next
        case False
        then show ?thesis using i cnt r Some u(1,4) rest uc by (auto simp: erased_def simp del: elems.simps(2))
      qed
    qed
  qed
qed

end

context hash_equality
begin

text \<open>The union of two sets on the same level.\<close>

definition united :: "nat \<Rightarrow> (nat \<Rightarrow> nat) \<Rightarrow> 'a hamt_node option \<Rightarrow> 'a hamt_node option \<Rightarrow> bool" where
  "united l p a b \<longleftrightarrow> (\<exists>r. hamt_merge F a b l = Some r \<and> (\<forall>n. r = Some n \<longrightarrow> node_ok F C l p n) \<and>
     (r = None \<longrightarrow> a = None \<and> b = None) \<and> set (elems_opt r) \<subseteq> set (elems_opt a) \<union> set (elems_opt b) \<and>
     (\<forall>v\<in>C. member_eq F v (set (elems_opt r)) \<longleftrightarrow>
        member_eq F v (set (elems_opt a)) \<or> member_eq F v (set (elems_opt b))))"

lemma merge_leaf:
  assumes "node_ok F C l p (Leaf xs)" "node_ok F C l p n"
  obtains x ys r where "xs = x # ys" "insert_leaf F n l (hamt_hash F x) xs = Some r" "node_ok F C l p r"
    "set (elems r) \<subseteq> set (elems n) \<union> set xs"
    "\<forall>v\<in>C. member_eq F v (set (elems r)) \<longleftrightarrow> member_eq F v (set (elems n)) \<or> member_eq F v (set xs)"
proof -
  obtain h where h: "bucket_ok F C h xs" "xs \<noteq> []" "on_path l p h" using assms(1) by (auto elim: node_ok_leafE)
  obtain x ys where xs: "xs = x # ys" using h(2) by (cases xs) auto
  have "hamt_hash F x = h" using h(1) by (simp add: bucket_ok_def xs)
  then show ?thesis using insert_leaf_spec[OF assms(2) h] xs that by blast
qed

lemma kids_or:
  fixes lm rm :: "32 word"
  assumes "ca_ok (lm, ld)" "ca_ok (rm, rd)"
  shows "bit (semiring_bit_operations_class.or lm rm) i \<longleftrightarrow> kids (lm, ld) i \<noteq> None \<or> kids (rm, rd) i \<noteq> None"
  using ca_count_kids[OF assms(1), of i] ca_count_kids[OF assms(2), of i] by (simp add: ca_count_def bit_or_iff)

lemma hamt_merge_spec:
  "node_ok F C l p a \<Longrightarrow> node_ok F C l p b \<Longrightarrow> united l p (Some a) (Some b)"
proof (induction arbitrary: b rule: node_ok.induct)
  case (leaf h xs l p)
  then have a: "node_ok F C l p (Leaf xs)" by (intro node_ok.leaf)
  show ?case
    by (rule merge_leaf[OF a leaf.prems]) (use leaf.prems in \<open>auto simp: united_def same_ptr_def\<close>)
next
  case (branch lm ld l p)
  have a: "node_ok F C l p (Branch lm ld)" using branch.hyps by (intro node_ok.branch) auto
  show ?case
  proof (cases b)
    case (Leaf xs)
    show ?thesis
      by (rule merge_leaf[OF branch.prems[unfolded Leaf] a]) (auto simp: united_def Leaf simp del: elems.simps(2))
  next
    case (Branch rm rd)
    have rok: "ca_ok (rm, rd)" "\<And>i c. kids (rm, rd) i = Some c \<Longrightarrow> node_ok F C (Suc l) (p(l := i)) c"
      using branch.prems unfolding Branch by (auto elim: node_ok_branchE)
    let ?mask = "semiring_bit_operations_class.or lm rm"
    let ?f = "\<lambda>i. do { left \<leftarrow> ca_lookup (lm, ld) i; right \<leftarrow> ca_lookup (rm, rd) i; merged \<leftarrow> hamt_merge F left right (Suc l); merged }"
    have f: "\<exists>n. ?f i = Some n \<and> node_ok F C (Suc l) (p(l := i)) n \<and>
        set (elems n) \<subseteq> set (elems_opt (kids (lm, ld) i)) \<union> set (elems_opt (kids (rm, rd) i)) \<and>
        (\<forall>v\<in>C. member_eq F v (set (elems n)) \<longleftrightarrow>
          member_eq F v (set (elems_opt (kids (lm, ld) i))) \<or> member_eq F v (set (elems_opt (kids (rm, rd) i))))"
      if "bit ?mask i" for i
    proof (cases "kids (lm, ld) i")
      case None
      then show ?thesis using that rok(2) kids_or[OF branch.hyps(1) rok(1), of i]
        by (auto simp: ca_lookup_kids[OF branch.hyps(1)] ca_lookup_kids[OF rok(1)])
    next
      case (Some c)
      show ?thesis
      proof (cases "kids (rm, rd) i")
        case None
        then show ?thesis using Some branch.hyps(4)[OF Some]
          by (auto simp: ca_lookup_kids[OF branch.hyps(1)] ca_lookup_kids[OF rok(1)])
      next
        case r: (Some e)
        have "united (Suc l) (p(l := i)) (Some c) (Some e)" by (rule branch.IH[OF Some rok(2)[OF r]])
        then obtain m where "hamt_merge F (Some c) (Some e) (Suc l) = Some m" "m \<noteq> None"
            "\<forall>n. m = Some n \<longrightarrow> node_ok F C (Suc l) (p(l := i)) n" "set (elems_opt m) \<subseteq> set (elems c) \<union> set (elems e)"
            "\<forall>v\<in>C. member_eq F v (set (elems_opt m)) \<longleftrightarrow> member_eq F v (set (elems c)) \<or> member_eq F v (set (elems e))"
          unfolding united_def elems_opt_simps by blast
        then show ?thesis using Some r
          by (auto simp: ca_lookup_kids[OF branch.hyps(1)] ca_lookup_kids[OF rok(1)])
      qed
    qed
    then have "\<exists>cs. omap ?f (filter (bit ?mask) [0..<32]) = Some cs"
      using omap_eq_None[of ?f "filter (bit ?mask) [0..<32]"] by force
    then obtain cs where cs: "omap ?f (filter (bit ?mask) [0..<32]) = Some cs" by blast
    note k = kids_omap[OF cs]
    have kn: "\<exists>n. kids (?mask, cs) i = Some n \<and> ?f i = Some n" if "bit ?mask i" for i using k(2)[of i] f[OF that] that by auto
    have "ld \<noteq> []" using branch.hyps(2) .
    then obtain c where "c \<in> ran (kids (lm, ld))" using ran_kids[OF branch.hyps(1)] by (cases ld) auto
    then obtain i where "kids (lm, ld) i = Some c" by (auto simp: ran_def)
    then have "bit ?mask i" using kids_or[OF branch.hyps(1) rok(1), of i] by simp
    then have ne: "cs \<noteq> []" using kn[of i] ran_kids[OF k(1)] by (auto simp: ran_def)
    have ok: "node_ok F C l p (Branch ?mask cs)"
    proof (rule node_ok.branch[OF k(1) ne branch.hyps(3)])
      fix i c assume i: "kids (?mask, cs) i = Some c"
      then have "bit ?mask i" using k(2)[of i] by (simp split: if_splits)
      then show "node_ok F C (Suc l) (p(l := i)) c" using f[of i] i k(2)[of i] by auto
    qed
    have el: "x \<in> set (elems (Branch ?mask cs)) \<longleftrightarrow> (\<exists>i n. bit ?mask i \<and> ?f i = Some n \<and> x \<in> set (elems n))" for x
      unfolding elems_branch[OF k(1)] using k(2) by (auto simp: ran_def)
    have side: "x \<in> set (elems (Branch m d)) \<longleftrightarrow> (\<exists>i. x \<in> set (elems_opt (kids (m, d) i)))" if "ca_ok (m, d)" for x m d
    proof -
      have "x \<in> set (elems (Branch m d)) \<longleftrightarrow> (\<exists>i c. kids (m, d) i = Some c \<and> x \<in> set (elems c))"
        unfolding elems_branch[OF that] by (auto simp: ran_def)
      then show ?thesis by (metis elems_opt_simps empty_iff empty_set option.exhaust)
    qed
    have sub: "set (elems (Branch ?mask cs)) \<subseteq> set (elems (Branch lm ld)) \<union> set (elems (Branch rm rd))"
    proof
      fix x assume "x \<in> set (elems (Branch ?mask cs))"
      then obtain i n where "bit ?mask i" "?f i = Some n" "x \<in> set (elems n)" unfolding el by blast
      then show "x \<in> set (elems (Branch lm ld)) \<union> set (elems (Branch rm rd))"
        using f[of i] unfolding Un_iff side[OF branch.hyps(1)] side[OF rok(1)] by auto
    qed
    have mem: "member_eq F v (set (elems (Branch ?mask cs))) \<longleftrightarrow>
        member_eq F v (set (elems (Branch lm ld))) \<or> member_eq F v (set (elems (Branch rm rd)))" if v: "v \<in> C" for v
    proof -
      have "member_eq F v (set (elems (Branch ?mask cs))) \<longleftrightarrow> (\<exists>i n. bit ?mask i \<and> ?f i = Some n \<and> member_eq F v (set (elems n)))"
        unfolding member_eq_def Bex_def el by blast
      also have "\<dots> \<longleftrightarrow> (\<exists>i. bit ?mask i \<and> (member_eq F v (set (elems_opt (kids (lm, ld) i))) \<or>
          member_eq F v (set (elems_opt (kids (rm, rd) i)))))" using f v by (metis option.inject)
      also have "\<dots> \<longleftrightarrow> (\<exists>i. member_eq F v (set (elems_opt (kids (lm, ld) i))) \<or> member_eq F v (set (elems_opt (kids (rm, rd) i))))"
        using kids_or[OF branch.hyps(1) rok(1)] by (metis elems_opt_simps(1) empty_set member_eq_simps(1))
      finally show ?thesis unfolding member_eq_def Bex_def side[OF branch.hyps(1)] side[OF rok(1)] by blast
    qed
    show ?thesis
    proof (cases "same_ptr F (Branch lm ld) (Branch rm rd)")
      case True
      then show ?thesis using a by (auto simp: united_def Branch same_ptr_def simp del: elems.simps(2))
    next
      case False
      then show ?thesis using cs ok sub mem by (simp add: united_def Branch Let_def del: elems.simps(2))
    qed
  qed
qed

end

context hash_equality
begin

text \<open>The four operations on sets, on the root.\<close>

lemma set_operations:
  assumes "hamt_ok F C root" "v \<in> C"
  shows "\<exists>r. hamt_insert_opt F root v = Some r \<and> hamt_ok F C (Some r) \<and>
      (\<forall>w\<in>C. member_eq F w (set (elems r)) \<longleftrightarrow> Equal F v w \<or> member_eq F w (set (elems_opt root)))"
    and "\<exists>r. hamt_erase_opt F root v = Some r \<and> hamt_ok F C r \<and>
      (\<forall>w\<in>C. member_eq F w (set (elems_opt r)) \<longleftrightarrow> \<not> Equal F v w \<and> member_eq F w (set (elems_opt root)))"
proof -
  have sub: "set (elems_opt root) \<subseteq> C"
    using node_elems assms(1) by (auto simp: hamt_ok_def split: option.splits)
  have insert: "(\<exists>r. hamt_insert_opt F root v = Some r \<and> hamt_ok F C (Some r) \<and>
      set (elems r) = (if member_eq F v (set (elems_opt root)) then set (elems_opt root) else insert v (set (elems_opt root))))"
  proof (cases root)
    case None
    then show ?thesis using assms(2)
      by (auto simp: hamt_insert_opt_def hamt_ok_def on_path_def bucket_ok_def intro!: node_ok.leaf)
  next
    case (Some n)
    then show ?thesis using hamt_insert_spec[of 0 "\<lambda>_. 0" n v] assms
      by (auto simp: hamt_insert_opt_def hamt_ok_def on_path_def inserted_def)
  qed
  have "member_eq F w (if member_eq F v A then A else insert v A) \<longleftrightarrow> Equal F v w \<or> member_eq F w A"
    if "w \<in> C" "A \<subseteq> C" for w A
    using mem_trans[of A v w] that assms(2) by auto
  then show "\<exists>r. hamt_insert_opt F root v = Some r \<and> hamt_ok F C (Some r) \<and>
      (\<forall>w\<in>C. member_eq F w (set (elems r)) \<longleftrightarrow> Equal F v w \<or> member_eq F w (set (elems_opt root)))"
    using insert sub by auto
  have erase: "\<exists>r. hamt_erase_opt F root v = Some r \<and> hamt_ok F C r \<and>
      set (elems_opt r) = {x \<in> set (elems_opt root). \<not> Equal F x v}"
  proof (cases root)
    case (Some n)
    then have "erased 0 (\<lambda>_. 0) (Some n) v" using hamt_erase_spec[of 0 "\<lambda>_. 0" n v] assms by (simp add: hamt_ok_def on_path_def)
    then show ?thesis by (auto simp: hamt_erase_opt_def hamt_ok_def erased_def Some split: option.splits)
  qed (simp add: hamt_erase_opt_def hamt_ok_def)
  have "member_eq F w {x \<in> A. \<not> Equal F x v} \<longleftrightarrow> \<not> Equal F v w \<and> member_eq F w A" if w: "w \<in> C" "A \<subseteq> C" for w A
  proof -
    have "Equal F x v \<longleftrightarrow> Equal F v w" if "x \<in> A" "Equal F x w" for x
      using that w assms(2) eq_trans[of v x w] eq_trans[of x w v] eq_sym[of x v] eq_sym[of v w] by blast
    then show ?thesis by (auto simp: member_eq_def)
  qed
  then show "\<exists>r. hamt_erase_opt F root v = Some r \<and> hamt_ok F C r \<and>
      (\<forall>w\<in>C. member_eq F w (set (elems_opt r)) \<longleftrightarrow> \<not> Equal F v w \<and> member_eq F w (set (elems_opt root)))"
    using erase sub by auto
qed

lemma set_union:
  assumes "hamt_ok F C l" "hamt_ok F C r"
  shows "\<exists>u. unite F l r = Some u \<and> hamt_ok F C u \<and>
    (\<forall>w\<in>C. member_eq F w (set (elems_opt u)) \<longleftrightarrow> member_eq F w (set (elems_opt l)) \<or> member_eq F w (set (elems_opt r)))"
proof (cases l)
  case None
  then show ?thesis using assms(2) by (simp add: unite_def)
next
  case (Some a)
  show ?thesis
  proof (cases r)
    case None
    then show ?thesis using assms(1) Some by (cases a) (simp_all add: unite_def)
  next
    case r: (Some b)
    have "united 0 (\<lambda>_. 0) (Some a) (Some b)" using hamt_merge_spec[of 0 "\<lambda>_. 0" a b] assms Some r by (simp add: hamt_ok_def)
    then show ?thesis unfolding united_def unite_def Some r hamt_ok_def elems_opt_simps by (auto split: option.split)
  qed
qed

end

section \<open>Sets of predicates\<close>

text \<open>\<open>PredicateSet\<close> of the control-flow tracker: predicates under \<open>PredicateHash\<close> and \<open>PredicateEquals\<close>.  The
  laws hold on predicates without floating constants.\<close>

definition predicate_fns :: "hash_env \<Rightarrow> (predicate hamt_node \<Rightarrow> predicate hamt_node \<Rightarrow> bool) \<Rightarrow> predicate hash_fns" where
  "predicate_fns H same = (Predicate_hashCode H, Predicate_equals, same)"

definition hashable_preds :: "predicate set" where
  "hashable_preds = {p. \<forall>t\<in>set (ops p). float_free t}"

lemma predicate_fns_simps [simp]:
  "Hash (predicate_fns H same) = Predicate_hashCode H" "Equal (predicate_fns H same) = Predicate_equals"
  by (simp_all add: predicate_fns_def Hash_def Equal_def)

interpretation predicate_sets: hash_equality "predicate_fns H same" hashable_preds for H same
proof (unfold_locales, unfold predicate_fns_simps)
  fix x y z :: predicate
  assume x: "x \<in> hashable_preds"
  then have ff: "\<And>t. t \<in> set (ops x) \<Longrightarrow> float_free t" by (simp add: hashable_preds_def)
  show "Predicate_equals x x"
    using ff by (auto simp: Predicate_equals_def equal_subterms_all2 list_all2_same intro: equals_refl)
  show "Predicate_equals x y \<Longrightarrow> Predicate_equals y x"
    by (auto simp: Predicate_equals_def equal_subterms_all2 list_all2_conv_all_nth intro: equals_sym)
  show "Predicate_equals x y \<Longrightarrow> Predicate_equals y z \<Longrightarrow> Predicate_equals x z"
    using ff unfolding Predicate_equals_def equal_subterms_all2 list_all2_conv_all_nth by (metis equals_trans nth_mem)
  assume "Predicate_equals x y"
  then have e: "pclass_tag (pclass x) = pclass_tag (pclass y)" "ptype x = ptype y" "list_all2 equals (ops x) (ops y)"
    by (simp_all add: Predicate_equals_def equal_subterms_all2)
  then have "map (hashCode H) (ops x) = map (hashCode H) (ops y)"
    using ff by (auto simp: list_all2_conv_all_nth intro!: nth_equalityI equals_hashCode)
  then show "Predicate_hashCode H x = Predicate_hashCode H y" using e by (simp add: Predicate_hashCode_def)
qed

text \<open>C16: The persistent sets implement sets up to equality: on well-formed tries no read of a digit is undefined,
  an inserted predicate is found and the others are found as before, an erased one is not found any more,
  the union finds what either set finds, and all results are well formed again, whatever nodes are shared.\<close>

theorem hamt_refines_sets:
  assumes "hamt_ok (predicate_fns H same) hashable_preds l" "hamt_ok (predicate_fns H same) hashable_preds r"
    and "p \<in> hashable_preds" "q \<in> hashable_preds" "F = predicate_fns H same"
  shows "(\<exists>s. hamt_insert_opt F l p = Some s \<and> hamt_ok F hashable_preds (Some s) \<and>
        hamt_count F (Some s) q = Some (Predicate_equals p q \<or> hamt_count F l q = Some True)) \<and>
    (\<exists>s. hamt_erase_opt F l p = Some s \<and> hamt_ok F hashable_preds s \<and>
        hamt_count F s q = Some (\<not> Predicate_equals p q \<and> hamt_count F l q = Some True)) \<and>
    (\<exists>s. unite F l r = Some s \<and> hamt_ok F hashable_preds s \<and>
        hamt_count F s q = Some (hamt_count F l q = Some True \<or> hamt_count F r q = Some True))"
  using predicate_sets.set_operations[OF assms(1,3)] predicate_sets.set_union[OF assms(1,2)] assms
  by (auto simp: predicate_sets.find_node_spec[OF _ assms(4)])

definition sample_mark :: "string \<Rightarrow> predicate" where
  "sample_mark s = getMarkPredicate (getOpaqueConstantTerm_string s) unknown_Locus"

theorem hamt_refines_sets_witness:
  "\<exists>H same s u. hamt_insert_opt (predicate_fns H same) None (sample_mark ''a'') = Some s \<and>
     unite (predicate_fns H same) (Some s) (Some s) = Some u \<and>
     hamt_count (predicate_fns H same) u (sample_mark ''a'') = Some True \<and>
     hamt_count (predicate_fns H same) u (sample_mark ''b'') = Some False"
proof -
  let ?H = "\<lparr>h_tag = of_nat, h_name = (\<lambda>s. of_nat (length s)), h_string = (\<lambda>s. 0), h_int = of_nat, h_double = id\<rparr>"
  let ?F = "predicate_fns ?H (\<lambda>_ _. False)"
  have m: "sample_mark s \<in> hashable_preds" for s
    by (simp add: hashable_preds_def sample_mark_def pred_get_defs pred_mk_defs get_defs mk_defs float_class_def)
  have e: "Predicate_equals (sample_mark s) (sample_mark t) \<longleftrightarrow> s = t" for s t
    by (auto simp: sample_mark_def Predicate_equals_def pred_get_defs pred_mk_defs get_defs mk_defs class_tag_def extra_of_def)
  obtain s where s: "hamt_insert_opt ?F None (sample_mark ''a'') = Some s" "hamt_ok ?F hashable_preds (Some s)"
      "hamt_count ?F (Some s) (sample_mark ''a'') = Some True"
    using hamt_refines_sets[OF _ _ m m refl, of ?H "\<lambda>_ _. False" None None "''a''" "''a''"] e by (auto simp: hamt_ok_def)
  have b: "hamt_count ?F (Some s) (sample_mark ''b'') = Some False"
    using hamt_refines_sets[OF _ _ m m refl, of ?H "\<lambda>_ _. False" None None "''a''" "''b''"] e s(1)
    by (auto simp: hamt_ok_def hamt_count_def find_node_def)
  obtain u where u: "unite ?F (Some s) (Some s) = Some u" using hamt_refines_sets[OF s(2,2) m m refl, of "''a''" "''a''"] by blast
  have "hamt_count ?F u (sample_mark ''a'') = Some True" "hamt_count ?F u (sample_mark ''b'') = Some False"
    using hamt_refines_sets[OF s(2,2) m m refl, of "''a''" "''a''"] hamt_refines_sets[OF s(2,2) m m refl, of "''a''" "''b''"] u s(3) b
    by auto
  then show ?thesis using s(1) u by blast
qed

text \<open>A set from which an element was erased need not have the shape of the set built without it, although the
  comparison of two sets walks their shapes: with 0 and 1, whose mixed hashes share two digits, the
  branches that told them apart stay.\<close>

lemma erase_keeps_branches:
  "let F = (of_nat, (=), \<lambda>_ _. False) :: nat hash_fns in
   hamt_insert_opt F None 0 = Some (Leaf [0]) \<and>
   hamt_insert_opt F (Some (Leaf [0])) 1 \<bind> (\<lambda>s. hamt_erase_opt F (Some s) 1) = Some (Some (Branch (2 ^ 25) [Branch (2 ^ 18) [Leaf [0]]]))"
  by code_simp

end
