(* ===== verification/SegmentTree.thy ===== *)
theory SegmentTree
  imports Prelude
begin

text \<open>
  The memory of the executor (src/Executor/MemorySimulator/SegmentTreeImpl.h, SegmentTreeImpl.cpp): a binary
  tree over an interval of 64-bit addresses, built on demand, whose nodes say which segment is allocated and
  whether a whole interval is filled with one byte, and whose leaves hold chunks of bytes.  The template
  \<open>traverse\<close> walks down to an address under the control of a traverser; a traverser is here a record of its
  handlers over its own fields, and an answer of \<open>handlePath\<close> says what the C++ method does with the tree:
  go on, stop, or go into both halves.

  An exception is the left summand of a result; the tree it leaves behind is not modelled.  A byte of a
  fresh chunk is indeterminate (\<open>None\<close>), and the pointer into a chunk is the bytes from it on.
\<close>

type_synonym addr = "64 word"
type_synonym byte = "8 word"

datatype MemoryStatus = Unallocated | Malloc | Alloca
datatype MemoryState = Memset | Uninit | UnknownState

datatype SegmentNode = SegmentNode
  (status: MemoryStatus) (mstate: MemoryState) (memSetTo: byte) (chunk: "byte option list option")
  (left_child: "SegmentNode option") (right_child: "SegmentNode option") (reallyAllocated: addr)

definition new_SegmentNode :: SegmentNode where
  "new_SegmentNode = SegmentNode Unallocated UnknownState 255 None None None 0"

definition force :: "SegmentNode option \<Rightarrow> SegmentNode" where
  "force t = (case t of None \<Rightarrow> new_SegmentNode | Some n \<Rightarrow> n)"

fun with_state :: "MemoryState \<Rightarrow> SegmentNode \<Rightarrow> SegmentNode" where
  "with_state s (SegmentNode st _ f c l r a) = SegmentNode st s f c l r a"

fun with_fill :: "byte \<Rightarrow> SegmentNode \<Rightarrow> SegmentNode" where
  "with_fill f (SegmentNode st s _ c l r a) = SegmentNode st s f c l r a"

fun with_chunk :: "byte option list option \<Rightarrow> SegmentNode \<Rightarrow> SegmentNode" where
  "with_chunk c (SegmentNode st s f _ l r a) = SegmentNode st s f c l r a"

fun with_left :: "SegmentNode option \<Rightarrow> SegmentNode \<Rightarrow> SegmentNode" where
  "with_left l (SegmentNode st s f c _ r a) = SegmentNode st s f c l r a"

fun with_right :: "SegmentNode option \<Rightarrow> SegmentNode \<Rightarrow> SegmentNode" where
  "with_right r (SegmentNode st s f c l _ a) = SegmentNode st s f c l r a"

fun with_allocation :: "MemoryStatus \<Rightarrow> addr \<Rightarrow> SegmentNode \<Rightarrow> SegmentNode" where
  "with_allocation st a (SegmentNode _ s f c l r _) = SegmentNode st s f c l r a"

text \<open>What goes wrong: the exceptions of the program, failed assertions, unbounded recursion, reads and writes
  outside a buffer, and loops that do not end.\<close>

datatype mem_error = IllegalFree addr | IllegalLoad addr | IllegalStore addr | Inconsistency | OutOfMemory addr
  | Unsupported addr | AssertionFailed | StackOverflow | OutOfBuffer | Diverges

fun bindE :: "mem_error + 'a \<Rightarrow> ('a \<Rightarrow> mem_error + 'b) \<Rightarrow> mem_error + 'b" where
  "bindE (Inl e) f = Inl e"
| "bindE (Inr x) f = f x"

lemma bindE_Inr: "bindE m f = Inr y \<longleftrightarrow> (\<exists>x. m = Inr x \<and> f x = Inr y)"
  by (cases m) auto

lemma bindE_cong [fundef_cong]: "m = m' \<Longrightarrow> (\<And>x. m' = Inr x \<Longrightarrow> f x = g x) \<Longrightarrow> bindE m f = bindE m' g"
  by (cases m') auto

definition assertE :: "bool \<Rightarrow> mem_error + unit" where
  "assertE b = (if b then Inr () else Inl AssertionFailed)"

lemma assertE_Inr [simp]: "assertE b = Inr u \<longleftrightarrow> b"
  by (simp add: assertE_def)

section \<open>Traversal\<close>

definition middle :: "addr \<Rightarrow> addr \<Rightarrow> addr" where
  "middle from to = from + (to - from) div 2"

text \<open>\<open>Done\<close> holds the node that replaces the visited one, a null pointer after a reset; \<open>Split\<close> the
  traversers for the left half, at the address itself, and for the right half, at the middle.\<close>

datatype 't path_action = GoOn | Done "SegmentNode option" | Split SegmentNode 't 't

record 't traverser =
  handleEmptyNode :: "addr \<Rightarrow> mem_error option"
  handleChunk :: "'t \<Rightarrow> addr \<Rightarrow> addr \<Rightarrow> SegmentNode \<Rightarrow> addr \<Rightarrow> mem_error + 't \<times> SegmentNode option"
  handlePath :: "'t \<Rightarrow> addr \<Rightarrow> addr \<Rightarrow> SegmentNode \<Rightarrow> addr \<Rightarrow> mem_error + 't \<times> 't path_action"
  handleGo :: "SegmentNode \<Rightarrow> SegmentNode"

lemma middle_unat:
  assumes "minb < maxb"
  shows "unat (middle minb maxb) = unat minb + (unat maxb - unat minb) div 2"
proof -
  have d: "unat ((maxb - minb) div 2) = (unat maxb - unat minb) div 2"
    using assms by (simp add: unat_div unat_sub order_less_imp_le)
  have "unat minb + (unat maxb - unat minb) div 2 < 2 ^ 64" using assms unsigned_less[of maxb, where ?'a = nat]
    by (simp add: word_less_nat_alt)
  then show ?thesis unfolding middle_def by (simp add: unat_word_ariths(1) d)
qed

lemma half_sizes:
  assumes "minb < maxb"
  shows "unat (middle minb maxb - minb) < unat (maxb - minb) "
    and "middle minb maxb \<noteq> minb \<Longrightarrow> unat (maxb - middle minb maxb) < unat (maxb - minb)"
  using assms middle_unat[OF assms]
  by (auto simp: unat_sub word_le_nat_alt word_less_nat_alt word_unat_eq_iff)

function (sequential) traverse ::
  "'t traverser \<Rightarrow> addr \<Rightarrow> 't \<Rightarrow> addr \<Rightarrow> SegmentNode option \<Rightarrow> addr \<Rightarrow> addr \<Rightarrow> mem_error + 't \<times> SegmentNode option" where
  "traverse H chunk_size tr ptr t minbound maxbound =
     (if \<not> (minbound < maxbound \<and> minbound \<le> ptr \<and> ptr < maxbound) then Inl AssertionFailed
      else case (if t = None then handleEmptyNode H ptr else None) of
        Some e \<Rightarrow> Inl e
      | None \<Rightarrow>
        (let available = maxbound - minbound; mid = middle minbound maxbound; n = force t in
         if available \<le> chunk_size then handleChunk H tr minbound maxbound n ptr
         else bindE (handlePath H tr minbound maxbound n ptr) (\<lambda>(tr1, action). case action of
             Done n1 \<Rightarrow> Inr (tr1, n1)
           | Split n1 ltr rtr \<Rightarrow>
               bindE (traverse H chunk_size ltr ptr (left_child n1) minbound mid) (\<lambda>(_, l).
               if mid = minbound then Inl StackOverflow
               else bindE (traverse H chunk_size rtr mid (right_child n1) mid maxbound) (\<lambda>(_, r).
                 Inr (tr1, Some (with_right r (with_left l n1)))))
           | GoOn \<Rightarrow> (let n1 = handleGo H n in
               if ptr < mid then
                 bindE (traverse H chunk_size tr1 ptr (left_child n1) minbound mid) (\<lambda>(tr2, l).
                   Inr (tr2, Some (with_left l n1)))
               else if mid = minbound then Inl StackOverflow
               else bindE (traverse H chunk_size tr1 ptr (right_child n1) mid maxbound) (\<lambda>(tr2, r).
                   Inr (tr2, Some (with_right r n1)))))))"
  by pat_completeness auto
termination
  by (relation "measure (\<lambda>(_, _, _, _, _, minb, maxb). unat (maxb - minb))") (auto simp: half_sizes)

declare traverse.simps [simp del]

text \<open>\<open>stateInvalidatingTraverser\<close>: a missing child takes over the state of its parent.\<close>

definition derive_child :: "SegmentNode \<Rightarrow> SegmentNode option \<Rightarrow> SegmentNode option" where
  "derive_child t c = (case c of
      None \<Rightarrow> Some (with_fill (memSetTo t) (with_state (mstate t) new_SegmentNode))
    | Some n \<Rightarrow> Some n)"

definition forceChildrenAndDeriveState :: "SegmentNode \<Rightarrow> SegmentNode" where
  "forceChildrenAndDeriveState t =
     with_state UnknownState (with_right (derive_child t (right_child t)) (with_left (derive_child t (left_child t)) t))"

section \<open>The traversers\<close>

subsection \<open>Allocation\<close>

record allocTraverser =
  alloc_state :: MemoryState
  alloc_status :: MemoryStatus
  alloc_size :: addr

definition mark_allocated :: "allocTraverser \<Rightarrow> SegmentNode \<Rightarrow> SegmentNode" where
  "mark_allocated tr t = with_allocation (alloc_status tr) (alloc_size tr)
     (with_state (alloc_state tr) (if alloc_state tr = Memset then with_fill 0 t else t))"

definition alloc_handlers :: "addr \<Rightarrow> allocTraverser traverser" where
  "alloc_handlers cs = \<lparr>
     handleEmptyNode = (\<lambda>_. None),
     handleChunk = (\<lambda>tr minbound maxbound t _.
       bindE (assertE (alloc_size tr \<le> maxbound - minbound)) (\<lambda>_.
       bindE (assertE (alloc_size tr \<le> cs)) (\<lambda>_. Inr (tr, Some (mark_allocated tr t))))),
     handlePath = (\<lambda>tr minbound maxbound t ptr.
       let available = maxbound - minbound in
       bindE (assertE (alloc_size tr \<le> available)) (\<lambda>_.
         if minbound = ptr \<and> available div 2 < alloc_size tr \<and> alloc_size tr \<le> available
         then Inr (tr, Done (Some (mark_allocated tr t))) else Inr (tr, GoOn))),
     handleGo = forceChildrenAndDeriveState\<rparr>"

subsection \<open>Stores\<close>

text \<open>The buffer \<open>data\<close> is the \<open>size\<close> bytes from the pointer on; its halves are the buffers of the two
  halves of the store.\<close>

record storeTraverser =
  store_data :: "byte list"
  didAlloc :: bool

definition store_size :: "storeTraverser \<Rightarrow> addr" where
  "store_size tr = of_nat (length (store_data tr))"

definition half_store :: "storeTraverser \<Rightarrow> nat \<Rightarrow> storeTraverser" where
  "half_store tr k = tr\<lparr>store_data := take k (store_data tr)\<rparr>"

definition rest_store :: "storeTraverser \<Rightarrow> nat \<Rightarrow> storeTraverser" where
  "rest_store tr k = tr\<lparr>store_data := drop k (store_data tr)\<rparr>"

definition checkAllocation :: "storeTraverser \<Rightarrow> SegmentNode \<Rightarrow> addr \<Rightarrow> addr \<Rightarrow> mem_error + storeTraverser" where
  "checkAllocation tr t minbound ptr =
     (if status t \<noteq> Unallocated then
        if didAlloc tr then Inl Inconsistency
        else if ptr + store_size tr > minbound + reallyAllocated t then Inl (IllegalStore ptr)
        else Inr (tr\<lparr>didAlloc := True\<rparr>)
      else Inr tr)"

definition put_bytes :: "addr \<Rightarrow> byte option list \<Rightarrow> byte option list \<Rightarrow> mem_error + byte option list" where
  "put_bytes offset data buf =
     (if unat offset + length data \<le> length buf
      then Inr (take (unat offset) buf @ data @ drop (unat offset + length data) buf) else Inl OutOfBuffer)"

definition allocateChunk :: "addr \<Rightarrow> SegmentNode \<Rightarrow> byte option list" where
  "allocateChunk cs t = (case chunk t of None \<Rightarrow> replicate (unat cs) None | Some c \<Rightarrow> c)"

definition store_handlers :: "addr \<Rightarrow> storeTraverser traverser" where
  "store_handlers cs = \<lparr>
     handleEmptyNode = (\<lambda>_. None),
     handleChunk = (\<lambda>tr minbound maxbound t ptr.
       bindE (checkAllocation tr t minbound ptr) (\<lambda>tr1.
       bindE (assertE (store_size tr1 \<le> cs)) (\<lambda>_.
         if \<not> didAlloc tr1 then Inl (IllegalStore ptr)
         else bindE (put_bytes (ptr - minbound) (map Some (store_data tr1)) (allocateChunk cs t)) (\<lambda>c.
           Inr (tr1, Some (with_chunk (Some c) (with_state UnknownState t))))))),
     handlePath = (\<lambda>tr minbound maxbound t ptr.
       let mid = middle minbound maxbound in
       bindE (checkAllocation tr t minbound ptr) (\<lambda>tr1.
         if ptr < mid \<and> mid < ptr + store_size tr1 then
           let leftChunkSize = unat (mid - ptr) in
           Inr (tr1, Split (forceChildrenAndDeriveState t) (half_store tr1 leftChunkSize) (rest_store tr1 leftChunkSize))
         else Inr (tr1, GoOn))),
     handleGo = forceChildrenAndDeriveState\<rparr>"

subsection \<open>Loads\<close>

text \<open>\<open>ptr\<close> is the bytes of the chunk from the address on, \<open>None\<close> for a null chunk.\<close>

record loadTraverser =
  load_ptr :: "byte option list option"
  dataSize :: addr
  load_state :: MemoryState
  filledWith :: byte

definition new_loadTraverser :: loadTraverser where
  "new_loadTraverser = \<lparr>load_ptr = None, dataSize = 0, load_state = UnknownState, filledWith = 0xFF\<rparr>"

definition load_handlers :: "loadTraverser traverser" where
  "load_handlers = \<lparr>
     handleEmptyNode = (\<lambda>ptr. Some (IllegalLoad ptr)),
     handleChunk = (\<lambda>tr minbound maxbound t ptr.
       let tr1 = (if mstate t \<noteq> UnknownState then tr\<lparr>load_state := mstate t, filledWith := memSetTo t\<rparr>
                  else tr\<lparr>load_ptr := map_option (drop (unat (ptr - minbound))) (chunk t)\<rparr>)
       in Inr (tr1\<lparr>dataSize := maxbound - ptr\<rparr>, Some t)),
     handlePath = (\<lambda>tr minbound maxbound t ptr.
       if mstate t \<noteq> UnknownState
       then Inr (tr\<lparr>load_state := mstate t, filledWith := memSetTo t, dataSize := maxbound - ptr\<rparr>, Done (Some t))
       else Inr (tr, GoOn)),
     handleGo = id\<rparr>"

subsection \<open>Release\<close>

definition free_handlers :: "MemoryStatus traverser" where
  "free_handlers = \<lparr>
     handleEmptyNode = (\<lambda>ptr. Some (IllegalFree ptr)),
     handleChunk = (\<lambda>desiredStatus minbound maxbound t ptr.
       Inr (desiredStatus, if minbound = ptr \<and> status t = desiredStatus then None else Some t)),
     handlePath = (\<lambda>desiredStatus minbound maxbound t ptr.
       Inr (desiredStatus, if minbound = ptr \<and> status t = desiredStatus then Done None else GoOn)),
     handleGo = id\<rparr>"

subsection \<open>Filling\<close>

record memsetTraverser =
  fill_dest :: addr
  fill :: byte
  fill_size :: addr

definition memset_handlers :: "addr \<Rightarrow> memsetTraverser traverser" where
  "memset_handlers cs = \<lparr>
     handleEmptyNode = (\<lambda>_. None),
     handleChunk = (\<lambda>tr minbound maxbound t ptr.
       if fill_size tr = cs then Inr (tr, Some (with_chunk None (with_fill (fill tr) (with_state Memset t))))
       else if fill_size tr \<le> cs then
         bindE (assertE (ptr \<ge> minbound)) (\<lambda>_. bindE (assertE (ptr + fill_size tr < maxbound)) (\<lambda>_.
         bindE (put_bytes (ptr - minbound) (replicate (unat (fill_size tr)) (Some (fill tr))) (allocateChunk cs t)) (\<lambda>c.
           Inr (tr, Some (with_chunk (Some c) (with_state UnknownState t))))))
       else Inr (tr, Some t)),
     handlePath = (\<lambda>tr minbound maxbound t ptr.
       let mid = middle minbound maxbound in
       if mstate t \<noteq> UnknownState \<and> minbound \<le> fill_dest tr \<and> maxbound \<ge> fill_dest tr + fill_size tr
       then Inr (tr, Done (Some (with_fill (fill tr) (with_state Memset t))))
       else if ptr < mid \<and> mid < ptr + fill_size tr then
         let leftChunkSize = mid - ptr in
         Inr (tr, Split (forceChildrenAndDeriveState t)
           (tr\<lparr>fill_size := leftChunkSize\<rparr>)
           (tr\<lparr>fill_dest := fill_dest tr + leftChunkSize, fill_size := fill_size tr - leftChunkSize\<rparr>))
       else Inr (tr, GoOn)),
     handleGo = forceChildrenAndDeriveState\<rparr>"

section \<open>The tree\<close>

record SegmentTree =
  tree_start :: addr
  tree_end :: addr
  chunk_size :: addr
  root :: "SegmentNode option"

definition traverse_tree :: "'t traverser \<Rightarrow> 't \<Rightarrow> addr \<Rightarrow> SegmentTree \<Rightarrow> mem_error + 't \<times> SegmentTree" where
  "traverse_tree H tr ptr T =
     bindE (traverse H (chunk_size T) tr ptr (root T) (tree_start T) (tree_end T)) (\<lambda>(tr1, r). Inr (tr1, T\<lparr>root := r\<rparr>))"

definition tree_allocate :: "addr \<Rightarrow> addr \<Rightarrow> MemoryState \<Rightarrow> MemoryStatus \<Rightarrow> SegmentTree \<Rightarrow> mem_error + SegmentTree" where
  "tree_allocate ptr amount st sta T =
     (if amount > tree_end T - tree_start T then Inl (OutOfMemory amount)
      else bindE (traverse_tree (alloc_handlers (chunk_size T)) \<lparr>alloc_state = st, alloc_status = sta, alloc_size = amount\<rparr> ptr T)
        (\<lambda>(_, T1). Inr T1))"

definition tree_store :: "addr \<Rightarrow> byte list \<Rightarrow> SegmentTree \<Rightarrow> mem_error + SegmentTree" where
  "tree_store ptr data T =
     bindE (traverse_tree (store_handlers (chunk_size T)) \<lparr>store_data = data, didAlloc = False\<rparr> ptr T) (\<lambda>(_, T1). Inr T1)"

text \<open>A load forces no node, as an empty one is an error, and leaves the tree as it is.\<close>

definition tree_get :: "addr \<Rightarrow> SegmentTree \<Rightarrow> mem_error + loadTraverser" where
  "tree_get ptr T = bindE (traverse_tree load_handlers new_loadTraverser ptr T) (\<lambda>(tr, _). Inr tr)"

definition tree_free :: "addr \<Rightarrow> MemoryStatus \<Rightarrow> SegmentTree \<Rightarrow> mem_error + SegmentTree" where
  "tree_free ptr desiredStatus T =
     (if ptr < tree_start T \<or> tree_end T \<le> ptr then Inl (IllegalFree ptr)
      else bindE (traverse_tree free_handlers desiredStatus ptr T) (\<lambda>(_, T1). Inr T1))"

definition tree_memset :: "addr \<Rightarrow> byte \<Rightarrow> addr \<Rightarrow> SegmentTree \<Rightarrow> mem_error + SegmentTree" where
  "tree_memset ptr b amount T =
     (if ptr < tree_start T \<or> tree_end T \<le> ptr then Inl (IllegalStore ptr)
      else bindE (traverse_tree (memset_handlers (chunk_size T)) \<lparr>fill_dest = ptr, fill = b, fill_size = amount\<rparr> ptr T)
        (\<lambda>(_, T1). Inr T1))"
section \<open>Fields of a changed node\<close>

lemma with_simps [simp]:
  "mstate (with_state s n) = s" "memSetTo (with_state s n) = memSetTo n" "chunk (with_state s n) = chunk n"
  "left_child (with_state s n) = left_child n" "right_child (with_state s n) = right_child n"
  "status (with_state s n) = status n" "reallyAllocated (with_state s n) = reallyAllocated n"
  "mstate (with_fill f n) = mstate n" "memSetTo (with_fill f n) = f" "chunk (with_fill f n) = chunk n"
  "left_child (with_fill f n) = left_child n" "right_child (with_fill f n) = right_child n"
  "status (with_fill f n) = status n" "reallyAllocated (with_fill f n) = reallyAllocated n"
  "mstate (with_chunk c n) = mstate n" "memSetTo (with_chunk c n) = memSetTo n" "chunk (with_chunk c n) = c"
  "left_child (with_chunk c n) = left_child n" "right_child (with_chunk c n) = right_child n"
  "status (with_chunk c n) = status n" "reallyAllocated (with_chunk c n) = reallyAllocated n"
  "mstate (with_left l n) = mstate n" "memSetTo (with_left l n) = memSetTo n" "chunk (with_left l n) = chunk n"
  "left_child (with_left l n) = l" "right_child (with_left l n) = right_child n"
  "status (with_left l n) = status n" "reallyAllocated (with_left l n) = reallyAllocated n"
  "mstate (with_right r n) = mstate n" "memSetTo (with_right r n) = memSetTo n" "chunk (with_right r n) = chunk n"
  "left_child (with_right r n) = left_child n" "right_child (with_right r n) = r"
  "status (with_right r n) = status n" "reallyAllocated (with_right r n) = reallyAllocated n"
  "mstate (with_allocation st a n) = mstate n" "memSetTo (with_allocation st a n) = memSetTo n"
  "chunk (with_allocation st a n) = chunk n" "left_child (with_allocation st a n) = left_child n"
  "right_child (with_allocation st a n) = right_child n" "status (with_allocation st a n) = st"
  "reallyAllocated (with_allocation st a n) = a"
  by (cases n; simp)+

abbreviation derived :: "SegmentNode option \<Rightarrow> SegmentNode" where
  "derived t \<equiv> forceChildrenAndDeriveState (force t)"

lemma derived_simps [simp]:
  "mstate (derived t) = UnknownState" "status (derived t) = status (force t)" "reallyAllocated (derived t) = reallyAllocated (force t)"
  "left_child (derived t) = derive_child (force t) (left_child (force t))"
  "right_child (derived t) = derive_child (force t) (right_child (force t))"
  by (simp_all add: forceChildrenAndDeriveState_def derive_child_def split: option.split)

end
