(* ===== verification/SegmentStores.thy ===== *)
theory SegmentStores
  imports SegmentTree
begin

text \<open>
  Stores into the segment tree of the executor (\<open>storeTraverser\<close> of src/Executor/MemorySimulator/SegmentTreeImpl.cpp):
  what a load finds after a store, at the stored addresses and elsewhere; that a store is accepted only on
  allocated addresses, and always inside one segment; and the invariant of trees that stores keep.
\<close>


section \<open>One step of a store\<close>

lemma checkAllocation_data: "checkAllocation tr t minb ptr = Inr tr1 \<Longrightarrow> store_data tr1 = store_data tr \<and> store_size tr1 = store_size tr"
  by (auto simp: checkAllocation_def store_size_def split: if_splits)

lemma store_handlers_simps [simp]:
  "handleEmptyNode (store_handlers cs) p = None" "handleGo (store_handlers cs) = forceChildrenAndDeriveState"
  "handlePath (store_handlers cs) tr minb maxb t ptr = bindE (checkAllocation tr t minb ptr) (\<lambda>tr1.
     if ptr < middle minb maxb \<and> middle minb maxb < ptr + store_size tr1
     then Inr (tr1, Split (forceChildrenAndDeriveState t) (half_store tr1 (unat (middle minb maxb - ptr)))
       (rest_store tr1 (unat (middle minb maxb - ptr))))
     else Inr (tr1, GoOn))"
  "handleChunk (store_handlers cs) tr minb maxb t ptr = bindE (checkAllocation tr t minb ptr) (\<lambda>tr1.
     bindE (assertE (store_size tr1 \<le> cs)) (\<lambda>_. if \<not> didAlloc tr1 then Inl (IllegalStore ptr)
     else bindE (put_bytes (ptr - minb) (map Some (store_data tr1)) (allocateChunk cs t)) (\<lambda>c.
       Inr (tr1, Some (with_chunk (Some c) (with_state UnknownState t))))))"
  unfolding Let_def store_handlers_def by simp_all

lemma store_no_empty [simp]: "(if b then handleEmptyNode (store_handlers cs) p else None) = None"
  by simp

lemma store_unfold:
  "traverse (store_handlers cs) cs tr ptr t minb maxb =
    (if \<not> (minb < maxb \<and> minb \<le> ptr \<and> ptr < maxb) then Inl AssertionFailed
     else bindE (checkAllocation tr (force t) minb ptr) (\<lambda>tr1.
       if maxb - minb \<le> cs then
         bindE (assertE (store_size tr1 \<le> cs)) (\<lambda>_. if \<not> didAlloc tr1 then Inl (IllegalStore ptr)
         else bindE (put_bytes (ptr - minb) (map Some (store_data tr1)) (allocateChunk cs (force t))) (\<lambda>c.
           Inr (tr1, Some (with_chunk (Some c) (with_state UnknownState (force t))))))
       else if ptr < middle minb maxb \<and> middle minb maxb < ptr + store_size tr1 then
         bindE (traverse (store_handlers cs) cs (half_store tr1 (unat (middle minb maxb - ptr))) ptr
             (derive_child (force t) (left_child (force t))) minb (middle minb maxb)) (\<lambda>(_, l).
         if middle minb maxb = minb then Inl StackOverflow
         else bindE (traverse (store_handlers cs) cs (rest_store tr1 (unat (middle minb maxb - ptr))) (middle minb maxb)
             (derive_child (force t) (right_child (force t))) (middle minb maxb) maxb) (\<lambda>(_, r).
           Inr (tr1, Some (with_right r (with_left l (derived t))))))
       else if ptr < middle minb maxb then
         bindE (traverse (store_handlers cs) cs tr1 ptr (derive_child (force t) (left_child (force t))) minb (middle minb maxb))
           (\<lambda>(tr2, l). Inr (tr2, Some (with_left l (derived t))))
       else if middle minb maxb = minb then Inl StackOverflow
       else bindE (traverse (store_handlers cs) cs tr1 ptr (derive_child (force t) (right_child (force t))) (middle minb maxb) maxb)
           (\<lambda>(tr2, r). Inr (tr2, Some (with_right r (derived t))))))"
proof (cases "checkAllocation tr (force t) minb ptr")
  case (Inl e)
  then show ?thesis by (subst traverse.simps) (simp add: Let_def)
next
  case (Inr tr1)
  then show ?thesis by (subst traverse.simps) (simp add: Let_def)
qed

lemma store_step:
  assumes "traverse (store_handlers cs) cs tr ptr t minb maxb = Inr (tr', t')"
  obtains (chunk) tr1 c where "minb < maxb" "minb \<le> ptr" "ptr < maxb" "checkAllocation tr (force t) minb ptr = Inr tr1"
      "maxb - minb \<le> cs" "didAlloc tr1"
      "put_bytes (ptr - minb) (map Some (store_data tr)) (allocateChunk cs (force t)) = Inr c"
      "t' = Some (with_chunk (Some c) (with_state UnknownState (force t)))"
    | (split) tr1 tl l trr r where "minb < maxb" "minb \<le> ptr" "ptr < maxb" "checkAllocation tr (force t) minb ptr = Inr tr1"
      "\<not> maxb - minb \<le> cs" "ptr < middle minb maxb" "middle minb maxb < ptr + store_size tr" "middle minb maxb \<noteq> minb"
      "traverse (store_handlers cs) cs (half_store tr1 (unat (middle minb maxb - ptr))) ptr (derive_child (force t) (left_child (force t))) minb (middle minb maxb) = Inr (tl, l)"
      "traverse (store_handlers cs) cs (rest_store tr1 (unat (middle minb maxb - ptr))) (middle minb maxb) (derive_child (force t) (right_child (force t))) (middle minb maxb) maxb = Inr (trr, r)"
      "t' = Some (with_right r (with_left l (derived t)))"
    | (left) tr1 l where "minb < maxb" "minb \<le> ptr" "ptr < maxb" "checkAllocation tr (force t) minb ptr = Inr tr1"
      "\<not> maxb - minb \<le> cs" "ptr < middle minb maxb" "\<not> middle minb maxb < ptr + store_size tr"
      "traverse (store_handlers cs) cs tr1 ptr (derive_child (force t) (left_child (force t))) minb (middle minb maxb) = Inr (tr', l)"
      "t' = Some (with_left l (derived t))"
    | (right) tr1 r where "minb < maxb" "minb \<le> ptr" "ptr < maxb" "checkAllocation tr (force t) minb ptr = Inr tr1"
      "\<not> maxb - minb \<le> cs" "\<not> ptr < middle minb maxb" "middle minb maxb \<noteq> minb"
      "traverse (store_handlers cs) cs tr1 ptr (derive_child (force t) (right_child (force t))) (middle minb maxb) maxb = Inr (tr', r)"
      "t' = Some (with_right r (derived t))"
proof -
  note run = assms[unfolded store_unfold[of cs tr]]
  have range: "minb < maxb" "minb \<le> ptr" "ptr < maxb" using run by (auto split: if_splits)
  obtain tr1 where c: "checkAllocation tr (force t) minb ptr = Inr tr1"
    using run range by (cases "checkAllocation tr (force t) minb ptr") auto
  note d = checkAllocation_data[OF c] and run = run[unfolded c bindE.simps]
  consider "maxb - minb \<le> cs" | "\<not> maxb - minb \<le> cs" "ptr < middle minb maxb \<and> middle minb maxb < ptr + store_size tr1"
    | "\<not> maxb - minb \<le> cs" "ptr < middle minb maxb" "\<not> middle minb maxb < ptr + store_size tr1"
    | "\<not> maxb - minb \<le> cs" "\<not> ptr < middle minb maxb" by blast
  then show ?thesis
  proof cases
    case 1
    then show ?thesis using run range c d by (auto simp: bindE_Inr split: if_splits intro: chunk)
  next
    case 2
    then show ?thesis using run range c d by (auto simp: bindE_Inr split: if_splits intro: split)
  next
    case 3
    then show ?thesis using run range c d by (auto simp: bindE_Inr split: if_splits intro: left)
  next
    case 4
    then show ?thesis using run range c d by (auto simp: bindE_Inr split: if_splits intro: right)
  qed
qed

section \<open>What a tree holds\<close>

text \<open>The byte read at an address, by a load that succeeds and meets an initialised byte.\<close>

definition loaded_byte :: "mem_error + loadTraverser \<times> SegmentNode option \<Rightarrow> byte option" where
  "loaded_byte res = (case res of Inl _ \<Rightarrow> None | Inr (lt, _) \<Rightarrow> (case load_state lt of
      Memset \<Rightarrow> Some (filledWith lt) | Uninit \<Rightarrow> None
    | UnknownState \<Rightarrow> (case load_ptr lt of Some (b # _) \<Rightarrow> b | _ \<Rightarrow> None)))"

abbreviation node_byte :: "addr \<Rightarrow> addr \<Rightarrow> SegmentNode option \<Rightarrow> addr \<Rightarrow> addr \<Rightarrow> byte option" where
  "node_byte cs p t lo hi \<equiv> loaded_byte (traverse load_handlers cs new_loadTraverser p t lo hi)"

lemma load_handlers_simps [simp]:
  "handleEmptyNode load_handlers p = Some (IllegalLoad p)" "handleGo load_handlers = id"
  by (simp_all add: load_handlers_def)

lemma node_byte_None: "node_byte cs p None lo hi = None"
  by (subst traverse.simps) (simp add: loaded_byte_def)

lemma loaded_byte_bind: "loaded_byte (bindE m (\<lambda>(tr, l). Inr (tr, f l))) = loaded_byte m"
  by (cases m) (auto simp: loaded_byte_def)

lemma node_byte_Some:
  assumes "lo < hi" "lo \<le> p" "p < hi"
  shows "node_byte cs p (Some n) lo hi = (case mstate n of Memset \<Rightarrow> Some (memSetTo n) | Uninit \<Rightarrow> None
    | UnknownState \<Rightarrow> if hi - lo \<le> cs then (case map_option (drop (unat (p - lo))) (chunk n) of Some (b # _) \<Rightarrow> b | _ \<Rightarrow> None)
        else if p < middle lo hi then node_byte cs p (left_child n) lo (middle lo hi)
        else if middle lo hi = lo then None
        else node_byte cs p (right_child n) (middle lo hi) hi)"
  using assms
  apply (subst traverse.simps)
  apply (cases "mstate n")
    apply (simp_all add: force_def load_handlers_def Let_def loaded_byte_bind)
    apply (simp_all add: loaded_byte_def new_loadTraverser_def)
  done

section \<open>Reading back what was stored\<close>

definition chunk_byte :: "byte option list option \<Rightarrow> nat \<Rightarrow> byte option" where
  "chunk_byte c k = (case c of Some bs \<Rightarrow> if k < length bs then bs ! k else None | None \<Rightarrow> None)"

lemma chunk_byte_drop: "(case map_option (drop k) c of Some (b # _) \<Rightarrow> b | _ \<Rightarrow> None) = chunk_byte c k"
proof (cases c)
  case (Some bs)
  then show ?thesis by (cases "k < length bs") (simp_all add: chunk_byte_def Cons_nth_drop_Suc[symmetric])
qed (simp add: chunk_byte_def)

lemmas node_byte_node = node_byte_Some[unfolded chunk_byte_drop]

lemma put_bytes_chunk:
  assumes "put_bytes off d buf = Inr c"
  shows "length c = length buf"
    and "chunk_byte (Some c) k = (if unat off \<le> k \<and> k < unat off + length d then d ! (k - unat off) else chunk_byte (Some buf) k)"
  using assms by (auto simp: put_bytes_def chunk_byte_def nth_append min_def split: if_splits)

text \<open>The children a node hands on hold what the node held, when only a node of an unknown state has children
  or a chunk.\<close>

fun settled :: "SegmentNode option \<Rightarrow> bool" where
  "settled None = True"
| "settled (Some (SegmentNode st s f c l r a)) = ((s \<noteq> UnknownState \<longrightarrow> c = None \<and> l = None \<and> r = None) \<and> settled l \<and> settled r)"

lemma settled_Some: "settled (Some n) \<longleftrightarrow> (mstate n \<noteq> UnknownState \<longrightarrow> chunk n = None \<and> left_child n = None \<and> right_child n = None)
    \<and> settled (left_child n) \<and> settled (right_child n)"
  by (cases n) simp

lemma settled_derive: "settled t \<Longrightarrow> settled (derive_child (force t) (left_child (force t))) \<and> settled (derive_child (force t) (right_child (force t)))"
  by (cases t) (auto simp: force_def derive_child_def settled_Some new_SegmentNode_def split: option.split)

lemma node_byte_fresh:
  assumes "lo < hi" "lo \<le> p" "p < hi"
  shows "node_byte cs p (Some (with_fill f (with_state s new_SegmentNode))) lo hi = (if s = Memset then Some f else None)"
  using assms by (subst node_byte_node) (auto simp: new_SegmentNode_def chunk_byte_def node_byte_None split: MemoryState.split)

lemma middle_bounds:
  assumes "lo < hi" shows "lo \<le> middle lo hi" "middle lo hi < hi"
  using middle_unat[OF assms] assms by (auto simp: word_le_nat_alt word_less_nat_alt)

lemma path_byte:
  assumes "lo < hi" "lo \<le> q" "q < hi" "\<not> hi - lo \<le> cs" "middle lo hi \<noteq> lo" "mstate n = UnknownState"
  shows "node_byte cs q (Some n) lo hi = (if q < middle lo hi then node_byte cs q (left_child n) lo (middle lo hi)
    else node_byte cs q (right_child n) (middle lo hi) hi)"
  using assms by (subst node_byte_node) auto

lemma derived_byte:
  assumes "settled t" "lo < hi" "lo \<le> q" "q < hi" "\<not> hi - lo \<le> cs" "middle lo hi \<noteq> lo"
  shows "(if q < middle lo hi then node_byte cs q (derive_child (force t) (left_child (force t))) lo (middle lo hi)
    else node_byte cs q (derive_child (force t) (right_child (force t))) (middle lo hi) hi) = node_byte cs q t lo hi"
proof -
  have m: "lo < middle lo hi" "middle lo hi < hi" using middle_bounds[OF assms(2)] assms(6) by auto
  show ?thesis
  proof (cases t)
    case None
    then show ?thesis using assms m node_byte_fresh[where f = 255 and s = UnknownState]
      by (simp add: force_def derive_child_def node_byte_None new_SegmentNode_def)
  next
    case (Some n)
    then show ?thesis using assms m
      by (cases "mstate n") (auto simp: settled_Some force_def derive_child_def node_byte_node[of lo hi q cs n] node_byte_fresh node_byte_None
        split: option.split)
  qed
qed

text \<open>The addresses a store touches, as numbers; a store that leaves the interval of a tree is not within it.\<close>

definition within :: "addr \<Rightarrow> storeTraverser \<Rightarrow> addr \<Rightarrow> bool" where
  "within ptr tr hi \<longleftrightarrow> unat ptr + length (store_data tr) \<le> unat hi"

definition touches :: "addr \<Rightarrow> storeTraverser \<Rightarrow> addr \<Rightarrow> bool" where
  "touches ptr tr q \<longleftrightarrow> unat ptr \<le> unat q \<and> unat q < unat ptr + length (store_data tr)"

lemma unat_ptr_size: "within ptr tr hi \<Longrightarrow> unat (ptr + store_size tr) = unat ptr + length (store_data tr)"
  using unsigned_less[of hi, where ?'a = nat] unsigned_less[of ptr, where ?'a = nat]
  by (simp add: within_def store_size_def unat_word_ariths(1) unat_of_nat take_bit_eq_mod)

lemma half_simps [simp]:
  "store_data (half_store tr k) = take k (store_data tr)" "store_data (rest_store tr k) = drop k (store_data tr)"
  "didAlloc (half_store tr k) = didAlloc tr" "didAlloc (rest_store tr k) = didAlloc tr"
  by (simp_all add: half_store_def rest_store_def)

lemma split_store:
  assumes "within ptr tr hi" "ptr < mid" "mid < ptr + store_size tr"
  shows "within ptr (half_store tr (unat (mid - ptr))) mid" "within mid (rest_store tr (unat (mid - ptr))) hi"
    and "touches ptr tr q \<longleftrightarrow> (if q < mid then touches ptr (half_store tr (unat (mid - ptr))) q else touches mid (rest_store tr (unat (mid - ptr))) q)"
    and "unat (mid - ptr) = unat mid - unat ptr"
  using assms unat_ptr_size[OF assms(1)]
  by (auto simp: within_def touches_def unat_sub word_less_nat_alt order_less_imp_le)

lemma checkAllocation_half: "checkAllocation tr t minb ptr = Inr tr1 \<Longrightarrow>
    within ptr tr1 hi = within ptr tr hi \<and> touches ptr tr1 q = touches ptr tr q"
  by (auto simp: within_def touches_def dest: checkAllocation_data)

lemma stored_bytes:
  assumes "traverse (store_handlers cs) cs tr ptr t minb maxb = Inr (tr', t')" "within ptr tr maxb" "touches ptr tr q"
  shows "node_byte cs q t' minb maxb = Some (store_data tr ! (unat q - unat ptr))"
  using assms
proof (induction "unat (maxb - minb)" arbitrary: tr ptr t minb maxb tr' t' rule: less_induct)
  case less
  have q: "ptr \<le> q" "q < maxb" using less.prems(2,3) by (auto simp: within_def touches_def word_le_nat_alt word_less_nat_alt)
  from less.prems(1) show ?case
  proof (cases rule: store_step)
    case (chunk tr1 c)
    have range: "minb < maxb" "minb \<le> q" using chunk q by auto
    have u: "unat (q - minb) = unat q - unat minb" "unat (ptr - minb) = unat ptr - unat minb" "unat minb \<le> unat ptr" "unat minb \<le> unat q"
      using range chunk by (auto simp: unat_sub word_le_nat_alt)
    show ?thesis using less.prems(3) u range q chunk(5) unfolding chunk(8)
      by (subst node_byte_node) (auto simp: put_bytes_chunk(2)[OF chunk(7)] touches_def)
  next
    case (split tr1 tl l trr r)
    note half = checkAllocation_half[OF split(4)] and data = checkAllocation_data[OF split(4)]
    have w: "within ptr tr1 maxb" "middle minb maxb < ptr + store_size tr1" using less.prems(2) half data split(7) by auto
    note s = split_store[OF w(1) split(6) w(2)]
    have t1: "touches ptr tr1 q" using less.prems(3) half by blast
    show ?thesis
    proof (cases "q < middle minb maxb")
      case True
      have "node_byte cs q l minb (middle minb maxb) = Some (take (unat (middle minb maxb - ptr)) (store_data tr1) ! (unat q - unat ptr))"
        using less.hyps[OF _ split(9) s(1)] half_sizes(1)[OF split(1)] t1 s(3) True by simp
      then show ?thesis using True q split(1,2,5,8) s(4) data unfolding split(11)
        by (subst node_byte_node) (auto simp: word_less_nat_alt word_le_nat_alt)
    next
      case False
      have "node_byte cs q r (middle minb maxb) maxb = Some (drop (unat (middle minb maxb - ptr)) (store_data tr1) ! (unat q - unat (middle minb maxb)))"
        using less.hyps[OF _ split(10) s(2)] half_sizes(2)[OF split(1)] split(8) t1 s(3) False by simp
      moreover have "unat (middle minb maxb - ptr) \<le> length (store_data tr1)" "unat ptr \<le> unat (middle minb maxb)"
        using s(2,4) split(6,7) w unat_ptr_size[OF w(1)] by (auto simp: word_less_nat_alt)
      ultimately show ?thesis using False q split(1,2,5,8) s(4) data unfolding split(11)
        by (subst node_byte_node) (auto simp: word_less_nat_alt word_le_nat_alt not_less)
    qed
  next
    case (left tr1 l)
    note half = checkAllocation_half[OF left(4)] and data = checkAllocation_data[OF left(4)]
    have "within ptr tr1 (middle minb maxb)" using left(7) less.prems(2) unat_ptr_size[OF less.prems(2)] data
      by (simp add: within_def word_less_nat_alt)
    moreover have "q < middle minb maxb" using left(7) less.prems(3) unat_ptr_size[OF less.prems(2)]
      by (simp add: touches_def word_less_nat_alt)
    ultimately show ?thesis using less.hyps[OF half_sizes(1)[OF left(1)] left(8)] half less.prems(3) q left(1,2,5) data unfolding left(9)
      by (subst node_byte_node) auto
  next
    case (right tr1 r)
    note half = checkAllocation_half[OF right(4)] and data = checkAllocation_data[OF right(4)]
    show ?thesis using less.hyps[OF half_sizes(2)[OF right(1) right(7)] right(8)] half less.prems(2,3) q right(1,2,5,6,7) data unfolding right(9)
      by (subst node_byte_node) auto
  qed
qed

lemma stored_frame:
  assumes "traverse (store_handlers cs) cs tr ptr t minb maxb = Inr (tr', t')" "within ptr tr maxb" "\<not> touches ptr tr q"
    "settled t" "minb \<le> q" "q < maxb"
  shows "node_byte cs q t' minb maxb = node_byte cs q t minb maxb \<or> node_byte cs q t' minb maxb = None"
  using assms
proof (induction "unat (maxb - minb)" arbitrary: tr ptr t minb maxb tr' t' rule: less_induct)
  case less
  note d = settled_derive[OF less.prems(4)]
  from less.prems(1) show ?case
  proof (cases rule: store_step)
    case (chunk tr1 c)
    have u: "unat (q - minb) = unat q - unat minb" "unat (ptr - minb) = unat ptr - unat minb" "unat minb \<le> unat ptr" "unat minb \<le> unat q"
      using less.prems chunk by (auto simp: unat_sub word_le_nat_alt)
    have new: "node_byte cs q t' minb maxb = chunk_byte (Some (allocateChunk cs (force t))) (unat (q - minb))"
      using less.prems u chunk(1,5) unfolding chunk(8)
      by (subst node_byte_node) (auto simp: put_bytes_chunk(2)[OF chunk(7)] touches_def)
    show ?thesis
    proof (cases t)
      case None
      then show ?thesis using new by (auto simp: force_def allocateChunk_def new_SegmentNode_def chunk_byte_def)
    next
      case (Some n)
      then show ?thesis using new less.prems chunk(1,5) 
        by (auto simp: node_byte_node[of minb maxb q cs n] settled_Some force_def allocateChunk_def chunk_byte_def split: option.splits MemoryState.splits)
    qed
  next
    case (split tr1 tl l trr r)
    note half = checkAllocation_half[OF split(4)] and data = checkAllocation_data[OF split(4)]
    have w: "within ptr tr1 maxb" "middle minb maxb < ptr + store_size tr1" using less.prems(2) half data split(7) by auto
    note s = split_store[OF w(1) split(6) w(2)] and o = derived_byte[OF less.prems(4) split(1) less.prems(5,6) split(5,8)]
    have t1: "\<not> touches ptr tr1 q" using less.prems(3) half by blast
    show ?thesis
    proof (cases "q < middle minb maxb")
      case True
      then show ?thesis using less.hyps[OF half_sizes(1)[OF split(1)] split(9) s(1)] t1 s(3) d less.prems split(1,5,8) o unfolding split(11)
        by (auto simp: path_byte)
    next
      case False
      then show ?thesis using less.hyps[OF half_sizes(2)[OF split(1,8)] split(10) s(2)] t1 s(3) d less.prems split(1,5,8) o unfolding split(11)
        by (auto simp: path_byte)
    qed
  next
    case (left tr1 l)
    note half = checkAllocation_half[OF left(4)] and data = checkAllocation_data[OF left(4)]
    have m: "middle minb maxb \<noteq> minb" using left by auto
    note o = derived_byte[OF less.prems(4) left(1) less.prems(5,6) left(5) m]
    have "within ptr tr1 (middle minb maxb)" using left(7) less.prems(2) unat_ptr_size[OF less.prems(2)] data
      by (simp add: within_def word_less_nat_alt)
    then show ?thesis using less.hyps[OF half_sizes(1)[OF left(1)] left(8)] half less.prems d o left(1,5) m unfolding left(9)
      by (auto simp: path_byte split: if_splits)
  next
    case (right tr1 r)
    note half = checkAllocation_half[OF right(4)]
    note o = derived_byte[OF less.prems(4) right(1) less.prems(5,6) right(5,7)]
    show ?thesis using less.hyps[OF half_sizes(2)[OF right(1,7)] right(8)] half less.prems d o right(1,5,7) unfolding right(9)
      by (auto simp: path_byte split: if_splits)
  qed
qed

section \<open>Allocated segments\<close>

text \<open>The allocated nodes with the interval of the node and the amount that was asked for.\<close>

fun segments :: "addr \<Rightarrow> addr \<Rightarrow> SegmentNode option \<Rightarrow> (addr \<times> addr \<times> addr) set" where
  "segments lo hi None = {}"
| "segments lo hi (Some (SegmentNode st s f c l r a)) = (if st = Unallocated then {} else {(lo, hi, a)})
     \<union> segments lo (middle lo hi) l \<union> segments (middle lo hi) hi r"

lemma segments_Some: "segments lo hi (Some n) = (if status n = Unallocated then {} else {(lo, hi, reallyAllocated n)})
    \<union> segments lo (middle lo hi) (left_child n) \<union> segments (middle lo hi) hi (right_child n)"
  by (cases n) simp

lemma segments_fresh [simp]: "segments lo hi (Some (with_fill f (with_state s new_SegmentNode))) = {}" "segments lo hi (Some new_SegmentNode) = {}"
  by (simp_all add: new_SegmentNode_def)

lemma segments_derive: "segments lo hi (derive_child n c) = segments lo hi c"
  by (cases c) (simp_all add: derive_child_def)

lemma segments_force: "segments lo hi (Some (force t)) = segments lo hi t"
  by (cases t) (simp_all add: force_def)

lemmas segments_forced = segments_force[of _ _ t for t, unfolded segments_Some, symmetric]

definition covered :: "(addr \<times> addr \<times> addr) set \<Rightarrow> addr \<Rightarrow> bool" where
  "covered S q \<longleftrightarrow> (\<exists>(s, e, a) \<in> S. s \<le> q \<and> q < s + a)"

lemma covered_mono: "covered S q \<Longrightarrow> S \<subseteq> S' \<Longrightarrow> covered S' q"
  by (auto simp: covered_def)

lemma store_in_segments:
  assumes "traverse (store_handlers cs) cs tr ptr t minb maxb = Inr (tr', t')" "within ptr tr maxb" "touches ptr tr q" "\<not> didAlloc tr"
  shows "covered (segments minb maxb t) q"
  using assms
proof (induction "unat (maxb - minb)" arbitrary: tr ptr t minb maxb tr' t' rule: less_induct)
  case less
  have here: "covered (segments minb maxb t) q"
    if c: "checkAllocation tr (force t) minb ptr = Inr tr1" "minb \<le> ptr" "didAlloc tr1 \<or> status (force t) \<noteq> Unallocated" for tr1
  proof -
    have "status (force t) \<noteq> Unallocated" using c(1,3) less.prems(4) by (auto simp: checkAllocation_def split: if_splits)
    moreover have "ptr + store_size tr \<le> minb + reallyAllocated (force t)" using calculation c(1)
      by (auto simp: checkAllocation_def not_less split: if_splits)
    moreover have "q < ptr + store_size tr" "ptr \<le> q" using less.prems(2,3) unat_ptr_size[OF less.prems(2)]
      by (auto simp: touches_def word_less_nat_alt word_le_nat_alt)
    ultimately show ?thesis using c(2) by (auto simp: covered_def segments_forced[where t = t] intro: order.strict_trans2)
  qed
  have below: "covered (segments minb maxb t) q"
    if "covered (segments minb (middle minb maxb) (derive_child (force t) (left_child (force t)))) q
      \<or> covered (segments (middle minb maxb) maxb (derive_child (force t) (right_child (force t)))) q"
    using that by (auto simp: segments_derive segments_forced[where t = t] elim: covered_mono)
  from less.prems(1) show ?case
  proof (cases rule: store_step)
    case (chunk tr1 c)
    then show ?thesis using here by blast
  next
    case (split tr1 tl l trr r)
    note half = checkAllocation_half[OF split(4)] and data = checkAllocation_data[OF split(4)]
    have w: "within ptr tr1 maxb" "middle minb maxb < ptr + store_size tr1" using less.prems(2) half data split(7) by auto
    note s = split_store[OF w(1) split(6) w(2)]
    have t1: "touches ptr tr1 q" using less.prems(3) half by blast
    show ?thesis
    proof (cases "didAlloc tr1")
      case True
      then show ?thesis using here split by blast
    next
      case False
      then show ?thesis
        using less.hyps[OF half_sizes(1)[OF split(1)] split(9) s(1)] less.hyps[OF half_sizes(2)[OF split(1,8)] split(10) s(2)] t1 s(3)
        by (intro below) (auto split: if_splits)
    qed
  next
    case (left tr1 l)
    note half = checkAllocation_half[OF left(4)] and data = checkAllocation_data[OF left(4)]
    have "within ptr tr1 (middle minb maxb)" using left(7) less.prems(2) unat_ptr_size[OF less.prems(2)] data
      by (simp add: within_def word_less_nat_alt)
    then show ?thesis using less.hyps[OF half_sizes(1)[OF left(1)] left(8)] here[OF left(4,2)] below half less.prems(3) by blast
  next
    case (right tr1 r)
    then show ?thesis using less.hyps[OF half_sizes(2)[OF right(1,7)] right(8)] here[OF right(4,2)] below
        checkAllocation_half[OF right(4)] less.prems(2,3) by blast
  qed
qed

text \<open>A tree is well-formed when a chunk has the chunk size, a node filled with one byte or uninitialised as a whole
  has nothing below it, nothing hangs below a chunk, and an allocated node has room for its segment and no other
  allocated node below it.\<close>

fun wf_tree :: "addr \<Rightarrow> addr \<Rightarrow> addr \<Rightarrow> SegmentNode option \<Rightarrow> bool" where
  "wf_tree cs lo hi None = True"
| "wf_tree cs lo hi (Some (SegmentNode st s f c l r a)) =
    ((case c of None \<Rightarrow> True | Some b \<Rightarrow> length b = unat cs)
     \<and> (s \<noteq> UnknownState \<longrightarrow> c = None \<and> l = None \<and> r = None)
     \<and> (hi - lo \<le> cs \<longrightarrow> l = None \<and> r = None)
     \<and> (st \<noteq> Unallocated \<longrightarrow> a \<le> hi - lo \<and> segments lo (middle lo hi) l = {} \<and> segments (middle lo hi) hi r = {})
     \<and> wf_tree cs lo (middle lo hi) l \<and> wf_tree cs (middle lo hi) hi r)"

lemma wf_Some: "wf_tree cs lo hi (Some n) \<longleftrightarrow>
    (case chunk n of None \<Rightarrow> True | Some b \<Rightarrow> length b = unat cs)
    \<and> (mstate n \<noteq> UnknownState \<longrightarrow> chunk n = None \<and> left_child n = None \<and> right_child n = None)
    \<and> (hi - lo \<le> cs \<longrightarrow> left_child n = None \<and> right_child n = None)
    \<and> (status n \<noteq> Unallocated \<longrightarrow> reallyAllocated n \<le> hi - lo \<and> segments lo (middle lo hi) (left_child n) = {}
        \<and> segments (middle lo hi) hi (right_child n) = {})
    \<and> wf_tree cs lo (middle lo hi) (left_child n) \<and> wf_tree cs (middle lo hi) hi (right_child n)"
  by (cases n) simp

lemma wf_settled: "wf_tree cs lo hi t \<Longrightarrow> settled t"
  by (induction cs lo hi t rule: wf_tree.induct) auto

lemma new_node_simps [simp]:
  "mstate new_SegmentNode = UnknownState" "memSetTo new_SegmentNode = 255" "chunk new_SegmentNode = None"
  "left_child new_SegmentNode = None" "right_child new_SegmentNode = None" "status new_SegmentNode = Unallocated"
  by (simp_all add: new_SegmentNode_def)

lemma wf_fresh [simp]: "wf_tree cs lo hi (Some (with_fill f (with_state s new_SegmentNode)))" "wf_tree cs lo hi (Some new_SegmentNode)"
  by (simp_all add: wf_Some)

lemma wf_derive: "wf_tree cs lo hi c \<Longrightarrow> wf_tree cs lo hi (derive_child n c)"
  by (cases c) (simp_all add: derive_child_def)

lemma wf_force: "wf_tree cs lo hi (Some (force t)) = wf_tree cs lo hi t"
  by (cases t) (simp_all add: force_def)

lemmas wf_forced = wf_force[of _ _ _ t for t, unfolded wf_Some, symmetric]

lemma wf_allocateChunk: "wf_tree cs lo hi t \<Longrightarrow> length (allocateChunk cs (force t)) = unat cs"
  by (auto simp: wf_forced[where t = t] allocateChunk_def split: option.splits)

lemma chunk_derived [simp]: "chunk (derived t) = chunk (force t)"
  by (simp add: forceChildrenAndDeriveState_def)

lemma wf_derived_node:
  assumes "wf_tree cs lo hi t" "\<not> hi - lo \<le> cs"
    and "wf_tree cs lo (middle lo hi) l" "segments lo (middle lo hi) l = segments lo (middle lo hi) (left_child (force t))"
    and "wf_tree cs (middle lo hi) hi r" "segments (middle lo hi) hi r = segments (middle lo hi) hi (right_child (force t))"
  shows "wf_tree cs lo hi (Some (with_right r (with_left l (derived t))))
    \<and> segments lo hi (Some (with_right r (with_left l (derived t)))) = segments lo hi t"
  using assms by (auto simp: wf_Some segments_Some wf_forced[where t = t] segments_forced[where t = t] split: option.splits)

lemma with_left_derived:
  "Some (with_left l (derived t)) = Some (with_right (derive_child (force t) (right_child (force t))) (with_left l (derived t)))"
  "Some (with_right r (derived t)) = Some (with_right r (with_left (derive_child (force t) (left_child (force t))) (derived t)))"
  by (cases "force t"; simp add: forceChildrenAndDeriveState_def derive_child_def)+

lemma wf_children:
  assumes "wf_tree cs lo hi t"
  shows "wf_tree cs lo (middle lo hi) (derive_child (force t) (left_child (force t)))"
    and "wf_tree cs (middle lo hi) hi (derive_child (force t) (right_child (force t)))"
  using assms by (auto simp: wf_forced[where t = t] intro: wf_derive)

lemma store_keeps_wf:
  assumes "traverse (store_handlers cs) cs tr ptr t minb maxb = Inr (tr', t')" "wf_tree cs minb maxb t"
  shows "wf_tree cs minb maxb t' \<and> segments minb maxb t' = segments minb maxb t"
  using assms
proof (induction "unat (maxb - minb)" arbitrary: tr ptr t minb maxb tr' t' rule: less_induct)
  case less
  note c = wf_children[OF less.prems(2)]
  from less.prems(1) show ?case
  proof (cases rule: store_step)
    case (chunk tr1 c)
    then show ?thesis using less.prems(2) wf_allocateChunk[OF less.prems(2)] put_bytes_chunk(1)[OF chunk(7)]
      by (auto simp: wf_Some segments_Some wf_forced[where t = t] segments_forced[where t = t])
  next
    case (split tr1 tl l trr r)
    then show ?thesis using less.hyps[OF half_sizes(1)[OF split(1)] split(9) c(1)] less.hyps[OF half_sizes(2)[OF split(1,8)] split(10) c(2)]
        wf_derived_node[OF less.prems(2) split(5)] by (simp add: segments_derive)
  next
    case (left tr1 l)
    show ?thesis using less.hyps[OF half_sizes(1)[OF left(1)] left(8) c(1)] wf_derived_node[OF less.prems(2) left(5)] c(2)
      unfolding trans[OF left(9) with_left_derived(1)] by (simp add: segments_derive)
  next
    case (right tr1 r)
    show ?thesis using less.hyps[OF half_sizes(2)[OF right(1,7)] right(8) c(2)] wf_derived_node[OF less.prems(2) right(5)] c(1)
      unfolding trans[OF right(9) with_left_derived(2)] by (simp add: segments_derive)
  qed
qed

subsection \<open>Stores inside a segment succeed\<close>

lemma middle_proper: "lo < hi \<Longrightarrow> \<not> hi - lo \<le> cs \<Longrightarrow> 0 < cs \<Longrightarrow> middle lo hi \<noteq> lo"
  using middle_unat[of lo hi] by (auto simp: word_less_nat_alt word_le_nat_alt unat_sub)

lemma chunk_room:
  assumes "minb < maxb" "minb \<le> ptr" "maxb - minb \<le> cs" "within ptr tr maxb"
  shows "store_size tr \<le> cs" "unat (ptr - minb) + length (store_data tr) \<le> unat cs"
proof -
  have u: "unat (ptr - minb) = unat ptr - unat minb" "unat (maxb - minb) = unat maxb - unat minb" "unat minb \<le> unat ptr"
    using assms(1,2) unat_sub[OF order_less_imp_le[OF assms(1)]] by (auto simp: unat_sub word_le_nat_alt)
  show r: "unat (ptr - minb) + length (store_data tr) \<le> unat cs"
    using assms u by (simp add: within_def word_le_nat_alt)
  show "store_size tr \<le> cs"
    using r unsigned_less[of cs, where ?'a = nat] by (simp add: store_size_def word_le_nat_alt unat_of_nat take_bit_eq_mod)
qed

text \<open>A store that succeeds on a tree of full chunks ends within the tree: its last piece fits a chunk.\<close>

lemma store_within:
  assumes "traverse (store_handlers cs) cs tr ptr t minb maxb = Inr (tr', t')" "wf_tree cs minb maxb t"
    and "unat maxb = unat minb + unat cs * 2 ^ m"
  shows "within ptr tr maxb"
  using assms
proof (induction m arbitrary: tr ptr t minb maxb tr' t' rule: nat.induct)
  case zero
  from zero.prems(1) show ?case
  proof (cases rule: store_step)
    case (chunk tr1 c)
    have "unat (ptr - minb) = unat ptr - unat minb" "unat minb \<le> unat ptr" using chunk by (auto simp: unat_sub word_le_nat_alt)
    then show ?thesis using chunk(7) wf_allocateChunk[OF zero.prems(2)] zero.prems(3)
      by (auto simp: within_def put_bytes_def split: if_splits)
  qed (use zero.prems(3) in \<open>auto simp: word_le_nat_alt unat_sub order_less_imp_le\<close>)
next
  case (Suc m)
  note d = wf_children[OF Suc.prems(2)]
  have half: "unat (middle minb maxb) = unat minb + unat cs * 2 ^ m" "unat maxb = unat (middle minb maxb) + unat cs * 2 ^ m"
    if "minb < maxb"
    using middle_unat[OF that] Suc.prems(3) by simp_all
  from Suc.prems(1) show ?case
  proof (cases rule: store_step)
    case (chunk tr1 c)
    have "unat (ptr - minb) = unat ptr - unat minb" "unat minb \<le> unat ptr" using chunk by (auto simp: unat_sub word_le_nat_alt)
    moreover have "unat cs * 1 \<le> unat cs * 2 ^ Suc m" by (intro mult_le_mono) simp_all
    moreover have "unat (ptr - minb) + length (store_data tr) \<le> unat cs"
      using chunk(7) wf_allocateChunk[OF Suc.prems(2)] by (auto simp: put_bytes_def split: if_splits)
    ultimately show ?thesis using Suc.prems(3) unfolding within_def by linarith
  next
    case (split tr1 tl l trr r)
    have "within (middle minb maxb) (rest_store tr1 (unat (middle minb maxb - ptr))) maxb"
      using Suc.IH[OF split(10) d(2) half(2)[OF split(1)]] .
    moreover have "unat (middle minb maxb - ptr) = unat (middle minb maxb) - unat ptr" "unat ptr < unat (middle minb maxb)"
      using split(6) by (auto simp: unat_sub word_less_nat_alt order_less_imp_le)
    ultimately show ?thesis using checkAllocation_data[OF split(4)] by (simp add: within_def)
  next
    case (left tr1 l)
    have "within ptr tr1 (middle minb maxb)" by (rule Suc.IH[OF left(8) d(1) half(1)[OF left(1)]])
    then show ?thesis using checkAllocation_data[OF left(4)] half[OF left(1)] by (simp add: within_def)
  next
    case (right tr1 r)
    have "within ptr tr1 maxb" by (rule Suc.IH[OF right(8) d(2) half(2)[OF right(1)]])
    then show ?thesis using checkAllocation_data[OF right(4)] by (simp add: within_def)
  qed
qed

lemma check_clear: "segments lo hi t = {} \<Longrightarrow> checkAllocation tr (force t) lo' ptr = Inr tr"
  by (auto simp: segments_forced[where t = t] checkAllocation_def split: if_splits)

lemma children_clear:
  assumes "segments lo hi t = {}"
  shows "segments lo (middle lo hi) (left_child (force t)) = {}" "segments (middle lo hi) hi (right_child (force t)) = {}"
  using assms by (auto simp: segments_forced[where t = t])

lemma store_below:
  assumes "0 < cs" "wf_tree cs minb maxb t" "checkAllocation tr (force t) minb ptr = Inr tr1" "didAlloc tr1"
    and "segments minb (middle minb maxb) (left_child (force t)) = {}" "segments (middle minb maxb) maxb (right_child (force t)) = {}"
    and "minb < maxb" "minb \<le> ptr" "ptr < maxb" "within ptr tr maxb"
  shows "\<exists>r. traverse (store_handlers cs) cs tr ptr t minb maxb = Inr r"
  using assms
proof (induction "unat (maxb - minb)" arbitrary: tr tr1 ptr t minb maxb rule: less_induct)
  case less
  note d = wf_children[OF less.prems(2)] and c = less.prems(3) and s = less.prems(5,6)
  have w: "within ptr tr1 maxb" using less.prems(10) checkAllocation_half[OF c] by blast
  show ?case
  proof (cases "maxb - minb \<le> cs")
    case True
    then show ?thesis using less.prems(4,7-9) c chunk_room[OF less.prems(7,8) True w] wf_allocateChunk[OF less.prems(2)]
      by (simp add: store_unfold[of cs tr] assertE_def put_bytes_def)
  next
    case False
    note m = middle_proper[OF less.prems(7) False less.prems(1)] and b = middle_bounds[OF less.prems(7)]
    have lm: "minb < middle minb maxb" using m b(1) by simp
    have l: "\<exists>r. traverse (store_handlers cs) cs tr' ptr (derive_child (force t) (left_child (force t))) minb (middle minb maxb) = Inr r"
      if "didAlloc tr'" "ptr < middle minb maxb" "within ptr tr' (middle minb maxb)" for tr'
      using s(1) less.prems(8) that lm
      by (intro less.hyps[OF half_sizes(1)[OF less.prems(7)] less.prems(1) d(1) check_clear[of minb "middle minb maxb"]] children_clear)
        (simp_all add: segments_derive)
    have r: "\<exists>r. traverse (store_handlers cs) cs tr' p (derive_child (force t) (right_child (force t))) (middle minb maxb) maxb = Inr r"
      if "didAlloc tr'" "middle minb maxb \<le> p" "p < maxb" "within p tr' maxb" for tr' p
      using s(2) that b(2)
      by (intro less.hyps[OF half_sizes(2)[OF less.prems(7) m] less.prems(1) d(2) check_clear[of "middle minb maxb" maxb]] children_clear)
        (simp_all add: segments_derive)
    consider "ptr < middle minb maxb" "middle minb maxb < ptr + store_size tr1" | "ptr < middle minb maxb" "\<not> middle minb maxb < ptr + store_size tr1"
      | "\<not> ptr < middle minb maxb" by blast
    then show ?thesis
    proof cases
      case 1
      note h = split_store[OF w 1]
      obtain x where x: "traverse (store_handlers cs) cs (half_store tr1 (unat (middle minb maxb - ptr))) ptr
          (derive_child (force t) (left_child (force t))) minb (middle minb maxb) = Inr x"
        using l[OF _ 1(1) h(1)] less.prems(4) by auto
      obtain y where y: "traverse (store_handlers cs) cs (rest_store tr1 (unat (middle minb maxb - ptr))) (middle minb maxb)
          (derive_child (force t) (right_child (force t))) (middle minb maxb) maxb = Inr y"
        using r[OF _ _ b(2) h(2)] less.prems(4) by auto
      show ?thesis using less.prems(7-9) 1 c False m x y by (simp add: store_unfold[of cs tr] split: prod.split)
    next
      case 2
      have "within ptr tr1 (middle minb maxb)" using 2 unat_ptr_size[OF w] by (simp add: within_def word_less_nat_alt)
      then show ?thesis using l[OF less.prems(4) 2(1)] less.prems(7-9) 2 c False m by (auto simp: store_unfold[of cs tr])
    next
      case 3
      then show ?thesis using r[OF less.prems(4) leI less.prems(9) w] less.prems(7-9) c False m by (auto simp: store_unfold[of cs tr])
    qed
  qed
qed

lemma segment_bounds:
  assumes "(s, e, a) \<in> segments lo hi t" "wf_tree cs lo hi t" "lo < hi" "0 < cs"
  shows "lo \<le> s \<and> s < e \<and> e \<le> hi \<and> a \<le> e - s"
  using assms
proof (induction cs lo hi t rule: wf_tree.induct)
  case (2 cs lo hi st sx f c l r a')
  show ?case
  proof (cases "hi - lo \<le> cs")
    case True
    then show ?thesis using 2(3-5) by (auto split: if_splits)
  next
    case False
    note m = middle_proper[OF 2(5) False 2(6)] and b = middle_bounds[OF 2(5)]
    have "lo < middle lo hi" using m b by simp
    then show ?thesis using 2 b by (fastforce split: if_splits)
  qed
qed simp

lemma segment_end: "a \<le> e - s \<Longrightarrow> s < e \<Longrightarrow> unat s + unat a \<le> unat (e :: addr)"
  using unat_sub[OF order_less_imp_le[of s e]] by (simp add: word_le_nat_alt word_less_nat_alt)

lemma store_accepted:
  assumes "0 < cs" "wf_tree cs minb maxb t" "minb < maxb" "\<not> didAlloc tr" "(s, e, a) \<in> segments minb maxb t"
    and "s \<le> ptr" "unat ptr < unat s + unat a" "unat ptr + length (store_data tr) \<le> unat s + unat a"
  shows "\<exists>r. traverse (store_handlers cs) cs tr ptr t minb maxb = Inr r"
  using assms
proof (induction "unat (maxb - minb)" arbitrary: ptr t minb maxb rule: less_induct)
  case less
  note d = wf_children[OF less.prems(2)] and bounds = segment_bounds[OF less.prems(5,2,3,1)]
  have e: "unat s + unat a \<le> unat e" using bounds segment_end by blast
  have w: "within ptr tr maxb" "minb \<le> ptr" "ptr < maxb"
    using bounds e less.prems(6-8) by (auto simp: within_def word_le_nat_alt word_less_nat_alt)
  show ?case
  proof (cases "status (force t) = Unallocated")
    case False
    then have s: "s = minb" "e = maxb" "a = reallyAllocated (force t)" and cl: "segments minb (middle minb maxb) (left_child (force t)) = {}"
        "segments (middle minb maxb) maxb (right_child (force t)) = {}"
      using less.prems(2,5) by (auto simp: wf_forced[where t = t] segments_forced[where t = t])
    have "unat (minb + reallyAllocated (force t)) = unat minb + unat (reallyAllocated (force t))"
      using e s unsigned_less[of maxb, where ?'a = nat] by (simp add: unat_word_ariths(1))
    then have "checkAllocation tr (force t) minb ptr = Inr (tr\<lparr>didAlloc := True\<rparr>)"
      using False less.prems(4,8) s unat_ptr_size[OF w(1)] by (simp add: checkAllocation_def word_less_nat_alt)
    from store_below[OF less.prems(1,2) this _ cl less.prems(3) w(2,3,1)] show ?thesis by simp
  next
    case True
    then have c: "checkAllocation tr (force t) minb ptr = Inr tr" by (simp add: checkAllocation_def)
    have seg: "(s, e, a) \<in> segments minb (middle minb maxb) (left_child (force t)) \<or> (s, e, a) \<in> segments (middle minb maxb) maxb (right_child (force t))"
      using True less.prems(5) by (simp add: segments_forced[where t = t])
    then have path: "\<not> maxb - minb \<le> cs" using less.prems(2) by (auto simp: wf_forced[where t = t])
    note m = middle_proper[OF less.prems(3) path less.prems(1)] and b = middle_bounds[OF less.prems(3)]
    have lm: "minb < middle minb maxb" using m b(1) by simp
    from seg show ?thesis
    proof
      assume l: "(s, e, a) \<in> segments minb (middle minb maxb) (left_child (force t))"
      then have "e \<le> middle minb maxb" using segment_bounds[OF _ d(1) lm less.prems(1)] by (simp add: segments_derive)
      then have "ptr < middle minb maxb" "\<not> middle minb maxb < ptr + store_size tr"
        using e less.prems(7,8) unat_ptr_size[OF w(1)] by (auto simp: word_le_nat_alt word_less_nat_alt)
      then show ?thesis using less.hyps[OF half_sizes(1)[OF less.prems(3)] less.prems(1) d(1) lm less.prems(4) _ less.prems(6-8)]
          l less.prems(3) w c path by (auto simp: store_unfold[of cs tr] segments_derive)
    next
      assume r: "(s, e, a) \<in> segments (middle minb maxb) maxb (right_child (force t))"
      then have "middle minb maxb \<le> s" using segment_bounds[OF _ d(2) b(2) less.prems(1)] by (simp add: segments_derive)
      then have "\<not> ptr < middle minb maxb" using less.prems(6) by auto
      then show ?thesis using less.hyps[OF half_sizes(2)[OF less.prems(3) m] less.prems(1) d(2) b(2) less.prems(4) _ less.prems(6-8)]
          r less.prems(3) w c path m by (auto simp: store_unfold[of cs tr] segments_derive)
    qed
  qed
qed

end
