(* ===== verification/SegmentAllocation.thy ===== *)
theory SegmentAllocation
  imports SegmentStores
begin

text \<open>
  Allocation and release in the segment tree of the executor (\<open>allocTraverser\<close> and \<open>freeTraverser\<close> of
  src/Executor/MemorySimulator/SegmentTreeImpl.cpp): an allocation at an address from which on the tree is bare
  finds the node of its interval and makes it a segment, and a release takes exactly that segment away.
\<close>


section \<open>Allocation\<close>

lemma mark_simps [simp]:
  "chunk (mark_allocated tr n) = chunk n" "left_child (mark_allocated tr n) = left_child n" "right_child (mark_allocated tr n) = right_child n"
  "mstate (mark_allocated tr n) = alloc_state tr" "status (mark_allocated tr n) = alloc_status tr" "reallyAllocated (mark_allocated tr n) = alloc_size tr"
  "memSetTo (mark_allocated tr n) = (if alloc_state tr = Memset then 0 else memSetTo n)"
  by (simp_all add: mark_allocated_def)

lemma alloc_unfold:
  "traverse (alloc_handlers cs) cs tr ptr t minb maxb =
    (if \<not> (minb < maxb \<and> minb \<le> ptr \<and> ptr < maxb) then Inl AssertionFailed
     else if maxb - minb \<le> cs then
       (if alloc_size tr \<le> maxb - minb \<and> alloc_size tr \<le> cs then Inr (tr, Some (mark_allocated tr (force t))) else Inl AssertionFailed)
     else if \<not> alloc_size tr \<le> maxb - minb then Inl AssertionFailed
     else if minb = ptr \<and> (maxb - minb) div 2 < alloc_size tr then Inr (tr, Some (mark_allocated tr (force t)))
     else if ptr < middle minb maxb then
       bindE (traverse (alloc_handlers cs) cs tr ptr (derive_child (force t) (left_child (force t))) minb (middle minb maxb))
         (\<lambda>(tr2, l). Inr (tr2, Some (with_left l (derived t))))
     else if middle minb maxb = minb then Inl StackOverflow
     else bindE (traverse (alloc_handlers cs) cs tr ptr (derive_child (force t) (right_child (force t))) (middle minb maxb) maxb)
         (\<lambda>(tr2, r). Inr (tr2, Some (with_right r (derived t)))))"
  by (subst traverse.simps) (auto simp: alloc_handlers_def Let_def assertE_def)

text \<open>Nothing is allocated from an address on, and the nodes there are still bare.\<close>

fun fresh :: "addr \<Rightarrow> addr \<Rightarrow> addr \<Rightarrow> SegmentNode option \<Rightarrow> bool" where
  "fresh p lo hi None = True"
| "fresh p lo hi (Some (SegmentNode st s f c l r a)) =
    (if p \<le> lo then st = Unallocated \<and> c = None \<and> l = None \<and> r = None
     else (st \<noteq> Unallocated \<longrightarrow> hi \<le> p) \<and> fresh p lo (middle lo hi) l \<and> fresh p (middle lo hi) hi r)"

lemma fresh_Some: "fresh p lo hi (Some n) \<longleftrightarrow>
    (if p \<le> lo then status n = Unallocated \<and> chunk n = None \<and> left_child n = None \<and> right_child n = None
     else (status n \<noteq> Unallocated \<longrightarrow> hi \<le> p) \<and> fresh p lo (middle lo hi) (left_child n) \<and> fresh p (middle lo hi) hi (right_child n))"
  by (cases n) simp

lemma fresh_mono: "fresh p lo hi t \<Longrightarrow> p \<le> p' \<Longrightarrow> fresh p' lo hi t"
  by (induction p lo hi t rule: fresh.induct) (auto split: if_splits)

lemma fresh_new [simp]: "fresh p lo hi (Some (with_fill f (with_state s new_SegmentNode)))" "fresh p lo hi (Some new_SegmentNode)"
  by (simp_all add: fresh_Some)

lemma fresh_derive: "fresh p lo hi c \<Longrightarrow> fresh p lo hi (derive_child n c)"
  by (cases c) (simp_all add: derive_child_def)

lemma fresh_children:
  assumes "fresh p lo hi t"
  shows "fresh p lo (middle lo hi) (derive_child (force t) (left_child (force t)))"
    and "fresh p (middle lo hi) hi (derive_child (force t) (right_child (force t)))"
  using assms by (cases t; auto simp: force_def fresh_Some derive_child_def split: if_splits option.split)+

lemma fresh_unallocated:
  assumes "fresh p lo hi t" "p < hi" shows "status (force t) = Unallocated"
  using assms by (cases t) (auto simp: force_def fresh_Some split: if_splits)

lemma fresh_bare:
  assumes "fresh p lo hi t" "p \<le> lo"
  shows "status (force t) = Unallocated \<and> chunk (force t) = None \<and> left_child (force t) = None \<and> right_child (force t) = None"
  using assms by (cases t) (auto simp: force_def fresh_Some)

text \<open>What an allocation of the interval from \<open>ptr\<close> to \<open>e\<close> does to a tree.\<close>

definition adds :: "addr \<Rightarrow> allocTraverser \<Rightarrow> addr \<Rightarrow> addr \<Rightarrow> addr \<Rightarrow> addr \<Rightarrow> SegmentNode option \<Rightarrow> SegmentNode option \<Rightarrow> bool" where
  "adds cs tr ptr e lo hi t t' \<longleftrightarrow> wf_tree cs lo hi t' \<and> segments lo hi t' = insert (ptr, e, alloc_size tr) (segments lo hi t)
    \<and> (\<forall>q. lo \<le> q \<longrightarrow> q < hi \<longrightarrow> node_byte cs q t' lo hi =
        (if ptr \<le> q \<and> q < e then if alloc_state tr = Memset then Some 0 else None else node_byte cs q t lo hi))"

definition allocates :: "addr \<Rightarrow> allocTraverser \<Rightarrow> addr \<Rightarrow> addr \<Rightarrow> addr \<Rightarrow> addr \<Rightarrow> SegmentNode option \<Rightarrow> SegmentNode option \<Rightarrow> bool" where
  "allocates cs tr ptr e lo hi t t' \<longleftrightarrow> adds cs tr ptr e lo hi t t' \<and> fresh e lo hi t'"

lemma fresh_path:
  assumes "status (force t) = Unallocated" "lo < e" "fresh e lo (middle lo hi) l" "fresh e (middle lo hi) hi r"
  shows "fresh e lo hi (Some (with_right r (with_left l (derived t))))"
  using assms by (auto simp: fresh_Some)

lemma adds_left:
  assumes "adds cs tr ptr e lo (middle lo hi) (derive_child (force t) (left_child (force t))) l"
    and "wf_tree cs lo hi t" "status (force t) = Unallocated" "lo \<le> ptr" "ptr < e" "e \<le> middle lo hi"
    and "lo < hi" "\<not> hi - lo \<le> cs" "middle lo hi \<noteq> lo"
  shows "adds cs tr ptr e lo hi t (Some (with_left l (derived t)))"
proof -
  have "segments lo hi (Some (with_left l (derived t))) = insert (ptr, e, alloc_size tr) (segments lo hi t)"
    using assms(1,3) by (simp add: adds_def segments_Some segments_derive segments_forced[where t = t])
  moreover have "wf_tree cs lo hi (Some (with_left l (derived t)))"
    using assms(1-3,8) wf_children(2)[OF assms(2)] by (auto simp: adds_def wf_Some wf_forced[where t = t] split: option.splits)
  moreover have "node_byte cs q (Some (with_left l (derived t))) lo hi =
      (if ptr \<le> q \<and> q < e then if alloc_state tr = Memset then Some 0 else None else node_byte cs q t lo hi)" if "lo \<le> q" "q < hi" for q
    using assms(1,4-9) that derived_byte[OF wf_settled[OF assms(2)] assms(7) that assms(8,9)]
    by (auto simp: adds_def path_byte)
  ultimately show ?thesis by (auto simp: adds_def)
qed

lemma adds_right:
  assumes "adds cs tr ptr e (middle lo hi) hi (derive_child (force t) (right_child (force t))) r"
    and "wf_tree cs lo hi t" "status (force t) = Unallocated" "middle lo hi \<le> ptr" "ptr < e" "e \<le> hi"
    and "lo < hi" "\<not> hi - lo \<le> cs" "middle lo hi \<noteq> lo"
  shows "adds cs tr ptr e lo hi t (Some (with_right r (derived t)))"
proof -
  have "segments lo hi (Some (with_right r (derived t))) = insert (ptr, e, alloc_size tr) (segments lo hi t)"
    using assms(1,3) by (simp add: adds_def segments_Some segments_derive segments_forced[where t = t])
  moreover have "wf_tree cs lo hi (Some (with_right r (derived t)))"
    using assms(1-3,8) wf_children(1)[OF assms(2)] by (auto simp: adds_def wf_Some wf_forced[where t = t] split: option.splits)
  moreover have "node_byte cs q (Some (with_right r (derived t))) lo hi =
      (if ptr \<le> q \<and> q < e then if alloc_state tr = Memset then Some 0 else None else node_byte cs q t lo hi)" if "lo \<le> q" "q < hi" for q
    using assms(1,4-9) that derived_byte[OF wf_settled[OF assms(2)] assms(7) that assms(8,9)]
    by (auto simp: adds_def path_byte)
  ultimately show ?thesis by (auto simp: adds_def)
qed

lemma allocates_left:
  assumes "allocates cs tr ptr e lo (middle lo hi) (derive_child (force t) (left_child (force t))) l"
    and "wf_tree cs lo hi t" "fresh p lo hi t" "p \<le> ptr" "lo \<le> ptr" "ptr < e" "e \<le> middle lo hi" "lo < hi" "\<not> hi - lo \<le> cs" "middle lo hi \<noteq> lo"
  shows "allocates cs tr ptr e lo hi t (Some (with_left l (derived t)))"
proof -
  have u: "status (force t) = Unallocated" using fresh_unallocated[OF assms(3)] assms(4,6-8) middle_bounds[OF assms(8)] by auto
  have "fresh e lo hi (Some (with_left l (derived t)))"
    using fresh_path[OF u, of lo e hi l "derive_child (force t) (right_child (force t))"] assms(1,4-6) fresh_mono[OF fresh_children(2)[OF assms(3)], of e]
    unfolding with_left_derived(1)[of l t] by (auto simp: allocates_def)
  then show ?thesis using adds_left[OF _ assms(2) u assms(5-10)] assms(1) by (simp add: allocates_def)
qed

lemma allocates_right:
  assumes "allocates cs tr ptr e (middle lo hi) hi (derive_child (force t) (right_child (force t))) r"
    and "wf_tree cs lo hi t" "fresh p lo hi t" "p \<le> ptr" "middle lo hi \<le> ptr" "ptr < e" "e \<le> hi" "lo < hi" "\<not> hi - lo \<le> cs" "middle lo hi \<noteq> lo"
  shows "allocates cs tr ptr e lo hi t (Some (with_right r (derived t)))"
proof -
  have u: "status (force t) = Unallocated" using fresh_unallocated[OF assms(3)] assms(4,6-8) by auto
  have "fresh e lo hi (Some (with_right r (derived t)))"
    using fresh_path[OF u, of lo e hi "derive_child (force t) (left_child (force t))" r] assms(1,4-6) fresh_mono[OF fresh_children(1)[OF assms(3)], of e]
      middle_bounds[OF assms(8)]
    unfolding with_left_derived(2)[of r t] by (auto simp: allocates_def)
  then show ?thesis using adds_right[OF _ assms(2) u assms(5-10)] assms(1) by (simp add: allocates_def)
qed

lemma allocates_here:
  assumes "fresh p lo hi t" "p \<le> lo" "lo < hi" "alloc_size tr \<le> hi - lo" "alloc_status tr \<noteq> Unallocated" "alloc_state tr \<noteq> UnknownState"
  shows "allocates cs tr lo hi lo hi t (Some (mark_allocated tr (force t)))"
  using assms fresh_bare[OF assms(1,2)]
  by (cases "alloc_state tr") (auto simp: allocates_def adds_def wf_Some segments_Some fresh_Some node_byte_node segments_forced[where t = t] split: option.splits)

lemma dvd_gap: "d dvd x \<Longrightarrow> d dvd y \<Longrightarrow> x < y \<Longrightarrow> x + d \<le> (y :: nat)"
  by (auto elim!: dvdE) (metis Suc_leI add.commute mult_Suc_right mult_le_mono2 mult_less_cancel1 nat_mult_less_cancel_disj)

text \<open>An interval of a power of two chunks, at a multiple of its length, is the interval of a node.\<close>

lemma allocation_succeeds:
  assumes "0 < cs" "wf_tree cs lo hi t" "fresh p lo hi t" "p \<le> ptr" "alloc_status tr \<noteq> Unallocated" "alloc_state tr \<noteq> UnknownState"
    and "unat hi = unat lo + unat cs * 2 ^ m" "k \<le> m" "lo \<le> ptr" "ptr < hi" "unat cs * 2 ^ k dvd unat ptr - unat lo"
    and "unat e = unat ptr + unat cs * 2 ^ k" "unat (alloc_size tr) \<le> unat cs * 2 ^ k" "k = 0 \<or> unat cs * 2 ^ (k - 1) < unat (alloc_size tr)"
  shows "\<exists>t'. traverse (alloc_handlers cs) cs tr ptr t lo hi = Inr (tr, t') \<and> allocates cs tr ptr e lo hi t t'"
  using assms
proof (induction m arbitrary: lo hi t)
  case 0
  have cs: "0 < unat cs" using 0(1) by (simp add: word_less_nat_alt)
  then have lh: "lo < hi" using 0(7) by (simp add: word_less_nat_alt)
  have size: "unat (hi - lo) = unat cs" using 0(7) unat_sub[OF order_less_imp_le[OF lh]] by simp
  have "unat ptr - unat lo < unat cs" using 0(7,10) 0(9) by (simp add: word_less_nat_alt word_le_nat_alt)
  then have "unat ptr - unat lo = 0" using 0(8,11) by (auto dest: dvd_imp_le)
  then have p: "ptr = lo" using 0(9) by (simp add: word_unat_eq_iff word_le_nat_alt)
  then have e: "e = hi" using 0(7,8,12) by (simp add: word_unat_eq_iff)
  have "alloc_size tr \<le> hi - lo" "alloc_size tr \<le> cs" using 0(8,13) size by (simp_all add: word_le_nat_alt)
  then show ?case using allocates_here[OF 0(3) _ lh _ 0(5,6), of cs] 0(4) p e size lh by (simp add: alloc_unfold word_le_nat_alt)
next
  case (Suc m)
  have cs: "0 < unat cs" using Suc.prems(1) by (simp add: word_less_nat_alt)
  have lh: "lo < hi" using Suc.prems(9,10) by simp
  have size: "unat (hi - lo) = unat cs * 2 ^ Suc m" using Suc.prems(7) unat_sub[OF order_less_imp_le[OF lh]] by simp
  have "1 * unat cs < 2 ^ Suc m * unat cs" using cs by (intro mult_strict_right_mono one_less_power) auto
  then have path: "\<not> hi - lo \<le> cs" using size by (simp add: word_le_nat_alt not_le mult.commute)
  have half: "unat ((hi - lo) div 2) = unat cs * 2 ^ m" using size by (simp add: unat_div)
  have mid: "unat (middle lo hi) = unat lo + unat cs * 2 ^ m" "unat hi = unat (middle lo hi) + unat cs * 2 ^ m"
    using middle_unat[OF lh] size Suc.prems(7) by simp_all
  have ne: "middle lo hi \<noteq> lo" using mid(1) cs by auto
  have fits: "alloc_size tr \<le> hi - lo"
  proof -
    have "unat cs * 2 ^ k \<le> unat cs * 2 ^ Suc m" using Suc.prems(8) by (intro mult_le_mono2 power_increasing) auto
    then show ?thesis unfolding word_le_nat_alt size by (rule order_trans[OF Suc.prems(13)])
  qed
  show ?case
  proof (cases "k = Suc m")
    case True
    have "unat ptr - unat lo < unat cs * 2 ^ Suc m" using Suc.prems(7,9,10) by (simp add: word_less_nat_alt word_le_nat_alt)
    then have "unat ptr - unat lo = 0" using Suc.prems(11) True by (auto dest: dvd_imp_le)
    then have p: "ptr = lo" using Suc.prems(9) by (simp add: word_unat_eq_iff word_le_nat_alt)
    then have e: "e = hi" using Suc.prems(7,12) True by (simp add: word_unat_eq_iff)
    have "(hi - lo) div 2 < alloc_size tr" using Suc.prems(14) True half by (simp add: word_less_nat_alt)
    then show ?thesis using allocates_here[OF Suc.prems(3) _ lh fits Suc.prems(5,6), of cs] Suc.prems(4) p e path lh fits by (simp add: alloc_unfold)
  next
    case False
    then have k: "k \<le> m" using Suc.prems(8) by simp
    have "unat cs * 2 ^ k \<le> unat cs * 2 ^ m" using k by (intro mult_le_mono2 power_increasing) auto
    then have go: "\<not> (hi - lo) div 2 < alloc_size tr" unfolding word_less_nat_alt half not_less by (rule order_trans[OF Suc.prems(13)])
    have block: "unat cs * 2 ^ k dvd unat cs * 2 ^ m" using k by (intro mult_dvd_mono le_imp_power_dvd) auto
    show ?thesis
    proof (cases "ptr < middle lo hi")
      case True
      obtain t' where t': "traverse (alloc_handlers cs) cs tr ptr (derive_child (force t) (left_child (force t))) lo (middle lo hi) = Inr (tr, t')"
          "allocates cs tr ptr e lo (middle lo hi) (derive_child (force t) (left_child (force t))) t'"
        using Suc.IH[OF Suc.prems(1) wf_children(1)[OF Suc.prems(2)] fresh_children(1)[OF Suc.prems(3)] Suc.prems(4-6) mid(1) k
          Suc.prems(9) True Suc.prems(11-14)] by blast
      have "unat ptr - unat lo + unat cs * 2 ^ k \<le> unat cs * 2 ^ m"
        using Suc.prems(11) block True mid(1) Suc.prems(9)
        by (intro dvd_gap) (auto simp: word_less_nat_alt word_le_nat_alt)
      then have "e \<le> middle lo hi" "ptr < e" using Suc.prems(9,12) mid(1) cs by (auto simp: word_le_nat_alt word_less_nat_alt)
      then show ?thesis using t' allocates_left[OF t'(2) Suc.prems(2-4,9) _ _ lh path ne] Suc.prems(9,10) lh path fits go True
        by (auto simp: alloc_unfold[of cs tr ptr t])
    next
      case False
      then have r: "middle lo hi \<le> ptr" by simp
      have "unat ptr - unat (middle lo hi) = (unat ptr - unat lo) - unat cs * 2 ^ m" using mid(1) by simp
      then have al: "unat cs * 2 ^ k dvd unat ptr - unat (middle lo hi)" using dvd_diff_nat[OF Suc.prems(11) block] by metis
      obtain t' where t': "traverse (alloc_handlers cs) cs tr ptr (derive_child (force t) (right_child (force t))) (middle lo hi) hi = Inr (tr, t')"
          "allocates cs tr ptr e (middle lo hi) hi (derive_child (force t) (right_child (force t))) t'"
        using Suc.IH[OF Suc.prems(1) wf_children(2)[OF Suc.prems(2)] fresh_children(2)[OF Suc.prems(3)] Suc.prems(4-6) mid(2) k
          r Suc.prems(10) al Suc.prems(12-14)] by blast
      have "unat ptr - unat (middle lo hi) + unat cs * 2 ^ k \<le> unat cs * 2 ^ m"
        using al block mid(2) Suc.prems(10) r
        by (intro dvd_gap) (auto simp: word_less_nat_alt word_le_nat_alt)
      then have "e \<le> hi" "ptr < e" using Suc.prems(12) mid(2) cs r by (auto simp: word_le_nat_alt word_less_nat_alt)
      then show ?thesis using t' allocates_right[OF t'(2) Suc.prems(2-4) r _ _ lh path ne] Suc.prems(9,10) lh path fits go False ne
        by (auto simp: alloc_unfold[of cs tr ptr t])
    qed
  qed
qed

section \<open>Release\<close>

lemma free_unfold:
  "traverse free_handlers cs d ptr t lo hi =
    (if \<not> (lo < hi \<and> lo \<le> ptr \<and> ptr < hi) then Inl AssertionFailed
     else case t of None \<Rightarrow> Inl (IllegalFree ptr)
     | Some n \<Rightarrow> if lo = ptr \<and> status n = d then Inr (d, None)
         else if hi - lo \<le> cs then Inr (d, t)
         else if ptr < middle lo hi then bindE (traverse free_handlers cs d ptr (left_child n) lo (middle lo hi)) (\<lambda>(tr2, l). Inr (tr2, Some (with_left l n)))
         else if middle lo hi = lo then Inl StackOverflow
         else bindE (traverse free_handlers cs d ptr (right_child n) (middle lo hi) hi) (\<lambda>(tr2, r). Inr (tr2, Some (with_right r n))))"
  by (subst traverse.simps) (auto simp: free_handlers_def Let_def force_def split: option.split)

abbreviation node_load :: "addr \<Rightarrow> addr \<Rightarrow> SegmentNode option \<Rightarrow> addr \<Rightarrow> addr \<Rightarrow> mem_error + loadTraverser \<times> SegmentNode option" where
  "node_load cs p t lo hi \<equiv> traverse load_handlers cs new_loadTraverser p t lo hi"

lemma load_path:
  assumes "lo < hi" "lo \<le> q" "q < hi" "\<not> hi - lo \<le> cs" "middle lo hi \<noteq> lo" "mstate n = UnknownState"
  shows "node_load cs q (Some n) lo hi = (if q < middle lo hi
    then bindE (node_load cs q (left_child n) lo (middle lo hi)) (\<lambda>(tr2, l). Inr (tr2, Some (with_left l n)))
    else bindE (node_load cs q (right_child n) (middle lo hi) hi) (\<lambda>(tr2, r). Inr (tr2, Some (with_right r n))))"
  using assms by (subst traverse.simps) (simp add: force_def load_handlers_def Let_def)

lemma load_None: "lo < hi \<Longrightarrow> lo \<le> q \<Longrightarrow> q < hi \<Longrightarrow> node_load cs q None lo hi = Inl (IllegalLoad q)"
  by (subst traverse.simps) simp

text \<open>The segment that starts at the address is gone, and nothing else.\<close>

definition releases :: "addr \<Rightarrow> addr \<Rightarrow> addr \<Rightarrow> addr \<Rightarrow> SegmentNode option \<Rightarrow> SegmentNode option \<Rightarrow> bool" where
  "releases cs ptr lo hi t t' \<longleftrightarrow> wf_tree cs lo hi t' \<and> (\<exists>e a. (ptr, e, a) \<in> segments lo hi t
    \<and> segments lo hi t' = segments lo hi t - {(ptr, e, a)}
    \<and> (\<forall>q. ptr \<le> q \<longrightarrow> q < e \<longrightarrow> node_load cs q t' lo hi = Inl (IllegalLoad q))
    \<and> (\<forall>d. d \<noteq> Unallocated \<longrightarrow> traverse free_handlers cs d ptr t' lo hi = Inl (IllegalFree ptr))
    \<and> (\<forall>q. lo \<le> q \<longrightarrow> q < hi \<longrightarrow> \<not> (ptr \<le> q \<and> q < e) \<longrightarrow> node_byte cs q t' lo hi = node_byte cs q t lo hi))"

lemma releases_left:
  assumes "releases cs ptr lo (middle lo hi) (left_child n) l" "wf_tree cs lo hi (Some n)" "0 < cs"
    and "lo < hi" "\<not> hi - lo \<le> cs" "lo \<le> ptr" "ptr < middle lo hi"
  shows "releases cs ptr lo hi (Some n) (Some (with_left l n))"
proof -
  obtain e a where r: "wf_tree cs lo (middle lo hi) l" "(ptr, e, a) \<in> segments lo (middle lo hi) (left_child n)"
      "segments lo (middle lo hi) l = segments lo (middle lo hi) (left_child n) - {(ptr, e, a)}"
      "\<And>q. ptr \<le> q \<Longrightarrow> q < e \<Longrightarrow> node_load cs q l lo (middle lo hi) = Inl (IllegalLoad q)"
      "\<And>d. d \<noteq> Unallocated \<Longrightarrow> traverse free_handlers cs d ptr l lo (middle lo hi) = Inl (IllegalFree ptr)"
      "\<And>q. lo \<le> q \<Longrightarrow> q < middle lo hi \<Longrightarrow> \<not> (ptr \<le> q \<and> q < e) \<Longrightarrow> node_byte cs q l lo (middle lo hi) = node_byte cs q (left_child n) lo (middle lo hi)"
    using assms(1) unfolding releases_def by blast
  note m = middle_proper[OF assms(4,5,3)] and b = middle_bounds[OF assms(4)]
  have lm: "lo < middle lo hi" using m b(1) by simp
  note w = assms(2)[unfolded wf_Some]
  have un: "status n = Unallocated" "mstate n = UnknownState" using w r(2) by auto
  have e: "e \<le> middle lo hi" "ptr < e" using segment_bounds[OF r(2) _ lm assms(3)] w by auto
  have notr: "(ptr, e, a) \<notin> segments (middle lo hi) hi (right_child n)"
    using segment_bounds[OF _ _ b(2) assms(3)] w assms(7) by (meson leD)
  have "wf_tree cs lo hi (Some (with_left l n))" using w r(1) un assms(5) by (simp add: wf_Some)
  moreover have "(ptr, e, a) \<in> segments lo hi (Some n)" using r(2) by (simp add: segments_Some)
  moreover have "segments lo hi (Some (with_left l n)) = segments lo hi (Some n) - {(ptr, e, a)}" using r(3) un notr by (auto simp: segments_Some)
  moreover have "node_load cs q (Some (with_left l n)) lo hi = Inl (IllegalLoad q)" if "ptr \<le> q" "q < e" for q
    using that r(4)[OF that] e un assms(4-6) m b by (auto simp: load_path)
  moreover have "traverse free_handlers cs d' ptr (Some (with_left l n)) lo hi = Inl (IllegalFree ptr)" if "d' \<noteq> Unallocated" for d'
    using r(5)[OF that] that assms(4-7) b un by (auto simp: free_unfold[of cs d' ptr "Some (with_left l n)"])
  moreover have "node_byte cs q (Some (with_left l n)) lo hi = node_byte cs q (Some n) lo hi"
    if "lo \<le> q" "q < hi" "\<not> (ptr \<le> q \<and> q < e)" for q
    using that r(6)[of q] un assms(4-6) m by (simp add: path_byte)
  ultimately show ?thesis unfolding releases_def by blast
qed

lemma releases_right:
  assumes "releases cs ptr (middle lo hi) hi (right_child n) r" "wf_tree cs lo hi (Some n)" "0 < cs"
    and "lo < hi" "\<not> hi - lo \<le> cs" "middle lo hi \<le> ptr" "ptr < hi"
  shows "releases cs ptr lo hi (Some n) (Some (with_right r n))"
proof -
  obtain e a where r: "wf_tree cs (middle lo hi) hi r" "(ptr, e, a) \<in> segments (middle lo hi) hi (right_child n)"
      "segments (middle lo hi) hi r = segments (middle lo hi) hi (right_child n) - {(ptr, e, a)}"
      "\<And>q. ptr \<le> q \<Longrightarrow> q < e \<Longrightarrow> node_load cs q r (middle lo hi) hi = Inl (IllegalLoad q)"
      "\<And>d. d \<noteq> Unallocated \<Longrightarrow> traverse free_handlers cs d ptr r (middle lo hi) hi = Inl (IllegalFree ptr)"
      "\<And>q. middle lo hi \<le> q \<Longrightarrow> q < hi \<Longrightarrow> \<not> (ptr \<le> q \<and> q < e) \<Longrightarrow> node_byte cs q r (middle lo hi) hi = node_byte cs q (right_child n) (middle lo hi) hi"
    using assms(1) unfolding releases_def by blast
  note m = middle_proper[OF assms(4,5,3)] and b = middle_bounds[OF assms(4)]
  have lm: "lo < middle lo hi" using m b(1) by simp
  note w = assms(2)[unfolded wf_Some]
  have un: "status n = Unallocated" "mstate n = UnknownState" using w r(2) by auto
  have e: "e \<le> hi" "ptr < e" using segment_bounds[OF r(2) _ b(2) assms(3)] w by auto
  have notl: "(ptr, e, a) \<notin> segments lo (middle lo hi) (left_child n)"
    using segment_bounds[OF _ _ lm assms(3)] w assms(6) e by (meson leD order.strict_trans2 order.strict_trans1)
  have "wf_tree cs lo hi (Some (with_right r n))" using w r(1) un assms(5) by (simp add: wf_Some)
  moreover have "(ptr, e, a) \<in> segments lo hi (Some n)" using r(2) by (simp add: segments_Some)
  moreover have "segments lo hi (Some (with_right r n)) = segments lo hi (Some n) - {(ptr, e, a)}" using r(3) un notl by (auto simp: segments_Some)
  moreover have "node_load cs q (Some (with_right r n)) lo hi = Inl (IllegalLoad q)" if "ptr \<le> q" "q < e" for q
    using that r(4)[OF that] e un assms(4-6) m b by (auto simp: load_path)
  moreover have "traverse free_handlers cs d' ptr (Some (with_right r n)) lo hi = Inl (IllegalFree ptr)" if "d' \<noteq> Unallocated" for d'
    using r(5)[OF that] that assms(4-7) b m un by (auto simp: free_unfold[of cs d' ptr "Some (with_right r n)"])
  moreover have "node_byte cs q (Some (with_right r n)) lo hi = node_byte cs q (Some n) lo hi"
    if "lo \<le> q" "q < hi" "\<not> (ptr \<le> q \<and> q < e)" for q
    using that r(6)[of q] un assms(4-6) m by (simp add: path_byte)
  ultimately show ?thesis unfolding releases_def by blast
qed

lemma with_own_child: "l = left_child n \<Longrightarrow> with_left l n = n" "r = right_child n \<Longrightarrow> with_right r n = n"
  by (cases n; simp)+

lemma free_releases:
  assumes "traverse free_handlers cs d ptr t lo hi = Inr (x, t')" "wf_tree cs lo hi t" "0 < cs" "d \<noteq> Unallocated"
  shows "t' = t \<or> releases cs ptr lo hi t t'"
  using assms
proof (induction "unat (hi - lo)" arbitrary: x t lo hi t' rule: less_induct)
  case less
  note run = less.prems(1)[unfolded free_unfold[of cs d ptr t]]
  have range: "lo < hi" "lo \<le> ptr" "ptr < hi" using run by (auto split: if_splits)
  obtain n where n: "t = Some n" using run range by (auto split: option.splits)
  note w = less.prems(2)[unfolded n wf_Some]
  have wl: "wf_tree cs lo (middle lo hi) (left_child n)" and wr: "wf_tree cs (middle lo hi) hi (right_child n)" using w by auto
  consider "lo = ptr" "status n = d" | "\<not> (lo = ptr \<and> status n = d)" "hi - lo \<le> cs"
    | "\<not> (lo = ptr \<and> status n = d)" "\<not> hi - lo \<le> cs" "ptr < middle lo hi"
    | "\<not> (lo = ptr \<and> status n = d)" "\<not> hi - lo \<le> cs" "\<not> ptr < middle lo hi" by blast
  then show ?case
  proof cases
    case 1
    then have "t' = None" using run range n by simp
    then show ?thesis using 1 range w less.prems(4) unfolding n releases_def
      by (auto simp: segments_Some load_None free_unfold[of cs _ ptr None])
  next
    case 2
    then show ?thesis using run range n by (auto split: if_splits)
  next
    case 3
    then obtain l where l: "traverse free_handlers cs d ptr (left_child n) lo (middle lo hi) = Inr (x, l)" "t' = Some (with_left l n)"
      using run range n by (auto simp: bindE_Inr)
    from less.hyps[OF half_sizes(1)[OF range(1)] l(1) wl less.prems(3,4)] show ?thesis
      using releases_left[OF _ less.prems(2)[unfolded n] less.prems(3) range(1) 3(2) range(2) 3(3)] l(2) n with_own_child(1) by metis
  next
    case 4
    note m = middle_proper[OF range(1) 4(2) less.prems(3)]
    obtain r where r: "traverse free_handlers cs d ptr (right_child n) (middle lo hi) hi = Inr (x, r)" "t' = Some (with_right r n)"
      using run range n 4 m by (auto simp: bindE_Inr)
    from less.hyps[OF half_sizes(2)[OF range(1) m] r(1) wr less.prems(3,4)] show ?thesis
      using releases_right[OF _ less.prems(2)[unfolded n] less.prems(3) range(1) 4(2) leI[OF 4(3)] range(3)] r(2) n with_own_child(2) by metis
  qed
qed

section \<open>What stores and releases leave bare\<close>

lemma fresh_outside: "lo < p \<Longrightarrow> hi \<le> p \<Longrightarrow> lo \<le> hi \<Longrightarrow> fresh p lo hi t"
proof (induction p lo hi t rule: fresh.induct)
  case (2 p lo hi st s f c l r a)
  have m: "lo \<le> middle lo hi \<and> middle lo hi \<le> hi \<and> middle lo hi < p"
  proof (cases "lo < hi")
    case True
    then show ?thesis using middle_bounds[OF True] 2(4) by auto
  next
    case False
    then show ?thesis using 2(3-5) by (simp add: middle_def)
  qed
  then show ?case using 2 by auto
qed simp

lemma store_needs_allocation:
  assumes "traverse (store_handlers cs) cs tr ptr t minb maxb = Inr (tr', t')" "\<not> didAlloc tr" "segments minb maxb t = {}"
  shows False
  using assms
proof (induction "unat (maxb - minb)" arbitrary: tr ptr t minb maxb tr' t' rule: less_induct)
  case less
  have c: "checkAllocation tr (force t) minb ptr = Inr tr" using check_clear[OF less.prems(3)] .
  note s = children_clear[OF less.prems(3)]
  from less.prems(1) show ?case
  proof (cases rule: store_step)
    case (chunk tr1 c')
    then show ?thesis using c less.prems(2) by simp
  next
    case (split tr1 tl l trr r)
    then show ?thesis using less.hyps[OF half_sizes(1)[OF split(1)] split(9)] c s less.prems(2) by (simp add: segments_derive)
  next
    case (left tr1 l)
    then show ?thesis using less.hyps[OF half_sizes(1)[OF left(1)] left(8)] c s less.prems(2) by (simp add: segments_derive)
  next
    case (right tr1 r)
    then show ?thesis using less.hyps[OF half_sizes(2)[OF right(1,7)] right(8)] c s less.prems(2) by (simp add: segments_derive)
  qed
qed

lemma bare_segments: "fresh p lo hi t \<Longrightarrow> p \<le> lo \<Longrightarrow> segments lo hi t = {}"
  by (cases t) (auto simp: fresh_Some segments_Some)

lemma store_keeps_fresh:
  assumes "traverse (store_handlers cs) cs tr ptr t minb maxb = Inr (tr', t')" "\<not> didAlloc tr" "fresh p minb maxb t"
  shows "fresh p minb maxb t'"
  using assms
proof (induction "unat (maxb - minb)" arbitrary: tr ptr t minb maxb tr' t' rule: less_induct)
  case less
  note c = fresh_children[OF less.prems(3)]
  have p: "minb < p" using store_needs_allocation[OF less.prems(1,2)] bare_segments[OF less.prems(3)] by force
  have here: "fresh p minb maxb t'" if "checkAllocation tr (force t) minb ptr = Inr tr1" "didAlloc tr1" "minb < maxb" for tr1
  proof -
    have "status (force t) \<noteq> Unallocated" using that(1,2) less.prems(2) by (auto simp: checkAllocation_def split: if_splits)
    then have "maxb \<le> p" using fresh_unallocated[OF less.prems(3)] by force
    then show ?thesis using fresh_outside p that(3) by simp
  qed
  have path: "fresh p minb maxb (Some (with_right r (with_left l (derived t))))"
    if "fresh p minb (middle minb maxb) l" "fresh p (middle minb maxb) maxb r" "checkAllocation tr (force t) minb ptr = Inr tr1" "\<not> didAlloc tr1" for l r tr1
  proof -
    have "status (force t) = Unallocated" using that(3,4) by (auto simp: checkAllocation_def split: if_splits)
    then show ?thesis using fresh_path p that by simp
  qed
  from less.prems(1) show ?case
  proof (cases rule: store_step)
    case (chunk tr1 c')
    then show ?thesis using here by blast
  next
    case (split tr1 tl l trr r)
    then show ?thesis using less.hyps[OF half_sizes(1)[OF split(1)] split(9) _ c(1)] less.hyps[OF half_sizes(2)[OF split(1,8)] split(10) _ c(2)]
        here path[OF _ _ split(4)] by (cases "didAlloc tr1") auto
  next
    case (left tr1 l)
    then show ?thesis using less.hyps[OF half_sizes(1)[OF left(1)] left(8) _ c(1)] here
        path[OF _ c(2) left(4), unfolded with_left_derived(1)[symmetric]] by (cases "didAlloc tr1") auto
  next
    case (right tr1 r)
    then show ?thesis using less.hyps[OF half_sizes(2)[OF right(1,7)] right(8) _ c(2)] here
        path[OF c(1) _ right(4), unfolded with_left_derived(2)[symmetric]] by (cases "didAlloc tr1") auto
  qed
qed

lemma free_keeps_fresh:
  assumes "traverse free_handlers cs d ptr t lo hi = Inr (x, t')" "fresh p lo hi t"
  shows "fresh p lo hi t'"
  using assms
proof (induction "unat (hi - lo)" arbitrary: x t lo hi t' rule: less_induct)
  case less
  note run = less.prems(1)[unfolded free_unfold[of cs d ptr t]]
  have range: "lo < hi" "lo \<le> ptr" "ptr < hi" using run by (auto split: if_splits)
  obtain n where n: "t = Some n" using run range by (auto split: option.splits)
  have f: "fresh p lo hi (Some n)" using less.prems(2) n by simp
  consider "lo = ptr" "status n = d" | "\<not> (lo = ptr \<and> status n = d)" "hi - lo \<le> cs"
    | "\<not> (lo = ptr \<and> status n = d)" "\<not> hi - lo \<le> cs" "ptr < middle lo hi"
    | "\<not> (lo = ptr \<and> status n = d)" "\<not> hi - lo \<le> cs" "\<not> ptr < middle lo hi" by blast
  then show ?case
  proof cases
    case 3
    then obtain l where l: "traverse free_handlers cs d ptr (left_child n) lo (middle lo hi) = Inr (x, l)" "t' = Some (with_left l n)"
      using run range n by (auto simp: bindE_Inr)
    then have "left_child n \<noteq> None" by (cases "left_child n") (auto simp: free_unfold[of cs d ptr None] split: if_splits)
    then show ?thesis using less.hyps[OF half_sizes(1)[OF range(1)] l(1)] f l(2) by (auto simp: fresh_Some split: if_splits)
  next
    case 4
    have m: "middle lo hi \<noteq> lo" using run range n 4 by (auto split: if_splits)
    obtain r where r: "traverse free_handlers cs d ptr (right_child n) (middle lo hi) hi = Inr (x, r)" "t' = Some (with_right r n)"
      using run range n 4 m by (auto simp: bindE_Inr)
    then have "right_child n \<noteq> None" by (cases "right_child n") (auto simp: free_unfold[of cs d ptr None] split: if_splits)
    then show ?thesis using less.hyps[OF half_sizes(2)[OF range(1) m] r(1)] f r(2) by (auto simp: fresh_Some split: if_splits)
  qed (use run range n f in \<open>auto split: if_splits\<close>)
qed

end
