(* ===== verification/MemorySimulator.thy ===== *)
theory MemorySimulator
  imports SegmentAllocation "HOL-Library.While_Combinator"
begin

text \<open>
  The memory of the executor as its clients see it (src/Executor/MemorySimulator.cpp): the address space with its
  stack half, heap half and constants, the two bump allocators, and the loads and stores of integers.  Memory of
  global variables is host memory of the program, laid out by LLVM: reading and writing it are parameters.
  Constants of LLVM are values of a type variable; \<open>constantsBwd\<close> is a list in the order of its keys, as \<open>std::map\<close> is.
\<close>

record 'v Impl =
  tree :: SegmentTree
  constants :: "'v \<Rightarrow> addr option"
  constantsBwd :: "(addr \<times> 'v) list"
  unmeaningfulPtr :: addr
  allocStart :: addr
  allocEnd :: addr
  mallocStart :: addr
  mallocEnd :: addr
  constantStart :: addr
  constantEnd :: addr
  currentAllocOffset :: addr
  currentMallocOffset :: addr
  currentConstantOffset :: addr

text \<open>The constructor, with the multiplier and the power of the configuration and the pointer alignment and size of
  the data layout.  \<open>K.get(1) * grain\<close> is a product of 32 bits.\<close>

definition grain_of :: "32 word \<Rightarrow> 32 word \<Rightarrow> 32 word" where
  "grain_of prefAlignment pointerSize = (if prefAlignment \<noteq> 0 then prefAlignment else if pointerSize \<noteq> 0 then pointerSize else 1)"

definition new_Impl :: "32 word \<Rightarrow> nat \<Rightarrow> 32 word \<Rightarrow> 'v Impl" where
  "new_Impl K M grain = (let
      cs = ucast (K * grain);
      st = 2 ^ 20;
      en = st + push_bit M 1 * cs;
      half = st + (en - st) div 2
    in \<lparr>tree = \<lparr>tree_start = st, tree_end = en, chunk_size = cs, root = None\<rparr>,
        constants = (\<lambda>_. None), constantsBwd = [], unmeaningfulPtr = 2 ^ 8,
        allocStart = st, allocEnd = half, mallocStart = half, mallocEnd = en,
        constantStart = 2 ^ 10, constantEnd = 2 ^ 20,
        currentAllocOffset = 0, currentMallocOffset = 0, currentConstantOffset = 0\<rparr>)"

definition isFromGlobalSpace :: "'v Impl \<Rightarrow> addr \<Rightarrow> bool" where
  "isFromGlobalSpace S ptr \<longleftrightarrow> constantStart S \<le> ptr \<and> constantEnd S > ptr"

definition isFromDynMem :: "'v Impl \<Rightarrow> addr \<Rightarrow> bool" where
  "isFromDynMem S ptr \<longleftrightarrow> mallocStart S \<le> ptr \<and> mallocEnd S > ptr"

definition isFromStack :: "'v Impl \<Rightarrow> addr \<Rightarrow> bool" where
  "isFromStack S ptr \<longleftrightarrow> allocStart S \<le> ptr \<and> allocEnd S > ptr"

definition isAPointer :: "'v Impl \<Rightarrow> addr \<Rightarrow> bool" where
  "isAPointer S ptr \<longleftrightarrow> isFromGlobalSpace S ptr \<or> isFromDynMem S ptr \<or> isFromStack S ptr \<or> ptr = unmeaningfulPtr S"

definition getQuant :: "'v Impl \<Rightarrow> addr" where "getQuant S = chunk_size (tree S)"

definition isOpaquePointer :: "'v Impl \<Rightarrow> addr \<Rightarrow> bool" where "isOpaquePointer S ptr \<longleftrightarrow> unmeaningfulPtr S = ptr"

definition isLocalPointer :: "'v Impl \<Rightarrow> addr \<Rightarrow> bool" where "isLocalPointer S ptr \<longleftrightarrow> isFromDynMem S ptr \<or> isFromStack S ptr"

section \<open>Constants\<close>

fun map_assign :: "addr \<Rightarrow> 'v \<Rightarrow> (addr \<times> 'v) list \<Rightarrow> (addr \<times> 'v) list" where
  "map_assign k v [] = [(k, v)]"
| "map_assign k v ((k', v') # xs) = (if k < k' then (k, v) # (k', v') # xs else if k = k' then (k, v) # xs else (k', v') # map_assign k v xs)"

definition getPointerToConstant :: "'v \<Rightarrow> addr \<Rightarrow> 'v Impl \<Rightarrow> addr \<times> 'v Impl" where
  "getPointerToConstant v amount S = (case constants S v of
      Some p \<Rightarrow> (p, S)
    | None \<Rightarrow> (let realPtr = constantStart S + currentConstantOffset S in
        (realPtr, S\<lparr>currentConstantOffset := currentConstantOffset S + amount, constants := (constants S)(v \<mapsto> realPtr),
          constantsBwd := map_assign realPtr v (constantsBwd S)\<rparr>)))"

definition getPointerToGlobal :: "'v \<Rightarrow> addr \<Rightarrow> addr \<Rightarrow> 'v Impl \<Rightarrow> addr \<times> 'v Impl" where
  "getPointerToGlobal gv amount offset S = (let (p, S1) = getPointerToConstant gv amount S in (p + offset, S1))"

text \<open>\<open>util::less_or_equal\<close>: the entry before the first one with a greater key.\<close>

definition less_or_equal :: "(addr \<times> 'v) list \<Rightarrow> addr \<Rightarrow> (addr \<times> 'v) option" where
  "less_or_equal xs k = (case takeWhile (\<lambda>(k', _). k' \<le> k) xs of [] \<Rightarrow> None | ys \<Rightarrow> Some (last ys))"

text \<open>A cast that fails answers a null pointer, so the class of a value is a parameter.\<close>

definition accessGlobal :: "('v \<Rightarrow> bool) \<Rightarrow> 'v Impl \<Rightarrow> addr \<Rightarrow> mem_error + 'v option \<times> addr" where
  "accessGlobal isGlobalValue S realPtr =
     (if realPtr > constantEnd S \<or> realPtr < constantStart S then Inl (IllegalLoad realPtr)
      else case less_or_equal (constantsBwd S) realPtr of
        None \<Rightarrow> Inl (IllegalLoad realPtr)
      | Some (p, v) \<Rightarrow> Inr (if isGlobalValue v then Some v else None, realPtr - p))"

definition accessConstant :: "('v \<Rightarrow> bool) \<Rightarrow> 'v Impl \<Rightarrow> addr \<Rightarrow> mem_error + 'v option" where
  "accessConstant isInstance S realPtr =
     (if realPtr > constantEnd S \<or> realPtr < constantStart S then Inl (IllegalLoad realPtr)
      else case map_of (constantsBwd S) realPtr of
        None \<Rightarrow> Inl (IllegalLoad realPtr)
      | Some v \<Rightarrow> Inr (if isInstance v then Some v else None))"

section \<open>Allocation\<close>

text \<open>The smallest doubling of the chunk size with room for the amount; the loop does not end when the chunk size
  is zero.\<close>

definition calc_real_memory_amount :: "addr \<Rightarrow> addr \<Rightarrow> mem_error + addr" where
  "calc_real_memory_amount amount cs =
     (if amount \<ge> push_bit (8 * 8 - 1) 1 then Inl (OutOfMemory amount)
      else case while_option (\<lambda>c. amount > c) (\<lambda>c. c * 2) cs of None \<Rightarrow> Inl Diverges | Some c \<Rightarrow> Inr c)"

definition next_block :: "addr \<Rightarrow> addr \<Rightarrow> addr \<Rightarrow> addr" where
  "next_block begin_ptr current real_amount =
     (if current mod real_amount = 0 then begin_ptr + current else begin_ptr + (current div real_amount + 1) * real_amount)"

definition AllocateMemory :: "addr \<Rightarrow> 'v Impl \<Rightarrow> mem_error + addr \<times> 'v Impl" where
  "AllocateMemory amount S =
     bindE (calc_real_memory_amount amount (chunk_size (tree S))) (\<lambda>real_amount.
       let ptr = next_block (allocStart S) (currentAllocOffset S) real_amount in
       bindE (tree_allocate ptr amount Uninit Alloca (tree S)) (\<lambda>T.
         Inr (ptr, S\<lparr>tree := T, currentAllocOffset := ptr + real_amount - allocStart S\<rparr>)))"

definition DeallocateMemory :: "addr \<Rightarrow> 'v Impl \<Rightarrow> mem_error + 'v Impl" where
  "DeallocateMemory realPtr S =
     (if \<not> isAPointer S realPtr then Inl (IllegalFree realPtr)
      else bindE (tree_free realPtr Alloca (tree S)) (\<lambda>T. Inr (S\<lparr>tree := T\<rparr>)))"

datatype MallocFill = UNINIT | ZERO

definition MallocMemory :: "addr \<Rightarrow> MallocFill \<Rightarrow> 'v Impl \<Rightarrow> mem_error + addr \<times> 'v Impl" where
  "MallocMemory amount fillWith S =
     bindE (calc_real_memory_amount amount (chunk_size (tree S))) (\<lambda>real_amount.
       let memState = (if fillWith = ZERO then Memset else Uninit);
           ptr = next_block (mallocStart S) (currentMallocOffset S) real_amount in
       bindE (tree_allocate ptr amount memState Malloc (tree S)) (\<lambda>T.
         Inr (ptr, S\<lparr>tree := T, currentMallocOffset := ptr + real_amount - mallocStart S\<rparr>)))"

definition FreeMemory :: "addr \<Rightarrow> 'v Impl \<Rightarrow> mem_error + 'v Impl" where
  "FreeMemory realPtr S =
     (if \<not> isAPointer S realPtr then Inl (IllegalFree realPtr)
      else bindE (tree_free realPtr Malloc (tree S)) (\<lambda>T. Inr (S\<lparr>tree := T\<rparr>)))"

section \<open>Loads and stores\<close>

text \<open>The parameters read and write host memory for a pointer of the constant space.  A store of an integer
  stores the low bytes of its words, on a little-endian host.\<close>

definition StoreBytesToMemory ::
  "(addr \<Rightarrow> byte list \<Rightarrow> 'v Impl \<Rightarrow> mem_error + 'v Impl) \<Rightarrow> byte list \<Rightarrow> addr \<Rightarrow> 'v Impl \<Rightarrow> mem_error + 'v Impl" where
  "StoreBytesToMemory write_global buffer realPtr S =
     (if \<not> isAPointer S realPtr then Inl (IllegalStore realPtr)
      else if isFromGlobalSpace S realPtr then write_global realPtr buffer S
      else bindE (tree_store realPtr buffer (tree S)) (\<lambda>T. Inr (S\<lparr>tree := T\<rparr>)))"

definition StoreIntToMemory ::
  "(addr \<Rightarrow> byte list \<Rightarrow> 'v Impl \<Rightarrow> mem_error + 'v Impl) \<Rightarrow> byte list \<Rightarrow> nat \<Rightarrow> addr \<Rightarrow> 'v Impl \<Rightarrow> mem_error + 'v Impl" where
  "StoreIntToMemory write_global rawData amount realPtr S =
     (if \<not> isAPointer S realPtr then Inl (IllegalStore realPtr)
      else if length rawData < amount then Inl OutOfBuffer
      else StoreBytesToMemory write_global (take amount rawData) realPtr S)"

text \<open>The answer is \<open>None\<close> for \<open>UNKNOWN\<close>, and else the bytes copied into the integer.\<close>

definition LoadIntFromMemory ::
  "(addr \<Rightarrow> addr \<Rightarrow> 'v Impl \<Rightarrow> mem_error + byte option list option \<times> 'v Impl) \<Rightarrow> addr \<Rightarrow> addr \<Rightarrow> 'v Impl
    \<Rightarrow> mem_error + byte option list option \<times> 'v Impl" where
  "LoadIntFromMemory read_global amount realPtr S =
     (if \<not> isAPointer S realPtr then Inl (IllegalLoad realPtr)
      else let cs = chunk_size (tree S) in
        bindE (assertE (amount \<le> cs)) (\<lambda>_.
        if realPtr div cs \<noteq> (realPtr + amount - 1) div cs then Inl (Unsupported realPtr)
        else if isFromGlobalSpace S realPtr then read_global realPtr amount S
        else bindE (tree_get realPtr (tree S)) (\<lambda>load. case load_state load of
            Memset \<Rightarrow> Inr (Some (replicate (unat amount) (Some (filledWith load))), S)
          | Uninit \<Rightarrow> Inr (None, S)
          | UnknownState \<Rightarrow> (case load_ptr load of
              Some bs \<Rightarrow> if unat amount \<le> length bs then Inr (Some (take (unat amount) bs), S) else Inl OutOfBuffer
            | None \<Rightarrow> Inl OutOfBuffer))))"

definition MemsetMemory :: "addr \<Rightarrow> byte \<Rightarrow> addr \<Rightarrow> 'v Impl \<Rightarrow> mem_error + 'v Impl" where
  "MemsetMemory realPtr fill_byte amount S =
     (if \<not> isAPointer S realPtr then Inl (IllegalStore realPtr)
      else bindE (tree_memset realPtr fill_byte amount (tree S)) (\<lambda>T. Inr (S\<lparr>tree := T\<rparr>)))"

text \<open>\<open>LoadBytesFromMemory\<close> copies the bytes of one chunk per turn of its loop; a slice outside of the buffer is an
  assertion of LLVM.  The loop need not end, and then the answer is \<open>None\<close>.\<close>

definition bytes_of_chunk :: "loadTraverser \<Rightarrow> nat \<Rightarrow> mem_error + byte option list option" where
  "bytes_of_chunk current n = (case load_state current of
      Memset \<Rightarrow> Inr (Some (replicate n (Some (filledWith current))))
    | Uninit \<Rightarrow> Inr None
    | UnknownState \<Rightarrow> (case load_ptr current of
        Some bs \<Rightarrow> if n \<le> length bs then Inr (Some (take n bs)) else Inl OutOfBuffer
      | None \<Rightarrow> if n = 0 then Inr (Some []) else Inl OutOfBuffer))"

definition slice_size :: "addr \<Rightarrow> addr \<Rightarrow> addr \<Rightarrow> addr \<Rightarrow> addr" where
  "slice_size cs amount offset loaded =
     (let current_size = cs - offset mod cs in
      if amount - loaded < cs then (let leftover = amount - loaded - offset mod cs in current_size - (cs - leftover)) else current_size)"

partial_function (option) load_bytes_loop ::
  "SegmentTree \<Rightarrow> addr \<Rightarrow> addr \<Rightarrow> addr \<Rightarrow> addr \<Rightarrow> byte option list \<Rightarrow> (mem_error + byte option list option) option" where
  "load_bytes_loop T amount offset loaded ptr buffer =
     (if \<not> loaded < amount then Some (Inr (Some buffer))
      else case tree_get ptr T of
        Inl e \<Rightarrow> Some (Inl e)
      | Inr current \<Rightarrow>
          (let n = slice_size (chunk_size T) amount offset loaded in
           if unat loaded + unat n > unat amount then Some (Inl AssertionFailed)
           else case bytes_of_chunk current (unat n) of
             Inl e \<Rightarrow> Some (Inl e)
           | Inr None \<Rightarrow> Some (Inr None)
           | Inr (Some bs) \<Rightarrow> load_bytes_loop T amount (offset + n) (loaded + n) (ptr + n) (buffer @ bs)))"

definition LoadBytesFromMemory ::
  "(addr \<Rightarrow> addr \<Rightarrow> 'v Impl \<Rightarrow> mem_error + byte option list option \<times> 'v Impl) \<Rightarrow> addr \<Rightarrow> addr \<Rightarrow> 'v Impl
    \<Rightarrow> (mem_error + byte option list option \<times> 'v Impl) option" where
  "LoadBytesFromMemory read_global amount ptr S =
     (if \<not> isAPointer S ptr then Some (Inl (IllegalLoad ptr))
      else if isFromGlobalSpace S ptr then Some (read_global ptr amount S)
      else map_option (\<lambda>res. bindE res (\<lambda>bs. Inr (bs, S)))
        (load_bytes_loop (tree S) amount (ptr - tree_start (tree S)) 0 ptr []))"

end
