(* ===== verification/SimulatorCorrect.thy ===== *)
theory SimulatorCorrect
  imports MemorySimulator
begin

text \<open>
  Correctness of the executor's memory (src/Executor/MemorySimulator.cpp): in a well-formed simulator with room for
  the block, an allocation succeeds with a new segment that is disjoint from all others; a store inside a segment
  succeeds, is read back and gives no other byte another value; loads of integers read the bytes of the tree; a release takes a
  segment away for loads, stores and further releases; and what the code gets wrong, as closed facts.
\<close>

section \<open>Block sizes\<close>

lemma calc_spec:
  assumes "calc_real_memory_amount amount cs = Inr r" "0 < cs"
  shows "\<exists>k. unat r = unat cs * 2 ^ k \<and> unat amount \<le> unat r \<and> (k = 0 \<or> unat cs * 2 ^ (k - 1) < unat amount)"
proof -
  have small: "unat amount < 2 ^ 63" and w: "while_option (\<lambda>c. amount > c) (\<lambda>c. c * 2) cs = Some r"
    using assms(1) by (auto simp: calc_real_memory_amount_def word_less_nat_alt not_le split: if_splits option.splits)
  have "\<exists>k. unat r = unat cs * 2 ^ k \<and> (k = 0 \<or> unat cs * 2 ^ (k - 1) < unat amount)"
  proof (rule while_option_rule[OF _ w, where P = "\<lambda>c. \<exists>k. unat c = unat cs * 2 ^ k \<and> (k = 0 \<or> unat cs * 2 ^ (k - 1) < unat amount)"])
    fix c assume "\<exists>k. unat c = unat cs * 2 ^ k \<and> (k = 0 \<or> unat cs * 2 ^ (k - 1) < unat amount)" "amount > c"
    then obtain k where k: "unat c = unat cs * 2 ^ k" "unat c < unat amount" by (auto simp: word_less_nat_alt)
    have "unat (c * 2) = unat cs * 2 ^ Suc k" using k small by (simp add: unat_word_ariths(2))
    then show "\<exists>k. unat (c * 2) = unat cs * 2 ^ k \<and> (k = 0 \<or> unat cs * 2 ^ (k - 1) < unat amount)" using k by (intro exI[of _ "Suc k"]) simp
  qed (auto intro: exI[of _ 0])
  moreover have "unat amount \<le> unat r" using while_option_stop[OF w] by (simp add: word_less_nat_alt)
  ultimately show ?thesis by blast
qed

lemma calc_total:
  assumes "0 < cs" "amount < push_bit 63 1"
  shows "\<exists>r. calc_real_memory_amount amount cs = Inr r"
proof -
  have small: "unat amount < 2 ^ 63" using assms(2) by (simp add: word_less_nat_alt)
  have "\<exists>r. while_option (\<lambda>c. amount > c) (\<lambda>c. c * 2) cs = Some r"
  proof (rule measure_while_option_Some[where P = "\<lambda>c. 0 < c" and f = "\<lambda>c. unat amount - unat c"])
    fix c :: addr assume c: "0 < c" "c < amount"
    then have "unat (c * 2) = unat c * 2" using small by (simp add: unat_word_ariths(2) word_less_nat_alt)
    then show "0 < c * 2 \<and> unat amount - unat (c * 2) < unat amount - unat c" using c by (simp add: word_less_nat_alt)
  qed (use assms in simp)
  then show ?thesis using assms(2) by (auto simp: calc_real_memory_amount_def not_le)
qed

text \<open>The offset of the next block: the current offset rounded up to a multiple of the block.\<close>

definition block_offset :: "addr \<Rightarrow> addr \<Rightarrow> nat" where
  "block_offset current real_amount = (if unat current mod unat real_amount = 0 then unat current
     else (unat current div unat real_amount + 1) * unat real_amount)"

lemma block_offset_bounds:
  assumes "0 < unat real_amount"
  shows "unat current \<le> block_offset current real_amount" "unat real_amount dvd block_offset current real_amount"
  using dividend_less_div_times[OF assms, of "unat current"] by (auto simp: block_offset_def dvd_eq_mod_eq_0)

lemma next_block_unat:
  assumes "unat begin_ptr + block_offset current real_amount < 2 ^ 64" "0 < unat real_amount"
  shows "unat (next_block begin_ptr current real_amount) = unat begin_ptr + block_offset current real_amount"
proof (cases "unat current mod unat real_amount = 0")
  case True
  then show ?thesis using assms by (simp add: next_block_def block_offset_def unat_word_ariths(1) unat_mod word_unat_eq_iff)
next
  case False
  then have b: "block_offset current real_amount = (unat current div unat real_amount + 1) * unat real_amount" by (simp add: block_offset_def)
  have q: "(unat current div unat real_amount + 1) * 1 \<le> block_offset current real_amount"
    unfolding b using assms(2) by (intro mult_le_mono2) simp
  then have "unat (current div real_amount + 1) = unat current div unat real_amount + 1"
    using assms(1) by (simp add: unat_word_ariths(1) unat_div)
  then have "unat ((current div real_amount + 1) * real_amount) = block_offset current real_amount"
    using assms(1) b by (simp add: unat_word_ariths(2))
  moreover have "current mod real_amount \<noteq> 0" using False by (simp add: word_unat_eq_iff unat_mod)
  ultimately show ?thesis using assms(1) by (simp add: next_block_def unat_word_ariths(1))
qed

section \<open>The invariant of the simulator\<close>

abbreviation tree_segments :: "SegmentTree \<Rightarrow> (addr \<times> addr \<times> addr) set" where
  "tree_segments T \<equiv> segments (tree_start T) (tree_end T) (root T)"

definition tree_byte :: "SegmentTree \<Rightarrow> addr \<Rightarrow> byte option" where
  "tree_byte T q = node_byte (chunk_size T) q (root T) (tree_start T) (tree_end T)"

definition tree_middle :: "SegmentTree \<Rightarrow> addr" where
  "tree_middle T = middle (tree_start T) (tree_end T)"

text \<open>The tree is two halves of \<open>2 ^ m\<close> chunks, for the stack and the heap; everything below the constants and
  above the two offsets is free.\<close>

definition tree_ok :: "nat \<Rightarrow> SegmentTree \<Rightarrow> addr \<Rightarrow> addr \<Rightarrow> bool" where
  "tree_ok m T stack heap \<longleftrightarrow> 0 < chunk_size T \<and> unat (tree_end T) = unat (tree_start T) + unat (chunk_size T) * 2 ^ Suc m
    \<and> wf_tree (chunk_size T) (tree_start T) (tree_end T) (root T) \<and> status (force (root T)) = Unallocated
    \<and> fresh (tree_start T + stack) (tree_start T) (tree_middle T) (left_child (force (root T)))
    \<and> fresh (tree_middle T + heap) (tree_middle T) (tree_end T) (right_child (force (root T)))
    \<and> unat stack \<le> unat (chunk_size T) * 2 ^ m \<and> unat heap \<le> unat (chunk_size T) * 2 ^ m"

definition sim_ok :: "nat \<Rightarrow> 'v Impl \<Rightarrow> bool" where
  "sim_ok m S \<longleftrightarrow> tree_ok m (tree S) (currentAllocOffset S) (currentMallocOffset S)
    \<and> allocStart S = tree_start (tree S) \<and> allocEnd S = tree_middle (tree S) \<and> mallocStart S = tree_middle (tree S)
    \<and> mallocEnd S = tree_end (tree S) \<and> constantEnd S \<le> tree_start (tree S)"

lemma tree_halves:
  assumes "tree_ok m T stack heap"
  shows "unat (tree_middle T) = unat (tree_start T) + unat (chunk_size T) * 2 ^ m" "unat (tree_end T) = unat (tree_middle T) + unat (chunk_size T) * 2 ^ m"
    and "tree_start T < tree_middle T" "tree_middle T < tree_end T" "tree_start T < tree_end T"
    and "\<not> tree_end T - tree_start T \<le> chunk_size T" "unat ((tree_end T - tree_start T) div 2) = unat (chunk_size T) * 2 ^ m"
    and "unat (tree_end T - tree_start T) = 2 * (unat (chunk_size T) * 2 ^ m)"
proof -
  have cs: "0 < unat (chunk_size T)" using assms by (simp add: tree_ok_def word_less_nat_alt)
  have en: "unat (tree_end T) = unat (tree_start T) + 2 * (unat (chunk_size T) * 2 ^ m)" using assms by (simp add: tree_ok_def)
  show lt: "tree_start T < tree_end T" using en cs by (simp add: word_less_nat_alt)
  show size: "unat (tree_end T - tree_start T) = 2 * (unat (chunk_size T) * 2 ^ m)"
    using en unat_sub[OF order_less_imp_le[OF lt]] by simp
  then show "unat ((tree_end T - tree_start T) div 2) = unat (chunk_size T) * 2 ^ m" by (simp add: unat_div)
  show mid: "unat (tree_middle T) = unat (tree_start T) + unat (chunk_size T) * 2 ^ m" using middle_unat[OF lt] en by (simp add: tree_middle_def)
  show "unat (tree_end T) = unat (tree_middle T) + unat (chunk_size T) * 2 ^ m" using mid en by simp
  show "tree_start T < tree_middle T" "tree_middle T < tree_end T" using mid en cs by (simp_all add: word_less_nat_alt)
  have "unat (chunk_size T) * 1 \<le> unat (chunk_size T) * 2 ^ m" by (intro mult_le_mono2) simp
  then show "\<not> tree_end T - tree_start T \<le> chunk_size T" unfolding word_le_nat_alt size using cs by linarith
qed

section \<open>Allocations\<close>

text \<open>One half of the tree, from \<open>lo\<close> to \<open>hi\<close>, bare from the current offset on.\<close>

lemma half_allocation:
  assumes "0 < cs" "wf_tree cs lo hi t" "fresh (lo + current) lo hi t" "unat hi = unat lo + unat cs * 2 ^ m"
    and "alloc_status tr \<noteq> Unallocated" "alloc_state tr \<noteq> UnknownState" "calc_real_memory_amount (alloc_size tr) cs = Inr r"
    and "block_offset current r + unat r \<le> unat cs * 2 ^ m"
  defines "p \<equiv> next_block lo current r"
  shows "\<exists>t'. traverse (alloc_handlers cs) cs tr p t lo hi = Inr (tr, t') \<and> allocates cs tr p (p + r) lo hi t t'"
    and "lo + current \<le> p" "lo \<le> p" "p < p + r" "p + r \<le> hi" "unat (p + r - lo) = block_offset current r + unat r" "unat (alloc_size tr) \<le> unat cs * 2 ^ m"
proof -
  obtain k where k: "unat r = unat cs * 2 ^ k" "unat (alloc_size tr) \<le> unat r" "k = 0 \<or> unat cs * 2 ^ (k - 1) < unat (alloc_size tr)"
    using calc_spec[OF assms(7,1)] by blast
  have cs: "0 < unat cs" using assms(1) by (simp add: word_less_nat_alt)
  then have r: "0 < unat r" using k(1) by simp
  note b = block_offset_bounds[OF r, of current]
  have top: "unat lo + unat cs * 2 ^ m < 2 ^ 64" using assms(4) unsigned_less[of hi, where ?'a = nat] by simp
  have p: "unat p = unat lo + block_offset current r" unfolding p_def using assms(8) top r by (intro next_block_unat) simp_all
  have pr: "unat (p + r) = unat p + unat r" using p assms(8) top by (simp add: unat_word_ariths(1))
  have cur: "unat (lo + current) = unat lo + unat current" using b(1) assms(8) top by (simp add: unat_word_ariths(1))
  show "lo + current \<le> p" "lo \<le> p" "p < p + r" using p cur b(1) pr r by (auto simp: word_le_nat_alt word_less_nat_alt)
  show e: "p + r \<le> hi" using p pr assms(4,8) by (simp add: word_le_nat_alt)
  show "unat (p + r - lo) = block_offset current r + unat r" using p pr by (subst unat_sub) (auto simp: word_le_nat_alt)
  have km: "k \<le> m"
  proof -
    have "unat cs * 2 ^ k \<le> unat cs * 2 ^ m" using assms(8) unfolding k(1) by (rule add_leD2)
    then show ?thesis using cs by simp
  qed
  show "unat (alloc_size tr) \<le> unat cs * 2 ^ m" using k(2) assms(8) by simp
  have "unat cs * 2 ^ k dvd unat p - unat lo" using p b(2) k(1) by simp
  then show "\<exists>t'. traverse (alloc_handlers cs) cs tr p t lo hi = Inr (tr, t') \<and> allocates cs tr p (p + r) lo hi t t'"
    using p pr cur b(1) r assms(4,8) k
    by (intro allocation_succeeds[OF assms(1-3) _ assms(5,6,4) km]) (auto simp: word_le_nat_alt word_less_nat_alt)
qed

text \<open>An allocation in one of the halves of the whole tree.\<close>

lemma force_Some [simp]: "force (Some n) = n"
  by (simp add: force_def)

definition lower_half :: "SegmentTree \<Rightarrow> SegmentNode option" where
  "lower_half T = derive_child (force (root T)) (left_child (force (root T)))"

definition upper_half :: "SegmentTree \<Rightarrow> SegmentNode option" where
  "upper_half T = derive_child (force (root T)) (right_child (force (root T)))"

lemma tree_ok_halves:
  assumes "tree_ok m T stack heap"
  shows "wf_tree (chunk_size T) (tree_start T) (tree_middle T) (lower_half T)" "wf_tree (chunk_size T) (tree_middle T) (tree_end T) (upper_half T)"
    and "fresh (tree_start T + stack) (tree_start T) (tree_middle T) (lower_half T)" "fresh (tree_middle T + heap) (tree_middle T) (tree_end T) (upper_half T)"
  using assms wf_children[of "chunk_size T" "tree_start T" "tree_end T" "root T"]
  by (auto simp: tree_ok_def lower_half_def upper_half_def tree_middle_def fresh_derive)

lemma tree_segments_halves:
  assumes "tree_ok m T stack heap"
  shows "tree_segments T = segments (tree_start T) (tree_middle T) (lower_half T) \<union> segments (tree_middle T) (tree_end T) (upper_half T)"
  using assms by (simp add: tree_ok_def lower_half_def upper_half_def tree_middle_def segments_derive segments_forced[where t = "root T"])

lemma fresh_segments:
  assumes "(s, e, a) \<in> segments lo hi t" "fresh p lo hi t" shows "e \<le> p"
  using assms
proof (induction p lo hi t rule: fresh.induct)
  case (2 p lo hi st sx f c l r a')
  then show ?case by (cases "p \<le> lo") (auto split: if_splits)
qed simp

text \<open>What a new block does to a tree: one more segment, apart from all others, with its first contents.\<close>

definition new_segment :: "addr \<Rightarrow> addr \<Rightarrow> addr \<Rightarrow> byte option \<Rightarrow> SegmentTree \<Rightarrow> SegmentTree \<Rightarrow> bool" where
  "new_segment p e amount b T T' \<longleftrightarrow> p < e \<and> amount \<le> e - p \<and> tree_segments T' = insert (p, e, amount) (tree_segments T)
    \<and> (\<forall>(s', e', a') \<in> tree_segments T. e' \<le> p \<or> e \<le> s')
    \<and> (\<forall>q. tree_start T \<le> q \<longrightarrow> q < tree_end T \<longrightarrow> tree_byte T' q = (if p \<le> q \<and> q < e then b else tree_byte T q))"

lemma stack_allocation:
  assumes "tree_ok m T stack heap" "calc_real_memory_amount amount (chunk_size T) = Inr r"
    and "block_offset stack r + unat r \<le> unat (chunk_size T) * 2 ^ m" "st \<noteq> UnknownState" "sta \<noteq> Unallocated"
  defines "p \<equiv> next_block (tree_start T) stack r"
  shows "\<exists>T'. tree_allocate p amount st sta T = Inr T' \<and> tree_ok m T' (p + r - tree_start T) heap
    \<and> new_segment p (p + r) amount (if st = Memset then Some 0 else None) T T'
    \<and> tree_start T' = tree_start T \<and> tree_end T' = tree_end T \<and> chunk_size T' = chunk_size T"
proof -
  define tr where "tr = \<lparr>alloc_state = st, alloc_status = sta, alloc_size = amount\<rparr>"
  note h = tree_halves[OF assms(1)] and k = tree_ok_halves[OF assms(1)]
  have cs: "0 < chunk_size T" using assms(1) by (simp add: tree_ok_def)
  have tr: "alloc_status tr \<noteq> Unallocated" "alloc_state tr \<noteq> UnknownState" "calc_real_memory_amount (alloc_size tr) (chunk_size T) = Inr r"
    using assms(2,4,5) by (simp_all add: tr_def)
  have sz: "alloc_size tr = amount" by (simp add: tr_def)
  note A = half_allocation[OF cs k(1,3) h(1) tr assms(3), folded p_def]
  obtain l where l: "traverse (alloc_handlers (chunk_size T)) (chunk_size T) tr p (lower_half T) (tree_start T) (tree_middle T) = Inr (tr, l)"
      "allocates (chunk_size T) tr p (p + r) (tree_start T) (tree_middle T) (lower_half T) l" using A(1) by blast
  have amount: "unat amount \<le> unat (chunk_size T) * 2 ^ m" using A(7) by (simp add: tr_def)
  then have fit: "amount \<le> tree_end T - tree_start T" "\<not> (tree_end T - tree_start T) div 2 < amount"
    using h(7,8) by (auto simp: word_le_nat_alt word_less_nat_alt)
  have pm: "p < tree_middle T" "tree_start T \<le> p" "p < tree_end T" using A(3-5) h(4) by auto
  define T' where "T' = T\<lparr>root := Some (with_left l (derived (root T)))\<rparr>"
  have "traverse (alloc_handlers (chunk_size T)) (chunk_size T) tr p (root T) (tree_start T) (tree_end T) = Inr (tr, Some (with_left l (derived (root T))))"
    using l(1) h(5,6) fit pm by (simp add: alloc_unfold[of _ tr] sz lower_half_def tree_middle_def)
  then have run: "tree_allocate p amount st sta T = Inr T'" using fit by (simp add: tree_allocate_def traverse_tree_def tr_def T'_def)
  have un: "status (force (root T)) = Unallocated" "wf_tree (chunk_size T) (tree_start T) (tree_end T) (root T)" using assms(1) by (simp_all add: tree_ok_def)
  have ne: "middle (tree_start T) (tree_end T) \<noteq> tree_start T" using h(3) by (simp add: tree_middle_def)
  have add: "adds (chunk_size T) tr p (p + r) (tree_start T) (tree_end T) (root T) (Some (with_left l (derived (root T))))"
    using l(2) un A(3-5) h(5,6) ne
    by (intro adds_left) (auto simp: allocates_def lower_half_def tree_middle_def)
  have off: "tree_start T + (p + r - tree_start T) = p + r" by simp
  have "tree_ok m T' (p + r - tree_start T) heap"
    using assms(1,3) add un l(2) A(6) k(4) off
    by (simp add: tree_ok_def T'_def adds_def allocates_def upper_half_def tree_middle_def)
  moreover have "e' \<le> p \<or> p + r \<le> s'" if "(s', e', a') \<in> tree_segments T" for s' e' a'
    using that A(2,5) fresh_segments[OF _ k(3)] segment_bounds[OF _ k(2) h(4) cs] unfolding tree_segments_halves[OF assms(1)]
    by (meson UnE order_trans)
  moreover have "amount \<le> p + r - p" using calc_spec[OF assms(2) cs] by (auto simp: word_le_nat_alt)
  ultimately show ?thesis using run add A(4)
    by (auto simp: new_segment_def adds_def T'_def tr_def tree_byte_def)
qed

lemma heap_allocation:
  assumes "tree_ok m T stack heap" "calc_real_memory_amount amount (chunk_size T) = Inr r"
    and "block_offset heap r + unat r \<le> unat (chunk_size T) * 2 ^ m" "st \<noteq> UnknownState" "sta \<noteq> Unallocated"
  defines "p \<equiv> next_block (tree_middle T) heap r"
  shows "\<exists>T'. tree_allocate p amount st sta T = Inr T' \<and> tree_ok m T' stack (p + r - tree_middle T)
    \<and> new_segment p (p + r) amount (if st = Memset then Some 0 else None) T T'
    \<and> tree_start T' = tree_start T \<and> tree_end T' = tree_end T \<and> chunk_size T' = chunk_size T"
proof -
  define tr where "tr = \<lparr>alloc_state = st, alloc_status = sta, alloc_size = amount\<rparr>"
  note h = tree_halves[OF assms(1)] and k = tree_ok_halves[OF assms(1)]
  have cs: "0 < chunk_size T" using assms(1) by (simp add: tree_ok_def)
  have tr: "alloc_status tr \<noteq> Unallocated" "alloc_state tr \<noteq> UnknownState" "calc_real_memory_amount (alloc_size tr) (chunk_size T) = Inr r"
    using assms(2,4,5) by (simp_all add: tr_def)
  have sz: "alloc_size tr = amount" by (simp add: tr_def)
  note A = half_allocation[OF cs k(2,4) h(2) tr assms(3), folded p_def]
  obtain l where l: "traverse (alloc_handlers (chunk_size T)) (chunk_size T) tr p (upper_half T) (tree_middle T) (tree_end T) = Inr (tr, l)"
      "allocates (chunk_size T) tr p (p + r) (tree_middle T) (tree_end T) (upper_half T) l" using A(1) by blast
  have amount: "unat amount \<le> unat (chunk_size T) * 2 ^ m" using A(7) by (simp add: tr_def)
  then have fit: "amount \<le> tree_end T - tree_start T" "\<not> (tree_end T - tree_start T) div 2 < amount"
    using h(7,8) by (auto simp: word_le_nat_alt word_less_nat_alt)
  have pm: "\<not> p < tree_middle T" "tree_start T \<le> p" "p < tree_end T" using A(3-5) h(3) by auto
  define T' where "T' = T\<lparr>root := Some (with_right l (derived (root T)))\<rparr>"
  have ne: "middle (tree_start T) (tree_end T) \<noteq> tree_start T" using h(3) by (simp add: tree_middle_def)
  have "traverse (alloc_handlers (chunk_size T)) (chunk_size T) tr p (root T) (tree_start T) (tree_end T) = Inr (tr, Some (with_right l (derived (root T))))"
    using l(1) h(5,6) fit pm ne by (simp add: alloc_unfold[of _ tr] sz upper_half_def tree_middle_def)
  then have run: "tree_allocate p amount st sta T = Inr T'" using fit by (simp add: tree_allocate_def traverse_tree_def tr_def T'_def)
  have un: "status (force (root T)) = Unallocated" "wf_tree (chunk_size T) (tree_start T) (tree_end T) (root T)" using assms(1) by (simp_all add: tree_ok_def)
  have add: "adds (chunk_size T) tr p (p + r) (tree_start T) (tree_end T) (root T) (Some (with_right l (derived (root T))))"
    using l(2) un A(3-5) h(5,6) ne
    by (intro adds_right) (auto simp: allocates_def upper_half_def tree_middle_def)
  have off: "tree_middle T + (p + r - tree_middle T) = p + r" by simp
  have "tree_ok m T' stack (p + r - tree_middle T)"
    using assms(1,3) add un l(2) A(6) k(3) off
    by (simp add: tree_ok_def T'_def adds_def allocates_def lower_half_def tree_middle_def)
  moreover have "e' \<le> p \<or> p + r \<le> s'" if "(s', e', a') \<in> tree_segments T" for s' e' a'
    using that A(2,3) fresh_segments[OF _ k(4)] segment_bounds[OF _ k(1) h(3) cs] unfolding tree_segments_halves[OF assms(1)]
    by (meson UnE order_trans)
  moreover have "amount \<le> p + r - p" using calc_spec[OF assms(2) cs] by (auto simp: word_le_nat_alt)
  ultimately show ?thesis using run add A(4)
    by (auto simp: new_segment_def adds_def T'_def tr_def tree_byte_def)
qed

section \<open>Stores\<close>

lemma store_keeps_tree_ok:
  assumes "tree_store ptr data T = Inr T'" "tree_ok m T stack heap"
  shows "tree_ok m T' stack heap \<and> tree_segments T' = tree_segments T \<and> tree_start T' = tree_start T \<and> tree_end T' = tree_end T
    \<and> chunk_size T' = chunk_size T"
proof -
  define tr where "tr = \<lparr>store_data = data, didAlloc = False\<rparr>"
  obtain x t' where run: "traverse (store_handlers (chunk_size T)) (chunk_size T) tr ptr (root T) (tree_start T) (tree_end T) = Inr (x, t')"
      and T': "T' = T\<lparr>root := t'\<rparr>"
    using assms(1) by (auto simp: tree_store_def traverse_tree_def bindE_Inr tr_def)
  have na: "\<not> didAlloc tr" by (simp add: tr_def)
  have un: "status (force (root T)) = Unallocated" and wf: "wf_tree (chunk_size T) (tree_start T) (tree_end T) (root T)"
    using assms(2) by (simp_all add: tree_ok_def)
  have tr1: "tr1 = tr" if "checkAllocation tr (force (root T)) (tree_start T) ptr = Inr tr1" for tr1
    using that un by (simp add: checkAllocation_def)
  note h = tree_halves[OF assms(2)] and k = tree_ok_halves(3,4)[OF assms(2), unfolded lower_half_def upper_half_def]
    and keep = store_keeps_fresh[OF _ _ k(1), unfolded tree_middle_def] store_keeps_fresh[OF _ _ k(2), unfolded tree_middle_def]
  have "status (force t') = Unallocated \<and> fresh (tree_start T + stack) (tree_start T) (tree_middle T) (left_child (force t'))
    \<and> fresh (tree_middle T + heap) (tree_middle T) (tree_end T) (right_child (force t'))"
    using run
  proof (cases rule: store_step)
    case (chunk tr1 c)
    then show ?thesis using h(6) by simp
  next
    case (split tr1 tl l trr r)
    then show ?thesis using keep(1)[OF split(9)] keep(2)[OF split(10)] tr1[OF split(4)] na un by (simp add: tree_middle_def)
  next
    case (left tr1 l)
    then show ?thesis using keep(1)[OF left(8)] k(2) tr1[OF left(4)] na un by (simp add: tree_middle_def)
  next
    case (right tr1 r)
    then show ?thesis using keep(2)[OF right(8)] k(1) tr1[OF right(4)] na un by (simp add: tree_middle_def)
  qed
  then show ?thesis using store_keeps_wf[OF run wf] assms(2) T' by (simp add: tree_ok_def tree_middle_def)
qed

lemma tree_store_run:
  assumes "tree_store ptr data T = Inr T'"
  obtains x where "traverse (store_handlers (chunk_size T)) (chunk_size T) \<lparr>store_data = data, didAlloc = False\<rparr> ptr (root T) (tree_start T) (tree_end T) = Inr (x, root T')"
    "tree_start T' = tree_start T" "tree_end T' = tree_end T" "chunk_size T' = chunk_size T"
  using assms by (auto simp: tree_store_def traverse_tree_def bindE_Inr)

lemma tree_stored:
  assumes "tree_store ptr data T = Inr T'" "unat ptr + length data \<le> unat (tree_end T)" "unat ptr \<le> unat q" "unat q < unat ptr + length data"
  shows "tree_byte T' q = Some (data ! (unat q - unat ptr))"
proof -
  obtain x where "traverse (store_handlers (chunk_size T)) (chunk_size T) \<lparr>store_data = data, didAlloc = False\<rparr> ptr (root T) (tree_start T) (tree_end T) = Inr (x, root T')"
      "tree_start T' = tree_start T" "tree_end T' = tree_end T" "chunk_size T' = chunk_size T" using assms(1) by (rule tree_store_run)
  then show ?thesis using stored_bytes assms by (fastforce simp: tree_byte_def within_def touches_def)
qed

lemma tree_stored_frame:
  assumes "tree_store ptr data T = Inr T'" "unat ptr + length data \<le> unat (tree_end T)" "\<not> (unat ptr \<le> unat q \<and> unat q < unat ptr + length data)"
    and "tree_ok m T stack heap" "tree_start T \<le> q" "q < tree_end T"
  shows "tree_byte T' q = tree_byte T q \<or> tree_byte T' q = None"
proof -
  obtain x where "traverse (store_handlers (chunk_size T)) (chunk_size T) \<lparr>store_data = data, didAlloc = False\<rparr> ptr (root T) (tree_start T) (tree_end T) = Inr (x, root T')"
      "tree_start T' = tree_start T" "tree_end T' = tree_end T" "chunk_size T' = chunk_size T" using assms(1) by (rule tree_store_run)
  moreover have "settled (root T)" using assms(4) wf_settled by (auto simp: tree_ok_def)
  ultimately show ?thesis using stored_frame[of "chunk_size T" _ ptr "root T" "tree_start T" "tree_end T" _ "root T'" q] assms
    by (fastforce simp: tree_byte_def within_def touches_def)
qed

section \<open>Loads of integers\<close>

definition load_byte :: "loadTraverser \<Rightarrow> nat \<Rightarrow> byte option" where
  "load_byte lt k = (case load_state lt of Memset \<Rightarrow> Some (filledWith lt) | Uninit \<Rightarrow> None | UnknownState \<Rightarrow> chunk_byte (load_ptr lt) k)"

lemma new_load_simps: "load_state new_loadTraverser = UnknownState" "load_ptr new_loadTraverser = None"
  by (simp_all add: new_loadTraverser_def)

lemma chunk_byte_map_drop: "chunk_byte (map_option (drop k) c) j = chunk_byte c (k + j)"
  by (cases c) (auto simp: chunk_byte_def add.commute)

lemma bind_fst: "bindE m (\<lambda>(tr, l). Inr (tr, f l)) = Inr (lt, x) \<longleftrightarrow> (\<exists>y. m = Inr (lt, y) \<and> x = f y)"
  by (cases m) auto

lemma load_Some:
  assumes "lo < hi" "lo \<le> p" "p < hi"
  shows "node_load cs p (Some n) lo hi =
    (if mstate n \<noteq> UnknownState then Inr (new_loadTraverser\<lparr>load_state := mstate n, filledWith := memSetTo n, dataSize := hi - p\<rparr>, Some n)
     else if hi - lo \<le> cs then Inr (new_loadTraverser\<lparr>load_ptr := map_option (drop (unat (p - lo))) (chunk n), dataSize := hi - p\<rparr>, Some n)
     else if p < middle lo hi then bindE (node_load cs p (left_child n) lo (middle lo hi)) (\<lambda>(tr2, l). Inr (tr2, Some (with_left l n)))
     else if middle lo hi = lo then Inl StackOverflow
     else bindE (node_load cs p (right_child n) (middle lo hi) hi) (\<lambda>(tr2, r). Inr (tr2, Some (with_right r n))))"
  using assms by (subst traverse.simps) (simp add: load_handlers_def Let_def)

lemma chunk_end: "o' < c * n \<Longrightarrow> c - o' mod c \<le> c * n - (o' :: nat)"
proof -
  assume a: "o' < c * n"
  then have "o' div c < n" by (simp add: less_mult_imp_div_less mult.commute)
  then have "c * (o' div c + 1) \<le> c * n" by (intro mult_le_mono2) simp
  then have "c * (o' div c) + c \<le> c * n" by simp
  moreover have "c * (o' div c) + o' mod c = o'" by simp
  ultimately show ?thesis by linarith
qed

definition covers :: "addr \<Rightarrow> addr \<Rightarrow> addr \<Rightarrow> addr \<Rightarrow> SegmentNode option \<Rightarrow> loadTraverser \<Rightarrow> bool" where
  "covers cs p lo hi t lt \<longleftrightarrow> unat cs - (unat p - unat lo) mod unat cs \<le> unat (dataSize lt) \<and> unat p + unat (dataSize lt) \<le> unat hi
    \<and> (\<forall>q. p \<le> q \<longrightarrow> unat q - unat p < unat (dataSize lt) \<longrightarrow> node_byte cs q t lo hi = load_byte lt (unat q - unat p))"

text \<open>What a load answers holds up to the end of the node it stopped at, which is at least the end of the chunk.\<close>

lemma load_here:
  assumes "lo < hi" "lo \<le> p" "p < hi" "unat hi = unat lo + unat cs * 2 ^ m" "mstate n \<noteq> UnknownState \<or> hi - lo \<le> cs"
    and "node_load cs p (Some n) lo hi = Inr (lt, x)"
  shows "covers cs p lo hi (Some n) lt"
proof -
  have d: "dataSize lt = hi - p" using assms(5,6) unfolding load_Some[OF assms(1-3)] by (auto split: if_splits)
  have u: "unat (hi - p) = unat hi - unat p" using assms(3) by (simp add: unat_sub order_less_imp_le)
  have "unat p - unat lo < unat cs * 2 ^ m" using assms(2-4) by (auto simp: word_less_nat_alt word_le_nat_alt)
  then have "unat cs - (unat p - unat lo) mod unat cs \<le> unat cs * 2 ^ m - (unat p - unat lo)" by (rule chunk_end)
  then have s: "unat cs - (unat p - unat lo) mod unat cs \<le> unat (dataSize lt)" using d u assms(2-4) by (auto simp: word_le_nat_alt)
  have "node_byte cs q (Some n) lo hi = load_byte lt (unat q - unat p)" if q: "p \<le> q" "unat q - unat p < unat (dataSize lt)" for q
  proof -
    have r: "lo \<le> q" "q < hi" using q d u assms(2,3) by (auto simp: word_less_nat_alt)
    have "unat (q - lo) = unat (p - lo) + (unat q - unat p)" using assms(2) q(1) by (simp add: unat_sub word_le_nat_alt)
    then show ?thesis using assms(5,6) unfolding load_Some[OF assms(1-3)]
      by (cases "mstate n") (auto simp: node_byte_node[OF assms(1) r] load_byte_def new_load_simps chunk_byte_map_drop split: if_splits)
  qed
  then show ?thesis using s d u assms(3) by (simp add: covers_def word_less_nat_alt)
qed

lemma load_leaf:
  assumes "node_load cs p t lo hi = Inr (lt, x)" "unat hi = unat lo + unat cs * 2 ^ m" "0 < cs"
  shows "covers cs p lo hi t lt"
  using assms
proof (induction m arbitrary: t lo hi x)
  case (0 t lo hi x)
  have range: "lo < hi" "lo \<le> p" "p < hi" using 0(1) by (auto simp: traverse.simps[of _ _ _ _ t] split: if_splits)
  obtain n where n: "t = Some n" using 0(1) load_None[OF range] by (cases t) auto
  have "hi - lo \<le> cs" using 0(2) unat_sub[OF order_less_imp_le[OF range(1)]] by (simp add: word_le_nat_alt)
  then show ?case using load_here[OF range 0(2)] 0(1) n by blast
next
  case (Suc m t lo hi x)
  have range: "lo < hi" "lo \<le> p" "p < hi" using Suc.prems(1) by (auto simp: traverse.simps[of _ _ _ _ t] split: if_splits)
  obtain n where n: "t = Some n" using Suc.prems(1) load_None[OF range] by (cases t) auto
  have mid: "unat (middle lo hi) = unat lo + unat cs * 2 ^ m" "unat hi = unat (middle lo hi) + unat cs * 2 ^ m"
    using middle_unat[OF range(1)] Suc.prems(2) by simp_all
  have m: "middle lo hi \<noteq> lo" using mid(1) Suc.prems(3) by (auto simp: word_less_nat_alt)
  show ?case
  proof (cases "mstate n \<noteq> UnknownState \<or> hi - lo \<le> cs")
    case True
    then show ?thesis using load_here[OF range Suc.prems(2)] Suc.prems(1) n by blast
  next
    case False
    then have un: "mstate n = UnknownState" and path: "\<not> hi - lo \<le> cs" by auto
    have byte: "node_byte cs q (Some n) lo hi = (if q < middle lo hi then node_byte cs q (left_child n) lo (middle lo hi)
        else node_byte cs q (right_child n) (middle lo hi) hi)" if "lo \<le> q" "q < hi" for q
      using path_byte[OF range(1) that path m un] .
    show ?thesis
    proof (cases "p < middle lo hi")
      case True
      obtain y where "node_load cs p (left_child n) lo (middle lo hi) = Inr (lt, y)"
        using Suc.prems(1) True un path unfolding n load_Some[OF range] by (auto simp: bind_fst)
      from Suc.IH[OF this mid(1) Suc.prems(3)] show ?thesis using byte range(2) mid unfolding n covers_def
        by (auto simp: word_less_nat_alt word_le_nat_alt)
    next
      case False
      obtain y where "node_load cs p (right_child n) (middle lo hi) hi = Inr (lt, y)"
        using Suc.prems(1) False un path m unfolding n load_Some[OF range] by (auto simp: bind_fst)
      from Suc.IH[OF this mid(2) Suc.prems(3)] have IH: "covers cs p (middle lo hi) hi (right_child n) lt" .
      have "(unat p - unat lo) mod unat cs = (unat p - unat (middle lo hi) + unat cs * 2 ^ m) mod unat cs"
        using mid(1) False by (simp add: word_less_nat_alt)
      then have "(unat p - unat lo) mod unat cs = (unat p - unat (middle lo hi)) mod unat cs" by simp
      then show ?thesis using IH byte range(2) False mid unfolding n covers_def
        by (auto simp: word_less_nat_alt word_le_nat_alt)
    qed
  qed
qed

lemma covers_tree:
  assumes "tree_ok m T stack heap" "tree_get p T = Inr lt"
  shows "tree_start T \<le> p \<and> p < tree_end T \<and> covers (chunk_size T) p (tree_start T) (tree_end T) (root T) lt"
proof -
  obtain x where x: "node_load (chunk_size T) p (root T) (tree_start T) (tree_end T) = Inr (lt, x)"
    using assms(2) by (auto simp: tree_get_def traverse_tree_def bindE_Inr)
  have "tree_start T \<le> p" "p < tree_end T" using x by (auto simp: traverse.simps[of _ _ _ _ "root T"] split: if_splits)
  then show ?thesis using load_leaf[OF x, of "Suc m"] assms(1) by (simp add: tree_ok_def)
qed

text \<open>An integer that does not cross the border of a chunk ends within the node a load of its address stops at.\<close>

definition in_chunk :: "addr \<Rightarrow> addr \<Rightarrow> addr \<Rightarrow> bool" where
  "in_chunk cs ptr amount \<longleftrightarrow> amount \<le> cs \<and> ptr div cs = (ptr + amount - 1) div cs"

lemma in_chunk_nat:
  assumes "in_chunk cs ptr amount" "0 < amount" "2 * unat cs < 2 ^ 64"
  shows "unat ptr mod unat cs + unat amount \<le> unat cs"
proof -
  define n where "n = unat amount - 1"
  have a: "0 < unat amount" "unat amount \<le> unat cs" using assms by (auto simp: in_chunk_def word_le_nat_alt word_less_nat_alt)
  have last: "unat (ptr + amount - 1) = (unat ptr + n) mod 2 ^ 64"
  proof -
    have e: "ptr + amount - 1 = ptr + of_nat n" using a by (simp add: n_def of_nat_diff)
    have "n mod 2 ^ 64 = n" using unsigned_less[of amount, where ?'a = nat] by (simp add: n_def)
    then show ?thesis unfolding e by (simp add: unat_word_ariths(1) unat_of_nat take_bit_eq_mod)
  qed
  have d: "unat ptr div unat cs = unat (ptr + amount - 1) div unat cs" using assms(1) by (simp add: in_chunk_def word_unat_eq_iff unat_div)
  have nowrap: "unat ptr + n < 2 ^ 64"
  proof (rule ccontr)
    assume w: "\<not> ?thesis"
    have b: "unat ptr + n < 2 * 2 ^ 64" using unsigned_less[of ptr, where ?'a = nat] unsigned_less[of amount, where ?'a = nat] by (simp add: n_def)
    then have "unat (ptr + amount - 1) = unat ptr + n - 2 ^ 64" using last w by (simp add: mod_if)
    then have "unat (ptr + amount - 1) < unat cs" using a w unsigned_less[of ptr, where ?'a = nat] by (simp add: n_def)
    then have "unat ptr < unat cs" using d a by (simp add: div_eq_0_iff)
    then show False using w assms(3) a by (simp add: n_def)
  qed
  then have d': "unat ptr div unat cs = (unat ptr + n) div unat cs" using d last by simp
  have "unat ptr mod unat cs + n < unat cs"
  proof (rule ccontr)
    assume "\<not> ?thesis"
    then have "unat cs * (unat ptr div unat cs + 1) \<le> unat ptr + n" using mult_div_mod_eq[of "unat cs" "unat ptr"] unfolding distrib_left by linarith
    then have "unat ptr div unat cs + 1 \<le> (unat ptr + n) div unat cs" using a by (simp add: less_eq_div_iff_mult_less_eq mult.commute)
    then show False using d' by simp
  qed
  then show ?thesis using a by (simp add: n_def)
qed

lemma tree_small_chunk: "tree_ok m T stack heap \<Longrightarrow> 2 * unat (chunk_size T) < 2 ^ 64"
proof -
  assume t: "tree_ok m T stack heap"
  have "2 * (unat (chunk_size T) * 1) \<le> 2 * (unat (chunk_size T) * 2 ^ m)" by (intro mult_le_mono2) simp
  also have "\<dots> < 2 ^ 64" unfolding tree_halves(8)[OF t, symmetric] using unsigned_less[of "tree_end T - tree_start T", where ?'a = nat] by simp
  finally show ?thesis by simp
qed

lemma int_covered:
  assumes "tree_ok m T stack heap" "unat (chunk_size T) dvd unat (tree_start T)" "tree_get ptr T = Inr lt" "in_chunk (chunk_size T) ptr amount" "0 < amount"
    and "i < unat amount"
  shows "tree_byte T (ptr + of_nat i) = load_byte lt i"
proof -
  note c = covers_tree[OF assms(1,3)]
  note room = in_chunk_nat[OF assms(4,5) tree_small_chunk[OF assms(1)]]
  obtain j where j: "unat (tree_start T) = unat (chunk_size T) * j" using assms(2) by (auto elim: dvdE)
  have "unat ptr mod unat (chunk_size T) = (unat (chunk_size T) * j + (unat ptr - unat (tree_start T))) mod unat (chunk_size T)"
    using c j by (simp add: word_le_nat_alt)
  then have "(unat ptr - unat (tree_start T)) mod unat (chunk_size T) = unat ptr mod unat (chunk_size T)" by simp
  then have size: "unat amount \<le> unat (dataSize lt)" using c room unfolding covers_def by linarith
  have "unat ptr + i < 2 ^ 64" using c size assms(6) unsigned_less[of "tree_end T", where ?'a = nat] by (simp add: covers_def)
  then have u: "unat (ptr + of_nat i) = unat ptr + i" by (simp add: unat_word_ariths(1) unat_of_nat take_bit_eq_mod)
  then show ?thesis using c size assms(6) by (auto simp: covers_def tree_byte_def word_le_nat_alt)
qed

section \<open>Releases\<close>

lemma free_keeps_tree_ok:
  assumes "tree_free ptr d T = Inr T'" "tree_ok m T stack heap" "d \<noteq> Unallocated"
  shows "T' = T \<or> tree_ok m T' stack heap \<and> releases (chunk_size T) ptr (tree_start T) (tree_end T) (root T) (root T')
    \<and> tree_start T' = tree_start T \<and> tree_end T' = tree_end T \<and> chunk_size T' = chunk_size T"
proof -
  obtain x t' where run: "traverse free_handlers (chunk_size T) d ptr (root T) (tree_start T) (tree_end T) = Inr (x, t')"
      and T': "T' = T\<lparr>root := t'\<rparr>"
    using assms(1) by (auto simp: tree_free_def traverse_tree_def bindE_Inr split: if_splits)
  note h = tree_halves[OF assms(2)]
  have wf: "wf_tree (chunk_size T) (tree_start T) (tree_end T) (root T)" and cs: "0 < chunk_size T" and un: "status (force (root T)) = Unallocated"
    and f: "fresh (tree_start T + stack) (tree_start T) (tree_middle T) (left_child (force (root T)))"
      "fresh (tree_middle T + heap) (tree_middle T) (tree_end T) (right_child (force (root T)))"
    using assms(2) by (simp_all add: tree_ok_def)
  note step = run[unfolded free_unfold[of _ d ptr "root T"]]
  obtain n where n: "root T = Some n" using step by (auto split: if_splits option.splits)
  have "status (force t') = Unallocated \<and> fresh (tree_start T + stack) (tree_start T) (tree_middle T) (left_child (force t'))
    \<and> fresh (tree_middle T + heap) (tree_middle T) (tree_end T) (right_child (force t'))"
    using step n un h(6) assms(3) f free_keeps_fresh by (fastforce simp: bindE_Inr tree_middle_def split: if_splits)
  then show ?thesis using free_releases[OF run wf cs assms(3)] assms(2) T'
    by (auto simp: tree_ok_def releases_def tree_middle_def)
qed

section \<open>Properties of the simulator\<close>

lemma sim_pointer:
  assumes "sim_ok m S" "tree_start (tree S) \<le> ptr" "ptr < tree_end (tree S)"
  shows "isAPointer S ptr" "\<not> isFromGlobalSpace S ptr"
  using assms by (auto simp: sim_ok_def isAPointer_def isFromDynMem_def isFromStack_def isFromGlobalSpace_def)

lemma sim_tree_ok: "sim_ok m S \<Longrightarrow> tree_ok m (tree S) (currentAllocOffset S) (currentMallocOffset S)"
  by (simp add: sim_ok_def)

lemma MallocMemory_ok:
  assumes "sim_ok m S" "calc_real_memory_amount amount (chunk_size (tree S)) = Inr r"
    and "block_offset (currentMallocOffset S) r + unat r \<le> unat (chunk_size (tree S)) * 2 ^ m"
  shows "\<exists>p S'. MallocMemory amount fillWith S = Inr (p, S') \<and> sim_ok m S'
    \<and> new_segment p (p + r) amount (if fillWith = ZERO then Some 0 else None) (tree S) (tree S')"
proof -
  define st where "st = (if fillWith = ZERO then Memset else Uninit)"
  have st: "st \<noteq> UnknownState" by (simp add: st_def)
  obtain T' where T': "tree_allocate (next_block (tree_middle (tree S)) (currentMallocOffset S) r) amount st Malloc (tree S) = Inr T'"
      "tree_ok m T' (currentAllocOffset S) (next_block (tree_middle (tree S)) (currentMallocOffset S) r + r - tree_middle (tree S))"
      "new_segment (next_block (tree_middle (tree S)) (currentMallocOffset S) r) (next_block (tree_middle (tree S)) (currentMallocOffset S) r + r)
        amount (if st = Memset then Some 0 else None) (tree S) T'"
      "tree_start T' = tree_start (tree S)" "tree_end T' = tree_end (tree S)" "chunk_size T' = chunk_size (tree S)"
    using heap_allocation[OF sim_tree_ok[OF assms(1)] assms(2,3) st, of Malloc] by auto
  then show ?thesis using assms(1,2)
    by (auto simp: MallocMemory_def st_def Let_def sim_ok_def tree_middle_def)
qed

lemma AllocateMemory_spec:
  assumes "sim_ok m S" "calc_real_memory_amount amount (chunk_size (tree S)) = Inr r"
    and "block_offset (currentAllocOffset S) r + unat r \<le> unat (chunk_size (tree S)) * 2 ^ m"
  shows "\<exists>p S'. AllocateMemory amount S = Inr (p, S') \<and> sim_ok m S' \<and> new_segment p (p + r) amount None (tree S) (tree S')"
proof -
  obtain T' where T': "tree_allocate (next_block (tree_start (tree S)) (currentAllocOffset S) r) amount Uninit Alloca (tree S) = Inr T'"
      "tree_ok m T' (next_block (tree_start (tree S)) (currentAllocOffset S) r + r - tree_start (tree S)) (currentMallocOffset S)"
      "new_segment (next_block (tree_start (tree S)) (currentAllocOffset S) r) (next_block (tree_start (tree S)) (currentAllocOffset S) r + r)
        amount None (tree S) T'"
      "tree_start T' = tree_start (tree S)" "tree_end T' = tree_end (tree S)" "chunk_size T' = chunk_size (tree S)"
    using stack_allocation[OF sim_tree_ok[OF assms(1)] assms(2,3), of Uninit Alloca] by auto
  then show ?thesis using assms(1,2)
    by (auto simp: AllocateMemory_def Let_def sim_ok_def tree_middle_def)
qed

text \<open>C10: In a well-formed simulator, a heap allocation for which the heap has room succeeds: it answers the start of a new
  segment apart from every other one, zeroed or uninitialised, changes no other byte, and leaves the simulator well-formed.
\<close>

theorem MallocMemory_spec:
  assumes "sim_ok m S" "calc_real_memory_amount amount (chunk_size (tree S)) = Inr r"
    and "block_offset (currentMallocOffset S) r + unat r \<le> unat (chunk_size (tree S)) * 2 ^ m"
  shows "\<exists>p S'. MallocMemory amount fillWith S = Inr (p, S') \<and> sim_ok m S'
    \<and> new_segment p (p + r) amount (if fillWith = ZERO then Some 0 else None) (tree S) (tree S')"
  by (rule MallocMemory_ok[OF assms])

lemma store_accepted_in_segment:
  assumes "sim_ok m S" "(s, e, a) \<in> tree_segments (tree S)" "s \<le> ptr" "unat ptr < unat s + unat a" "unat ptr + length data \<le> unat s + unat a"
  shows "\<exists>S'. StoreBytesToMemory write_global data ptr S = Inr S' \<and> sim_ok m S' \<and> tree_segments (tree S') = tree_segments (tree S)
    \<and> (\<forall>q. tree_start (tree S) \<le> q \<longrightarrow> q < tree_end (tree S) \<longrightarrow>
        (if unat ptr \<le> unat q \<and> unat q < unat ptr + length data then tree_byte (tree S') q = Some (data ! (unat q - unat ptr))
         else tree_byte (tree S') q \<in> {tree_byte (tree S) q, None}))"
proof -
  note ok = sim_tree_ok[OF assms(1)] and h = tree_halves[OF sim_tree_ok[OF assms(1)]]
  have wf: "wf_tree (chunk_size (tree S)) (tree_start (tree S)) (tree_end (tree S)) (root (tree S))" and cs: "0 < chunk_size (tree S)"
    using ok by (simp_all add: tree_ok_def)
  note b = segment_bounds[OF assms(2) wf h(5) cs]
  have "unat s + unat a \<le> unat e" using b segment_end by blast
  then have range: "tree_start (tree S) \<le> ptr" "ptr < tree_end (tree S)" "unat ptr + length data \<le> unat (tree_end (tree S))"
    using b assms(3-5) by (auto simp: word_le_nat_alt word_less_nat_alt)
  note p = sim_pointer[OF assms(1) range(1,2)]
  obtain y where "traverse (store_handlers (chunk_size (tree S))) (chunk_size (tree S)) \<lparr>store_data = data, didAlloc = False\<rparr> ptr
      (root (tree S)) (tree_start (tree S)) (tree_end (tree S)) = Inr y"
    using store_accepted[OF cs wf h(5) _ assms(2-4), of "\<lparr>store_data = data, didAlloc = False\<rparr>"] assms(5) by auto
  then obtain T' where T': "tree_store ptr data (tree S) = Inr T'"
    by (cases y) (simp add: tree_store_def traverse_tree_def)
  have keep: "tree_ok m T' (currentAllocOffset S) (currentMallocOffset S)" "tree_segments T' = tree_segments (tree S)"
      "tree_start T' = tree_start (tree S)" "tree_end T' = tree_end (tree S)" "chunk_size T' = chunk_size (tree S)"
    using store_keeps_tree_ok[OF T' ok] by blast+
  have "StoreBytesToMemory write_global data ptr S = Inr (S\<lparr>tree := T'\<rparr>)" using p T' by (simp add: StoreBytesToMemory_def)
  moreover have "sim_ok m (S\<lparr>tree := T'\<rparr>)" using assms(1) keep by (simp add: sim_ok_def tree_middle_def)
  ultimately show ?thesis
    using keep(2) tree_stored[OF T' range(3)] tree_stored_frame[OF T' range(3) _ ok] by auto
qed

text \<open>C11: A store inside a segment succeeds, keeps the simulator well-formed and its segments, is read back byte by byte,
  and any other byte keeps its value or, next to the stored bytes in a filled chunk, becomes indeterminate.
\<close>

theorem store_in_segment:
  assumes "sim_ok m S" "(s, e, a) \<in> tree_segments (tree S)" "s \<le> ptr" "unat ptr < unat s + unat a" "unat ptr + length data \<le> unat s + unat a"
  shows "\<exists>S'. StoreBytesToMemory write_global data ptr S = Inr S' \<and> sim_ok m S' \<and> tree_segments (tree S') = tree_segments (tree S)
    \<and> (\<forall>q. tree_start (tree S) \<le> q \<longrightarrow> q < tree_end (tree S) \<longrightarrow>
        (if unat ptr \<le> unat q \<and> unat q < unat ptr + length data then tree_byte (tree S') q = Some (data ! (unat q - unat ptr))
         else tree_byte (tree S') q \<in> {tree_byte (tree S) q, None}))"
  by (rule store_accepted_in_segment[OF assms])

text \<open>C12: In a well-formed simulator, a store that is accepted through a pointer outside the space of the constants
  writes only addresses that lie within the bounds of allocated segments, however long it is.  (A store through a
  pointer to the constants goes to the globals of the interpreter, not to the tree.)
\<close>

theorem store_only_allocated:
  assumes "sim_ok m S" "\<not> isFromGlobalSpace S ptr" "StoreBytesToMemory write_global data ptr S = Inr S'" "i < length data"
  shows "\<exists>(s, e, a) \<in> tree_segments (tree S). s \<le> ptr + of_nat i \<and> ptr + of_nat i < s + a"
proof -
  note ok = sim_tree_ok[OF assms(1), unfolded tree_ok_def]
  obtain T' where "tree_store ptr data (tree S) = Inr T'"
    using assms(2,3) by (auto simp: StoreBytesToMemory_def bindE_Inr split: if_splits)
  then obtain x where run: "traverse (store_handlers (chunk_size (tree S))) (chunk_size (tree S)) \<lparr>store_data = data, didAlloc = False\<rparr> ptr
      (root (tree S)) (tree_start (tree S)) (tree_end (tree S)) = Inr (x, root T')"
    by (rule tree_store_run)
  have w: "within ptr \<lparr>store_data = data, didAlloc = False\<rparr> (tree_end (tree S))"
    using store_within[OF run, of "Suc m"] ok by blast
  then have "unat ptr + i < 2 ^ 64" using assms(4) unsigned_less[of "tree_end (tree S)", where ?'a = nat] by (simp add: within_def)
  then have "unat (ptr + of_nat i) = unat ptr + i" by (simp add: unat_word_ariths(1) unat_of_nat take_bit_eq_mod)
  then show ?thesis using store_in_segments[OF run w, of "ptr + of_nat i"] assms(4) by (simp add: touches_def covered_def)
qed

text \<open>A load of an integer from the tree answers the bytes the tree holds at its addresses, and changes nothing.
\<close>

theorem LoadInt_reads_tree:
  assumes "sim_ok m S" "unat (chunk_size (tree S)) dvd unat (tree_start (tree S))" "0 < amount" "\<not> isFromGlobalSpace S ptr"
    and "LoadIntFromMemory read_global amount ptr S = Inr (Some bs, S')"
  shows "S' = S \<and> bs = map (\<lambda>i. tree_byte (tree S) (ptr + of_nat i)) [0..<unat amount]"
proof -
  note run = assms(5)[unfolded LoadIntFromMemory_def Let_def]
  have in_c: "in_chunk (chunk_size (tree S)) ptr amount" using run by (auto simp: in_chunk_def bindE_Inr split: if_splits)
  obtain lt where lt: "tree_get ptr (tree S) = Inr lt" using run assms(4) by (auto simp: bindE_Inr split: if_splits)
  note byte = int_covered[OF sim_tree_ok[OF assms(1)] assms(2) lt in_c assms(3)]
  have "length bs = unat amount \<and> (\<forall>i < unat amount. bs ! i = load_byte lt i) \<and> S' = S"
    using run assms(4) lt by (auto simp: load_byte_def chunk_byte_def bindE_Inr split: if_splits MemoryState.splits option.splits)
  then show ?thesis using byte by (auto intro!: nth_equalityI)
qed

lemma load_int_defined:
  assumes "tree_ok m (tree S) stack heap" "unat (chunk_size (tree S)) dvd unat (tree_start (tree S))" "isAPointer S ptr" "\<not> isFromGlobalSpace S ptr"
    and "in_chunk (chunk_size (tree S)) ptr amount" "0 < amount" "length data = unat amount"
    and byte: "\<And>i. i < unat amount \<Longrightarrow> tree_byte (tree S) (ptr + of_nat i) = Some (data ! i)"
  shows "LoadIntFromMemory read_global amount ptr S = Inr (Some (map Some data), S)"
proof -
  have pos: "0 < unat amount" using assms(6) by (simp add: word_less_nat_alt)
  have "tree_byte (tree S) ptr \<noteq> None" using byte[OF pos] by simp
  then obtain lt where lt: "tree_get ptr (tree S) = Inr lt"
    by (cases "tree_get ptr (tree S)")
      (auto simp: tree_get_def traverse_tree_def tree_byte_def loaded_byte_def split: sum.splits prod.splits elim!: bindE.elims)
  have lb: "load_byte lt i = Some (data ! i)" if "i < unat amount" for i
    using int_covered[OF assms(1,2) lt assms(5,6) that] byte[OF that] by simp
  note run = assms(3-5) lt
  show ?thesis
  proof (cases "load_state lt")
    case Memset
    then have "replicate (unat amount) (Some (filledWith lt)) = map Some data"
      using lb assms(7) by (intro nth_equalityI) (auto simp: load_byte_def)
    then show ?thesis using run Memset by (simp add: LoadIntFromMemory_def in_chunk_def assertE_def)
  next
    case Uninit
    then show ?thesis using lb[OF pos] by (simp add: load_byte_def)
  next
    case UnknownState
    obtain bs where bs: "load_ptr lt = Some bs" using lb[OF pos] UnknownState
      by (cases "load_ptr lt") (auto simp: load_byte_def chunk_byte_def)
    have nth: "i < length bs \<and> bs ! i = Some (data ! i)" if "i < unat amount" for i
      using lb[OF that] UnknownState bs by (auto simp: load_byte_def chunk_byte_def split: if_splits)
    have l: "unat amount \<le> length bs" using nth[of "unat amount - 1"] pos by (cases "unat amount") auto
    have "take (unat amount) bs = map Some data" using nth l assms(7) by (intro nth_equalityI) auto
    then show ?thesis using run UnknownState bs l by (simp add: LoadIntFromMemory_def in_chunk_def assertE_def)
  qed
qed

text \<open>C13: An integer stored inside a segment and within a chunk is loaded back.
\<close>

theorem int_roundtrip:
  assumes "sim_ok m S" "unat (chunk_size (tree S)) dvd unat (tree_start (tree S))" "(s, e, a) \<in> tree_segments (tree S)" "s \<le> ptr"
    and "unat ptr + unat amount \<le> unat s + unat a" "0 < amount" "in_chunk (chunk_size (tree S)) ptr amount" "unat amount \<le> length rawData"
  shows "\<exists>S'. StoreIntToMemory write_global rawData (unat amount) ptr S = Inr S' \<and> sim_ok m S'
    \<and> LoadIntFromMemory read_global amount ptr S' = Inr (Some (map Some (take (unat amount) rawData)), S')"
proof -
  define data where "data = take (unat amount) rawData"
  have len: "length data = unat amount" using assms(8) by (simp add: data_def)
  have lt: "unat ptr < unat s + unat a" using assms(5,6) by (simp add: word_less_nat_alt)
  note ok = sim_tree_ok[OF assms(1)] and h = tree_halves[OF sim_tree_ok[OF assms(1)]]
  have wf: "wf_tree (chunk_size (tree S)) (tree_start (tree S)) (tree_end (tree S)) (root (tree S))" and cs: "0 < chunk_size (tree S)"
    using ok by (simp_all add: tree_ok_def)
  note b = segment_bounds[OF assms(3) wf h(5) cs]
  have "unat s + unat a \<le> unat e" using b segment_end by blast
  then have range: "tree_start (tree S) \<le> ptr" "ptr < tree_end (tree S)" "unat ptr + length data \<le> unat (tree_end (tree S))"
    using b assms(4,5) lt len by (auto simp: word_le_nat_alt word_less_nat_alt)
  note p = sim_pointer[OF assms(1) range(1,2)]
  obtain S' where S': "StoreBytesToMemory write_global data ptr S = Inr S'" "sim_ok m S'"
    using store_accepted_in_segment[OF assms(1,3,4) lt, of data write_global] len assms(5) by auto
  then obtain T' where T': "tree_store ptr data (tree S) = Inr T'" "S' = S\<lparr>tree := T'\<rparr>"
    using p by (auto simp: StoreBytesToMemory_def bindE_Inr)
  have keep: "tree_start T' = tree_start (tree S)" "tree_end T' = tree_end (tree S)" "chunk_size T' = chunk_size (tree S)"
    using store_keeps_tree_ok[OF T'(1) ok] by blast+
  have byte: "tree_byte T' (ptr + of_nat i) = Some (data ! i)" if "i < unat amount" for i
  proof -
    have "unat ptr + i < 2 ^ 64" using that range(3) len unsigned_less[of "tree_end (tree S)", where ?'a = nat] by simp
    then have u: "unat (ptr + of_nat i) = unat ptr + i" by (simp add: unat_word_ariths(1) unat_of_nat take_bit_eq_mod)
    show ?thesis using tree_stored[OF T'(1) range(3), of "ptr + of_nat i"] u that len by simp
  qed
  have ok': "tree_ok m (tree S') (currentAllocOffset S) (currentMallocOffset S)" using store_keeps_tree_ok[OF T'(1) ok] T'(2) by simp
  have p': "isAPointer S' ptr" "\<not> isFromGlobalSpace S' ptr" using p T'(2) by (simp_all add: isAPointer_def isFromGlobalSpace_def isFromDynMem_def isFromStack_def)
  have load: "LoadIntFromMemory read_global amount ptr S' = Inr (Some (map Some data), S')"
    using byte keep assms(2,7) len T'(2) by (intro load_int_defined[OF ok' _ p' _ assms(6)]) simp_all
  have "StoreIntToMemory write_global rawData (unat amount) ptr S = Inr S'"
    using S'(1) p assms(8) by (simp add: StoreIntToMemory_def data_def)
  then show ?thesis using S'(2) load data_def by blast
qed

text \<open>C14: A release that changes the memory takes exactly the segment that starts at the address away: loads from it and a
  second release are illegal, and all other bytes stay.
\<close>

theorem FreeMemory_spec:
  assumes "sim_ok m S" "FreeMemory ptr S = Inr S'" "S' \<noteq> S"
  shows "sim_ok m S' \<and> FreeMemory ptr S' = Inl (IllegalFree ptr)
    \<and> (\<exists>e a. (ptr, e, a) \<in> tree_segments (tree S) \<and> tree_segments (tree S') = tree_segments (tree S) - {(ptr, e, a)}
      \<and> (\<forall>q. ptr \<le> q \<longrightarrow> q < e \<longrightarrow> tree_get q (tree S') = Inl (IllegalLoad q))
      \<and> (\<forall>q. tree_start (tree S) \<le> q \<longrightarrow> q < tree_end (tree S) \<longrightarrow> \<not> (ptr \<le> q \<and> q < e) \<longrightarrow> tree_byte (tree S') q = tree_byte (tree S) q))"
proof -
  obtain T' where T': "tree_free ptr Malloc (tree S) = Inr T'" "S' = S\<lparr>tree := T'\<rparr>" and p: "isAPointer S ptr"
    using assms(2) by (auto simp: FreeMemory_def bindE_Inr split: if_splits)
  have ne: "T' \<noteq> tree S" using assms(3) T'(2) by auto
  have keep: "tree_ok m T' (currentAllocOffset S) (currentMallocOffset S)"
      "releases (chunk_size (tree S)) ptr (tree_start (tree S)) (tree_end (tree S)) (root (tree S)) (root T')"
      "tree_start T' = tree_start (tree S)" "tree_end T' = tree_end (tree S)" "chunk_size T' = chunk_size (tree S)"
    using free_keeps_tree_ok[OF T'(1) sim_tree_ok[OF assms(1)]] ne by blast+
  have range: "\<not> ptr < tree_start (tree S)" "\<not> tree_end (tree S) \<le> ptr" using T'(1) by (auto simp: tree_free_def split: if_splits)
  have sim: "sim_ok m S'" using assms(1) keep T'(2) by (simp add: sim_ok_def tree_middle_def)
  have p': "isAPointer S' ptr" using p T'(2) by (simp add: isAPointer_def isFromGlobalSpace_def isFromDynMem_def isFromStack_def)
  have "traverse free_handlers (chunk_size (tree S)) Malloc ptr (root T') (tree_start (tree S)) (tree_end (tree S)) = Inl (IllegalFree ptr)"
    using keep(2) unfolding releases_def by blast
  then have again: "FreeMemory ptr S' = Inl (IllegalFree ptr)"
    using p' T'(2) range by (simp add: FreeMemory_def tree_free_def traverse_tree_def keep(3-5))
  have load: "tree_get q (tree S') = Inl (IllegalLoad q)"
    if "node_load (chunk_size (tree S)) q (root T') (tree_start (tree S)) (tree_end (tree S)) = Inl (IllegalLoad q)" for q
    using that T'(2) by (simp add: tree_get_def traverse_tree_def keep(3-5))
  obtain e a where ea: "(ptr, e, a) \<in> tree_segments (tree S)"
      "segments (tree_start (tree S)) (tree_end (tree S)) (root T') = tree_segments (tree S) - {(ptr, e, a)}"
      "\<forall>q. ptr \<le> q \<longrightarrow> q < e \<longrightarrow> node_load (chunk_size (tree S)) q (root T') (tree_start (tree S)) (tree_end (tree S)) = Inl (IllegalLoad q)"
      "\<forall>q. tree_start (tree S) \<le> q \<longrightarrow> q < tree_end (tree S) \<longrightarrow> \<not> (ptr \<le> q \<and> q < e) \<longrightarrow>
        node_byte (chunk_size (tree S)) q (root T') (tree_start (tree S)) (tree_end (tree S)) = tree_byte (tree S) q"
    using keep(2) unfolding releases_def tree_byte_def by blast
  show ?thesis using sim again ea load T'(2) keep(3-5) by (intro conjI exI[of _ e] exI[of _ a]) (simp_all add: tree_byte_def)
qed

section \<open>Reachable states\<close>

text \<open>The steps of a client that allocates while there is room, stores through pointers of the tree and releases.\<close>

inductive simulator_reaches :: "nat \<Rightarrow> 'v Impl \<Rightarrow> 'v Impl \<Rightarrow> bool" for m :: nat and S0 :: "'v Impl" where
  initial: "simulator_reaches m S0 S0"
| malloc: "simulator_reaches m S0 S \<Longrightarrow> calc_real_memory_amount amount (chunk_size (tree S)) = Inr r \<Longrightarrow>
    block_offset (currentMallocOffset S) r + unat r \<le> unat (chunk_size (tree S)) * 2 ^ m \<Longrightarrow>
    MallocMemory amount fillWith S = Inr (p, S') \<Longrightarrow> simulator_reaches m S0 S'"
| alloca: "simulator_reaches m S0 S \<Longrightarrow> calc_real_memory_amount amount (chunk_size (tree S)) = Inr r \<Longrightarrow>
    block_offset (currentAllocOffset S) r + unat r \<le> unat (chunk_size (tree S)) * 2 ^ m \<Longrightarrow>
    AllocateMemory amount S = Inr (p, S') \<Longrightarrow> simulator_reaches m S0 S'"
| store: "simulator_reaches m S0 S \<Longrightarrow> \<not> isFromGlobalSpace S ptr \<Longrightarrow> StoreBytesToMemory write_global data ptr S = Inr S' \<Longrightarrow>
    simulator_reaches m S0 S'"
| free: "simulator_reaches m S0 S \<Longrightarrow> FreeMemory ptr S = Inr S' \<Longrightarrow> simulator_reaches m S0 S'"
| deallocate: "simulator_reaches m S0 S \<Longrightarrow> DeallocateMemory ptr S = Inr S' \<Longrightarrow> simulator_reaches m S0 S'"
| constants: "simulator_reaches m S0 S \<Longrightarrow> getPointerToConstant v amount S = (p, S') \<Longrightarrow> simulator_reaches m S0 S'"

lemma free_keeps_sim:
  assumes "sim_ok m S" "tree_free ptr d (tree S) = Inr T'" "d \<noteq> Unallocated"
  shows "sim_ok m (S\<lparr>tree := T'\<rparr>)"
  using free_keeps_tree_ok[OF assms(2) sim_tree_ok[OF assms(1)] assms(3)] assms(1) by (auto simp: sim_ok_def tree_middle_def)

lemma store_keeps_sim:
  assumes "sim_ok m S" "tree_store ptr data (tree S) = Inr T'"
  shows "sim_ok m (S\<lparr>tree := T'\<rparr>)"
proof -
  have "tree_ok m T' (currentAllocOffset S) (currentMallocOffset S)" "tree_start T' = tree_start (tree S)" "tree_end T' = tree_end (tree S)"
    using store_keeps_tree_ok[OF assms(2) sim_tree_ok[OF assms(1)]] by blast+
  then show ?thesis using assms(1) by (simp add: sim_ok_def tree_middle_def)
qed

lemma reaches_sim_ok: "simulator_reaches m S0 S \<Longrightarrow> sim_ok m S0 \<Longrightarrow> sim_ok m S"
proof (induction rule: simulator_reaches.induct)
  case (malloc S amount r fillWith p S')
  show ?case using MallocMemory_ok[OF malloc.IH[OF malloc.prems] malloc.hyps(2,3), of fillWith] malloc.hyps(4) by auto
next
  case (alloca S amount r p S')
  show ?case using AllocateMemory_spec[OF alloca.IH[OF alloca.prems] alloca.hyps(2,3)] alloca.hyps(4) by auto
next
  case (store S ptr write_global data S')
  then show ?case using store_keeps_sim by (auto simp: StoreBytesToMemory_def bindE_Inr split: if_splits)
next
  case (free S ptr S')
  then show ?case using free_keeps_sim[of m S _ Malloc] by (auto simp: FreeMemory_def bindE_Inr split: if_splits)
next
  case (deallocate S ptr S')
  then show ?case using free_keeps_sim[of m S _ Alloca] by (auto simp: DeallocateMemory_def bindE_Inr split: if_splits)
next
  case (constants S v amount p S')
  then show ?case by (auto simp: getPointerToConstant_def sim_ok_def Let_def split: option.splits)
qed

lemma segments_disjoint:
  assumes "(s, e, a) \<in> segments lo hi t" "(s', e', a') \<in> segments lo hi t" "wf_tree cs lo hi t" "lo < hi" "0 < cs"
  shows "(s, e, a) = (s', e', a') \<or> e \<le> s' \<or> e' \<le> s"
  using assms
proof (induction cs lo hi t rule: wf_tree.induct)
  case (2 cs lo hi st sx f c l r x)
  show ?case
  proof (cases "hi - lo \<le> cs \<or> st \<noteq> Unallocated")
    case True
    then show ?thesis using 2(3-5) by (auto split: if_splits)
  next
    case False
    then have path: "\<not> hi - lo \<le> cs" by simp
    note m = middle_proper[OF 2(6) path 2(7)] and b = middle_bounds[OF 2(6)]
    have lm: "lo < middle lo hi" using m b by simp
    have w: "wf_tree cs lo (middle lo hi) l" "wf_tree cs (middle lo hi) hi r" using 2(5) by auto
    note sl = segment_bounds[OF _ w(1) lm 2(7)] and sr = segment_bounds[OF _ w(2) b(2) 2(7)]
    consider "(s, e, a) \<in> segments lo (middle lo hi) l" "(s', e', a') \<in> segments lo (middle lo hi) l"
      | "(s, e, a) \<in> segments (middle lo hi) hi r" "(s', e', a') \<in> segments (middle lo hi) hi r"
      | "(s, e, a) \<in> segments lo (middle lo hi) l" "(s', e', a') \<in> segments (middle lo hi) hi r"
      | "(s, e, a) \<in> segments (middle lo hi) hi r" "(s', e', a') \<in> segments lo (middle lo hi) l"
      using 2(3,4) False by auto
    then show ?thesis
    proof cases
      case 1
      then show ?thesis using 2(1)[OF _ _ w(1) lm 2(7)] by simp
    next
      case 2
      then show ?thesis using "2.IH"(2)[OF _ _ w(2) b(2)] "2.prems"(5) by simp
    next
      case 3
      then show ?thesis using sl sr by (meson order_trans)
    next
      case 4
      then show ?thesis using sl sr by (meson order_trans)
    qed
  qed
qed simp

lemma new_Impl_ok:
  assumes "K * grain \<noteq> 0" "Suc m < 64" "2 ^ 20 + unat (K * grain) * 2 ^ Suc m < 2 ^ 64"
  shows "sim_ok m (new_Impl K (Suc m) grain)"
proof -
  define cs :: addr where "cs = ucast (K * grain)"
  have cs: "unat cs = unat (K * grain)" using unsigned_less[of "K * grain", where ?'a = nat]
    by (simp add: cs_def unsigned_ucast_eq take_bit_nat_eq_self)
  have pos: "0 < cs" using assms(1) cs by (simp add: word_less_nat_alt unat_gt_0)
  have pow: "unat (push_bit (Suc m) 1 :: addr) = 2 ^ Suc m" 
  proof -
    have "(2 :: nat) ^ Suc m < 2 ^ 64" using assms(2) by (intro power_strict_increasing) auto
    then show ?thesis unfolding unsigned_push_bit_eq by (simp add: take_bit_nat_eq_self push_bit_eq_mult)
  qed
  have prod: "unat (push_bit (Suc m) 1 * cs) = unat cs * 2 ^ Suc m" using assms(3) pow cs by (simp add: unat_word_ariths(2) mult.commute)
  have st: "unat (2 ^ 20 :: addr) = 2 ^ 20" by simp
  have en: "unat (2 ^ 20 + push_bit (Suc m) 1 * cs) = 2 ^ 20 + unat cs * 2 ^ Suc m" using assms(3) prod st cs by (simp add: unat_word_ariths(1))
  show ?thesis using pos en st unfolding new_Impl_def Let_def cs_def[symmetric]
    by (simp add: sim_ok_def tree_ok_def tree_middle_def middle_def force_def)
qed

text \<open>C15: In every state reached from a new simulator the memory is well-formed, and two segments are equal or do not overlap.
\<close>

theorem reachable_segments_disjoint:
  assumes "simulator_reaches m (new_Impl K (Suc m) grain) S" "K * grain \<noteq> 0" "Suc m < 64" "2 ^ 20 + unat (K * grain) * 2 ^ Suc m < 2 ^ 64"
  shows "sim_ok m S \<and> (\<forall>(s, e, a) \<in> tree_segments (tree S). \<forall>(s', e', a') \<in> tree_segments (tree S).
    (s, e, a) = (s', e', a') \<or> e \<le> s' \<or> e' \<le> s)"
proof -
  have ok: "sim_ok m S" using reaches_sim_ok[OF assms(1)] new_Impl_ok[OF assms(2-4)] by blast
  note t = sim_tree_ok[OF ok]
  have "wf_tree (chunk_size (tree S)) (tree_start (tree S)) (tree_end (tree S)) (root (tree S))" "0 < chunk_size (tree S)"
    using t by (simp_all add: tree_ok_def)
  then show ?thesis using ok segments_disjoint tree_halves(5)[OF t] by blast
qed

section \<open>Constants\<close>

definition constants_below :: "'v Impl \<Rightarrow> bool" where
  "constants_below S \<longleftrightarrow> list_all (\<lambda>(k, _). k < constantStart S + currentConstantOffset S) (constantsBwd S)"

lemma map_assign_last: "list_all (\<lambda>(k', _). k' < k) xs \<Longrightarrow> map_assign k v xs = xs @ [(k, v)]"
  by (induction xs) auto

lemma takeWhile_below: "list_all (\<lambda>(k', _). k' < (k :: addr)) xs \<Longrightarrow> k \<le> q \<Longrightarrow> takeWhile (\<lambda>(k', _). k' \<le> q) (xs @ ys) = xs @ takeWhile (\<lambda>(k', _). k' \<le> q) ys"
proof (induction xs)
  case (Cons x xs)
  then have "fst x \<le> q" by (auto intro: order_trans[of _ k])
  then show ?case using Cons by auto
qed simp

text \<open>The pointer handed out for a global variable leads back to the variable and the offset, as long as the constants fit.
\<close>

theorem constant_roundtrip:
  assumes "constants_below S" "constants S v = None" "getPointerToGlobal v amount offset S = (p, S')" "offset < amount"
    and "unat (constantStart S) + unat (currentConstantOffset S) + unat amount \<le> unat (constantEnd S)"
  shows "accessGlobal isGlobalValue S' p = Inr (if isGlobalValue v then Some v else None, offset) \<and> constants_below S'"
proof -
  define base where "base = constantStart S + currentConstantOffset S"
  have top: "unat (constantStart S) + unat (currentConstantOffset S) + unat amount < 2 ^ 64"
    using assms(5) unsigned_less[of "constantEnd S", where ?'a = nat] by simp
  have b: "unat base = unat (constantStart S) + unat (currentConstantOffset S)" using top by (simp add: base_def unat_word_ariths(1))
  have o: "unat (base + offset) = unat base + unat offset" "unat (base + amount) = unat base + unat amount"
    using top b assms(4) by (auto simp: unat_word_ariths(1) word_less_nat_alt)
  have below: "list_all (\<lambda>(k', _). k' < base) (constantsBwd S)" using assms(1) by (simp add: constants_below_def base_def)
  have p: "p = base + offset" "constantsBwd S' = constantsBwd S @ [(base, v)]" "constantStart S' = constantStart S" "constantEnd S' = constantEnd S"
      "constantStart S' + currentConstantOffset S' = base + amount"
    using assms(2,3) map_assign_last[OF below] by (auto simp: getPointerToGlobal_def getPointerToConstant_def Let_def base_def add.assoc)
  have le: "base \<le> p" "constantStart S \<le> p" "p \<le> constantEnd S" "base < base + amount"
    using p(1) o b assms(4,5) by (auto simp: word_le_nat_alt word_less_nat_alt)
  have "takeWhile (\<lambda>(k', _). k' \<le> p) (constantsBwd S') = constantsBwd S @ [(base, v)]"
    using takeWhile_below[OF below le(1), of "[(base, v)]"] p(2) le(1) by simp
  then have "less_or_equal (constantsBwd S') p = Some (base, v)"
    by (cases "constantsBwd S") (simp_all add: less_or_equal_def)
  then have "accessGlobal isGlobalValue S' p = Inr (if isGlobalValue v then Some v else None, offset)"
    using p(1,3,4) le by (simp add: accessGlobal_def not_less)
  moreover have "list_all (\<lambda>(k', _). k' < base + amount) (constantsBwd S)"
    using below le(4) by (auto simp: list_all_iff intro: order.strict_trans)
  ultimately show ?thesis using p(2,5) le(4) by (simp add: constants_below_def)
qed

section \<open>What goes wrong\<close>

abbreviation small_tree :: SegmentTree where
  "small_tree \<equiv> \<lparr>tree_start = 64, tree_end = 128, chunk_size = 8, root = None\<rparr>"

definition zeroed :: "mem_error + SegmentTree" where "zeroed = tree_allocate 64 8 Memset Malloc small_tree"

text \<open>A store into a chunk of zeroed memory turns the rest of the chunk indeterminate.\<close>

lemma store_loses_fill:
  "(case bindE zeroed (tree_store 64 [1]) of Inr T \<Rightarrow> (tree_byte T 64, tree_byte T 65) | Inl _ \<Rightarrow> (None, None)) = (Some 1, None)
   \<and> (case zeroed of Inr T \<Rightarrow> tree_byte T 65 | Inl _ \<Rightarrow> None) = Some 0"
  by code_simp

text \<open>Filling part of a node that is filled already fills all of it; filling up to the end of a chunk fails; and
  filling does not ask whether the memory is allocated.\<close>

lemma memset_wrong:
  "(case bindE (tree_allocate 64 16 Memset Malloc small_tree) (tree_memset 64 7 4) of Inr T \<Rightarrow> tree_byte T 72 | Inl _ \<Rightarrow> None) = Some 7
   \<and> bindE zeroed (tree_memset 68 0 4) = Inl AssertionFailed
   \<and> (case tree_memset 64 7 8 small_tree of Inr T \<Rightarrow> tree_byte T 64 | Inl _ \<Rightarrow> None) = Some 7"
  by code_simp

text \<open>Releasing an address inside a chunk does nothing; and a store that runs from one segment into the next is accepted.\<close>

lemma misuse_accepted:
  "bindE zeroed (tree_free 65 Malloc) = zeroed
   \<and> (case bindE (bindE zeroed (tree_allocate 72 8 Uninit Malloc)) (tree_store 68 [1, 2, 3, 4, 5, 6, 7, 8]) of
       Inr T \<Rightarrow> tree_byte T 75 | Inl _ \<Rightarrow> None) = Some 8"
  by code_simp

text \<open>A stack allocation larger than the stack takes the whole memory, heap included; a heap allocation that does
  not fit fails an assertion instead of being out of memory.\<close>

lemma half_overflow:
  "(case AllocateMemory 40 (new_Impl 1 3 8 :: nat Impl) of Inr (p, S) \<Rightarrow> isFromDynMem S (p + 39) | Inl _ \<Rightarrow> False)
   \<and> (case MallocMemory 40 UNINIT (new_Impl 1 3 8 :: nat Impl) of Inl e \<Rightarrow> e = AssertionFailed | Inr _ \<Rightarrow> False)"
  by code_simp

text \<open>A load of bytes that starts inside of a chunk subtracts the offset twice: four bytes at offset two never end.\<close>

lemma load_bytes_diverges:
  assumes "tree_get 66 T = Inr lt" "load_state lt = Memset" "chunk_size T = 8"
  shows "load_bytes_loop T 4 2 0 66 buffer = None"
proof -
  have "load_bytes_loop T' amount offset loaded ptr buf = Some y \<Longrightarrow>
      \<not> (T' = T \<and> amount = 4 \<and> offset = 2 \<and> loaded = 0 \<and> ptr = 66)" for T' amount offset loaded ptr buf y
  proof (rule load_bytes_loop.raw_induct[where P = "\<lambda>T' amount offset loaded ptr buf y. \<not> (T' = T \<and> amount = 4 \<and> offset = 2 \<and> loaded = 0 \<and> ptr = 66)"],
      goal_cases)
    case (1 f T' amount offset loaded ptr buf y)
    show ?case
    proof
      assume a: "T' = T \<and> amount = 4 \<and> offset = 2 \<and> loaded = 0 \<and> ptr = 66"
      have "slice_size 8 4 2 0 = 0" by code_simp
      then have "f T' 4 2 0 66 (buf @ []) = Some y" using 1(3) a assms
        by (simp add: bytes_of_chunk_def)
      then show False using 1(2) a by blast
    qed
  qed
  then show ?thesis by (cases "load_bytes_loop T 4 2 0 66 buffer") blast+
qed

section \<open>Witnesses\<close>

definition example_start :: "nat Impl" where "example_start = new_Impl 1 3 8"

definition example_simulator :: "nat Impl" where
  "example_simulator = (case MallocMemory 5 ZERO example_start of Inr (_, S) \<Rightarrow> S | Inl _ \<Rightarrow> example_start)"

lemma example_start_ok: "sim_ok 2 example_start"
proof -
  have e: "(3 :: nat) = Suc 2" by simp
  show ?thesis unfolding example_start_def e by (rule new_Impl_ok) simp_all
qed

lemma example_room:
  "calc_real_memory_amount 5 (chunk_size (tree example_start)) = Inr 8"
  "block_offset (currentMallocOffset example_start) 8 + unat (8 :: addr) \<le> unat (chunk_size (tree example_start)) * 2 ^ 2"
  by code_simp+

lemma example_malloc: "MallocMemory 5 ZERO example_start = Inr (2 ^ 20 + 32, example_simulator)"
proof -
  obtain p S where m: "MallocMemory 5 ZERO example_start = Inr (p, S)"
    using MallocMemory_ok[OF example_start_ok example_room] by blast
  have "(case MallocMemory 5 ZERO example_start of Inr (p, _) \<Rightarrow> p = 2 ^ 20 + 32 | Inl _ \<Rightarrow> False)" by code_simp
  then show ?thesis using m by (simp add: example_simulator_def)
qed

lemma example_simulator_ok: "sim_ok 2 example_simulator \<and> tree_segments (tree example_simulator) = {(2 ^ 20 + 32, 2 ^ 20 + 40, 5)}"
proof -
  have "tree_segments (tree example_start) = {}" by (simp add: example_start_def new_Impl_def Let_def)
  then show ?thesis using MallocMemory_ok[OF example_start_ok example_room, of ZERO] example_malloc by (auto simp: new_segment_def)
qed

theorem MallocMemory_spec_witness:
  "\<exists>p S'. MallocMemory 5 ZERO example_start = Inr (p, S') \<and> sim_ok 2 S' \<and> new_segment p (p + 8) 5 (Some 0) (tree example_start) (tree S')"
  using MallocMemory_spec[OF example_start_ok example_room, of ZERO] by simp

theorem store_in_segment_witness:
  "\<exists>S'. StoreBytesToMemory (\<lambda>_ _ S. Inr S) [1, 2, 3] (2 ^ 20 + 33) example_simulator = Inr S'
    \<and> tree_byte (tree S') (2 ^ 20 + 34) = Some 2"
proof -
  have "tree_start (tree example_simulator) = 2 ^ 20" "tree_end (tree example_simulator) = 2 ^ 20 + 64" by code_simp+
  then show ?thesis
    using store_in_segment[of 2 example_simulator "2 ^ 20 + 32" "2 ^ 20 + 40" 5 "2 ^ 20 + 33" "[1, 2, 3]" "\<lambda>_ _ S. Inr S"] example_simulator_ok
    by (fastforce dest: spec[of _ "2 ^ 20 + 34"])
qed

theorem store_only_allocated_witness:
  "\<exists>(s, e, a) \<in> tree_segments (tree example_simulator). s \<le> 2 ^ 20 + 34 \<and> 2 ^ 20 + 34 < s + a"
proof -
  have "\<not> isFromGlobalSpace example_simulator (2 ^ 20 + 33)" by code_simp
  moreover obtain S' where "StoreBytesToMemory (\<lambda>_ _ S. Inr S) [1, 2, 3] (2 ^ 20 + 33) example_simulator = Inr S'"
    using store_accepted_in_segment[of 2 example_simulator "2 ^ 20 + 32" "2 ^ 20 + 40" 5 "2 ^ 20 + 33" "[1, 2, 3]" "\<lambda>_ _ S. Inr S"] example_simulator_ok
    by fastforce
  ultimately show ?thesis
    using store_only_allocated[of 2 example_simulator "2 ^ 20 + 33" "\<lambda>_ _ S. Inr S" "[1, 2, 3]" S' 1] example_simulator_ok by simp
qed

theorem LoadInt_reads_tree_witness:
  "map (\<lambda>i. tree_byte (tree example_simulator) (2 ^ 20 + 32 + of_nat i)) [0..<unat (2 :: addr)] = [Some 0, Some 0]"
proof -
  have t: "(case LoadIntFromMemory (\<lambda>_ _ S. Inr (None, S)) 2 (2 ^ 20 + 32) example_simulator of
      Inr (Some bs, _) \<Rightarrow> bs = [Some 0, Some 0] | _ \<Rightarrow> False)" by code_simp
  then obtain S' where l: "LoadIntFromMemory (\<lambda>_ _ S. Inr (None, S)) 2 (2 ^ 20 + 32) example_simulator = Inr (Some [Some 0, Some 0], S')"
    by (auto split: sum.splits prod.splits option.splits)
  have "tree_start (tree example_simulator) = 2 ^ 20" "chunk_size (tree example_simulator) = 8" "\<not> isFromGlobalSpace example_simulator (2 ^ 20 + 32)"
    by code_simp+
  then show ?thesis using LoadInt_reads_tree[OF conjunct1[OF example_simulator_ok] _ _ _ l] by simp
qed

theorem int_roundtrip_witness:
  "\<exists>S'. StoreIntToMemory (\<lambda>_ _ S. Inr S) [1, 2, 3, 4] 4 (2 ^ 20 + 32) example_simulator = Inr S'
    \<and> LoadIntFromMemory (\<lambda>_ _ S. Inr (None, S)) 4 (2 ^ 20 + 32) S' = Inr (Some (map Some [1, 2, 3, 4]), S')"
proof -
  have "tree_start (tree example_simulator) = 2 ^ 20" "chunk_size (tree example_simulator) = 8" by code_simp+
  moreover have "in_chunk 8 (2 ^ 20 + 32) 4" by code_simp
  ultimately show ?thesis
    using int_roundtrip[of 2 example_simulator "2 ^ 20 + 32" "2 ^ 20 + 40" 5 "2 ^ 20 + 32" 4 "[1, 2, 3, 4]" "\<lambda>_ _ S. Inr S" "\<lambda>_ _ S. Inr (None, S)"]
      example_simulator_ok by auto
qed

theorem FreeMemory_spec_witness:
  "\<exists>S'. FreeMemory (2 ^ 20 + 32) example_simulator = Inr S' \<and> FreeMemory (2 ^ 20 + 32) S' = Inl (IllegalFree (2 ^ 20 + 32))"
proof -
  have t: "(case FreeMemory (2 ^ 20 + 32) example_simulator of Inr S' \<Rightarrow> tree S' \<noteq> tree example_simulator | Inl _ \<Rightarrow> False)" by code_simp
  then obtain S' where f: "FreeMemory (2 ^ 20 + 32) example_simulator = Inr S'" "S' \<noteq> example_simulator"
    by (auto split: sum.splits)
  then show ?thesis using FreeMemory_spec[OF _ f] example_simulator_ok by blast
qed

theorem reachable_segments_disjoint_witness: "sim_ok 2 example_simulator"
proof -
  have e: "example_start = new_Impl 1 (Suc 2) 8" by (simp add: example_start_def)
  have "simulator_reaches 2 (new_Impl 1 (Suc 2) 8) example_simulator"
    using simulator_reaches.malloc[OF simulator_reaches.initial example_room example_malloc] by (simp only: e)
  then show ?thesis using reachable_segments_disjoint[of 2 1 8 example_simulator] by simp
qed

theorem constant_roundtrip_witness:
  "accessGlobal (\<lambda>_. True) (snd (getPointerToGlobal 7 4 3 example_start)) (2 ^ 10 + 3) = Inr (Some 7, 3)"
proof -
  have f: "constants_below example_start" "constants example_start 7 = None" "constantStart example_start = 2 ^ 10"
      "constantEnd example_start = 2 ^ 20" "currentConstantOffset example_start = 0"
    by (simp_all add: example_start_def new_Impl_def Let_def constants_below_def)
  then have "getPointerToGlobal 7 4 3 example_start = (2 ^ 10 + 3, snd (getPointerToGlobal 7 4 3 example_start))"
    by (simp add: getPointerToGlobal_def getPointerToConstant_def Let_def)
  then show ?thesis using constant_roundtrip[of example_start 7 4 3 "2 ^ 10 + 3" "snd (getPointerToGlobal 7 4 3 example_start)" "\<lambda>_. True"] f by simp
qed

end
