(* ===== verification/Spec2Isabelle.thy ===== *)
theory Spec2Isabelle
  imports TypePool SeparateDomains Simplifiers SmtSound SmtArith Hamt SimulatorCorrect
begin

text \<open>
  \<^bold>\<open>A verification development for borealis, a bounded model checker for C\<close>

  \<^bold>\<open>The program.\<close>  borealis compiles a C program to LLVM and walks over its functions (src/Passes).  Every
  instruction becomes a predicate over terms; the predicates of the executions that reach an instruction are
  collected in a predicate state, and to check a property the state and the property are encoded for an SMT solver,
  which is asked for an execution that violates the property.  States are shortened before (slicing, constant
  folding, simplification), an abstract interpreter over intervals discharges queries early, and a concrete
  executor replays counterexamples on a simulated memory.  What is modelled here is the core between LLVM and the
  solver: types, terms, predicates, states, their transformers, the encoding, the numerical abstract domains,
  the persistent sets of the slicer and the memory of the executor.

  \<^bold>\<open>Conventions.\<close>  A class hierarchy is a datatype with the classes as constructors and virtual methods as the
  equations of one function; a class with fields is a record.  A computation that may fail has an \<open>option\<close> result,
  \<open>None\<close> being a failed \<open>ASSERT\<close>, a \<open>BYE_BYE\<close>, an exception or undefined behaviour; the executor's memory
  tells its exceptions apart and answers a sum with the error on the left.  Machine integers are words of their
  width; LLVM's \<open>APInt\<close> is a parameter with its documented arithmetic as laws.  Doubles are bit patterns.  Interned
  objects (types, strings, intervals) are values, because comparing pointers to them is comparing values: for types
  that is a theorem (TypePool).  Where C++ leaves an evaluation order open, the order is a parameter (\<open>base_first\<close>).

  \<^bold>\<open>Theories and sources.\<close>

  \<^item> Prelude: loops, failure and printing shared by the components.  Conditions: conditions, operators and
    opcodes (src/Util/util.cpp).  Locations: source locations (src/Util/locations.h).

  \<^item> Types, TypeFactory, TypePool (src/Type): types, record bodies, printing, sizes and offsets, merging of types;
    the factory as plain constructors and as caches over a heap of objects.  \<open>pool_pointer_equality\<close> and
    \<open>pool_get_refines\<close> connect the two.  Recursion through record bodies is bounded by the call stack, the number
    \<open>env_stack\<close> of the environment; results are stated for stacks deep enough for the nesting of the types.

  \<^item> Terms, TermFactory, TermEquality (src/Term): the classes of terms, their constructors and factory methods,
    \<open>accept\<close>, \<open>setType\<close>, equality and hashing.  Printing of doubles and hashing of strings are the program's
    standard library, fields of the environments.

  \<^item> Predicates, States (src/Predicate, src/State): predicates; states as lists of predicates, chains and choices,
    with slicing, filtering, splitting, simplification, factory and builder.  The specification is \<open>paths\<close>, the
    list of executions a state stands for; every operation is proved against it.

  \<^item> Transformers, StateTransformers, TermTransformers, Simplifiers (src/State/Transformer): the visitor framework
    with its cache, the collectors, and the transformers that rewrite states and terms, with their effect on paths and
    on the values of terms.

  \<^item> SmtLogic, SmtMemory, SmtContext, SmtEncode, SmtStates (src/SMT): the expression layer at the sizes of Z3, memory
    arrays of cells, the versioned execution context and its merging at a choice, the encodings of all terms,
    predicates and states, and the queries \<open>isViolated\<close>, \<open>isPathImpossible\<close> and \<open>isUnreachableIn\<close>.  An
    expression is the tree that the calls of the solver's interface build; \<open>eval\<close> is its meaning in SMT-LIB, the
    specification.  The solver is a function from the asserted formulas to its three answers, assumed sound where a theorem says
    so.  SmtInvariant, SmtSound, SmtArith hold the invariant of the context, the soundness of the queries
    and the comparison of encoded arithmetic with the machine.

  \<^item> Numbers, Bounds, Intervals, IntervalOps, IntervalSound, DoubleIntervals, SeparateDomains (src/Interpreter/Domain):
    numbers of a width chosen at run time, bounds with infinities, intervals with their lattice, arithmetic and splitting,
    pairs of a signed and an unsigned interval, and environments from variables to such values with
    the filter by a condition.

  \<^item> Hamt (src/Util/hamt.hpp): the hash tries in which the slicer keeps control dependencies.

  \<^item> SegmentTree, SegmentStores, SegmentAllocation, MemorySimulator, SimulatorCorrect (src/Executor): the segment tree
    over simulated addresses, and the memory of the executor on top of it with stack, heap and constants.

  \<^bold>\<open>How the parts meet.\<close>  Terms carry types and are built by a factory over the type registry; predicates hold
  terms, states hold predicates; the builder of states runs the simplifier and the constant propagator; the encoding maps
  terms, predicates and states to expressions in a context that records the memory after every store; the queries
  combine the encoding of a state with that of a property.  Environments of the interpreter are filtered by the
  conditions of Conditions, which are also the conditions of terms.

  \<^bold>\<open>Interfaces.\<close>  \<open>apint_laws\<close>, \<open>number_order\<close> and \<open>number_arith\<close> say what domains need of numbers and are
  interpreted on bit words and on \<open>size_t\<close>; \<open>sequencing\<close> is the contract of putting states after one another, met by
  the chain factory and by the builder; \<open>observer\<close> is the contract of collectors, met by each of them;
  \<open>hash_equality\<close> is what the tries need of their elements, met by predicates.

  \<^bold>\<open>What the lemmas show.\<close>

  \<^item> States: \<open>sliceOn_correct\<close>, \<open>splitByTypes_partition\<close>, \<open>state_ops_paths\<close>, \<open>simplify_keeps_paths\<close>,
    \<open>builder_paths\<close> and \<open>hasVisited_isEmpty_spec\<close> give every operation its meaning on paths; simplification keeps the paths of
    states without empty choices in which no alternative and no complementary choice vanishes.

  \<^item> Transformers: \<open>propagate_term_value\<close>, \<open>folding_is_machine\<close>, \<open>optimize_keeps_paths\<close>, \<open>cropper_cuts\<close>,
    \<open>collectors_exact\<close>, \<open>retyper_spec\<close>: values and paths are kept, collections are exact.  The values of terms,
    \<open>eval_term\<close>, are those of a 64-bit machine and independent of the propagator, and \<open>typing\<close> (TermFactory) gives the
    typing rules that rebuilt terms obey (\<open>term_ops_wf\<close>).

  \<^item> Encoding: \<open>store_load_roundtrip\<close>, \<open>context_store_load\<close>, \<open>merged_memory_selects\<close>, \<open>encoding_keeps_context\<close>,
    \<open>encoded_comparison\<close>, \<open>encoded_arithmetic\<close>, and from them \<open>isViolated_sound\<close> and \<open>isPathImpossible_sound\<close>: an
    answer \<open>unsat\<close> is about every path of the state, for states without memory accesses and empty choices.

  \<^item> Abstract domains: \<open>Interval_lattice\<close>, soundness of splitting, conditions and arithmetic, and
    \<open>addConstraint_sound\<close> for environments of integers, whose conditions must hold of the signed and of the
    unsigned numbers (\<open>addConstraint_intervals\<close> for booleans and floating-point numbers).

  \<^item> Data structures: \<open>hamt_refines_sets\<close> (the tries implement sets), \<open>SeparateDomain_pointwise\<close> (environments are
    partial maps), \<open>equals_hash_consistent\<close>.

  \<^item> Memory of the executor: \<open>MallocMemory_spec\<close>, \<open>store_in_segment\<close>, \<open>store_only_allocated\<close>,
    \<open>int_roundtrip\<close>, \<open>FreeMemory_spec\<close> and \<open>reachable_segments_disjoint\<close>.  The invariant is that the tree is two halves of
    \<open>2 ^ m\<close> chunks, bare above the two bump pointers, without allocated nodes inside of allocated nodes.

  Where the code does not do what it means to, the theories hold the counterexample as a closed theorem, e.g.
  \<open>simplify_loses_paths\<close>, \<open>cropper_loses\<close>, \<open>Interval_apply_loses\<close>, \<open>DI_loses\<close>, \<open>unknown_is_unreachable\<close>, \<open>split_choice_memory\<close>,
  \<open>folding_wrong\<close>, \<open>memset_wrong\<close>, \<open>load_bytes_diverges\<close>.

  \<^bold>\<open>Bounds and options.\<close>  Loops of the code are structural recursions or functions with a termination proof.
  \<open>calc_real_memory_amount\<close> is a \<open>while_option\<close>, shown to return whenever the chunk size is positive
  (\<open>calc_total\<close>); \<open>load_bytes_loop\<close> is a partial function, since it need not return.  Analysis options are at their defaults:
  \<open>craig-colton-bounds\<close>, \<open>memory-defaults-to-unknown\<close>, \<open>use-range-stores\<close> and \<open>freevar-choices\<close> are off.
  An exception of the executor's memory leaves a partly changed tree behind, which is not modelled.

  \<^bold>\<open>Not modelled.\<close>  The LLVM passes, the conversion of LLVM values, types and instructions, the instruction interpreters
  of the executor and of the abstract interpreter and the evaluation of LLVM constants are clients of LLVM.  The
  grammar of annotations is a template of a parser library, serialisation is over generated message classes, the driver, configuration,
  logging and database are input and output.  Of the components modelled partly: the state transformers over LLVM
  values and the slicer itself, which needs the alias analysis; the engines other than Z3, models and
  their sampling; \<open>memmove\<close> and \<open>memchr\<close> of the segment tree and the host memory of global variables; the
  domain storage of the interpreter; operator== and the lazy views of the tries.
\<close>

end
